(* ===== verification/Gregg_Prelude.thy ===== *)
theory Gregg_Prelude
  imports Complex_Main "HOL-Library.Word"
begin

text \<open>
  Shared vocabulary of the development: the Rust types the components use and the
  generic lemmas about them.

  \<^item> \<open>('a, 'e) result\<close> is Rust's \<open>Result<T, E>\<close>.
  \<^item> A Rust \<open>String\<close> is a list of Unicode scalar values (\<open>rstr\<close>); its UTF-8 byte length
    (\<open>str::len\<close>) is \<open>str_len\<close> and its number of \<open>char\<close>s is \<open>length\<close>.
  \<^item> \<open>u64\<close> and \<open>usize\<close> counters are \<open>nat\<close> with the saturation of \<open>saturating_add\<close>
    written out; bit masks and hashes are \<open>64 word\<close>.
  \<^item> \<open>f32\<close> keeps the IEEE classes that the code's tests distinguish: NaN, the two
    infinities and the finite values.
  \<^item> \<open>first_some\<close> is a \<open>for\<close> loop that returns from inside its body.
\<close>

section \<open>Results\<close>

datatype ('a, 'e) result = Ok 'a | Err 'e

primrec result_bind :: "('a, 'e) result \<Rightarrow> ('a \<Rightarrow> ('b, 'e) result) \<Rightarrow> ('b, 'e) result" where
  "result_bind (Ok x) f = f x"
| "result_bind (Err e) f = Err e"

lemma result_bind_Ok_iff [simp]:
  "result_bind r f = Ok y \<longleftrightarrow> (\<exists>x. r = Ok x \<and> f x = Ok y)"
  by (cases r) auto

primrec is_ok :: "('a, 'e) result \<Rightarrow> bool" where
  "is_ok (Ok x) = True"
| "is_ok (Err e) = False"

lemma is_ok_iff: "is_ok r \<longleftrightarrow> (\<exists>x. r = Ok x)"
  by (cases r) auto

text \<open>A loop that runs a fallible body on each element and stops at the first error.\<close>

primrec traverse_result :: "('a \<Rightarrow> ('b, 'e) result) \<Rightarrow> 'a list \<Rightarrow> ('b list, 'e) result" where
  "traverse_result f [] = Ok []"
| "traverse_result f (x # xs) =
     result_bind (f x) (\<lambda>y. result_bind (traverse_result f xs) (\<lambda>ys. Ok (y # ys)))"

lemma traverse_result_Ok_iff:
  "traverse_result f xs = Ok ys \<longleftrightarrow> list_all2 (\<lambda>x y. f x = Ok y) xs ys"
  by (induction xs arbitrary: ys) (auto simp: list_all2_Cons1)

lemma traverse_result_length: "traverse_result f xs = Ok ys \<Longrightarrow> length ys = length xs"
  by (auto simp: traverse_result_Ok_iff dest: list_all2_lengthD)

lemma traverse_result_nth:
  "traverse_result f xs = Ok ys \<Longrightarrow> i < length xs \<Longrightarrow> f (xs ! i) = Ok (ys ! i)"
  by (auto simp: traverse_result_Ok_iff list_all2_conv_all_nth)

lemma traverse_result_Err: "traverse_result f xs = Err e \<Longrightarrow> \<exists>x \<in> set xs. f x = Err e"
proof (induction xs)
  case (Cons x xs)
  then show ?case by (cases "f x"; cases "traverse_result f xs") auto
qed simp

section \<open>Loops with an early return\<close>

primrec first_some :: "('a \<Rightarrow> 'b option) \<Rightarrow> 'a list \<Rightarrow> 'b option" where
  "first_some f [] = None"
| "first_some f (x # xs) = (case f x of Some y \<Rightarrow> Some y | None \<Rightarrow> first_some f xs)"

lemma first_some_None_iff [simp]: "first_some f xs = None \<longleftrightarrow> (\<forall>x \<in> set xs. f x = None)"
  by (induction xs) (auto split: option.splits)

lemma first_some_split:
  assumes "first_some f xs = Some y"
  shows "\<exists>us x vs. xs = us @ x # vs \<and> f x = Some y \<and> (\<forall>u \<in> set us. f u = None)"
  using assms
proof (induction xs)
  case (Cons a xs)
  show ?case
  proof (cases "f a")
    case None
    with Cons obtain us x vs where "xs = us @ x # vs" "f x = Some y" "\<forall>u \<in> set us. f u = None"
      by auto
    with None have "a # xs = (a # us) @ x # vs \<and> f x = Some y \<and> (\<forall>u \<in> set (a # us). f u = None)"
      by simp
    then show ?thesis by blast
  next
    case (Some b)
    with Cons.prems have "a # xs = [] @ a # xs \<and> f a = Some y \<and> (\<forall>u \<in> set []. f u = None)"
      by simp
    then show ?thesis by blast
  qed
qed simp

lemma first_some_upt:
  assumes "first_some f [i..<j] = Some y"
  shows "\<exists>k. i \<le> k \<and> k < j \<and> f k = Some y \<and> (\<forall>l. i \<le> l \<and> l < k \<longrightarrow> f l = None)"
  using assms
proof (induction "j - i" arbitrary: i)
  case (Suc n)
  then have ij: "[i..<j] = i # [Suc i..<j]" by (simp add: upt_conv_Cons)
  show ?case
  proof (cases "f i")
    case None
    with Suc.prems ij have "first_some f [Suc i..<j] = Some y" by simp
    moreover from Suc.hyps(2) have "n = j - Suc i" by simp
    ultimately obtain k where "Suc i \<le> k" "k < j" "f k = Some y"
      "\<forall>l. Suc i \<le> l \<and> l < k \<longrightarrow> f l = None"
      using Suc.hyps(1) [of "Suc i"] by auto
    moreover from None this(4) have "\<forall>l. i \<le> l \<and> l < k \<longrightarrow> f l = None"
      by (metis Suc_leI le_neq_implies_less)
    ultimately show ?thesis by (intro exI [of _ k]) auto
  next
    case (Some z)
    with Suc ij show ?thesis by (intro exI [of _ i]) auto
  qed
qed simp

lemma first_some_SomeD: "first_some f xs = Some y \<Longrightarrow> \<exists>x \<in> set xs. f x = Some y"
  by (blast dest: first_some_split intro: in_set_conv_decomp [THEN iffD2])

lemmas upt_eval = upt_rec [of 0 "numeral n" for n] upt_rec [of "Suc i" "numeral n" for i n]

section \<open>Unsigned integers\<close>

definition u64_max :: nat where
  "u64_max = 2 ^ 64 - 1"

definition sat_add64 :: "nat \<Rightarrow> nat \<Rightarrow> nat" where
  "sat_add64 a b = min (a + b) u64_max"

lemma sat_add64_le [simp]: "sat_add64 a b \<le> u64_max"
  by (simp add: sat_add64_def)

lemma sat_add64_exact: "a + b \<le> u64_max \<Longrightarrow> sat_add64 a b = a + b"
  by (simp add: sat_add64_def)

lemma sat_add64_ge: "a \<le> u64_max \<Longrightarrow> a \<le> sat_add64 a b"
  by (simp add: sat_add64_def)

section \<open>Floating-point values\<close>

datatype f32 = F32_NaN | F32_PosInf | F32_NegInf | F32_Fin rat

primrec f32_is_finite :: "f32 \<Rightarrow> bool" where
  "f32_is_finite F32_NaN = False"
| "f32_is_finite F32_PosInf = False"
| "f32_is_finite F32_NegInf = False"
| "f32_is_finite (F32_Fin r) = True"

fun f32_le :: "f32 \<Rightarrow> f32 \<Rightarrow> bool" where
  "f32_le F32_NaN y = False"
| "f32_le x F32_NaN = False"
| "f32_le F32_NegInf y = True"
| "f32_le x F32_PosInf = True"
| "f32_le (F32_Fin a) (F32_Fin b) = (a \<le> b)"
| "f32_le x y = False"

fun f32_lt :: "f32 \<Rightarrow> f32 \<Rightarrow> bool" where
  "f32_lt F32_NaN y = False"
| "f32_lt x F32_NaN = False"
| "f32_lt x y = (\<not> f32_le y x)"

text \<open>\<open>PartialEq\<close> on floats: a NaN differs from every value, itself included.\<close>

definition f32_eq :: "f32 \<Rightarrow> f32 \<Rightarrow> bool" where
  "f32_eq x y \<longleftrightarrow> x \<noteq> F32_NaN \<and> x = y"

lemma f32_is_finite_iff: "f32_is_finite x \<longleftrightarrow> (\<exists>r. x = F32_Fin r)"
  by (cases x) auto

lemma f32_eq_refl_finite: "f32_is_finite x \<Longrightarrow> f32_eq x x"
  by (cases x) (auto simp: f32_eq_def)

lemma f32_eqD: "f32_eq x y \<Longrightarrow> x = y"
  by (simp add: f32_eq_def)

section \<open>Strings\<close>

type_synonym uchar = nat

type_synonym rstr = "uchar list"

abbreviation uc :: "char \<Rightarrow> uchar" where
  "uc c \<equiv> of_char c"

definition ustr :: "string \<Rightarrow> rstr" where
  "ustr s = map of_char s"

text \<open>\<open>char::len_utf8\<close> and \<open>str::len\<close>.\<close>

definition len_utf8 :: "uchar \<Rightarrow> nat" where
  "len_utf8 c = (if c < 0x80 then 1 else if c < 0x800 then 2 else if c < 0x10000 then 3 else 4)"

definition str_len :: "rstr \<Rightarrow> nat" where
  "str_len s = sum_list (map len_utf8 s)"

lemma len_utf8_bounds: "1 \<le> len_utf8 c" "len_utf8 c \<le> 4"
  by (simp_all add: len_utf8_def)

lemma str_len_simps [simp]:
  "str_len [] = 0"
  "str_len (c # s) = len_utf8 c + str_len s"
  "str_len (s @ t) = str_len s + str_len t"
  by (simp_all add: str_len_def)

lemma str_len_ge_length: "length s \<le> str_len s"
  by (induction s) (auto simp: len_utf8_def)

lemma str_len_le_length: "str_len s \<le> 4 * length s"
  by (induction s) (auto simp: len_utf8_def)

lemma str_len_ascii: "\<forall>c \<in> set s. c < 0x80 \<Longrightarrow> str_len s = length s"
  by (induction s) (auto simp: len_utf8_def)

text \<open>\<open>char::is_whitespace\<close> (the Unicode \<open>White_Space\<close> property) and \<open>char::is_control\<close>
  (the general category \<open>Cc\<close>).\<close>

definition is_white :: "uchar \<Rightarrow> bool" where
  "is_white c \<longleftrightarrow> (0x9 \<le> c \<and> c \<le> 0xD) \<or> c = 0x20 \<or> c = 0x85 \<or> c = 0xA0 \<or> c = 0x1680 \<or>
     (0x2000 \<le> c \<and> c \<le> 0x200A) \<or> c = 0x2028 \<or> c = 0x2029 \<or> c = 0x202F \<or> c = 0x205F \<or>
     c = 0x3000"

definition is_control :: "uchar \<Rightarrow> bool" where
  "is_control c \<longleftrightarrow> c < 0x20 \<or> (0x7F \<le> c \<and> c < 0xA0)"

definition str_trim :: "rstr \<Rightarrow> rstr" where
  "str_trim s = rev (dropWhile is_white (rev (dropWhile is_white s)))"

lemma str_trim_id:
  assumes "s \<noteq> []" "\<not> is_white (hd s)" "\<not> is_white (last s)"
  shows "str_trim s = s"
proof -
  have l: "dropWhile is_white s = s" using assms(1,2) by (cases s) auto
  have r: "dropWhile is_white (rev s) = rev s" using assms(1,3) by (cases s rule: rev_cases) auto
  show ?thesis by (simp add: str_trim_def l r)
qed

lemma set_str_trim: "set (str_trim s) \<subseteq> set s"
  by (auto simp: str_trim_def dest!: set_dropWhileD)

text \<open>\<open>str::split\<close> on a class of separators; empty pieces are kept.\<close>

primrec str_split_by :: "(uchar \<Rightarrow> bool) \<Rightarrow> rstr \<Rightarrow> rstr list" where
  "str_split_by P [] = [[]]"
| "str_split_by P (x # xs) =
     (if P x then [] # str_split_by P xs
      else (case str_split_by P xs of [] \<Rightarrow> [[x]] | y # ys \<Rightarrow> (x # y) # ys))"

definition str_split :: "uchar \<Rightarrow> rstr \<Rightarrow> rstr list" where
  "str_split c s = str_split_by (\<lambda>x. x = c) s"

definition split_whitespace :: "rstr \<Rightarrow> rstr list" where
  "split_whitespace s = filter (\<lambda>w. w \<noteq> []) (str_split_by is_white s)"

primrec split_once :: "uchar \<Rightarrow> rstr \<Rightarrow> (rstr \<times> rstr) option" where
  "split_once c [] = None"
| "split_once c (x # xs) =
     (if x = c then Some ([], xs)
      else (case split_once c xs of None \<Rightarrow> None | Some (a, b) \<Rightarrow> Some (x # a, b)))"

lemma str_split_by_nonempty [simp]: "str_split_by P s \<noteq> []"
  by (induction s) (auto split: list.splits)

lemma str_split_by_no_sep: "\<forall>x \<in> set s. \<not> P x \<Longrightarrow> str_split_by P s = [s]"
  by (induction s) auto

lemma str_split_by_append_sep:
  "\<forall>x \<in> set a. \<not> P x \<Longrightarrow> P c \<Longrightarrow> str_split_by P (a @ c # b) = a # str_split_by P b"
  by (induction a) (auto split: list.splits)

lemma str_split_no_sep: "c \<notin> set s \<Longrightarrow> str_split c s = [s]"
  by (auto simp: str_split_def intro: str_split_by_no_sep)

lemma str_split_append_sep: "c \<notin> set a \<Longrightarrow> str_split c (a @ c # b) = a # str_split c b"
  unfolding str_split_def by (rule str_split_by_append_sep) auto

lemma split_once_no_sep: "c \<notin> set s \<Longrightarrow> split_once c s = None"
  by (induction s) auto

lemma split_once_append_sep: "c \<notin> set a \<Longrightarrow> split_once c (a @ c # b) = Some (a, b)"
  by (induction a) auto

text \<open>Joining with a separator is undone by splitting, as long as no piece has the separator.\<close>

fun str_join :: "uchar \<Rightarrow> rstr list \<Rightarrow> rstr" where
  "str_join c [] = []"
| "str_join c [s] = s"
| "str_join c (s # t # ts) = s @ c # str_join c (t # ts)"

lemma str_split_join:
  "ss \<noteq> [] \<Longrightarrow> \<forall>s \<in> set ss. c \<notin> set s \<Longrightarrow> str_split c (str_join c ss) = ss"
  by (induction c ss rule: str_join.induct) (auto simp: str_split_no_sep str_split_append_sep)

lemma set_str_join: "set (str_join c ss) \<subseteq> insert c (\<Union> (set ` set ss))"
  by (induction c ss rule: str_join.induct) auto

section \<open>Decimal numbers\<close>

fun dec_nat :: "nat \<Rightarrow> rstr" where
  "dec_nat n = (if n < 10 then [48 + n] else dec_nat (n div 10) @ [48 + n mod 10])"

declare dec_nat.simps [simp del]

definition is_digit :: "uchar \<Rightarrow> bool" where
  "is_digit c \<longleftrightarrow> 48 \<le> c \<and> c \<le> 57"

definition digits_val :: "rstr \<Rightarrow> nat" where
  "digits_val ds = foldl (\<lambda>a d. 10 * a + (d - 48)) 0 ds"

text \<open>
  \<open>str::parse::<usize>\<close> on a 64-bit target: an optional \<open>+\<close>, at least one digit, digits only,
  and a value that fits.
\<close>

definition parse_usize :: "rstr \<Rightarrow> nat option" where
  "parse_usize s =
     (let ds = (if s \<noteq> [] \<and> hd s = uc CHR ''+'' then tl s else s) in
      if ds = [] \<or> \<not> list_all is_digit ds \<or> u64_max < digits_val ds then None
      else Some (digits_val ds))"

lemma dec_nat_nonempty [simp]: "dec_nat n \<noteq> []"
  by (subst dec_nat.simps) simp

lemma dec_nat_digits: "d \<in> set (dec_nat n) \<Longrightarrow> is_digit d"
proof (induction n rule: dec_nat.induct)
  case (1 n)
  then show ?case
    by (cases "n < 10") (auto simp: dec_nat.simps [of n] is_digit_def)
qed

lemma digits_val_append [simp]: "digits_val (ds @ [d]) = 10 * digits_val ds + (d - 48)"
  by (simp add: digits_val_def)

lemma digits_val_dec_nat [simp]: "digits_val (dec_nat n) = n"
proof (induction n rule: dec_nat.induct)
  case (1 n)
  then show ?case
    by (cases "n < 10") (simp_all add: dec_nat.simps [of n] digits_val_def [of "[48 + n]"])
qed

lemma dec_nat_no_sep: "\<not> is_digit c \<Longrightarrow> c \<notin> set (dec_nat n)"
  by (blast dest: dec_nat_digits)

lemma parse_usize_dec_nat: "n \<le> u64_max \<Longrightarrow> parse_usize (dec_nat n) = Some n"
proof -
  assume n: "n \<le> u64_max"
  have "hd (dec_nat n) \<in> set (dec_nat n)" by (rule hd_in_set) simp
  then have "is_digit (hd (dec_nat n))" by (rule dec_nat_digits)
  then have "hd (dec_nat n) \<noteq> uc CHR ''+''" by (auto simp: is_digit_def)
  moreover have "list_all is_digit (dec_nat n)"
    by (auto simp: list_all_iff dest: dec_nat_digits)
  ultimately show ?thesis
    using n by (simp add: parse_usize_def Let_def)
qed

lemma parse_usize_le: "parse_usize s = Some n \<Longrightarrow> n \<le> u64_max"
  by (auto simp: parse_usize_def Let_def split: if_splits)

section \<open>Lists\<close>

text \<open>The last \<open>k\<close> elements, which is what a bounded tail or ring retains.\<close>

definition take_last :: "nat \<Rightarrow> 'a list \<Rightarrow> 'a list" where
  "take_last k xs = drop (length xs - k) xs"

lemma length_take_last [simp]: "length (take_last k xs) = min k (length xs)"
  by (simp add: take_last_def)

lemma take_last_all: "length xs \<le> k \<Longrightarrow> take_last k xs = xs"
  by (simp add: take_last_def)

lemma take_last_append:
  "take_last k (xs @ ys) = take_last (k - length ys) xs @ take_last k ys"
proof (cases "k \<le> length ys")
  case True
  then show ?thesis by (simp add: take_last_def)
next
  case False
  then have "length xs + length ys - k = length xs - (k - length ys)" by arith
  with False show ?thesis by (simp add: take_last_def)
qed

lemma take_last_take_last: "take_last k (take_last n xs) = take_last (min k n) xs"
proof (cases "n \<le> length xs")
  case True
  then have "length (take_last n xs) = n" by simp
  moreover from True have "n - k + (length xs - n) = length xs - min k n" by (simp add: min_def)
  ultimately show ?thesis by (simp add: take_last_def)
next
  case False
  then have "length xs - min k n = length xs - k" by (simp add: min_def)
  with False show ?thesis by (simp add: take_last_def)
qed

lemma set_take_last: "set (take_last k xs) \<subseteq> set xs"
  by (auto simp: take_last_def dest: in_set_dropD)

lemma sorted_wrt_take_last: "sorted_wrt P xs \<Longrightarrow> sorted_wrt P (take_last k xs)"
  by (simp add: take_last_def sorted_wrt_drop)

lemma distinct_take_last: "distinct xs \<Longrightarrow> distinct (take_last k xs)"
  by (simp add: take_last_def)

lemma map_take_last: "map f (take_last k xs) = take_last k (map f xs)"
  by (simp add: take_last_def drop_map)

lemma sum_list_zero_iff_Nil: "\<forall>x \<in> set xs. (f x :: nat) > 0 \<Longrightarrow> sum_list (map f xs) = 0 \<longleftrightarrow> xs = []"
  by (cases xs) auto

lemma take_last_snoc: "take_last (Suc k) (xs @ [x]) = take_last k xs @ [x]"
  by (simp add: take_last_append take_last_all)

lemma take_last_0 [simp]: "take_last 0 xs = []"
  by (simp add: take_last_def)

lemma take_last_Nil [simp]: "take_last k [] = []"
  by (simp add: take_last_def)

lemma take_last_append_same: "take_last k (take_last k xs @ ys) = take_last k (xs @ ys)"
  by (simp add: take_last_append take_last_take_last)

lemma length_filter_update_remove:
  "i < length xs \<Longrightarrow> P (xs ! i) \<Longrightarrow> \<not> P y \<Longrightarrow>
   Suc (length (filter P (xs[i := y]))) = length (filter P xs)"
  by (induction xs arbitrary: i) (auto split: nat.splits)

lemma length_filter_update_same:
  "i < length xs \<Longrightarrow> P (xs ! i) \<longleftrightarrow> P y \<Longrightarrow> length (filter P (xs[i := y])) = length (filter P xs)"
  by (induction xs arbitrary: i) (auto split: nat.splits)

lemma length_filter_nth_cong:
  "length xs = length ys \<Longrightarrow> (\<And>i. i < length xs \<Longrightarrow> P (xs ! i) \<longleftrightarrow> Q (ys ! i)) \<Longrightarrow>
   length (filter P xs) = length (filter Q ys)"
  by (auto simp: length_filter_conv_card intro!: arg_cong [where f = card])

text \<open>Dropping from the front while there are more than \<open>limit\<close> elements.\<close>

fun pop_front_while :: "nat \<Rightarrow> 'a list \<Rightarrow> 'a list" where
  "pop_front_while limit [] = []"
| "pop_front_while limit (x # xs) =
     (if length (x # xs) > limit then pop_front_while limit xs else x # xs)"

lemma pop_front_while_eq: "pop_front_while limit xs = take_last limit xs"
  by (induction limit xs rule: pop_front_while.induct)
    (auto simp: take_last_def Suc_diff_le)

section \<open>Bounded rings\<close>

text \<open>
  The contract shared by the buffers that retain the newest elements only: a push appends the
  items it is given and keeps the last \<open>cap\<close> elements. The output tails, the per-job terminal
  histories and the client's per-job record queues are instances.
\<close>

locale bounded_ring =
  fixes inv :: "'s \<Rightarrow> bool"
    and contents :: "'s \<Rightarrow> 'a list"
    and push :: "'c \<Rightarrow> 's \<Rightarrow> 's"
    and items :: "'c \<Rightarrow> 'a list"
    and cap :: nat
  assumes inv_push: "inv s \<Longrightarrow> inv (push c s)"
    and contents_push: "inv s \<Longrightarrow> contents (push c s) = take_last cap (contents s @ items c)"
    and contents_bounded: "inv s \<Longrightarrow> length (contents s) \<le> cap"
begin

lemma inv_fold: "inv s \<Longrightarrow> inv (fold push cs s)"
  by (induction cs arbitrary: s) (simp_all add: inv_push)

lemma contents_fold:
  "inv s \<Longrightarrow> contents (fold push cs s) = take_last cap (contents s @ concat (map items cs))"
proof (induction cs arbitrary: s)
  case Nil
  then show ?case by (simp add: take_last_all contents_bounded)
next
  case (Cons c cs)
  then show ?case
    using take_last_append_same [of cap "contents s @ items c" "concat (map items cs)"]
    by (simp add: inv_push contents_push)
qed

lemma fold_bounded: "inv s \<Longrightarrow> length (contents (fold push cs s)) \<le> cap"
  by (simp add: contents_bounded inv_fold)

lemma fold_complete:
  "inv s \<Longrightarrow> length (contents s) + length (concat (map items cs)) \<le> cap \<Longrightarrow>
   contents (fold push cs s) = contents s @ concat (map items cs)"
  by (simp only: contents_fold) (rule take_last_all, simp)

end

end
