(* ===== verification/Wire_Scheduler.thy ===== *)
theory Wire_Scheduler
  imports Gregg_Prelude
begin

text \<open>
  The scheduler wire documents of \<open>crates/gregg-protocol/src/scheduler.rs\<close>: the frozen resource
  constants, one record or datatype per wire type (the fields keep the source's names behind a
  short prefix), the capped list deserializer, and the functions that turn captured output
  into bounded text.

  The JSON encoding itself is the third-party crate \<open>serde_json\<close>; the components that serialize
  take it as a parameter. \<open>String::from_utf8_lossy\<close> is the standard library and is modelled on
  byte lists.

  The lemmas show that the published text respects its JSON-escaped budget, that it is the
  longest such prefix, and that valid UTF-8 output survives the lossy decoding unchanged.
\<close>

section \<open>Resource constants\<close>

definition MAX_SCHEDULER_JOBS :: nat where "MAX_SCHEDULER_JOBS = 64"

definition DEFAULT_SCHEDULER_HISTORY_LIMIT :: nat where "DEFAULT_SCHEDULER_HISTORY_LIMIT = 5"

definition MAX_SCHEDULER_HISTORY_LIMIT :: nat where "MAX_SCHEDULER_HISTORY_LIMIT = 10"

definition MAX_SCHEDULER_OUTPUT_BYTES :: nat where "MAX_SCHEDULER_OUTPUT_BYTES = 1024"

definition MAX_SCHEDULER_OUTPUT_TEXT_BYTES :: nat where "MAX_SCHEDULER_OUTPUT_TEXT_BYTES = 512"

definition MAX_SCHEDULER_JOB_NAME_BYTES :: nat where "MAX_SCHEDULER_JOB_NAME_BYTES = 128"

definition MAX_SCHEDULER_SCHEDULE_BYTES :: nat where "MAX_SCHEDULER_SCHEDULE_BYTES = 128"

definition MAX_SCHEDULER_HISTORY_BODY_BYTES :: nat where
  "MAX_SCHEDULER_HISTORY_BODY_BYTES = 1024 * 1024"

definition MAX_SCHEDULER_SUMMARY_BODY_BYTES :: nat where
  "MAX_SCHEDULER_SUMMARY_BODY_BYTES = 64 * 1024"

definition MAX_DESERIALIZE_RECORDS :: nat where
  "MAX_DESERIALIZE_RECORDS = MAX_SCHEDULER_HISTORY_LIMIT * 2"

section \<open>Wire types\<close>

record SchedulerEpochV2 =
  ep_started_at_unix_ms :: nat
  ep_nonce :: "64 word"

datatype SchedulerJobStateV2 = Idle | WaitingForSlot | LoadHigh | LoadUnavailable | Running

datatype SchedulerOutcomeV2 = Success | Failed | SpawnFailed | WaitFailed | LoadExpired | Cancelled

record SchedulerLoadGateV2 =
  lg_window :: rstr
  lg_threshold :: f32
  lg_observed :: "f32 option"

record SchedulerRunSummaryV2 =
  rs_sequence :: nat
  rs_scheduled_unix_ms :: nat
  rs_finished_unix_ms :: nat
  rs_outcome :: SchedulerOutcomeV2
  rs_exit_code :: "int option"
  rs_signal :: "nat option"
  rs_duration_ms :: "nat option"
  rs_delay_ms :: nat
  rs_coalesced :: bool

record SchedulerOutputV2 =
  so_text :: rstr
  so_truncated :: bool

record SchedulerJobV2 =
  jv_name :: rstr
  jv_schedule :: rstr
  jv_next_due_unix_ms :: nat
  jv_state :: SchedulerJobStateV2
  jv_load :: "SchedulerLoadGateV2 option"
  jv_pending_since_unix_ms :: "nat option"
  jv_next_retry_unix_ms :: "nat option"
  jv_running_since_unix_ms :: "nat option"
  jv_last :: "SchedulerRunSummaryV2 option"

record SchedulerSummaryV2 =
  sm_schema_version :: nat
  sm_generated_at_unix_ms :: nat
  sm_epoch :: SchedulerEpochV2
  sm_history_revision :: nat
  sm_jobs :: "SchedulerJobV2 list"

record SchedulerRunRecordV2 =
  rr_sequence :: nat
  rr_scheduled_unix_ms :: nat
  rr_started_unix_ms :: "nat option"
  rr_finished_unix_ms :: nat
  rr_outcome :: SchedulerOutcomeV2
  rr_exit_code :: "int option"
  rr_signal :: "nat option"
  rr_duration_ms :: "nat option"
  rr_delay_ms :: nat
  rr_coalesced :: bool
  rr_stdout :: SchedulerOutputV2
  rr_stderr :: SchedulerOutputV2

record SchedulerJobHistoryV2 =
  jh_name :: rstr
  jh_records :: "SchedulerRunRecordV2 list"

record SchedulerHistoryV2 =
  hi_schema_version :: nat
  hi_generated_at_unix_ms :: nat
  hi_epoch :: SchedulerEpochV2
  hi_history_revision :: nat
  hi_jobs :: "SchedulerJobHistoryV2 list"

text \<open>The derived \<open>PartialEq\<close> of the types that hold floats.\<close>

fun opt_f32_eq :: "f32 option \<Rightarrow> f32 option \<Rightarrow> bool" where
  "opt_f32_eq None None = True"
| "opt_f32_eq (Some x) (Some y) = f32_eq x y"
| "opt_f32_eq _ _ = False"

definition load_gate_eq :: "SchedulerLoadGateV2 \<Rightarrow> SchedulerLoadGateV2 \<Rightarrow> bool" where
  "load_gate_eq a b \<longleftrightarrow> lg_window a = lg_window b \<and> f32_eq (lg_threshold a) (lg_threshold b) \<and>
     opt_f32_eq (lg_observed a) (lg_observed b)"

fun opt_load_gate_eq :: "SchedulerLoadGateV2 option \<Rightarrow> SchedulerLoadGateV2 option \<Rightarrow> bool" where
  "opt_load_gate_eq None None = True"
| "opt_load_gate_eq (Some x) (Some y) = load_gate_eq x y"
| "opt_load_gate_eq _ _ = False"

definition job_eq :: "SchedulerJobV2 \<Rightarrow> SchedulerJobV2 \<Rightarrow> bool" where
  "job_eq a b \<longleftrightarrow> jv_name a = jv_name b \<and> jv_schedule a = jv_schedule b \<and>
     jv_next_due_unix_ms a = jv_next_due_unix_ms b \<and> jv_state a = jv_state b \<and>
     opt_load_gate_eq (jv_load a) (jv_load b) \<and>
     jv_pending_since_unix_ms a = jv_pending_since_unix_ms b \<and>
     jv_next_retry_unix_ms a = jv_next_retry_unix_ms b \<and>
     jv_running_since_unix_ms a = jv_running_since_unix_ms b \<and> jv_last a = jv_last b"

definition jobs_eq :: "SchedulerJobV2 list \<Rightarrow> SchedulerJobV2 list \<Rightarrow> bool" where
  "jobs_eq xs ys \<longleftrightarrow> list_all2 job_eq xs ys"

lemma opt_f32_eqD: "opt_f32_eq x y \<Longrightarrow> x = y"
  by (cases "(x, y)" rule: opt_f32_eq.cases) (auto dest: f32_eqD)

lemma opt_load_gate_eqD: "opt_load_gate_eq x y \<Longrightarrow> x = y"
  by (cases "(x, y)" rule: opt_load_gate_eq.cases)
    (auto simp: load_gate_eq_def dest: f32_eqD opt_f32_eqD intro!: SchedulerLoadGateV2.equality)

lemma job_eqD: "job_eq a b \<Longrightarrow> a = b"
  by (auto simp: job_eq_def dest: opt_load_gate_eqD intro!: SchedulerJobV2.equality)

lemma jobs_eqD: "jobs_eq xs ys \<Longrightarrow> xs = ys"
  by (auto simp: jobs_eq_def list_all2_conv_all_nth intro!: nth_equalityI dest: job_eqD)

definition gate_finite :: "SchedulerLoadGateV2 \<Rightarrow> bool" where
  "gate_finite g \<longleftrightarrow> f32_is_finite (lg_threshold g) \<and>
     (case lg_observed g of None \<Rightarrow> True | Some v \<Rightarrow> f32_is_finite v)"

lemma opt_load_gate_eq_refl: "(\<forall>g. x = Some g \<longrightarrow> gate_finite g) \<Longrightarrow> opt_load_gate_eq x x"
  by (cases x)
    (auto simp: load_gate_eq_def gate_finite_def f32_eq_refl_finite split: option.splits)

section \<open>The capped list deserializer\<close>

text \<open>
  \<open>CappedVecVisitor::visit_seq\<close>: the sequence access yields elements or an error of its own; the
  list is refused as soon as an element arrives when \<open>cap\<close> elements are held.
\<close>

datatype 'e visit_error = ElementError 'e | CapExceeded nat

fun capped_visit_seq :: "nat \<Rightarrow> 'a list \<Rightarrow> ('a, 'e) result list \<Rightarrow> ('a list, 'e visit_error) result" where
  "capped_visit_seq cap items [] = Ok items"
| "capped_visit_seq cap items (Err e # sq) = Err (ElementError e)"
| "capped_visit_seq cap items (Ok item # sq) =
     (if length items = cap then Err (CapExceeded cap)
      else capped_visit_seq cap (items @ [item]) sq)"

definition deserialize_capped_jobs :: "(SchedulerJobV2, 'e) result list \<Rightarrow> (SchedulerJobV2 list, 'e visit_error) result" where
  "deserialize_capped_jobs sq = capped_visit_seq (MAX_SCHEDULER_JOBS * 2) [] sq"

definition deserialize_capped_job_histories ::
  "(SchedulerJobHistoryV2, 'e) result list \<Rightarrow> (SchedulerJobHistoryV2 list, 'e visit_error) result" where
  "deserialize_capped_job_histories sq = capped_visit_seq (MAX_SCHEDULER_JOBS * 2) [] sq"

definition deserialize_capped_records ::
  "(SchedulerRunRecordV2, 'e) result list \<Rightarrow> (SchedulerRunRecordV2 list, 'e visit_error) result" where
  "deserialize_capped_records sq = capped_visit_seq MAX_DESERIALIZE_RECORDS [] sq"

lemma capped_visit_seq_length:
  "length items \<le> cap \<Longrightarrow> capped_visit_seq cap items sq = Ok xs \<Longrightarrow> length xs \<le> cap"
  by (induction cap items sq rule: capped_visit_seq.induct) (auto split: if_splits)

lemma capped_visit_seq_all:
  "length items + length ys \<le> cap \<Longrightarrow> capped_visit_seq cap items (map Ok ys) = Ok (items @ ys)"
  by (induction ys arbitrary: items) auto

section \<open>JSON-escaped text\<close>

definition json_escaped_len :: "uchar \<Rightarrow> nat" where
  "json_escaped_len c =
     (if c = uc CHR 0x22 \<or> c = uc CHR 0x5C \<or> c = 0x8 \<or> c = 0xC \<or> c = 0xA \<or> c = 0xD \<or> c = 0x9 then 2
      else if c < 0x20 then 6
      else len_utf8 c)"

definition text_escaped_len :: "rstr \<Rightarrow> nat" where
  "text_escaped_len s = sum_list (map json_escaped_len s)"

text \<open>
  The loop of \<open>truncate_to_escaped_budget\<close>: \<open>kept\<close> is the prefix \<open>text[..end]\<close>, so \<open>end == 0\<close> is
  \<open>kept = []\<close>.
\<close>

fun truncate_loop :: "nat \<Rightarrow> nat \<Rightarrow> rstr \<Rightarrow> rstr \<Rightarrow> rstr \<times> bool" where
  "truncate_loop budget used kept [] = (kept, False)"
| "truncate_loop budget used kept (c # cs) =
     (let cost = json_escaped_len c in
      if used + cost > budget then (if kept = [] then [c] else kept, True)
      else truncate_loop budget (used + cost) (kept @ [c]) cs)"

definition truncate_to_escaped_budget :: "rstr \<Rightarrow> nat \<Rightarrow> rstr \<times> bool" where
  "truncate_to_escaped_budget tx budget = truncate_loop budget 0 [] tx"

lemma json_escaped_len_bounds: "1 \<le> json_escaped_len c" "json_escaped_len c \<le> 6"
  using len_utf8_bounds [of c] by (auto simp: json_escaped_len_def)

lemma text_escaped_len_simps [simp]:
  "text_escaped_len [] = 0"
  "text_escaped_len (c # s) = json_escaped_len c + text_escaped_len s"
  "text_escaped_len (s @ t) = text_escaped_len s + text_escaped_len t"
  by (simp_all add: text_escaped_len_def)

text \<open>The contract of the truncation: the longest prefix within the budget.\<close>

definition longest_within :: "nat \<Rightarrow> rstr \<Rightarrow> rstr \<Rightarrow> bool \<Rightarrow> bool" where
  "longest_within budget tx out tr \<longleftrightarrow>
     (\<exists>rest. tx = out @ rest \<and> text_escaped_len out \<le> budget \<and> (tr \<longleftrightarrow> rest \<noteq> []) \<and>
       (\<forall>c cs. rest = c # cs \<longrightarrow> budget < text_escaped_len (out @ [c])))"

lemma truncate_loop_spec:
  assumes "truncate_loop budget used kept tx = (out, tr)" "used = text_escaped_len kept"
    and "used \<le> budget" "6 \<le> budget"
  shows "longest_within budget (kept @ tx) out tr"
  using assms
proof (induction budget used kept tx rule: truncate_loop.induct)
  case (1 budget used kept)
  then show ?case by (auto simp: longest_within_def)
next
  case (2 budget used kept c cs)
  show ?case
  proof (cases "used + json_escaped_len c > budget")
    case True
    with "2.prems" json_escaped_len_bounds(2) [of c] have "kept \<noteq> []" by auto
    with True "2.prems" show ?thesis by (auto simp: longest_within_def)
  next
    case False
    with "2.prems" have "truncate_loop budget (used + json_escaped_len c) (kept @ [c]) cs = (out, tr)"
      by simp
    from "2.IH" [OF refl False this] False "2.prems" show ?thesis by simp
  qed
qed

lemma truncate_spec_aux:
  "6 \<le> budget \<Longrightarrow> truncate_to_escaped_budget tx budget = (out, tr) \<Longrightarrow>
     longest_within budget tx out tr"
  using truncate_loop_spec [of budget 0 "[]" tx out tr] by (simp add: truncate_to_escaped_budget_def)

lemma truncate_loop_fits:
  "used + text_escaped_len tx \<le> budget \<Longrightarrow> truncate_loop budget used kept tx = (kept @ tx, False)"
  by (induction budget used kept tx rule: truncate_loop.induct) auto

lemma truncate_fits: "text_escaped_len tx \<le> budget \<Longrightarrow> truncate_to_escaped_budget tx budget = (tx, False)"
  by (simp add: truncate_to_escaped_budget_def truncate_loop_fits)

section \<open>Lossy UTF-8\<close>

type_synonym byte = "8 word"

definition REPLACEMENT :: uchar where "REPLACEMENT = 0xFFFD"

definition utf8_cont :: "nat \<Rightarrow> bool" where
  "utf8_cont b \<longleftrightarrow> 0x80 \<le> b \<and> b \<le> 0xBF"

text \<open>The second byte a three- or four-byte lead allows.\<close>

definition utf8_second :: "nat \<Rightarrow> nat \<Rightarrow> bool" where
  "utf8_second lead b \<longleftrightarrow>
     (if lead = 0xE0 then 0xA0 \<le> b \<and> b \<le> 0xBF
      else if lead = 0xED then 0x80 \<le> b \<and> b \<le> 0x9F
      else if lead = 0xF0 then 0x90 \<le> b \<and> b \<le> 0xBF
      else if lead = 0xF4 then 0x80 \<le> b \<and> b \<le> 0x8F
      else utf8_cont b)"

text \<open>
  One step of \<open>String::from_utf8_lossy\<close>: a well-formed sequence is decoded; otherwise the longest
  prefix that could start one is replaced by a single replacement character.
\<close>

fun utf8_step :: "nat \<Rightarrow> nat list \<Rightarrow> uchar \<times> nat list" where
  "utf8_step b bs =
     (if b < 0x80 then (b, bs)
      else if 0xC2 \<le> b \<and> b \<le> 0xDF then
        (case bs of
           b1 # r \<Rightarrow> if utf8_cont b1 then ((b - 0xC0) * 64 + (b1 - 0x80), r) else (REPLACEMENT, bs)
         | [] \<Rightarrow> (REPLACEMENT, []))
      else if 0xE0 \<le> b \<and> b \<le> 0xEF then
        (case bs of
           b1 # r \<Rightarrow>
             if utf8_second b b1 then
               (case r of
                  b2 # r2 \<Rightarrow>
                    if utf8_cont b2
                    then ((b - 0xE0) * 4096 + (b1 - 0x80) * 64 + (b2 - 0x80), r2)
                    else (REPLACEMENT, r)
                | [] \<Rightarrow> (REPLACEMENT, []))
             else (REPLACEMENT, bs)
         | [] \<Rightarrow> (REPLACEMENT, []))
      else if 0xF0 \<le> b \<and> b \<le> 0xF4 then
        (case bs of
           b1 # r \<Rightarrow>
             if utf8_second b b1 then
               (case r of
                  b2 # r2 \<Rightarrow>
                    if utf8_cont b2 then
                      (case r2 of
                         b3 # r3 \<Rightarrow>
                           if utf8_cont b3
                           then ((b - 0xF0) * 262144 + (b1 - 0x80) * 4096 + (b2 - 0x80) * 64 + (b3 - 0x80), r3)
                           else (REPLACEMENT, r2)
                       | [] \<Rightarrow> (REPLACEMENT, []))
                    else (REPLACEMENT, r)
                | [] \<Rightarrow> (REPLACEMENT, []))
             else (REPLACEMENT, bs)
         | [] \<Rightarrow> (REPLACEMENT, []))
      else (REPLACEMENT, bs))"

declare utf8_step.simps [simp del]

lemma utf8_step_shorter: "utf8_step b bs = (c, r) \<Longrightarrow> length r \<le> length bs"
  by (auto simp: utf8_step.simps split: if_splits list.splits)

function utf8_lossy :: "nat list \<Rightarrow> rstr" where
  "utf8_lossy [] = []"
| "utf8_lossy (b # bs) = fst (utf8_step b bs) # utf8_lossy (snd (utf8_step b bs))"
  by pat_completeness auto
termination
  by (relation "measure length") (auto simp: less_Suc_eq_le intro: utf8_step_shorter [OF prod.collapse [symmetric]])

definition from_utf8_lossy :: "byte list \<Rightarrow> rstr" where
  "from_utf8_lossy bs = utf8_lossy (map unat bs)"

definition output_text_from_bytes :: "byte list \<Rightarrow> bool \<Rightarrow> rstr \<times> bool" where
  "output_text_from_bytes raw_tail already_raw_truncated =
     (let lossy = from_utf8_lossy raw_tail;
          (text, text_truncated) = truncate_to_escaped_budget lossy MAX_SCHEDULER_OUTPUT_TEXT_BYTES
      in (text, already_raw_truncated \<or> text_truncated))"

text \<open>The bytes of a string, as the standard library stores them.\<close>

definition scalar_value :: "uchar \<Rightarrow> bool" where
  "scalar_value c \<longleftrightarrow> c < 0xD800 \<or> (0xE000 \<le> c \<and> c < 0x110000)"

definition utf8_char :: "uchar \<Rightarrow> nat list" where
  "utf8_char c =
     (if c < 0x80 then [c]
      else if c < 0x800 then [0xC0 + c div 64, 0x80 + c mod 64]
      else if c < 0x10000 then [0xE0 + c div 4096, 0x80 + c div 64 mod 64, 0x80 + c mod 64]
      else [0xF0 + c div 262144, 0x80 + c div 4096 mod 64, 0x80 + c div 64 mod 64, 0x80 + c mod 64])"

definition utf8_encode :: "rstr \<Rightarrow> nat list" where
  "utf8_encode s = concat (map utf8_char s)"

lemma base64_split:
  "(c :: nat) div 64 = c div 4096 * 64 + c div 64 mod 64"
  "c div 4096 = c div 262144 * 64 + c div 4096 mod 64"
  using div_mult2_eq [of c 64 64] div_mult2_eq [of c 4096 64] by simp_all

lemma utf8_step_char:
  assumes "scalar_value c"
  shows "\<exists>b bs. utf8_char c = b # bs \<and> utf8_step b (bs @ r) = (c, r)"
proof -
  consider "c < 0x80" | "0x80 \<le> c" "c < 0x800" | "0x800 \<le> c" "c < 0x10000" | "0x10000 \<le> c" "c < 0x110000"
    using assms by (fastforce simp: scalar_value_def)
  then show ?thesis
  proof cases
    case 1
    then show ?thesis by (simp add: utf8_char_def utf8_step.simps)
  next
    case 2
    moreover have "2 \<le> c div 64" "c div 64 \<le> 31" using 2 by auto
    ultimately show ?thesis by (simp add: utf8_char_def utf8_step.simps utf8_cont_def)
  next
    case 3
    have l: "c div 4096 \<le> 15" using 3 by auto
    have s: "utf8_second (224 + c div 4096) (128 + c div 64 mod 64)"
    proof -
      define x y where "x = c div 4096" and "y = c div 64 mod 64"
      have "c div 64 = 64 * x + y"
        using base64_split(1) [of c] by (simp add: x_def y_def)
      moreover have "32 \<le> c div 64" "c div 64 < 864 \<or> 896 \<le> c div 64"
        using assms 3 by (auto simp: scalar_value_def)
      moreover have "y < 64" by (simp add: y_def)
      ultimately have "x = 0 \<longrightarrow> 32 \<le> y" "x = 13 \<longrightarrow> y < 32" "y < 64" by auto
      then show ?thesis using l by (auto simp: utf8_second_def utf8_cont_def simp flip: x_def y_def)
    qed
    have "c div 4096 * 4096 + c div 64 mod 64 * 64 + c mod 64 = c"
      using div_mult_mod_eq [of c 64] base64_split(1) [of c] by linarith
    then show ?thesis using 3 l s by (simp add: utf8_char_def utf8_step.simps utf8_cont_def)
  next
    case 4
    have l: "c div 262144 \<le> 4" using 4 by auto
    have s: "utf8_second (240 + c div 262144) (128 + c div 4096 mod 64)"
    proof -
      define x y where "x = c div 262144" and "y = c div 4096 mod 64"
      have "c div 4096 = 64 * x + y"
        using base64_split(2) [of c] by (simp add: x_def y_def)
      moreover have "16 \<le> c div 4096" "c div 4096 < 272" using 4 by auto
      moreover have "y < 64" by (simp add: y_def)
      ultimately have "x = 0 \<longrightarrow> 16 \<le> y" "x = 4 \<longrightarrow> y < 16" "y < 64" by auto
      then show ?thesis using l by (auto simp: utf8_second_def utf8_cont_def simp flip: x_def y_def)
    qed
    have "c div 262144 * 262144 + c div 4096 mod 64 * 4096 + c div 64 mod 64 * 64 + c mod 64 = c"
      using div_mult_mod_eq [of c 64] base64_split [of c] by linarith
    moreover have "c mod 64 \<le> 63" "c div 64 mod 64 \<le> 63"
      using mod_less_divisor [of 64 c] mod_less_divisor [of 64 "c div 64"] by linarith+
    ultimately show ?thesis using 4 l s by (simp add: utf8_char_def utf8_step.simps utf8_cont_def)
  qed
qed

lemma utf8_lossy_encode: "list_all scalar_value s \<Longrightarrow> utf8_lossy (utf8_encode s) = s"
proof (induction s)
  case (Cons c s)
  then obtain b bs where "utf8_char c = b # bs" "utf8_step b (bs @ utf8_encode s) = (c, utf8_encode s)"
    using utf8_step_char [of c "utf8_encode s"] by auto
  with Cons show ?case by (simp add: utf8_encode_def)
qed (simp add: utf8_encode_def)

lemma output_text_within:
  "text_escaped_len (fst (output_text_from_bytes bs t)) \<le> MAX_SCHEDULER_OUTPUT_TEXT_BYTES"
proof -
  obtain out tr where o: "truncate_to_escaped_budget (from_utf8_lossy bs) MAX_SCHEDULER_OUTPUT_TEXT_BYTES = (out, tr)"
    by fastforce
  then have "longest_within MAX_SCHEDULER_OUTPUT_TEXT_BYTES (from_utf8_lossy bs) out tr"
    by (rule truncate_spec_aux [rotated]) (simp add: MAX_SCHEDULER_OUTPUT_TEXT_BYTES_def)
  then show ?thesis by (auto simp: output_text_from_bytes_def o longest_within_def)
qed

section \<open>Properties\<close>

text \<open>
  For every budget of at least six bytes, \<open>truncate_to_escaped_budget\<close> returns the longest
  prefix of the text whose JSON-escaped length fits the budget, and reports truncation exactly
  when something was dropped.
\<close>

theorem truncate_longest_prefix:
  assumes "6 \<le> budget" "truncate_to_escaped_budget s budget = (out, tr)"
  shows "longest_within budget s out tr"
  using assms by (rule truncate_spec_aux)

theorem truncate_longest_prefix_witness:
  "longest_within 12 [0x1b, 0x1b, 0x1b] [0x1b, 0x1b] True"
  by (rule truncate_longest_prefix) (simp_all add: truncate_to_escaped_budget_def json_escaped_len_def)

text \<open>
  Output that is valid UTF-8 and fits the published budget is published unchanged and not
  marked truncated: lossy decoding inverts the UTF-8 encoding of every string.
\<close>

theorem valid_output_published_verbatim:
  assumes "list_all scalar_value s" "text_escaped_len s \<le> MAX_SCHEDULER_OUTPUT_TEXT_BYTES"
    and "map unat raw = utf8_encode s"
  shows "output_text_from_bytes raw False = (s, False)"
  using assms by (simp add: output_text_from_bytes_def from_utf8_lossy_def utf8_lossy_encode truncate_fits)

theorem valid_output_published_verbatim_witness:
  "output_text_from_bytes [0x6F, 0x6B, 0xE2, 0x82, 0xAC] False = ([0x6F, 0x6B, 0x20AC], False)"
  by (rule valid_output_published_verbatim)
    (simp_all add: scalar_value_def json_escaped_len_def len_utf8_def utf8_encode_def utf8_char_def
      MAX_SCHEDULER_OUTPUT_TEXT_BYTES_def)

text \<open>
  The published text of a stream never exceeds its frozen budget of 512 JSON-escaped bytes,
  whatever bytes the child wrote.
\<close>

theorem output_text_bounded:
  "text_escaped_len (fst (output_text_from_bytes bs t)) \<le> MAX_SCHEDULER_OUTPUT_TEXT_BYTES"
  by (rule output_text_within)

end
