(* ===== verification/Wire_Validate.thy ===== *)
theory Wire_Validate
  imports Wire_Scheduler
begin

text \<open>
  Validation of the scheduler documents, \<open>crates/gregg-protocol/src/validate_scheduler.rs\<close>.

  Each \<open>check_*\<close> function of the source pushes onto a shared violation list; its model returns
  the violations it pushes, in order, and a caller appends the lists in the order of its calls.
  A violation carries the dotted JSON path that the source formats.

  The lemmas reduce "the document validates" to a predicate on the document
  (\<open>summary_valid\<close>, \<open>history_valid\<close>): bounds, distinct non-empty names, truthful load fields, and
  strictly increasing record sequences.
\<close>

section \<open>Violations\<close>

definition SCHEMA_VERSION_V2 :: nat where "SCHEMA_VERSION_V2 = 2"

datatype ViolationKindScheduler =
    UnsupportedSchemaVersion nat
  | TooManyJobs nat nat
  | TooManyRecords nat nat
  | FieldTooLong nat nat
  | EmptyJobName
  | NonFiniteLoad
  | InconsistentLoadDecision
  | StatusWithoutChild SchedulerOutcomeV2
  | DurationWithoutChild SchedulerOutcomeV2
  | NonMonotonicSequence nat nat
  | DuplicateJobName rstr
  | TimestampOutOfRange nat
  | UnknownLoadWindow rstr

record ValidationViolationScheduler =
  vv_kind :: ViolationKindScheduler
  vv_field :: rstr

definition violation :: "ViolationKindScheduler \<Rightarrow> rstr \<Rightarrow> ValidationViolationScheduler" where
  "violation k f = \<lparr>vv_kind = k, vv_field = f\<rparr>"

definition MAX_TIMESTAMP_UNIX_MS :: nat where "MAX_TIMESTAMP_UNIX_MS = 4102444800000"

section \<open>Field checks\<close>

definition check_text :: "rstr \<Rightarrow> rstr \<Rightarrow> nat \<Rightarrow> ValidationViolationScheduler list" where
  "check_text field value mx =
     (if str_len value > mx then [violation (FieldTooLong (str_len value) mx) field] else [])"

definition check_timestamp :: "rstr \<Rightarrow> nat \<Rightarrow> ValidationViolationScheduler list" where
  "check_timestamp field value =
     (if value > MAX_TIMESTAMP_UNIX_MS then [violation (TimestampOutOfRange value) field] else [])"

definition check_epoch :: "rstr \<Rightarrow> SchedulerEpochV2 \<Rightarrow> ValidationViolationScheduler list" where
  "check_epoch field epoch =
     check_timestamp (field @ ustr ''.started_at_unix_ms'') (ep_started_at_unix_ms epoch)"

fun child_capable :: "SchedulerOutcomeV2 \<Rightarrow> bool" where
  "child_capable Success = True"
| "child_capable Failed = True"
| "child_capable WaitFailed = True"
| "child_capable Cancelled = True"
| "child_capable SpawnFailed = False"
| "child_capable LoadExpired = False"

definition check_optional_child_fields ::
  "rstr \<Rightarrow> SchedulerOutcomeV2 \<Rightarrow> int option \<Rightarrow> nat option \<Rightarrow> nat option \<Rightarrow>
     ValidationViolationScheduler list" where
  "check_optional_child_fields prefix outcome exit_code signal duration_ms =
     (if \<not> child_capable outcome \<and> (exit_code \<noteq> None \<or> signal \<noteq> None)
      then [violation (StatusWithoutChild outcome) (prefix @ ustr ''.exit_code'')] else []) @
     (if \<not> child_capable outcome \<and> duration_ms \<noteq> None
      then [violation (DurationWithoutChild outcome) (prefix @ ustr ''.duration_ms'')] else [])"

definition check_output :: "rstr \<Rightarrow> SchedulerOutputV2 \<Rightarrow> ValidationViolationScheduler list" where
  "check_output field output =
     (let escaped = text_escaped_len (so_text output) in
      if escaped > MAX_SCHEDULER_OUTPUT_TEXT_BYTES
      then [violation (FieldTooLong escaped MAX_SCHEDULER_OUTPUT_TEXT_BYTES) (field @ ustr ''.text'')]
      else [])"

fun check_duplicate_names_from :: "rstr list \<Rightarrow> rstr list \<Rightarrow> ValidationViolationScheduler list" where
  "check_duplicate_names_from seen [] = []"
| "check_duplicate_names_from seen (name # names) =
     (if name \<in> set seen
      then violation (DuplicateJobName name) (ustr ''jobs'') # check_duplicate_names_from seen names
      else check_duplicate_names_from (seen @ [name]) names)"

definition check_duplicate_names :: "rstr list \<Rightarrow> ValidationViolationScheduler list" where
  "check_duplicate_names names = check_duplicate_names_from [] names"

definition check_load_gate :: "rstr \<Rightarrow> SchedulerLoadGateV2 \<Rightarrow> ValidationViolationScheduler list" where
  "check_load_gate field gate =
     (if lg_window gate \<notin> {ustr ''1m'', ustr ''5m'', ustr ''15m''}
      then [violation (UnknownLoadWindow (lg_window gate)) (field @ ustr ''.window'')] else []) @
     (if \<not> f32_is_finite (lg_threshold gate)
      then [violation NonFiniteLoad (field @ ustr ''.threshold'')] else []) @
     (case lg_observed gate of
        Some value \<Rightarrow> if \<not> f32_is_finite value then [violation NonFiniteLoad (field @ ustr ''.observed'')] else []
      | None \<Rightarrow> [])"

definition check_run_summary :: "rstr \<Rightarrow> SchedulerRunSummaryV2 \<Rightarrow> ValidationViolationScheduler list" where
  "check_run_summary field summary =
     check_timestamp (field @ ustr ''.scheduled_unix_ms'') (rs_scheduled_unix_ms summary) @
     check_timestamp (field @ ustr ''.finished_unix_ms'') (rs_finished_unix_ms summary) @
     check_optional_child_fields field (rs_outcome summary) (rs_exit_code summary)
       (rs_signal summary) (rs_duration_ms summary)"

definition check_opt :: "('a \<Rightarrow> 'v list) \<Rightarrow> 'a option \<Rightarrow> 'v list" where
  "check_opt f x = (case x of Some v \<Rightarrow> f v | None \<Rightarrow> [])"

fun load_deferred :: "SchedulerJobStateV2 \<Rightarrow> bool" where
  "load_deferred LoadHigh = True"
| "load_deferred LoadUnavailable = True"
| "load_deferred _ = False"

definition check_job :: "nat \<Rightarrow> SchedulerJobV2 \<Rightarrow> ValidationViolationScheduler list" where
  "check_job index job =
     (let field = ustr ''jobs.'' @ dec_nat index; deferred = load_deferred (jv_state job) in
      check_text (field @ ustr ''.name'') (jv_name job) MAX_SCHEDULER_JOB_NAME_BYTES @
      (if jv_name job = [] then [violation EmptyJobName (field @ ustr ''.name'')] else []) @
      check_text (field @ ustr ''.schedule'') (jv_schedule job) MAX_SCHEDULER_SCHEDULE_BYTES @
      check_timestamp (field @ ustr ''.next_due_unix_ms'') (jv_next_due_unix_ms job) @
      check_opt (check_timestamp (field @ ustr ''.pending_since_unix_ms'')) (jv_pending_since_unix_ms job) @
      check_opt (check_timestamp (field @ ustr ''.next_retry_unix_ms'')) (jv_next_retry_unix_ms job) @
      check_opt (check_timestamp (field @ ustr ''.running_since_unix_ms'')) (jv_running_since_unix_ms job) @
      check_opt (check_load_gate (field @ ustr ''.load'')) (jv_load job) @
      (if deferred then
         (if jv_running_since_unix_ms job \<noteq> None
          then [violation InconsistentLoadDecision (field @ ustr ''.running_since_unix_ms'')] else []) @
         (if jv_load job = None
          then [violation InconsistentLoadDecision (field @ ustr ''.load'')] else [])
       else []) @
      (if jv_state job = LoadUnavailable \<and>
          (case jv_load job of Some gate \<Rightarrow> lg_observed gate \<noteq> None | None \<Rightarrow> False)
       then [violation InconsistentLoadDecision (field @ ustr ''.load.observed'')] else []) @
      (if \<not> deferred \<and> jv_next_retry_unix_ms job \<noteq> None
       then [violation InconsistentLoadDecision (field @ ustr ''.next_retry_unix_ms'')] else []) @
      check_opt (check_run_summary (field @ ustr ''.last'')) (jv_last job))"

definition check_record :: "rstr \<Rightarrow> SchedulerRunRecordV2 \<Rightarrow> ValidationViolationScheduler list" where
  "check_record field record =
     check_timestamp (field @ ustr ''.scheduled_unix_ms'') (rr_scheduled_unix_ms record) @
     check_opt (check_timestamp (field @ ustr ''.started_unix_ms'')) (rr_started_unix_ms record) @
     check_timestamp (field @ ustr ''.finished_unix_ms'') (rr_finished_unix_ms record) @
     check_optional_child_fields field (rr_outcome record) (rr_exit_code record)
       (rr_signal record) (rr_duration_ms record) @
     (if rr_started_unix_ms record \<noteq> None \<and> \<not> child_capable (rr_outcome record)
      then [violation (StatusWithoutChild (rr_outcome record)) (field @ ustr ''.started_unix_ms'')] else []) @
     check_output (field @ ustr ''.stdout'') (rr_stdout record) @
     check_output (field @ ustr ''.stderr'') (rr_stderr record)"

text \<open>The record loop of \<open>check_job_history\<close>, with the position and the preceding sequence.\<close>

fun check_records_from ::
  "rstr \<Rightarrow> nat \<Rightarrow> nat option \<Rightarrow> SchedulerRunRecordV2 list \<Rightarrow> ValidationViolationScheduler list" where
  "check_records_from field position previous [] = []"
| "check_records_from field position previous (record # records) =
     (let here = field @ ustr ''.records.'' @ dec_nat position in
      check_record here record @
      (case previous of
         Some p \<Rightarrow> if rr_sequence record \<le> p
           then [violation (NonMonotonicSequence (rr_sequence record) p) (here @ ustr ''.sequence'')] else []
       | None \<Rightarrow> []) @
      check_records_from field (Suc position) (Some (rr_sequence record)) records)"

definition check_job_history :: "nat \<Rightarrow> SchedulerJobHistoryV2 \<Rightarrow> ValidationViolationScheduler list" where
  "check_job_history index history =
     (let field = ustr ''jobs.'' @ dec_nat index in
      check_text (field @ ustr ''.name'') (jh_name history) MAX_SCHEDULER_JOB_NAME_BYTES @
      (if jh_name history = [] then [violation EmptyJobName (field @ ustr ''.name'')] else []) @
      (if length (jh_records history) > MAX_SCHEDULER_HISTORY_LIMIT
       then [violation (TooManyRecords (length (jh_records history)) MAX_SCHEDULER_HISTORY_LIMIT)
               (field @ ustr ''.records'')] else []) @
      check_records_from field 0 None (jh_records history))"

text \<open>\<open>for (index, x) in xs.iter().enumerate()\<close> around a check.\<close>

fun check_enum :: "(nat \<Rightarrow> 'a \<Rightarrow> 'v list) \<Rightarrow> nat \<Rightarrow> 'a list \<Rightarrow> 'v list" where
  "check_enum f index [] = []"
| "check_enum f index (x # xs) = f index x @ check_enum f (Suc index) xs"

definition validate_summary :: "SchedulerSummaryV2 \<Rightarrow> (unit, ValidationViolationScheduler list) result" where
  "validate_summary summary =
     (let violations =
        (if sm_schema_version summary \<noteq> SCHEMA_VERSION_V2
         then [violation (UnsupportedSchemaVersion (sm_schema_version summary)) (ustr ''schema_version'')] else []) @
        check_timestamp (ustr ''generated_at_unix_ms'') (sm_generated_at_unix_ms summary) @
        check_epoch (ustr ''epoch'') (sm_epoch summary) @
        (if length (sm_jobs summary) > MAX_SCHEDULER_JOBS
         then [violation (TooManyJobs (length (sm_jobs summary)) MAX_SCHEDULER_JOBS) (ustr ''jobs'')] else []) @
        check_enum check_job 0 (sm_jobs summary) @
        check_duplicate_names (map jv_name (sm_jobs summary))
      in if violations = [] then Ok () else Err violations)"

definition validate_history :: "SchedulerHistoryV2 \<Rightarrow> (unit, ValidationViolationScheduler list) result" where
  "validate_history history =
     (let violations =
        (if hi_schema_version history \<noteq> SCHEMA_VERSION_V2
         then [violation (UnsupportedSchemaVersion (hi_schema_version history)) (ustr ''schema_version'')] else []) @
        check_timestamp (ustr ''generated_at_unix_ms'') (hi_generated_at_unix_ms history) @
        check_epoch (ustr ''epoch'') (hi_epoch history) @
        (if length (hi_jobs history) > MAX_SCHEDULER_JOBS
         then [violation (TooManyJobs (length (hi_jobs history)) MAX_SCHEDULER_JOBS) (ustr ''jobs'')] else []) @
        check_enum check_job_history 0 (hi_jobs history) @
        check_duplicate_names (map jh_name (hi_jobs history))
      in if violations = [] then Ok () else Err violations)"

text \<open>The serializer \<open>serde_json::to_vec\<close> is a parameter that gives the body length.\<close>

definition history_body_exceeds_budget ::
  "(SchedulerHistoryV2 \<Rightarrow> nat option) \<Rightarrow> SchedulerHistoryV2 \<Rightarrow> bool" where
  "history_body_exceeds_budget to_vec_len history =
     (case to_vec_len history of None \<Rightarrow> True | Some n \<Rightarrow> n > MAX_SCHEDULER_HISTORY_BODY_BYTES)"

section \<open>What validates\<close>

definition ts_ok :: "nat \<Rightarrow> bool" where
  "ts_ok t \<longleftrightarrow> t \<le> MAX_TIMESTAMP_UNIX_MS"

definition opt_ok :: "('a \<Rightarrow> bool) \<Rightarrow> 'a option \<Rightarrow> bool" where
  "opt_ok P x \<longleftrightarrow> (\<forall>v. x = Some v \<longrightarrow> P v)"

definition name_ok :: "rstr \<Rightarrow> bool" where
  "name_ok n \<longleftrightarrow> n \<noteq> [] \<and> str_len n \<le> MAX_SCHEDULER_JOB_NAME_BYTES"

definition window_ok :: "rstr \<Rightarrow> bool" where
  "window_ok w \<longleftrightarrow> w \<in> {ustr ''1m'', ustr ''5m'', ustr ''15m''}"

definition gate_valid :: "SchedulerLoadGateV2 \<Rightarrow> bool" where
  "gate_valid g \<longleftrightarrow> window_ok (lg_window g) \<and> gate_finite g"

definition child_fields_valid :: "SchedulerOutcomeV2 \<Rightarrow> int option \<Rightarrow> nat option \<Rightarrow> nat option \<Rightarrow> bool" where
  "child_fields_valid outcome ec sg d \<longleftrightarrow>
     (child_capable outcome \<or> ec = None \<and> sg = None \<and> d = None)"

definition run_summary_valid :: "SchedulerRunSummaryV2 \<Rightarrow> bool" where
  "run_summary_valid s \<longleftrightarrow> ts_ok (rs_scheduled_unix_ms s) \<and> ts_ok (rs_finished_unix_ms s) \<and>
     child_fields_valid (rs_outcome s) (rs_exit_code s) (rs_signal s) (rs_duration_ms s)"

text \<open>
  The truthfulness of the load fields: a deferred row names its gate and is not running, a
  \<open>load_unavailable\<close> row shows no reading, and only a deferred row has a retry time.
\<close>

definition load_truthful :: "SchedulerJobV2 \<Rightarrow> bool" where
  "load_truthful j \<longleftrightarrow>
     (case jv_state j of
        LoadHigh \<Rightarrow> jv_running_since_unix_ms j = None \<and> jv_load j \<noteq> None
      | LoadUnavailable \<Rightarrow> jv_running_since_unix_ms j = None \<and>
          (\<exists>g. jv_load j = Some g \<and> lg_observed g = None)
      | _ \<Rightarrow> jv_next_retry_unix_ms j = None)"

definition job_valid :: "SchedulerJobV2 \<Rightarrow> bool" where
  "job_valid j \<longleftrightarrow> name_ok (jv_name j) \<and> str_len (jv_schedule j) \<le> MAX_SCHEDULER_SCHEDULE_BYTES \<and>
     ts_ok (jv_next_due_unix_ms j) \<and> opt_ok ts_ok (jv_pending_since_unix_ms j) \<and>
     opt_ok ts_ok (jv_next_retry_unix_ms j) \<and> opt_ok ts_ok (jv_running_since_unix_ms j) \<and>
     opt_ok gate_valid (jv_load j) \<and> load_truthful j \<and> opt_ok run_summary_valid (jv_last j)"

definition record_valid :: "SchedulerRunRecordV2 \<Rightarrow> bool" where
  "record_valid r \<longleftrightarrow> ts_ok (rr_scheduled_unix_ms r) \<and> opt_ok ts_ok (rr_started_unix_ms r) \<and>
     ts_ok (rr_finished_unix_ms r) \<and>
     child_fields_valid (rr_outcome r) (rr_exit_code r) (rr_signal r) (rr_duration_ms r) \<and>
     (rr_started_unix_ms r \<noteq> None \<longrightarrow> child_capable (rr_outcome r)) \<and>
     text_escaped_len (so_text (rr_stdout r)) \<le> MAX_SCHEDULER_OUTPUT_TEXT_BYTES \<and>
     text_escaped_len (so_text (rr_stderr r)) \<le> MAX_SCHEDULER_OUTPUT_TEXT_BYTES"

definition job_history_valid :: "SchedulerJobHistoryV2 \<Rightarrow> bool" where
  "job_history_valid h \<longleftrightarrow> name_ok (jh_name h) \<and> length (jh_records h) \<le> MAX_SCHEDULER_HISTORY_LIMIT \<and>
     (\<forall>r \<in> set (jh_records h). record_valid r) \<and> sorted_wrt (<) (map rr_sequence (jh_records h))"

definition summary_valid :: "SchedulerSummaryV2 \<Rightarrow> bool" where
  "summary_valid s \<longleftrightarrow> sm_schema_version s = 2 \<and> ts_ok (sm_generated_at_unix_ms s) \<and>
     ts_ok (ep_started_at_unix_ms (sm_epoch s)) \<and> length (sm_jobs s) \<le> MAX_SCHEDULER_JOBS \<and>
     (\<forall>j \<in> set (sm_jobs s). job_valid j) \<and> distinct (map jv_name (sm_jobs s))"

definition history_valid :: "SchedulerHistoryV2 \<Rightarrow> bool" where
  "history_valid h \<longleftrightarrow> hi_schema_version h = 2 \<and> ts_ok (hi_generated_at_unix_ms h) \<and>
     ts_ok (ep_started_at_unix_ms (hi_epoch h)) \<and> length (hi_jobs h) \<le> MAX_SCHEDULER_JOBS \<and>
     (\<forall>j \<in> set (hi_jobs h). job_history_valid j) \<and> distinct (map jh_name (hi_jobs h))"

named_theorems check_nil \<open>when a check pushes nothing\<close>

lemma check_text_nil [check_nil]: "check_text f v n = [] \<longleftrightarrow> str_len v \<le> n"
  by (simp add: check_text_def)

lemma check_timestamp_nil [check_nil]: "check_timestamp f t = [] \<longleftrightarrow> ts_ok t"
  by (simp add: check_timestamp_def ts_ok_def)

lemma check_epoch_nil [check_nil]: "check_epoch f e = [] \<longleftrightarrow> ts_ok (ep_started_at_unix_ms e)"
  by (simp add: check_epoch_def check_nil)

lemma check_opt_nil [check_nil]: "check_opt f x = [] \<longleftrightarrow> opt_ok (\<lambda>v. f v = []) x"
  by (simp add: check_opt_def opt_ok_def split: option.splits)

lemma check_child_nil [check_nil]:
  "check_optional_child_fields p oc ec sg d = [] \<longleftrightarrow> child_fields_valid oc ec sg d"
  by (auto simp: check_optional_child_fields_def child_fields_valid_def)

lemma check_output_nil [check_nil]:
  "check_output f x = [] \<longleftrightarrow> text_escaped_len (so_text x) \<le> MAX_SCHEDULER_OUTPUT_TEXT_BYTES"
  by (simp add: check_output_def Let_def)

lemma check_load_gate_nil [check_nil]: "check_load_gate f g = [] \<longleftrightarrow> gate_valid g"
  by (auto simp: check_load_gate_def gate_valid_def window_ok_def gate_finite_def split: option.splits)

lemma check_run_summary_nil [check_nil]: "check_run_summary f s = [] \<longleftrightarrow> run_summary_valid s"
  by (simp add: check_run_summary_def run_summary_valid_def check_nil)

lemma check_dup_from_nil:
  "check_duplicate_names_from seen ns = [] \<longleftrightarrow> distinct ns \<and> set seen \<inter> set ns = {}"
  by (induction seen ns rule: check_duplicate_names_from.induct) auto

lemma check_duplicate_names_nil [check_nil]: "check_duplicate_names ns = [] \<longleftrightarrow> distinct ns"
  by (simp add: check_duplicate_names_def check_dup_from_nil)

lemma check_enum_nil: "(\<And>i x. f i x = [] \<longleftrightarrow> P x) \<Longrightarrow> check_enum f i xs = [] \<longleftrightarrow> (\<forall>x \<in> set xs. P x)"
  by (induction xs arbitrary: i) auto

lemma load_truthful_iff:
  "load_truthful j \<longleftrightarrow>
     (load_deferred (jv_state j) \<longrightarrow> jv_running_since_unix_ms j = None \<and> jv_load j \<noteq> None) \<and>
     \<not> (jv_state j = LoadUnavailable \<and> (case jv_load j of Some g \<Rightarrow> lg_observed g \<noteq> None | None \<Rightarrow> False)) \<and>
     \<not> (\<not> load_deferred (jv_state j) \<and> jv_next_retry_unix_ms j \<noteq> None)"
  by (cases "jv_state j"; cases "jv_load j") (auto simp: load_truthful_def)

lemma check_job_nil [check_nil]: "check_job i j = [] \<longleftrightarrow> job_valid j"
  unfolding check_job_def Let_def job_valid_def load_truthful_iff name_ok_def append_is_Nil_conv check_nil
  by (simp split: option.splits)

lemma check_record_nil [check_nil]: "check_record f r = [] \<longleftrightarrow> record_valid r"
  unfolding check_record_def record_valid_def append_is_Nil_conv check_nil by auto

lemma check_records_from_nil:
  "check_records_from f i p rs = [] \<longleftrightarrow> (\<forall>r \<in> set rs. record_valid r) \<and>
     sorted_wrt (<) (case p of None \<Rightarrow> map rr_sequence rs | Some s \<Rightarrow> s # map rr_sequence rs)"
proof (induction f i p rs rule: check_records_from.induct)
  case (2 f i p r rs)
  have "p = None \<or> (\<exists>s. p = Some s)" by auto
  moreover have "sorted_wrt (<) (s # rr_sequence r # map rr_sequence rs) \<longleftrightarrow>
      s < rr_sequence r \<and> sorted_wrt (<) (rr_sequence r # map rr_sequence rs)" for s
    by auto
  ultimately show ?case
    using 2 by (auto simp del: sorted_wrt.simps simp: Let_def check_nil not_le split: if_splits)
qed (auto split: option.splits)

lemma check_job_history_nil [check_nil]: "check_job_history i h = [] \<longleftrightarrow> job_history_valid h"
  by (auto simp: check_job_history_def Let_def job_history_valid_def name_ok_def check_nil check_records_from_nil)

lemma validate_summary_iff: "validate_summary s = Ok () \<longleftrightarrow> summary_valid s"
  by (auto simp: validate_summary_def Let_def summary_valid_def SCHEMA_VERSION_V2_def check_nil
      check_enum_nil [of check_job, OF check_job_nil])

lemma validate_history_iff: "validate_history h = Ok () \<longleftrightarrow> history_valid h"
  by (auto simp: validate_history_def Let_def history_valid_def SCHEMA_VERSION_V2_def check_nil
      check_enum_nil [of check_job_history, OF check_job_history_nil])

lemma is_ok_validate: "is_ok (validate_summary s) \<longleftrightarrow> summary_valid s" "is_ok (validate_history h) \<longleftrightarrow> history_valid h"
  by (simp_all add: is_ok_iff validate_summary_iff validate_history_iff)

section \<open>Properties\<close>

text \<open>
  A summary document validates exactly when its version, timestamps, names and job count are
  in bounds, its names are distinct, and every row is truthful about its load decision.
\<close>

theorem validate_summary_characterised: "validate_summary s = Ok () \<longleftrightarrow> summary_valid s"
  by (rule validate_summary_iff)

text \<open>
  A history document validates exactly when its bounds hold, its names are distinct, every
  record is well-formed, and within each job the record sequences strictly increase.
\<close>

theorem validate_history_characterised: "validate_history h = Ok () \<longleftrightarrow> history_valid h"
  by (rule validate_history_iff)

end
