(* ===== verification/Sched_Observer.thy ===== *)
theory Sched_Observer
  imports Wire_Validate
begin

text \<open>
  The daemon's scheduler observability (\<open>crates/greggd/src/scheduler/observation.rs\<close>): the restart
  epoch, the bounded output tails and their drains, the per-job terminal histories with their
  sequence numbers, and the publication of the coherent summary/history pair.

  The lemmas show that an output tail is the last 1024 bytes of what was read however the drain was
  interrupted, that the histories refine the log of all terminal occurrences (the last \<open>limit\<close> of
  each job, with the sequence numbers of the log), and that the served pair is always the
  serialization of the current state, also when a publication was skipped.

  Not under \<open>src/\<close>: \<open>serde_json::to_vec\<close>, a parameter (the body, or \<open>None\<close> when it fails). The
  process id and the process-wide epoch counter are arguments. The read scratch of a tail only
  carries one chunk between two statements; here a read yields the chunk itself.
\<close>

section \<open>Epochs\<close>

definition DRAIN_CHUNK :: nat where "DRAIN_CHUNK = 4096"

definition FNV_OFFSET :: "64 word" where "FNV_OFFSET = 0xcbf29ce484222325"

definition FNV_PRIME :: "64 word" where "FNV_PRIME = 0x00000100000001b3"

definition to_le_bytes :: "64 word \<Rightarrow> 64 word list" where
  "to_le_bytes v = map (\<lambda>i. take_bit 8 (drop_bit (8 * i) v)) [0..<8]"

definition fnv_byte :: "64 word \<Rightarrow> 64 word \<Rightarrow> 64 word" where
  "fnv_byte byt hash = xor hash byt * FNV_PRIME"

definition fnv_mix :: "64 word \<Rightarrow> 64 word \<Rightarrow> 64 word" where
  "fnv_mix v hash = fold fnv_byte (to_le_bytes v) hash"

text \<open>\<open>make_epoch\<close>: the epoch, and \<open>EPOCH_COUNTER\<close> after its \<open>fetch_add\<close>.\<close>

definition make_epoch :: "32 word \<Rightarrow> 64 word \<Rightarrow> nat \<Rightarrow> SchedulerEpochV2 \<times> 64 word" where
  "make_epoch pid counter started =
     (\<lparr>ep_started_at_unix_ms = started,
       ep_nonce = fnv_mix counter (fnv_mix (of_nat started) (fnv_mix (ucast pid) FNV_OFFSET))\<rparr>,
      counter + 1)"

section \<open>Output tails\<close>

record OutputTail =
  ot_buffer :: "byte list"
  ot_capacity :: nat
  ot_truncated :: bool
  ot_total_bytes :: nat

definition output_tail_new :: OutputTail where
  "output_tail_new = \<lparr>ot_buffer = [], ot_capacity = MAX_SCHEDULER_OUTPUT_BYTES,
     ot_truncated = False, ot_total_bytes = 0\<rparr>"

definition tail_push :: "byte list \<Rightarrow> OutputTail \<Rightarrow> OutputTail" where
  "tail_push bytes t =
     (let t = t\<lparr>ot_total_bytes := sat_add64 (ot_total_bytes t) (length bytes)\<rparr> in
      if length bytes \<ge> ot_capacity t
      then t\<lparr>ot_buffer := drop (length bytes - ot_capacity t) bytes, ot_truncated := True\<rparr>
      else
        let overflow = length (ot_buffer t) + length bytes - ot_capacity t;
            t = (if overflow > 0
                 then t\<lparr>ot_buffer := drop overflow (ot_buffer t), ot_truncated := True\<rparr> else t)
        in t\<lparr>ot_buffer := ot_buffer t @ bytes\<rparr>)"

definition into_wire :: "OutputTail \<Rightarrow> SchedulerOutputV2" where
  "into_wire t = (let (txt, trunc) = output_text_from_bytes (ot_buffer t) (ot_truncated t)
     in \<lparr>so_text = txt, so_truncated = trunc\<rparr>)"

text \<open>
  A child stream as the results of its consecutive reads; an exhausted script reads \<open>Ok(0)\<close>.
\<close>

datatype read_result = ReadOk "byte list" | ReadErr

type_synonym reader = "read_result list"

text \<open>
  \<open>drain_step\<close>: whether bytes were folded in, the stream after the read, the tail and \<open>done\<close>.
\<close>

fun drain_step :: "reader option \<Rightarrow> OutputTail \<Rightarrow> bool \<Rightarrow> bool \<times> reader option \<times> OutputTail \<times> bool" where
  "drain_step r t True = (False, r, t, True)"
| "drain_step None t False = (False, None, t, True)"
| "drain_step (Some []) t False = (False, Some [], t, True)"
| "drain_step (Some (ReadErr # r)) t False = (False, Some r, t, True)"
| "drain_step (Some (ReadOk bytes # r)) t False =
     (if length bytes = 0 then (False, Some r, t, True)
      else (True, Some r, tail_push bytes t, False))"

function drain_into :: "reader option \<Rightarrow> OutputTail \<Rightarrow> bool \<Rightarrow> reader option \<times> OutputTail \<times> bool" where
  "drain_into r t d =
     (case drain_step r t d of (folded, r', t', d') \<Rightarrow>
        if folded then drain_into r' t' d' else (r', t', d'))"
  by pat_completeness auto

definition reader_left :: "reader option \<Rightarrow> nat" where
  "reader_left r = (case r of None \<Rightarrow> 0 | Some xs \<Rightarrow> length xs)"

lemma drain_step_progress:
  "drain_step r t d = (True, r', t', d') \<Longrightarrow> reader_left r' < reader_left r"
  by (cases "(r, t, d)" rule: drain_step.cases) (auto simp: reader_left_def split: if_splits)

termination drain_into
  by (relation "measure (\<lambda>(r, t, d). reader_left r)") (auto dest: drain_step_progress [OF sym])

declare drain_into.simps [simp del]

section \<open>Publications\<close>

record 'b SchedulerPublication =
  pub_summary_bytes :: 'b
  pub_history_bytes :: 'b

definition try_publish ::
  "(SchedulerSummaryV2 \<Rightarrow> 'b option) \<Rightarrow> (SchedulerHistoryV2 \<Rightarrow> 'b option) \<Rightarrow>
   nat \<Rightarrow> SchedulerEpochV2 \<Rightarrow> nat \<Rightarrow> SchedulerJobV2 list \<Rightarrow> SchedulerJobHistoryV2 list \<Rightarrow>
   'b SchedulerPublication option" where
  "try_publish ser_s ser_h generated epoch revision jobs histories =
     (let summary = \<lparr>sm_schema_version = 2, sm_generated_at_unix_ms = generated, sm_epoch = epoch,
            sm_history_revision = revision, sm_jobs = jobs\<rparr>;
          history = \<lparr>hi_schema_version = 2, hi_generated_at_unix_ms = generated, hi_epoch = epoch,
            hi_history_revision = revision, hi_jobs = histories\<rparr>
      in case (ser_s summary, ser_h history) of
           (Some s, Some h) \<Rightarrow> Some \<lparr>pub_summary_bytes = s, pub_history_bytes = h\<rparr>
         | _ \<Rightarrow> None)"

text \<open>\<open>SchedulerPublisher::empty\<close>; \<open>None\<close> is the panic of its \<open>expect\<close>.\<close>

definition publisher_empty ::
  "(SchedulerSummaryV2 \<Rightarrow> 'b option) \<Rightarrow> (SchedulerHistoryV2 \<Rightarrow> 'b option) \<Rightarrow>
   32 word \<Rightarrow> 64 word \<Rightarrow> 'b SchedulerPublication option" where
  "publisher_empty ser_s ser_h pid counter =
     try_publish ser_s ser_h 0 (fst (make_epoch pid counter 0)) 0 [] []"

section \<open>The observer\<close>

record JobHistory =
  hs_name :: rstr
  hs_records :: "SchedulerRunRecordV2 list"

record TerminalRecord =
  tr_scheduled_unix_ms :: nat
  tr_started_unix_ms :: "nat option"
  tr_finished_unix_ms :: nat
  tr_delay_ms :: nat
  tr_coalesced :: bool
  tr_exit_code :: "int option"
  tr_signal :: "nat option"
  tr_duration_ms :: "nat option"
  tr_stdout :: OutputTail
  tr_stderr :: OutputTail

text \<open>The outcome passed to \<open>without_child\<close> only feeds a debug assertion.\<close>

definition without_child :: "nat \<Rightarrow> nat \<Rightarrow> nat \<Rightarrow> bool \<Rightarrow> SchedulerOutcomeV2 \<Rightarrow> TerminalRecord" where
  "without_child scheduled finished delay coalesced outcome =
     \<lparr>tr_scheduled_unix_ms = scheduled, tr_started_unix_ms = None, tr_finished_unix_ms = finished,
      tr_delay_ms = delay, tr_coalesced = coalesced, tr_exit_code = None, tr_signal = None,
      tr_duration_ms = None, tr_stdout = output_tail_new, tr_stderr = output_tail_new\<rparr>"

record PublishedComparable =
  pc_epoch :: SchedulerEpochV2
  pc_history_revision :: nat
  pc_jobs :: "SchedulerJobV2 list"

text \<open>\<open>ob_publisher\<close> is the content of the shared publication cell.\<close>

record 'b SchedulerObserver =
  ob_epoch :: SchedulerEpochV2
  ob_limit :: nat
  ob_histories :: "JobHistory list"
  ob_next_sequence :: nat
  ob_history_revision :: nat
  ob_publisher :: "'b SchedulerPublication"
  ob_last_published :: "PublishedComparable option"

text \<open>The process id and the epoch counter are those \<open>make_epoch\<close> reads.\<close>

definition observer_new ::
  "32 word \<Rightarrow> 64 word \<Rightarrow> rstr list \<Rightarrow> nat \<Rightarrow> nat \<Rightarrow> 'b SchedulerPublication \<Rightarrow> 'b SchedulerObserver" where
  "observer_new pid counter job_names limit started publisher =
     \<lparr>ob_epoch = fst (make_epoch pid counter started), ob_limit = limit,
      ob_histories = map (\<lambda>name. \<lparr>hs_name = name, hs_records = []\<rparr>) job_names,
      ob_next_sequence = 1, ob_history_revision = 0, ob_publisher = publisher,
      ob_last_published = None\<rparr>"

definition capture_enabled :: "'b SchedulerObserver \<Rightarrow> bool" where
  "capture_enabled ob \<longleftrightarrow> ob_limit ob > 0"

definition wire_record :: "nat \<Rightarrow> TerminalRecord \<Rightarrow> SchedulerOutcomeV2 \<Rightarrow> SchedulerRunRecordV2" where
  "wire_record sequence rec outcome =
     \<lparr>rr_sequence = sequence, rr_scheduled_unix_ms = tr_scheduled_unix_ms rec,
      rr_started_unix_ms = tr_started_unix_ms rec, rr_finished_unix_ms = tr_finished_unix_ms rec,
      rr_outcome = outcome, rr_exit_code = tr_exit_code rec, rr_signal = tr_signal rec,
      rr_duration_ms = tr_duration_ms rec, rr_delay_ms = tr_delay_ms rec,
      rr_coalesced = tr_coalesced rec, rr_stdout = into_wire (tr_stdout rec),
      rr_stderr = into_wire (tr_stderr rec)\<rparr>"

definition push_record :: "nat \<Rightarrow> SchedulerRunRecordV2 \<Rightarrow> SchedulerRunRecordV2 list \<Rightarrow> SchedulerRunRecordV2 list" where
  "push_record limit wire recs = pop_front_while limit (recs @ [wire])"

definition record_terminal ::
  "nat \<Rightarrow> TerminalRecord \<Rightarrow> SchedulerOutcomeV2 \<Rightarrow> 'b SchedulerObserver \<Rightarrow> nat \<times> 'b SchedulerObserver" where
  "record_terminal index rec outcome ob =
     (let sequence = ob_next_sequence ob;
          ob = ob\<lparr>ob_next_sequence := sat_add64 (ob_next_sequence ob) 1\<rparr> in
      if ob_limit ob = 0
      then (sequence, ob\<lparr>ob_history_revision := sat_add64 (ob_history_revision ob) 1\<rparr>)
      else if index \<ge> length (ob_histories ob) then (sequence, ob)
      else
        let history = ob_histories ob ! index;
            wire = wire_record sequence rec outcome;
            history = history\<lparr>hs_records := push_record (ob_limit ob) wire (hs_records history)\<rparr>
        in (sequence, ob\<lparr>ob_histories := (ob_histories ob)[index := history],
                         ob_history_revision := sat_add64 (ob_history_revision ob) 1\<rparr>))"

definition record_summary :: "SchedulerRunRecordV2 \<Rightarrow> SchedulerRunSummaryV2" where
  "record_summary r =
     \<lparr>rs_sequence = rr_sequence r, rs_scheduled_unix_ms = rr_scheduled_unix_ms r,
      rs_finished_unix_ms = rr_finished_unix_ms r, rs_outcome = rr_outcome r,
      rs_exit_code = rr_exit_code r, rs_signal = rr_signal r, rs_duration_ms = rr_duration_ms r,
      rs_delay_ms = rr_delay_ms r, rs_coalesced = rr_coalesced r\<rparr>"

definition last_summary :: "'b SchedulerObserver \<Rightarrow> nat \<Rightarrow> SchedulerRunSummaryV2 option" where
  "last_summary ob index =
     (if index \<ge> length (ob_histories ob) then None
      else if hs_records (ob_histories ob ! index) = [] then None
      else Some (record_summary (last (hs_records (ob_histories ob ! index)))))"

definition published_unchanged :: "'b SchedulerObserver \<Rightarrow> SchedulerJobV2 list \<Rightarrow> bool" where
  "published_unchanged ob jobs \<longleftrightarrow>
     (case ob_last_published ob of None \<Rightarrow> False
      | Some previous \<Rightarrow> pc_epoch previous = ob_epoch ob \<and>
          pc_history_revision previous = ob_history_revision ob \<and> jobs_eq (pc_jobs previous) jobs)"

definition wire_histories :: "'b SchedulerObserver \<Rightarrow> SchedulerJobHistoryV2 list" where
  "wire_histories ob =
     (if ob_limit ob = 0
      then map (\<lambda>h. \<lparr>jh_name = hs_name h, jh_records = []\<rparr>) (ob_histories ob)
      else map (\<lambda>h. \<lparr>jh_name = hs_name h, jh_records = hs_records h\<rparr>) (ob_histories ob))"

definition observer_publish ::
  "(SchedulerSummaryV2 \<Rightarrow> 'b option) \<Rightarrow> (SchedulerHistoryV2 \<Rightarrow> 'b option) \<Rightarrow>
   SchedulerJobV2 list \<Rightarrow> nat \<Rightarrow> 'b SchedulerObserver \<Rightarrow> bool \<times> 'b SchedulerObserver" where
  "observer_publish ser_s ser_h jobs generated ob =
     (if published_unchanged ob jobs then (False, ob)
      else
        let histories = wire_histories ob;
            comparable = \<lparr>pc_epoch = ob_epoch ob, pc_history_revision = ob_history_revision ob,
              pc_jobs = jobs\<rparr>
        in case try_publish ser_s ser_h generated (ob_epoch ob) (ob_history_revision ob) jobs histories of
             None \<Rightarrow> (False, ob)
           | Some nxt \<Rightarrow> (True, ob\<lparr>ob_publisher := nxt, ob_last_published := Some comparable\<rparr>))"

definition job_state :: "bool \<Rightarrow> bool \<Rightarrow> SchedulerLoadGateV2 option \<Rightarrow> SchedulerJobStateV2" where
  "job_state running pending gate =
     (if running then Running
      else if \<not> pending then Idle
      else case gate of
             None \<Rightarrow> WaitingForSlot
           | Some g \<Rightarrow> if lg_observed g = None then LoadUnavailable else LoadHigh)"

section \<open>Epochs of one process\<close>

lemma FNV_PRIME_inverse: "FNV_PRIME * 0xce965057aff6957b = 1"
  by (simp add: FNV_PRIME_def)

lemma times_FNV_PRIME_cancel:
  assumes "a * FNV_PRIME = b * FNV_PRIME"
  shows "a = b"
proof -
  have "a * (FNV_PRIME * 0xce965057aff6957b) = b * (FNV_PRIME * 0xce965057aff6957b)"
    using assms by (simp only: mult.assoc [symmetric])
  then show ?thesis by (simp only: FNV_PRIME_inverse mult_1_right)
qed

lemma xor_cancel_right: "xor a c = xor b c \<Longrightarrow> a = (b :: 64 word)"
proof -
  assume "xor a c = xor b c"
  then have "xor (xor a c) c = xor (xor b c) c" by simp
  then show ?thesis by (simp add: xor.assoc)
qed

lemma fnv_byte_inj_hash: "fnv_byte b h = fnv_byte b h' \<Longrightarrow> h = h'"
  by (auto simp: fnv_byte_def dest!: times_FNV_PRIME_cancel xor_cancel_right)

lemma fnv_byte_inj_byte: "fnv_byte b h = fnv_byte b' h \<Longrightarrow> b = b'"
  by (auto simp: fnv_byte_def xor.commute [of h] dest!: times_FNV_PRIME_cancel xor_cancel_right)

lemma fold_fnv_byte_inj: "fold fnv_byte bs h = fold fnv_byte bs h' \<Longrightarrow> h = h'"
  by (induction bs arbitrary: h h') (auto dest: fnv_byte_inj_hash)

lemma to_le_bytes_head:
  "to_le_bytes v = take_bit 8 v # map (\<lambda>i. take_bit 8 (drop_bit (8 * i) (drop_bit 8 v))) [0..<7]"
  by (simp add: to_le_bytes_def upt_rec)

lemma fnv_mix_low_byte:
  assumes "drop_bit 8 u = drop_bit 8 v" and "u \<noteq> v"
  shows "fnv_mix u h \<noteq> fnv_mix v h"
proof
  assume "fnv_mix u h = fnv_mix v h"
  then have "take_bit 8 u = take_bit 8 v"
    by (auto simp: fnv_mix_def to_le_bytes_head assms(1) dest!: fold_fnv_byte_inj fnv_byte_inj_byte)
  with assms(1) have "u = v" by (metis bits_ident)
  with assms(2) show False ..
qed

section \<open>What a tail retains\<close>

definition tail_inv :: "OutputTail \<Rightarrow> bool" where
  "tail_inv t \<longleftrightarrow> ot_capacity t = MAX_SCHEDULER_OUTPUT_BYTES \<and>
     length (ot_buffer t) \<le> MAX_SCHEDULER_OUTPUT_BYTES"

lemma tail_inv_new [simp]: "tail_inv output_tail_new"
  by (simp add: tail_inv_def output_tail_new_def)

lemma ot_buffer_push:
  "length (ot_buffer t) \<le> ot_capacity t \<Longrightarrow>
   ot_buffer (tail_push c t) = take_last (ot_capacity t) (ot_buffer t @ c)"
  by (auto simp: tail_push_def Let_def take_last_append) (auto simp: take_last_def)

lemma ot_capacity_push [simp]: "ot_capacity (tail_push c t) = ot_capacity t"
  by (simp add: tail_push_def Let_def)

interpretation tail_ring: bounded_ring tail_inv ot_buffer tail_push "\<lambda>c. c" MAX_SCHEDULER_OUTPUT_BYTES
  by unfold_locales (auto simp: tail_inv_def ot_buffer_push)

text \<open>The chunks a drain folds in: the non-empty reads up to the end of the stream.\<close>

fun chunks :: "reader \<Rightarrow> byte list list" where
  "chunks (ReadOk c # r) = (if c = [] then [] else c # chunks r)"
| "chunks (ReadErr # r) = []"
| "chunks [] = []"

lemma drain_into_cases [simp]:
  "drain_into r t True = (r, t, True)"
  "drain_into None t False = (None, t, True)"
  "drain_into (Some []) t False = (Some [], t, True)"
  "drain_into (Some (ReadErr # xs)) t False = (Some xs, t, True)"
  "drain_into (Some (ReadOk c # xs)) t False =
     (if c = [] then (Some xs, t, True) else drain_into (Some xs) (tail_push c t) False)"
  by (simp_all add: drain_into.simps [of r t True] drain_into.simps [of None t False]
      drain_into.simps [of "Some []" t False] drain_into.simps [of "Some (_ # xs)" t False])

lemma drain_into_fold: "fst (snd (drain_into (Some r) t False)) = fold tail_push (chunks r) t"
  by (induction r arbitrary: t rule: chunks.induct) simp_all

lemma drain_into_done: "snd (snd (drain_into (Some r) t False))"
  by (induction r arbitrary: t rule: chunks.induct) simp_all

text \<open>A drain cancelled after any number of completed reads, as the scheduler does at each wake.\<close>

fun drain_steps :: "nat \<Rightarrow> reader option \<Rightarrow> OutputTail \<Rightarrow> bool \<Rightarrow> reader option \<times> OutputTail \<times> bool" where
  "drain_steps 0 r t d = (r, t, d)"
| "drain_steps (Suc n) r t d = (case drain_step r t d of (_, r', t', d') \<Rightarrow> drain_steps n r' t' d')"

lemma drain_into_after_step:
  "drain_step r t d = (f, r', t', d') \<Longrightarrow> drain_into r' t' d' = drain_into r t d"
  by (cases "(r, t, d)" rule: drain_step.cases)
    (auto split: if_splits)

lemma drain_into_after_steps:
  "drain_steps n r t d = (r', t', d') \<Longrightarrow> drain_into r' t' d' = drain_into r t d"
  by (induction n arbitrary: r t d) (auto split: prod.splits simp: drain_into_after_step)

lemma tail_push_truncated:
  "ot_truncated (tail_push c t) \<longleftrightarrow>
     ot_truncated t \<or> length c \<ge> ot_capacity t \<or> length (ot_buffer t) + length c > ot_capacity t"
  by (auto simp: tail_push_def Let_def)

lemma truncated_fold:
  "tail_inv t \<Longrightarrow>
   ot_truncated (fold tail_push cs t) \<longleftrightarrow>
     ot_truncated t \<or> (\<exists>c \<in> set cs. length c = MAX_SCHEDULER_OUTPUT_BYTES) \<or>
     (cs \<noteq> [] \<and> length (ot_buffer t) + length (concat cs) > MAX_SCHEDULER_OUTPUT_BYTES)"
proof (induction cs arbitrary: t)
  case Nil
  then show ?case by simp
next
  case (Cons c cs)
  have len: "length (ot_buffer (tail_push c t)) =
      min MAX_SCHEDULER_OUTPUT_BYTES (length (ot_buffer t) + length c)"
    using Cons.prems by (simp add: ot_buffer_push tail_inv_def)
  show ?case
    using Cons.prems Cons.IH [OF tail_ring.inv_push [OF Cons.prems]]
    by (cases "cs = []") (auto simp: tail_push_truncated len tail_inv_def)
qed


section \<open>The histories as a bounded view of the terminal log\<close>

lemma push_record_eq: "push_record limit w rs = take_last limit (rs @ [w])"
  by (simp add: push_record_def pop_front_while_eq)

interpretation history_ring: bounded_ring "\<lambda>rs. length rs \<le> limit" "\<lambda>rs. rs" "push_record limit" "\<lambda>w. [w]" limit
  for limit
  by unfold_locales (simp_all add: push_record_eq)

type_synonym terminal_event = "nat \<times> TerminalRecord \<times> SchedulerOutcomeV2"

definition record_event :: "terminal_event \<Rightarrow> 'b SchedulerObserver \<Rightarrow> 'b SchedulerObserver" where
  "record_event ev ob = (case ev of (index, rec, outcome) \<Rightarrow> snd (record_terminal index rec outcome ob))"

text \<open>
  The abstract log numbers all terminal occurrences of the scheduler lifetime from \<open>n\<close> and keeps
  those of one job.
\<close>

definition job_log :: "nat \<Rightarrow> nat \<Rightarrow> terminal_event list \<Rightarrow> SchedulerRunRecordV2 list" where
  "job_log n i evs = map (\<lambda>(s, _, rec, outcome). wire_record s rec outcome)
     (filter (\<lambda>(s, index, _). index = i) (enumerate n evs))"

lemma job_log_Nil [simp]: "job_log n i [] = []"
  by (simp add: job_log_def)

lemma job_log_snoc:
  "job_log n i (evs @ [(j, rec, oc)]) =
     job_log n i evs @ (if j = i then [wire_record (n + length evs) rec oc] else [])"
  by (simp add: job_log_def enumerate_append_eq)

lemma job_log_sequences: "map rr_sequence (job_log n i evs) = map fst (filter (\<lambda>(s, index, _). index = i) (enumerate n evs))"
  by (auto simp: job_log_def wire_record_def)

lemma job_log_sorted: "sorted_wrt (<) (map rr_sequence (job_log n i evs))"
proof -
  have "sorted_wrt (<) (map fst (enumerate n evs))" by simp
  then show ?thesis
    by (simp only: job_log_sequences sorted_wrt_map sorted_wrt_filter)
qed

definition observer_after :: "terminal_event list \<Rightarrow> 'b SchedulerObserver \<Rightarrow> 'b SchedulerObserver" where
  "observer_after evs ob = fold record_event evs ob"

lemma observer_after_snoc: "observer_after (evs @ [ev]) ob = record_event ev (observer_after evs ob)"
  by (simp add: observer_after_def)

lemma record_event_frame [simp]:
  "ob_limit (record_event ev ob) = ob_limit ob"
  "ob_epoch (record_event ev ob) = ob_epoch ob"
  "ob_publisher (record_event ev ob) = ob_publisher ob"
  "ob_last_published (record_event ev ob) = ob_last_published ob"
  "length (ob_histories (record_event ev ob)) = length (ob_histories ob)"
  "ob_next_sequence (record_event ev ob) = sat_add64 (ob_next_sequence ob) 1"
  by (cases ev; simp add: record_event_def record_terminal_def Let_def)+

lemma record_event_names [simp]: "map hs_name (ob_histories (record_event ev ob)) = map hs_name (ob_histories ob)"
  by (cases ev) (auto simp: record_event_def record_terminal_def Let_def map_update list_update_same_conv)

lemma record_event_records:
  "i < length (ob_histories ob) \<Longrightarrow>
   hs_records (ob_histories (record_event (j, rec, oc) ob) ! i) =
     (if j = i \<and> ob_limit ob \<noteq> 0
      then take_last (ob_limit ob) (hs_records (ob_histories ob ! i) @ [wire_record (ob_next_sequence ob) rec oc])
      else hs_records (ob_histories ob ! i))"
  by (auto simp: record_event_def record_terminal_def Let_def nth_list_update push_record_eq)

lemma record_event_revision:
  "ob_history_revision (record_event (j, rec, oc) ob) =
     (if ob_limit ob = 0 \<or> j < length (ob_histories ob) then sat_add64 (ob_history_revision ob) 1
      else ob_history_revision ob)"
  by (simp add: record_event_def record_terminal_def Let_def)

definition observes :: "nat \<Rightarrow> nat \<Rightarrow> terminal_event list \<Rightarrow> 'b SchedulerObserver \<Rightarrow> bool" where
  "observes limit n evs ob \<longleftrightarrow> ob_limit ob = limit \<and> length (ob_histories ob) = n \<and>
     ob_next_sequence ob = Suc (length evs) \<and> ob_history_revision ob \<le> length evs \<and>
     (\<forall>i < n. hs_records (ob_histories ob ! i) = take_last limit (job_log 1 i evs))"

lemma observes_new: "observes limit (length names) [] (observer_new pid c names limit started p)"
  by (simp add: observes_def observer_new_def)

lemma observes_record:
  assumes "observes limit n evs ob" and "Suc (length evs) < u64_max"
  shows "observes limit n (evs @ [ev]) (record_event ev ob)"
proof -
  obtain j rec oc where ev: "ev = (j, rec, oc)" by (cases ev) auto
  show ?thesis
    using assms
    by (auto simp: ev observes_def record_event_records record_event_revision job_log_snoc
        sat_add64_exact take_last_append_same)
qed

lemma observes_publish:
  "observes limit n evs ob \<Longrightarrow> observes limit n evs (snd (observer_publish ser_s ser_h jobs g ob))"
  by (auto simp: observes_def observer_publish_def Let_def split: option.splits)

lemma last_summary_observes:
  assumes "observes limit n evs ob" and "i < n" and "limit > 0"
  shows "last_summary ob i = (if job_log 1 i evs = [] then None else Some (record_summary (last (job_log 1 i evs))))"
proof -
  have "last_summary ob i = (let rs = take_last limit (job_log 1 i evs) in
      if rs = [] then None else Some (record_summary (last rs)))"
    using assms(1,2) by (simp add: last_summary_def observes_def Let_def)
  moreover have "take_last limit xs = [] \<longleftrightarrow> xs = []" "xs \<noteq> [] \<Longrightarrow> last (take_last limit xs) = last xs"
    for xs :: "SchedulerRunRecordV2 list"
    using assms(3) by (cases xs; auto simp: take_last_def last_drop)+
  ultimately show ?thesis by (simp add: Let_def)
qed

section \<open>What is served\<close>

definition summary_doc :: "nat \<Rightarrow> SchedulerEpochV2 \<Rightarrow> nat \<Rightarrow> SchedulerJobV2 list \<Rightarrow> SchedulerSummaryV2" where
  "summary_doc g e rv jobs = \<lparr>sm_schema_version = 2, sm_generated_at_unix_ms = g, sm_epoch = e,
     sm_history_revision = rv, sm_jobs = jobs\<rparr>"

definition history_doc :: "nat \<Rightarrow> SchedulerEpochV2 \<Rightarrow> nat \<Rightarrow> SchedulerJobHistoryV2 list \<Rightarrow> SchedulerHistoryV2" where
  "history_doc g e rv hs = \<lparr>hi_schema_version = 2, hi_generated_at_unix_ms = g, hi_epoch = e,
     hi_history_revision = rv, hi_jobs = hs\<rparr>"

definition serves_pair ::
  "(SchedulerSummaryV2 \<Rightarrow> 'b option) \<Rightarrow> (SchedulerHistoryV2 \<Rightarrow> 'b option) \<Rightarrow> 'b SchedulerObserver \<Rightarrow>
   SchedulerEpochV2 \<Rightarrow> nat \<Rightarrow> SchedulerJobV2 list \<Rightarrow> SchedulerJobHistoryV2 list \<Rightarrow> bool" where
  "serves_pair ser_s ser_h ob e rv jobs hs \<longleftrightarrow>
     (\<exists>g. ser_s (summary_doc g e rv jobs) = Some (pub_summary_bytes (ob_publisher ob)) \<and>
          ser_h (history_doc g e rv hs) = Some (pub_history_bytes (ob_publisher ob)))"

text \<open>The pair served is the serialization of the observer's own state and of the given rows.\<close>

definition serves_current ::
  "(SchedulerSummaryV2 \<Rightarrow> 'b option) \<Rightarrow> (SchedulerHistoryV2 \<Rightarrow> 'b option) \<Rightarrow> 'b SchedulerObserver \<Rightarrow>
   SchedulerJobV2 list \<Rightarrow> bool" where
  "serves_current ser_s ser_h ob jobs \<longleftrightarrow>
     serves_pair ser_s ser_h ob (ob_epoch ob) (ob_history_revision ob) jobs (wire_histories ob)"

definition published_inv ::
  "(SchedulerSummaryV2 \<Rightarrow> 'b option) \<Rightarrow> (SchedulerHistoryV2 \<Rightarrow> 'b option) \<Rightarrow> 'b SchedulerObserver \<Rightarrow> bool" where
  "published_inv ser_s ser_h ob \<longleftrightarrow>
     (\<forall>c. ob_last_published ob = Some c \<longrightarrow>
        pc_history_revision c \<le> ob_history_revision ob \<and>
        (\<exists>hs. serves_pair ser_s ser_h ob (pc_epoch c) (pc_history_revision c) (pc_jobs c) hs \<and>
              (pc_history_revision c = ob_history_revision ob \<longrightarrow> hs = wire_histories ob)))"

lemma try_publish_Some:
  "try_publish ser_s ser_h g e rv jobs hs = Some p \<longleftrightarrow>
     ser_s (summary_doc g e rv jobs) = Some (pub_summary_bytes p) \<and>
     ser_h (history_doc g e rv hs) = Some (pub_history_bytes p)"
  by (cases p) (auto simp: try_publish_def Let_def summary_doc_def history_doc_def split: option.splits)

lemma try_publish_None:
  "try_publish ser_s ser_h g e rv jobs hs = None \<longleftrightarrow>
     ser_s (summary_doc g e rv jobs) = None \<or> ser_h (history_doc g e rv hs) = None"
  by (auto simp: try_publish_def Let_def summary_doc_def history_doc_def split: option.splits)

lemma wire_histories_unchanged:
  "ob_history_revision (record_event ev ob) = ob_history_revision ob \<Longrightarrow>
   ob_history_revision ob < u64_max \<Longrightarrow> wire_histories (record_event ev ob) = wire_histories ob"
  by (cases ev)
    (auto simp: record_event_def record_terminal_def Let_def wire_histories_def sat_add64_exact
      split: if_splits)

lemma record_event_revision_mono:
  "ob_history_revision ob < u64_max \<Longrightarrow> ob_history_revision ob \<le> ob_history_revision (record_event ev ob)"
  by (cases ev) (simp add: record_event_revision sat_add64_ge)

lemma published_inv_record:
  assumes "published_inv ser_s ser_h ob" and "ob_history_revision ob < u64_max"
  shows "published_inv ser_s ser_h (record_event ev ob)"
  unfolding published_inv_def
proof (intro allI impI)
  fix c assume c: "ob_last_published (record_event ev ob) = Some c"
  then obtain hs where hs: "serves_pair ser_s ser_h ob (pc_epoch c) (pc_history_revision c) (pc_jobs c) hs"
    "pc_history_revision c = ob_history_revision ob \<longrightarrow> hs = wire_histories ob"
    "pc_history_revision c \<le> ob_history_revision ob"
    using assms(1) by (auto simp: published_inv_def)
  have "pc_history_revision c = ob_history_revision (record_event ev ob) \<longrightarrow> hs = wire_histories (record_event ev ob)"
    using hs(2,3) record_event_revision_mono [OF assms(2), of ev] wire_histories_unchanged [OF _ assms(2), of ev]
    by auto
  with hs(1,3) record_event_revision_mono [OF assms(2), of ev]
  show "pc_history_revision c \<le> ob_history_revision (record_event ev ob) \<and>
      (\<exists>hs. serves_pair ser_s ser_h (record_event ev ob) (pc_epoch c) (pc_history_revision c) (pc_jobs c) hs \<and>
        (pc_history_revision c = ob_history_revision (record_event ev ob) \<longrightarrow> hs = wire_histories (record_event ev ob)))"
    by (auto simp: serves_pair_def)
qed

lemma wire_histories_publish [simp]:
  "wire_histories (ob\<lparr>ob_publisher := p, ob_last_published := l\<rparr>) = wire_histories ob"
  by (simp add: wire_histories_def)

lemma observer_publish_cases:
  "snd (observer_publish ser_s ser_h jobs g ob) =
     (if published_unchanged ob jobs then ob
      else case try_publish ser_s ser_h g (ob_epoch ob) (ob_history_revision ob) jobs (wire_histories ob) of
             None \<Rightarrow> ob
           | Some p \<Rightarrow> ob\<lparr>ob_publisher := p, ob_last_published := Some
               \<lparr>pc_epoch = ob_epoch ob, pc_history_revision = ob_history_revision ob, pc_jobs = jobs\<rparr>\<rparr>)"
  by (simp add: observer_publish_def Let_def split: option.splits)

lemma published_inv_publish:
  "published_inv ser_s ser_h ob \<Longrightarrow> published_inv ser_s ser_h (snd (observer_publish ser_s ser_h jobs g ob))"
  by (auto simp: observer_publish_cases published_inv_def try_publish_Some serves_pair_def
      split: option.splits)

lemma published_unchanged_serves:
  assumes "published_inv ser_s ser_h ob" and "published_unchanged ob jobs"
  shows "serves_current ser_s ser_h ob jobs"
proof -
  obtain c where c: "ob_last_published ob = Some c" "pc_epoch c = ob_epoch ob"
    "pc_history_revision c = ob_history_revision ob" "pc_jobs c = jobs"
    using assms(2) by (auto simp: published_unchanged_def split: option.splits dest: jobs_eqD)
  with assms(1) show ?thesis by (auto simp: published_inv_def serves_current_def)
qed

lemma publish_serves:
  assumes "published_inv ser_s ser_h ob" and "\<And>d. ser_s d \<noteq> None" and "\<And>d. ser_h d \<noteq> None"
  shows "serves_current ser_s ser_h (snd (observer_publish ser_s ser_h jobs g ob)) jobs"
proof (cases "published_unchanged ob jobs")
  case True
  with assms(1) show ?thesis by (simp add: observer_publish_def published_unchanged_serves)
next
  case False
  obtain p where p: "try_publish ser_s ser_h g (ob_epoch ob) (ob_history_revision ob) jobs (wire_histories ob) = Some p"
    using assms(2,3) try_publish_None by (metis option.exhaust)
  with False have eq: "snd (observer_publish ser_s ser_h jobs g ob) =
      ob\<lparr>ob_publisher := p, ob_last_published := Some
        \<lparr>pc_epoch = ob_epoch ob, pc_history_revision = ob_history_revision ob, pc_jobs = jobs\<rparr>\<rparr>"
    by (simp add: observer_publish_cases)
  show ?thesis
    using p by (auto simp: eq serves_current_def serves_pair_def try_publish_Some)
qed

section \<open>Runs of the observer\<close>

datatype observer_op = Terminal terminal_event | Publish "SchedulerJobV2 list" nat

primrec observer_step ::
  "(SchedulerSummaryV2 \<Rightarrow> 'b option) \<Rightarrow> (SchedulerHistoryV2 \<Rightarrow> 'b option) \<Rightarrow> observer_op \<Rightarrow>
   'b SchedulerObserver \<Rightarrow> 'b SchedulerObserver" where
  "observer_step ser_s ser_h (Terminal ev) ob = record_event ev ob"
| "observer_step ser_s ser_h (Publish jobs g) ob = snd (observer_publish ser_s ser_h jobs g ob)"

definition observer_run ::
  "(SchedulerSummaryV2 \<Rightarrow> 'b option) \<Rightarrow> (SchedulerHistoryV2 \<Rightarrow> 'b option) \<Rightarrow> observer_op list \<Rightarrow>
   'b SchedulerObserver \<Rightarrow> 'b SchedulerObserver" where
  "observer_run ser_s ser_h ops ob = fold (observer_step ser_s ser_h) ops ob"

fun events_of :: "observer_op list \<Rightarrow> terminal_event list" where
  "events_of [] = []"
| "events_of (Terminal ev # ops) = ev # events_of ops"
| "events_of (Publish _ _ # ops) = events_of ops"

lemma observer_run_observes:
  assumes "observes limit n evs ob" and "published_inv ser_s ser_h ob"
    and "length evs + length (events_of ops) < u64_max - 1"
  shows "observes limit n (evs @ events_of ops) (observer_run ser_s ser_h ops ob) \<and>
    published_inv ser_s ser_h (observer_run ser_s ser_h ops ob)"
  using assms
proof (induction ops arbitrary: evs ob rule: events_of.induct)
  case 1
  then show ?case by (simp add: observer_run_def)
next
  case (2 ev ops)
  have "observes limit n (evs @ [ev]) (record_event ev ob)"
    using "2.prems"(1,3) by (intro observes_record) auto
  moreover have "published_inv ser_s ser_h (record_event ev ob)"
    using "2.prems" by (intro published_inv_record) (auto simp: observes_def)
  ultimately show ?case
    using "2.IH" [of "evs @ [ev]" "record_event ev ob"] "2.prems"(3) by (simp add: observer_run_def)
next
  case (3 jobs g ops)
  then show ?case
    using "3.IH" [of evs "snd (observer_publish ser_s ser_h jobs g ob)"]
    by (simp add: observer_run_def observes_publish published_inv_publish)
qed

lemma published_inv_new: "published_inv ser_s ser_h (observer_new pid c names limit started p)"
  by (simp add: published_inv_def observer_new_def)

lemmas observer_run_new =
  observer_run_observes [OF observes_new published_inv_new, simplified append_Nil list.size add_0]

section \<open>The contract the engine relies on\<close>

text \<open>
  An observer as its client sees it: terminal events are recorded one by one, a publication makes
  the given rows and everything recorded so far what is served, and both keep the invariant as long
  as fewer than \<open>bound\<close> events were recorded.
\<close>

locale publication_log =
  fixes inv :: "'o \<Rightarrow> bool"
    and rec :: "'e \<Rightarrow> 'o \<Rightarrow> 'o"
    and publish :: "'r \<Rightarrow> nat \<Rightarrow> 'o \<Rightarrow> 'o"
    and current :: "'o \<Rightarrow> 'r \<Rightarrow> bool"
    and recorded :: "'o \<Rightarrow> nat"
    and bound :: nat
  assumes inv_rec: "inv s \<Longrightarrow> recorded s < bound \<Longrightarrow> inv (rec e s)"
    and recorded_rec: "recorded s < bound \<Longrightarrow> recorded (rec e s) = Suc (recorded s)"
    and inv_publish: "inv s \<Longrightarrow> inv (publish r g s)"
    and recorded_publish: "recorded (publish r g s) = recorded s"
    and publish_current: "inv s \<Longrightarrow> current (publish r g s) r"
begin

lemma inv_fold_rec:
  "inv s \<Longrightarrow> recorded s + length es \<le> bound \<Longrightarrow>
   inv (fold rec es s) \<and> recorded (fold rec es s) = recorded s + length es"
  by (induction es arbitrary: s) (simp_all add: inv_rec recorded_rec)

lemma rec_publish:
  "inv s \<Longrightarrow> recorded s < bound \<Longrightarrow>
   inv (publish r g (rec e s)) \<and> current (publish r g (rec e s)) r \<and>
   recorded (publish r g (rec e s)) = Suc (recorded s)"
  by (simp add: inv_rec recorded_rec inv_publish recorded_publish publish_current)

end

definition observer_inv ::
  "(SchedulerSummaryV2 \<Rightarrow> 'b option) \<Rightarrow> (SchedulerHistoryV2 \<Rightarrow> 'b option) \<Rightarrow> 'b SchedulerObserver \<Rightarrow> bool" where
  "observer_inv ser_s ser_h ob \<longleftrightarrow>
     published_inv ser_s ser_h ob \<and> ob_history_revision ob < ob_next_sequence ob"

lemma observer_publish_frame [simp]:
  "ob_next_sequence (snd (observer_publish ser_s ser_h jobs g ob)) = ob_next_sequence ob"
  "ob_history_revision (snd (observer_publish ser_s ser_h jobs g ob)) = ob_history_revision ob"
  "ob_histories (snd (observer_publish ser_s ser_h jobs g ob)) = ob_histories ob"
  "ob_limit (snd (observer_publish ser_s ser_h jobs g ob)) = ob_limit ob"
  "ob_epoch (snd (observer_publish ser_s ser_h jobs g ob)) = ob_epoch ob"
  by (simp_all add: observer_publish_cases split: option.splits)

lemma observer_inv_record:
  assumes "observer_inv ser_s ser_h ob" and "ob_next_sequence ob < u64_max"
  shows "observer_inv ser_s ser_h (record_event ev ob)"
proof -
  obtain j rec oc where ev: "ev = (j, rec, oc)" by (cases ev)
  have "ob_history_revision (record_event ev ob) \<le> Suc (ob_history_revision ob)"
    by (simp add: ev record_event_revision sat_add64_def)
  then show ?thesis
    using assms published_inv_record [of ser_s ser_h ob ev] by (auto simp: observer_inv_def sat_add64_exact)
qed

lemma observer_inv_publish:
  "observer_inv ser_s ser_h ob \<Longrightarrow> observer_inv ser_s ser_h (snd (observer_publish ser_s ser_h jobs g ob))"
  by (simp add: observer_inv_def published_inv_publish)

lemma observer_inv_serves:
  "observer_inv (\<lambda>d. Some (enc_s d)) (\<lambda>d. Some (enc_h d)) ob \<Longrightarrow>
   serves_current (\<lambda>d. Some (enc_s d)) (\<lambda>d. Some (enc_h d))
     (snd (observer_publish (\<lambda>d. Some (enc_s d)) (\<lambda>d. Some (enc_h d)) jobs g ob)) jobs"
  by (rule publish_serves) (simp_all add: observer_inv_def)

interpretation observer_log: publication_log
  "observer_inv (\<lambda>d. Some (enc_s d)) (\<lambda>d. Some (enc_h d))" record_event
  "\<lambda>rows g ob. snd (observer_publish (\<lambda>d. Some (enc_s d)) (\<lambda>d. Some (enc_h d)) rows g ob)"
  "serves_current (\<lambda>d. Some (enc_s d)) (\<lambda>d. Some (enc_h d))" ob_next_sequence u64_max
  for enc_s :: "SchedulerSummaryV2 \<Rightarrow> 'b" and enc_h
  by unfold_locales
    (simp_all add: observer_inv_record sat_add64_exact observer_inv_publish observer_inv_serves)

section \<open>Properties\<close>

text \<open>
  C10. The histories refine the log of terminal occurrences: whatever is recorded and published
  during a scheduler lifetime, the records held for a job are the last \<open>limit\<close> of that job in the
  log, each with its number in the log (from 1) as its sequence, so a sequence identifies one
  occurrence and increases within every job.
\<close>

theorem histories_refine_log:
  assumes "length (events_of ops) < u64_max - 1" and "i < length names"
  shows "hs_records (ob_histories (observer_run ser_s ser_h ops (observer_new pid c names limit started p)) ! i)
           = take_last limit (job_log 1 i (events_of ops)) \<and>
         sorted_wrt (<) (map rr_sequence (job_log 1 i (events_of ops))) \<and>
         (\<forall>r \<in> set (job_log 1 i (events_of ops)). \<exists>rec oc.
            r = wire_record (rr_sequence r) rec oc \<and> 1 \<le> rr_sequence r \<and>
            events_of ops ! (rr_sequence r - 1) = (i, rec, oc))"
proof -
  have "observes limit (length names) (events_of ops)
      (observer_run ser_s ser_h ops (observer_new pid c names limit started p))"
    using observer_run_new [OF assms(1)] by blast
  then have "hs_records (ob_histories (observer_run ser_s ser_h ops (observer_new pid c names limit started p)) ! i)
           = take_last limit (job_log 1 i (events_of ops))"
    using assms(2) by (simp add: observes_def)
  moreover have "\<exists>rec oc. r = wire_record (rr_sequence r) rec oc \<and> 1 \<le> rr_sequence r \<and>
      evs ! (rr_sequence r - 1) = (i, rec, oc)" if "r \<in> set (job_log 1 i evs)" for r evs
    using that by (auto simp: job_log_def in_set_enumerate_eq wire_record_def)
  ultimately show ?thesis by (simp add: job_log_sorted)
qed

definition example_terminal :: terminal_event where
  "example_terminal = (0, without_child 10 20 5 False SpawnFailed, SpawnFailed)"

theorem histories_refine_log_witness:
  "map rr_sequence (hs_records (ob_histories
     (observer_run (\<lambda>_. None) (\<lambda>_. None) [Terminal example_terminal, Publish [] 7, Terminal example_terminal]
       (observer_new 1 0 [ustr ''a''] 1 5 \<lparr>pub_summary_bytes = (), pub_history_bytes = ()\<rparr>)) ! 0)) = [2]"
  using histories_refine_log
    [of "[Terminal example_terminal, Publish [] 7, Terminal example_terminal]" 0 "[ustr ''a'']"
      "\<lambda>_. None" "\<lambda>_. None" 1 0 1 5 "\<lparr>pub_summary_bytes = (), pub_history_bytes = ()\<rparr>"]
  by (simp add: example_terminal_def u64_max_def job_log_def wire_record_def take_last_def)

text \<open>
  A publication never leaves a stale pair behind: after any run, when serialization succeeds,
  the pair served after a \<open>publish\<close> is the serialization of the given rows and of the histories,
  epoch and revision the observer holds then, also when the swap was skipped as unchanged.
\<close>

theorem publish_serves_current:
  assumes "length (events_of ops) < u64_max - 1"
    and "\<forall>d. ser_s d \<noteq> None" and "\<forall>d. ser_h d \<noteq> None"
    and "ob = observer_run ser_s ser_h ops (observer_new pid c names limit started p)"
  shows "serves_current ser_s ser_h (snd (observer_publish ser_s ser_h jobs g ob)) jobs"
proof -
  have "published_inv ser_s ser_h ob"
    unfolding assms(4) using observer_run_new [OF assms(1)] by blast
  then show ?thesis using assms(2,3) by (auto intro: publish_serves)
qed

theorem publish_serves_current_witness:
  "serves_current (\<lambda>d. Some (Inl d)) (\<lambda>d. Some (Inr d))
     (snd (observer_publish (\<lambda>d. Some (Inl d)) (\<lambda>d. Some (Inr d)) [] 9
       (observer_run (\<lambda>d. Some (Inl d)) (\<lambda>d. Some (Inr d)) [Terminal example_terminal, Publish [] 7]
         (observer_new 1 0 [ustr ''a''] 1 5 \<lparr>pub_summary_bytes = Inl (summary_doc 0 (fst (make_epoch 1 0 0)) 0 []),
            pub_history_bytes = Inr (history_doc 0 (fst (make_epoch 1 0 0)) 0 [])\<rparr>)))) []"
  by (rule publish_serves_current [OF _ _ _ refl]) (simp_all add: example_terminal_def u64_max_def)

text \<open>
  A drain that is cancelled and rebuilt at any wake, after any number of completed reads,
  retains the last 1024 bytes of everything the child wrote up to the end of the stream; an
  untruncated tail holds all of it. A tail is marked truncated exactly when bytes were dropped or a
  single read filled it.
\<close>

theorem drain_retains_tail:
  assumes "drain_steps n (Some r) output_tail_new False = (r', t', d')"
  shows "\<exists>rest t. drain_into r' t' d' = (rest, t, True) \<and>
      ot_buffer t = take_last MAX_SCHEDULER_OUTPUT_BYTES (concat (chunks r)) \<and>
      (ot_truncated t \<longleftrightarrow> length (concat (chunks r)) > MAX_SCHEDULER_OUTPUT_BYTES \<or>
        (\<exists>c \<in> set (chunks r). length c = MAX_SCHEDULER_OUTPUT_BYTES))"
proof -
  obtain rest t d where eq: "drain_into (Some r) output_tail_new False = (rest, t, d)"
    by (cases "drain_into (Some r) output_tail_new False") auto
  have t: "t = fold tail_push (chunks r) output_tail_new" and d: "d"
    using drain_into_fold [of r output_tail_new] drain_into_done [of r output_tail_new] eq by auto
  show ?thesis
    using drain_into_after_steps [OF assms] eq d tail_ring.contents_fold [OF tail_inv_new, of "chunks r"]
      truncated_fold [OF tail_inv_new, of "chunks r"]
    by (auto simp: t output_tail_new_def)
qed

theorem drain_retains_tail_witness:
  "\<exists>rest t. drain_into (Some [ReadOk [2], ReadErr]) (tail_push [1] output_tail_new) False = (rest, t, True) \<and>
     ot_buffer t = [1, 2] \<and> \<not> ot_truncated t"
  using drain_retains_tail [of 1 "[ReadOk [1], ReadOk [2], ReadErr]" "Some [ReadOk [2], ReadErr]"
      "tail_push [1] output_tail_new" False]
  by (simp add: MAX_SCHEDULER_OUTPUT_BYTES_def take_last_def)

text \<open>
  Two schedulers started in one process never share an epoch nonce, even in the same
  millisecond, as long as the process-wide counter did not leave its block of 256 between them.
\<close>

theorem epoch_nonce_fresh:
  assumes "drop_bit 8 c = drop_bit 8 c'" and "c \<noteq> c'"
  shows "ep_nonce (fst (make_epoch pid c started)) \<noteq> ep_nonce (fst (make_epoch pid c' started))"
  using fnv_mix_low_byte [OF assms] by (simp add: make_epoch_def)

theorem epoch_nonce_fresh_witness:
  "ep_nonce (fst (make_epoch 4711 0 1700000000000)) \<noteq> ep_nonce (fst (make_epoch 4711 1 1700000000000))"
  by (rule epoch_nonce_fresh) simp_all

text \<open>
  A single read of exactly 1024 bytes into an empty tail drops nothing and is still marked
  truncated, so the flag does not mean that a stage dropped bytes.
\<close>

theorem full_read_marked_truncated:
  "ot_buffer (tail_push (replicate 1024 0x61) output_tail_new) = replicate 1024 0x61 \<and>
   ot_truncated (tail_push (replicate 1024 0x61) output_tail_new)"
  by (simp add: tail_push_def output_tail_new_def MAX_SCHEDULER_OUTPUT_BYTES_def)

end
