(* ===== verification/Cron_Schedule.thy ===== *)
theory Cron_Schedule
  imports Gregg_Prelude
begin

unbundle bit_operations_syntax

text \<open>
  The five-field local cron schedule of \<open>crates/greggd/src/scheduler/schedule.rs\<close>.

  \<open>LocalSchedule\<close> is the parsed schedule with its five 64-bit masks. \<open>parse\<close>, \<open>parse_field\<close>
  and \<open>parse_number\<close> are the parser, \<open>date_matches\<close>, \<open>is_satisfiable\<close> and \<open>next_after\<close> the
  calendar search. The error strings of the source are the constructors of \<open>sched_error\<close>.

  The calendar and the time zone are the third-party crate \<open>chrono\<close>, so they are a parameter:
  the record \<open>chrono\<close> holds the operations the source calls, with dates of type \<open>'d\<close> and
  civil date-times of type \<open>'c\<close>. An instant is its UTC position in nanoseconds.

  The lemmas show what the parser accepts and what its masks hold, that printing a
  schedule and parsing it gives its masks back, and what instants \<open>next_after\<close> returns.
\<close>

section \<open>The calendar interface\<close>

datatype local_result = LR_Single int | LR_Ambiguous int int | LR_None

record ('d, 'c) chrono =
  ch_date_naive :: "int \<Rightarrow> 'd"
  ch_from_ymd_opt :: "int \<Rightarrow> nat \<Rightarrow> nat \<Rightarrow> 'd option"
  ch_succ_opt :: "'d \<Rightarrow> 'd option"
  ch_month :: "'d \<Rightarrow> nat"
  ch_day :: "'d \<Rightarrow> nat"
  ch_num_days_from_sunday :: "'d \<Rightarrow> nat"
  ch_and_hms_opt :: "'d \<Rightarrow> nat \<Rightarrow> nat \<Rightarrow> nat \<Rightarrow> 'c option"
  ch_from_local_datetime :: "'c \<Rightarrow> local_result"

section \<open>Schedules and their parser\<close>

definition MAX_SCHEDULE_BYTES :: nat where
  "MAX_SCHEDULE_BYTES = 128"

definition MAX_SEARCH_DAYS :: nat where
  "MAX_SEARCH_DAYS = 146097"

definition SATISFIABILITY_EPOCH_YEAR :: int where
  "SATISFIABILITY_EPOCH_YEAR = 2000"

datatype sched_error =
    BadScheduleBytes
  | NotFiveFields
  | EmptyListItem
  | StepNotPositive
  | MultipleSteps
  | RangeNotAscending
  | NoValues
  | NotNumeric
  | ValueOutside nat nat nat
  | NoFutureOccurrence
  | NoFutureOccurrence400

record LocalSchedule =
  ls_minutes :: "64 word"
  ls_hours :: "64 word"
  ls_month_days :: "64 word"
  ls_months :: "64 word"
  ls_week_days :: "64 word"
  ls_month_day_wildcard :: bool
  ls_week_day_wildcard :: bool

definition parse_number :: "rstr \<Rightarrow> nat \<Rightarrow> nat \<Rightarrow> (nat, sched_error) result" where
  "parse_number value minimum maximum =
     (case parse_usize value of
        None \<Rightarrow> Err NotNumeric
      | Some number \<Rightarrow>
          if minimum \<le> number \<and> number \<le> maximum then Ok number
          else Err (ValueOutside number minimum maximum))"

text \<open>The values of \<open>(start..=end).step_by(step)\<close>.\<close>

definition step_range :: "nat \<Rightarrow> nat \<Rightarrow> nat \<Rightarrow> nat list" where
  "step_range a b s = (if a \<le> b then map (\<lambda>k. a + k * s) [0..<Suc ((b - a) div s)] else [])"

text \<open>One iteration of the item loop of \<open>parse_field\<close>: the selected values and \<open>is_wildcard\<close>.\<close>

definition parse_step :: "rstr list \<Rightarrow> (nat, sched_error) result" where
  "parse_step rest =
     (case rest of
        [] \<Rightarrow> Ok 1
      | value # _ \<Rightarrow>
          (case parse_usize value of
             None \<Rightarrow> Err StepNotPositive
           | Some step \<Rightarrow> if step = 0 then Err StepNotPositive else Ok step))"

definition parse_base :: "rstr \<Rightarrow> rstr \<Rightarrow> nat \<Rightarrow> nat \<Rightarrow> (nat \<times> nat \<times> bool, sched_error) result" where
  "parse_base item base minimum maximum =
     (if base = ustr ''*'' then Ok (minimum, maximum, True)
      else case split_once (uc CHR ''-'') base of
        Some (s, e) \<Rightarrow>
          result_bind (parse_number s minimum maximum) (\<lambda>start.
          result_bind (parse_number e minimum maximum) (\<lambda>end'.
            if start > end' then Err RangeNotAscending else Ok (start, end', False)))
      | None \<Rightarrow>
          result_bind (parse_number base minimum maximum) (\<lambda>start.
            Ok (start, if uc CHR ''/'' \<in> set item then maximum else start, False)))"

definition parse_item :: "rstr \<Rightarrow> nat \<Rightarrow> nat \<Rightarrow> (nat list \<times> bool, sched_error) result" where
  "parse_item item minimum maximum =
     (if item = [] then Err EmptyListItem
      else
        let step_parts = str_split (uc CHR ''/'') item in
        result_bind (parse_step (tl step_parts)) (\<lambda>step.
          if 2 < length step_parts then Err MultipleSteps
          else
            result_bind (parse_base item (hd step_parts) minimum maximum) (\<lambda>(a, b, w).
              Ok (step_range a b step, w))))"

definition set_bits :: "nat list \<Rightarrow> 64 word \<Rightarrow> 64 word" where
  "set_bits vs msk = fold (\<lambda>v m. m OR push_bit v 1) vs msk"

fun parse_items ::
  "rstr list \<Rightarrow> nat \<Rightarrow> nat \<Rightarrow> 64 word \<Rightarrow> bool \<Rightarrow> (64 word \<times> bool, sched_error) result" where
  "parse_items [] minimum maximum msk wildcard = Ok (msk, wildcard)"
| "parse_items (item # items) minimum maximum msk wildcard =
     result_bind (parse_item item minimum maximum) (\<lambda>(vs, w).
       parse_items items minimum maximum (set_bits vs msk) (wildcard \<or> w))"

definition parse_field :: "rstr \<Rightarrow> nat \<Rightarrow> nat \<Rightarrow> (64 word \<times> bool, sched_error) result" where
  "parse_field value minimum maximum =
     result_bind (parse_items (str_split (uc CHR '','') value) minimum maximum 0 False)
       (\<lambda>(msk, wildcard). if msk = 0 then Err NoValues else Ok (msk, wildcard))"

definition expand_alias :: "rstr \<Rightarrow> rstr" where
  "expand_alias value =
     (if value = ustr ''@hourly'' then ustr ''0 * * * *''
      else if value = ustr ''@daily'' then ustr ''0 0 * * *''
      else if value = ustr ''@weekly'' then ustr ''0 0 * * 0''
      else if value = ustr ''@monthly'' then ustr ''0 0 1 * *''
      else value)"

definition parse_schedule :: "rstr \<Rightarrow> (LocalSchedule, sched_error) result" where
  "parse_schedule expression =
     (if expression = [] \<or> MAX_SCHEDULE_BYTES < str_len expression then Err BadScheduleBytes
      else
        let fields = split_whitespace (expand_alias (str_trim expression)) in
        if length fields \<noteq> 5 then Err NotFiveFields
        else
          result_bind (parse_field (fields ! 0) 0 59) (\<lambda>(minutes, _).
          result_bind (parse_field (fields ! 1) 0 23) (\<lambda>(hours, _).
          result_bind (parse_field (fields ! 2) 1 31) (\<lambda>(month_days, month_day_wildcard).
          result_bind (parse_field (fields ! 3) 1 12) (\<lambda>(months, _).
          result_bind (parse_field (fields ! 4) 0 6) (\<lambda>(week_days, week_day_wildcard).
            Ok \<lparr>ls_minutes = minutes, ls_hours = hours, ls_month_days = month_days,
                ls_months = months, ls_week_days = week_days,
                ls_month_day_wildcard = month_day_wildcard,
                ls_week_day_wildcard = week_day_wildcard\<rparr>))))))"

section \<open>Calendar search\<close>

definition date_matches :: "('d, 'c) chrono \<Rightarrow> LocalSchedule \<Rightarrow> 'd \<Rightarrow> bool" where
  "date_matches ch S date =
     (let month_matches = bit (ls_months S) (ch_month ch date);
          month_day_matches = bit (ls_month_days S) (ch_day ch date);
          week_day_matches = bit (ls_week_days S) (ch_num_days_from_sunday ch date);
          day_matches =
            (case (ls_month_day_wildcard S, ls_week_day_wildcard S) of
               (True, True) \<Rightarrow> True
             | (True, False) \<Rightarrow> week_day_matches
             | (False, True) \<Rightarrow> month_day_matches
             | (False, False) \<Rightarrow> month_day_matches \<or> week_day_matches)
      in month_matches \<and> day_matches)"

primrec satisfiable_within :: "('d, 'c) chrono \<Rightarrow> LocalSchedule \<Rightarrow> nat \<Rightarrow> 'd \<Rightarrow> bool" where
  "satisfiable_within ch S 0 date = False"
| "satisfiable_within ch S (Suc n) date =
     (if date_matches ch S date then True
      else case ch_succ_opt ch date of None \<Rightarrow> False | Some next \<Rightarrow> satisfiable_within ch S n next)"

definition is_satisfiable :: "('d, 'c) chrono \<Rightarrow> LocalSchedule \<Rightarrow> bool" where
  "is_satisfiable ch S =
     (case ch_from_ymd_opt ch SATISFIABILITY_EPOCH_YEAR 1 1 of
        None \<Rightarrow> False
      | Some date \<Rightarrow> satisfiable_within ch S MAX_SEARCH_DAYS date)"

text \<open>The three nested loops of \<open>next_after\<close>, innermost first.\<close>

definition scan_minute ::
  "('d, 'c) chrono \<Rightarrow> LocalSchedule \<Rightarrow> int \<Rightarrow> 'd \<Rightarrow> nat \<Rightarrow> nat \<Rightarrow> int option" where
  "scan_minute ch S after date hour minute =
     (if \<not> bit (ls_minutes S) minute then None
      else case ch_and_hms_opt ch date hour minute 0 of
        None \<Rightarrow> None
      | Some civil \<Rightarrow>
          (case ch_from_local_datetime ch civil of
             LR_Single candidate \<Rightarrow> if candidate > after then Some candidate else None
           | LR_Ambiguous first second \<Rightarrow>
               if first > after then Some first
               else if second > after then Some second else None
           | LR_None \<Rightarrow> None))"

definition scan_hour ::
  "('d, 'c) chrono \<Rightarrow> LocalSchedule \<Rightarrow> int \<Rightarrow> 'd \<Rightarrow> nat \<Rightarrow> int option" where
  "scan_hour ch S after date hour =
     (if \<not> bit (ls_hours S) hour then None
      else first_some (scan_minute ch S after date hour) [0..<60])"

definition scan_date :: "('d, 'c) chrono \<Rightarrow> LocalSchedule \<Rightarrow> int \<Rightarrow> 'd \<Rightarrow> int option" where
  "scan_date ch S after date =
     (if date_matches ch S date then first_some (scan_hour ch S after date) [0..<24] else None)"

primrec next_after_within ::
  "('d, 'c) chrono \<Rightarrow> LocalSchedule \<Rightarrow> int \<Rightarrow> nat \<Rightarrow> 'd \<Rightarrow> (int, sched_error) result" where
  "next_after_within ch S after 0 date = Err NoFutureOccurrence400"
| "next_after_within ch S after (Suc n) date =
     (case scan_date ch S after date of
        Some t \<Rightarrow> Ok t
      | None \<Rightarrow>
          (case ch_succ_opt ch date of
             None \<Rightarrow> Err NoFutureOccurrence
           | Some next \<Rightarrow> next_after_within ch S after n next))"

definition next_after :: "('d, 'c) chrono \<Rightarrow> LocalSchedule \<Rightarrow> int \<Rightarrow> (int, sched_error) result" where
  "next_after ch S after =
     next_after_within ch S after MAX_SEARCH_DAYS (ch_date_naive ch after)"

section \<open>What the parser accepts\<close>

lemma set_step_range:
  "0 < s \<Longrightarrow> set (step_range a b s) = {v. a \<le> v \<and> v \<le> b \<and> (v - a) mod s = 0}"
proof -
  assume s: "0 < s"
  have "v \<in> (\<lambda>k. a + k * s) ` {0..<Suc ((b - a) div s)} \<longleftrightarrow> a \<le> v \<and> v \<le> b \<and> (v - a) mod s = 0"
    if ab: "a \<le> b" for v
  proof
    assume "v \<in> (\<lambda>k. a + k * s) ` {0..<Suc ((b - a) div s)}"
    then obtain k where k: "v = a + k * s" "k \<in> {0..<Suc ((b - a) div s)}"
      by (rule imageE)
    from k(2) have "k \<le> (b - a) div s" by simp
    with s have "k * s \<le> b - a" by (simp add: less_eq_div_iff_mult_less_eq)
    with k(1) ab show "a \<le> v \<and> v \<le> b \<and> (v - a) mod s = 0" by auto
  next
    assume v: "a \<le> v \<and> v \<le> b \<and> (v - a) mod s = 0"
    then have "v = a + (v - a) div s * s" by (auto simp: mod_eq_0_iff_dvd)
    moreover from v have "(v - a) div s \<le> (b - a) div s" by (intro div_le_mono diff_le_mono) simp
    ultimately show "v \<in> (\<lambda>k. a + k * s) ` {0..<Suc ((b - a) div s)}" by auto
  qed
  note mem = this
  show ?thesis
  proof (cases "a \<le> b")
    case True
    then have "set (step_range a b s) = (\<lambda>k. a + k * s) ` {0..<Suc ((b - a) div s)}"
      by (simp add: step_range_def del: upt_Suc)
    with mem [OF True] show ?thesis by (simp only: set_eq_iff mem_Collect_eq simp_thms)
  qed (auto simp: step_range_def)
qed

lemma bit_set_bits:
  "bit (set_bits vs msk) k \<longleftrightarrow> bit msk k \<or> (k < 64 \<and> k \<in> set vs)"
  by (induction vs arbitrary: msk) (auto simp: set_bits_def bit_simps)

lemma parse_number_Ok_iff:
  "parse_number v lo hi = Ok n \<longleftrightarrow> parse_usize v = Some n \<and> lo \<le> n \<and> n \<le> hi"
  by (auto simp: parse_number_def split: option.splits if_splits)

lemma parse_step_Ok: "parse_step rest = Ok s \<Longrightarrow> 0 < s"
  by (auto simp: parse_step_def split: list.splits option.splits if_splits)

lemma parse_base_Ok:
  "parse_base item base lo hi = Ok (a, b, w) \<Longrightarrow> lo \<le> hi \<Longrightarrow> lo \<le> a \<and> a \<le> b \<and> b \<le> hi"
  by (auto simp: parse_base_def parse_number_Ok_iff split: if_splits option.splits)

lemma parse_item_Ok:
  assumes "parse_item item lo hi = Ok (vs, w)" "lo \<le> hi"
  shows "vs \<noteq> [] \<and> (\<forall>v \<in> set vs. lo \<le> v \<and> v \<le> hi)"
proof -
  from assms(1) obtain s a b where
    s: "parse_step (tl (str_split (uc CHR ''/'') item)) = Ok s" and
    ab: "parse_base item (hd (str_split (uc CHR ''/'') item)) lo hi = Ok (a, b, w)" and
    vs: "vs = step_range a b s"
    by (auto simp: parse_item_def Let_def split: if_splits)
  from parse_step_Ok [OF s] parse_base_Ok [OF ab assms(2)] show ?thesis
    by (auto simp: vs set_step_range) (auto simp: step_range_def)
qed

lemma parse_items_bits:
  assumes "parse_items items lo hi msk w = Ok (msk', w')" "lo \<le> hi"
    and "\<forall>k. bit msk k \<longrightarrow> lo \<le> k \<and> k \<le> hi"
  shows "\<forall>k. bit msk' k \<longrightarrow> lo \<le> k \<and> k \<le> hi"
  using assms
proof (induction items lo hi msk w rule: parse_items.induct)
  case (2 item items lo hi msk w)
  from "2.prems"(1) obtain vs v where vs: "parse_item item lo hi = Ok (vs, v)"
    and rest: "parse_items items lo hi (set_bits vs msk) (w \<or> v) = Ok (msk', w')"
    by auto
  have "\<forall>k. bit (set_bits vs msk) k \<longrightarrow> lo \<le> k \<and> k \<le> hi"
    using parse_item_Ok [OF vs "2.prems"(2)] "2.prems"(3) by (auto simp: bit_set_bits)
  from "2.IH" [OF rest "2.prems"(2) this] show ?case .
qed simp

definition mask_within :: "64 word \<Rightarrow> nat \<Rightarrow> nat \<Rightarrow> bool" where
  "mask_within msk lo hi \<longleftrightarrow> msk \<noteq> 0 \<and> (\<forall>k. bit msk k \<longrightarrow> lo \<le> k \<and> k \<le> hi)"

lemma parse_field_within:
  assumes "parse_field v lo hi = Ok (msk, w)" "lo \<le> hi"
  shows "mask_within msk lo hi"
proof -
  from assms(1) have "parse_items (str_split (uc CHR '','') v) lo hi 0 False = Ok (msk, w)"
    and "msk \<noteq> 0"
    by (auto simp: parse_field_def split: if_splits)
  with parse_items_bits [OF _ assms(2), where msk = 0] show ?thesis
    by (auto simp: mask_within_def)
qed

definition schedule_wf :: "LocalSchedule \<Rightarrow> bool" where
  "schedule_wf S \<longleftrightarrow>
     mask_within (ls_minutes S) 0 59 \<and> mask_within (ls_hours S) 0 23 \<and>
     mask_within (ls_month_days S) 1 31 \<and> mask_within (ls_months S) 1 12 \<and>
     mask_within (ls_week_days S) 0 6"

lemma parse_schedule_wf_aux: "parse_schedule e = Ok S \<Longrightarrow> schedule_wf S"
  by (auto simp: parse_schedule_def Let_def schedule_wf_def split: if_splits
      dest!: parse_field_within)

section \<open>What the calendar search returns\<close>

primrec lr_instants :: "local_result \<Rightarrow> int set" where
  "lr_instants (LR_Single t) = {t}"
| "lr_instants (LR_Ambiguous f s) = {f, s}"
| "lr_instants LR_None = {}"

text \<open>The instants at which a schedule fires on a date, read off its masks.\<close>

definition fires_at :: "('d, 'c) chrono \<Rightarrow> LocalSchedule \<Rightarrow> 'd \<Rightarrow> nat \<Rightarrow> nat \<Rightarrow> int \<Rightarrow> bool" where
  "fires_at ch S d h m t \<longleftrightarrow>
     date_matches ch S d \<and> h < 24 \<and> m < 60 \<and> bit (ls_hours S) h \<and> bit (ls_minutes S) m \<and>
     (\<exists>c. ch_and_hms_opt ch d h m 0 = Some c \<and> t \<in> lr_instants (ch_from_local_datetime ch c))"

definition fires_on :: "('d, 'c) chrono \<Rightarrow> LocalSchedule \<Rightarrow> 'd \<Rightarrow> int \<Rightarrow> bool" where
  "fires_on ch S d t \<longleftrightarrow> (\<exists>h m. fires_at ch S d h m t)"

primrec nth_date :: "('d, 'c) chrono \<Rightarrow> nat \<Rightarrow> 'd \<Rightarrow> 'd option" where
  "nth_date ch 0 d = Some d"
| "nth_date ch (Suc n) d = (case ch_succ_opt ch d of None \<Rightarrow> None | Some d' \<Rightarrow> nth_date ch n d')"

lemma scan_minute_Some:
  "scan_minute ch S a d h m = Some t \<Longrightarrow>
     a < t \<and> bit (ls_minutes S) m \<and>
     (\<exists>c. ch_and_hms_opt ch d h m 0 = Some c \<and> t \<in> lr_instants (ch_from_local_datetime ch c))"
  by (auto simp: scan_minute_def split: if_splits option.splits local_result.splits)

lemma scan_minute_None:
  "scan_minute ch S a d h m = None \<Longrightarrow> fires_at ch S d h m u \<Longrightarrow> u \<le> a"
  by (auto simp: scan_minute_def fires_at_def split: if_splits option.splits local_result.splits)

lemma scan_date_Some:
  assumes "scan_date ch S a d = Some t"
  shows "\<exists>h m. fires_at ch S d h m t \<and> a < t \<and>
    (\<forall>h' m' u. h' < h \<or> h' = h \<and> m' < m \<longrightarrow> fires_at ch S d h' m' u \<longrightarrow> u \<le> a)"
proof -
  from assms have dm: "date_matches ch S d"
    and hours: "first_some (scan_hour ch S a d) [0..<24] = Some t"
    unfolding scan_date_def by (auto simp del: upt_rec_numeral split: if_splits)
  from first_some_upt [OF hours] obtain h where h: "h < 24" "scan_hour ch S a d h = Some t"
    "\<forall>l < h. scan_hour ch S a d l = None"
    by auto
  from h(2) have hb: "bit (ls_hours S) h"
    and minutes: "first_some (scan_minute ch S a d h) [0..<60] = Some t"
    unfolding scan_hour_def by (auto simp del: upt_rec_numeral split: if_splits)
  from first_some_upt [OF minutes] obtain m where m: "m < 60" "scan_minute ch S a d h m = Some t"
    "\<forall>l < m. scan_minute ch S a d h l = None"
    by auto
  note t = scan_minute_Some [OF m(2)]
  have before: "u \<le> a" if "h' < h \<or> h' = h \<and> m' < m" "fires_at ch S d h' m' u" for h' m' u
  proof -
    have "scan_minute ch S a d h' m' = None"
    proof (cases "h' = h")
      case False
      with that h(3) have "scan_hour ch S a d h' = None" by blast
      moreover from that(2) have "bit (ls_hours S) h'" "m' < 60" by (simp_all add: fires_at_def)
      ultimately show ?thesis
        unfolding scan_hour_def by (simp del: upt_rec_numeral upt.simps)
    next
      case True
      with that(1) have "m' < m" by simp
      with m(3) True show ?thesis by simp
    qed
    then show ?thesis using that(2) by (rule scan_minute_None)
  qed
  have "fires_at ch S d h m t"
    using dm h(1) m(1) hb t by (simp add: fires_at_def)
  with t before show ?thesis by (intro exI [of _ h] exI [of _ m] conjI allI impI) simp_all
qed

lemma scan_date_None:
  "scan_date ch S a d = None \<Longrightarrow> fires_on ch S d u \<Longrightarrow> u \<le> a"
proof -
  assume none: "scan_date ch S a d = None" and "fires_on ch S d u"
  then obtain h m where hm: "fires_at ch S d h m u" by (auto simp: fires_on_def)
  then have "date_matches ch S d" "h \<in> set [0..<24]" "bit (ls_hours S) h" "m \<in> set [0..<60]"
    by (auto simp: fires_at_def simp del: upt_rec_numeral)
  with none have "scan_minute ch S a d h m = None"
    unfolding scan_date_def scan_hour_def by (simp only: if_True first_some_None_iff) force
  then show ?thesis using hm by (rule scan_minute_None)
qed

lemma next_after_within_Ok:
  assumes "next_after_within ch S a n d = Ok t"
  shows "\<exists>k d'. k < n \<and> nth_date ch k d = Some d' \<and> scan_date ch S a d' = Some t \<and>
    (\<forall>j < k. \<forall>e u. nth_date ch j d = Some e \<longrightarrow> fires_on ch S e u \<longrightarrow> u \<le> a)"
  using assms
proof (induction n arbitrary: d)
  case (Suc n)
  show ?case
  proof (cases "scan_date ch S a d")
    case (Some t')
    with Suc.prems show ?thesis by (intro exI [of _ 0] exI [of _ d]) simp
  next
    case None
    with Suc.prems obtain e where e: "ch_succ_opt ch d = Some e" "next_after_within ch S a n e = Ok t"
      by (auto split: option.splits)
    from Suc.IH [OF e(2)] obtain k d' where k: "k < n" "nth_date ch k e = Some d'"
      "scan_date ch S a d' = Some t"
      "\<forall>j < k. \<forall>e' u. nth_date ch j e = Some e' \<longrightarrow> fires_on ch S e' u \<longrightarrow> u \<le> a"
      by blast
    have "\<forall>j < Suc k. \<forall>e' u. nth_date ch j d = Some e' \<longrightarrow> fires_on ch S e' u \<longrightarrow> u \<le> a"
      using k(4) e(1) scan_date_None [OF None] by (auto simp: less_Suc_eq_0_disj)
    with k e show ?thesis by (intro exI [of _ "Suc k"] exI [of _ d']) simp
  qed
qed simp

lemma next_after_within_Err:
  assumes "next_after_within ch S a n d = Err x"
  shows "k < n \<Longrightarrow> nth_date ch k d = Some e \<Longrightarrow> fires_on ch S e u \<Longrightarrow> u \<le> a"
  using assms
proof (induction n arbitrary: d k)
  case (Suc n)
  then have None: "scan_date ch S a d = None" by (auto split: option.splits)
  with Suc.prems Suc.IH scan_date_None [OF None] show ?case
    by (cases k) (auto split: option.splits)
qed simp

lemma next_after_sound:
  assumes "next_after ch S a = Ok t"
  shows "a < t \<and> (\<exists>n d. n < MAX_SEARCH_DAYS \<and> nth_date ch n (ch_date_naive ch a) = Some d \<and>
    fires_on ch S d t \<and>
    (\<forall>k < n. \<forall>e u. nth_date ch k (ch_date_naive ch a) = Some e \<longrightarrow> fires_on ch S e u \<longrightarrow> u \<le> a))"
  using next_after_within_Ok [OF assms [unfolded next_after_def]]
  by (meson fires_on_def scan_date_Some)

lemma next_after_Err_none:
  assumes "next_after ch S a = Err x" "k < MAX_SEARCH_DAYS"
    and "nth_date ch k (ch_date_naive ch a) = Some e" "fires_on ch S e u"
  shows "u \<le> a"
  using next_after_within_Err [OF assms(1) [unfolded next_after_def]] assms(2-) by blast

section \<open>Zones with a fixed offset\<close>

text \<open>
  What \<open>chrono\<close> documents for a zone with a fixed UTC offset: every minute of every date
  exists exactly once, consecutive dates start one day apart, and an instant lies in its own
  local date.
\<close>

definition DAY_NS :: int where
  "DAY_NS = 86400 * 10 ^ 9"

locale fixed_zone =
  fixes ch :: "('d, 'c) chrono"
    and day_no :: "'d \<Rightarrow> int"
    and offset :: int
  assumes local_single: "h < 24 \<Longrightarrow> m < 60 \<Longrightarrow>
      \<exists>c. ch_and_hms_opt ch d h m 0 = Some c \<and>
        ch_from_local_datetime ch c =
          LR_Single (day_no d * DAY_NS - offset + int (h * 60 + m) * (60 * 10 ^ 9))"
    and day_no_inj: "day_no d = day_no e \<Longrightarrow> d = e"
    and day_no_succ: "ch_succ_opt ch d = Some e \<Longrightarrow> day_no e = day_no d + 1"
    and day_no_naive: "day_no (ch_date_naive ch t) = (t + offset) div DAY_NS"
begin

lemma fires_at_eq:
  "fires_at ch S d h m t \<Longrightarrow> t = day_no d * DAY_NS - offset + int (h * 60 + m) * (60 * 10 ^ 9)"
  using local_single [of h m d] by (auto simp: fires_at_def)

lemma fires_on_bounds:
  assumes "fires_on ch S d t"
  shows "day_no d * DAY_NS - offset \<le> t \<and> t < (day_no d + 1) * DAY_NS - offset"
proof -
  from assms obtain h m where hm: "fires_at ch S d h m t" by (auto simp: fires_on_def)
  then have "h * 60 + m < 1440" by (auto simp: fires_at_def)
  with fires_at_eq [OF hm] show ?thesis by (auto simp: DAY_NS_def algebra_simps)
qed

lemma day_no_nth_date: "nth_date ch n d = Some e \<Longrightarrow> day_no e = day_no d + int n"
  by (induction n arbitrary: d) (auto split: option.splits dest: day_no_succ)

lemma nth_date_prefix: "nth_date ch n d = Some e \<Longrightarrow> k \<le> n \<Longrightarrow> \<exists>f. nth_date ch k d = Some f"
proof (induction n arbitrary: d k)
  case (Suc n)
  then show ?case by (cases k) (auto split: option.splits)
qed simp

lemma next_after_least:
  assumes t: "next_after ch S a = Ok t" and u: "fires_on ch S e u" "a < u"
  shows "t \<le> u"
proof -
  let ?d0 = "ch_date_naive ch a"
  from next_after_within_Ok [OF t [unfolded next_after_def]] obtain n d where
    d: "nth_date ch n ?d0 = Some d" "scan_date ch S a d = Some t"
    and before: "\<forall>k < n. \<forall>e u. nth_date ch k ?d0 = Some e \<longrightarrow> fires_on ch S e u \<longrightarrow> u \<le> a"
    by blast
  from scan_date_Some [OF d(2)] obtain h m where hm: "fires_at ch S d h m t"
    and first: "\<forall>h' m' v. h' < h \<or> h' = h \<and> m' < m \<longrightarrow> fires_at ch S d h' m' v \<longrightarrow> v \<le> a"
    by blast
  have dn: "day_no d = day_no ?d0 + int n" using d(1) by (rule day_no_nth_date)
  have "day_no ?d0 \<le> day_no e"
  proof -
    have "day_no ?d0 * DAY_NS \<le> a + offset" by (simp add: day_no_naive DAY_NS_def)
    also have "\<dots> < (day_no e + 1) * DAY_NS" using u fires_on_bounds [OF u(1)] by simp
    finally show ?thesis by (simp add: DAY_NS_def)
  qed
  then consider (early) k where "k < n" "day_no e = day_no ?d0 + int k" | (same) "day_no e = day_no d"
    | (late) "day_no d < day_no e"
  proof (cases "day_no e < day_no d")
    case True
    with \<open>day_no ?d0 \<le> day_no e\<close> dn show thesis
      by (intro early [of "nat (day_no e - day_no ?d0)"]) auto
  qed (use same late in linarith)
  then show ?thesis
  proof cases
    case early
    from nth_date_prefix [OF d(1)] early(1) obtain f where f: "nth_date ch k ?d0 = Some f" by force
    with early(2) day_no_nth_date [OF f] have "f = e" by (intro day_no_inj) simp
    with before early(1) f u show ?thesis by fastforce
  next
    case same
    then have e: "e = d" by (rule day_no_inj)
    from u(1) obtain h' m' where u': "fires_at ch S d h' m' u" by (auto simp: fires_on_def e)
    with first u(2) have "\<not> (h' < h \<or> h' = h \<and> m' < m)" by force
    moreover have "m < 60" using hm by (simp add: fires_at_def)
    ultimately have "h * 60 + m \<le> h' * 60 + m'" by auto
    then show ?thesis by (simp add: fires_at_eq [OF hm] fires_at_eq [OF u'])
  next
    case late
    have "(day_no d + 1) * DAY_NS \<le> day_no e * DAY_NS"
      using late by (intro mult_right_mono) (auto simp: DAY_NS_def)
    moreover from hm have "fires_on ch S d t" by (auto simp: fires_on_def)
    ultimately show ?thesis using fires_on_bounds [OF u(1)] fires_on_bounds [of S d t] by linarith
  qed
qed

end

section \<open>The Gregorian calendar as an instance\<close>

text \<open>
  Dates are day numbers from 1970-01-01; a civil date-time is a date, an hour, a minute and a
  second. \<open>gregorian_zone off\<close> is the calendar in a zone \<open>off\<close> nanoseconds ahead of UTC.
\<close>

definition civil_year_day :: "int \<Rightarrow> int" where
  "civil_year_day n =
     (let doe = (n + 719468) mod 146097;
          yoe = (doe - doe div 1460 + doe div 36524 - doe div 146096) div 365
      in doe - (365 * yoe + yoe div 4 - yoe div 100))"

definition civil_month :: "int \<Rightarrow> nat" where
  "civil_month n =
     (let mp = (5 * civil_year_day n + 2) div 153 in nat (if mp < 10 then mp + 3 else mp - 9))"

definition civil_day :: "int \<Rightarrow> nat" where
  "civil_day n =
     (let doy = civil_year_day n; mp = (5 * doy + 2) div 153 in nat (doy - (153 * mp + 2) div 5 + 1))"

definition days_from_civil :: "int \<Rightarrow> nat \<Rightarrow> nat \<Rightarrow> int" where
  "days_from_civil y m d =
     (let y' = (if m \<le> 2 then y - 1 else y); era = y' div 400; yoe = y' mod 400;
          mp = (int m + 9) mod 12; doy = (153 * mp + 2) div 5 + int d - 1;
          doe = yoe * 365 + yoe div 4 - yoe div 100 + doy
      in era * 146097 + doe - 719468)"

definition gregorian_zone :: "int \<Rightarrow> (int, int \<times> nat \<times> nat \<times> nat) chrono" where
  "gregorian_zone off =
     \<lparr>ch_date_naive = (\<lambda>t. (t + off) div DAY_NS),
      ch_from_ymd_opt = (\<lambda>y m d. Some (days_from_civil y m d)),
      ch_succ_opt = (\<lambda>d. Some (d + 1)),
      ch_month = civil_month, ch_day = civil_day,
      ch_num_days_from_sunday = (\<lambda>n. nat ((n + 4) mod 7)),
      ch_and_hms_opt = (\<lambda>d h m s. if h < 24 \<and> m < 60 \<and> s < 60 then Some (d, h, m, s) else None),
      ch_from_local_datetime =
        (\<lambda>(d, h, m, s). LR_Single (d * DAY_NS - off + int (h * 60 + m) * (60 * 10 ^ 9) + int s * 10 ^ 9))\<rparr>"

interpretation greg: fixed_zone "gregorian_zone off" "\<lambda>d. d" off for off
  by unfold_locales (auto simp: gregorian_zone_def)

text \<open>
  New York around 2026-11-01 (day 20758), when clocks go back from 02:00 EDT to 01:00 EST: the
  local hour from 01:00 exists twice that day.
\<close>

definition HOUR_NS :: int where
  "HOUR_NS = 3600 * 10 ^ 9"

definition ny_fall_day :: int where
  "ny_fall_day = 20758"

definition ny_zone :: "(int, int \<times> nat \<times> nat \<times> nat) chrono" where
  "ny_zone = (gregorian_zone 0)
     \<lparr>ch_date_naive := (\<lambda>t. (t - (if t < ny_fall_day * DAY_NS + 6 * HOUR_NS then 4 else 5) * HOUR_NS) div DAY_NS),
      ch_from_local_datetime :=
        (\<lambda>(d, h, m, s).
           let utc = d * DAY_NS + int (h * 60 + m) * (60 * 10 ^ 9) + int s * 10 ^ 9 in
           if d = ny_fall_day \<and> h = 1 then LR_Ambiguous (utc + 4 * HOUR_NS) (utc + 5 * HOUR_NS)
           else if d < ny_fall_day \<or> d = ny_fall_day \<and> h < 1 then LR_Single (utc + 4 * HOUR_NS)
           else LR_Single (utc + 5 * HOUR_NS))\<rparr>"

lemma MAX_SEARCH_DAYS_Suc: "MAX_SEARCH_DAYS = Suc 146096"
  by (simp add: MAX_SEARCH_DAYS_def)

lemma next_after_today:
  "scan_date ch S a (ch_date_naive ch a) = Some t \<Longrightarrow> next_after ch S a = Ok t"
  unfolding next_after_def MAX_SEARCH_DAYS_Suc next_after_within.simps by simp

lemmas parse_eval = parse_schedule_def parse_field_def parse_item_def parse_step_def parse_base_def
  parse_number_def expand_alias_def split_whitespace_def str_trim_def ustr_def is_white_def
  MAX_SCHEDULE_BYTES_def str_split_def parse_usize_def is_digit_def digits_val_def u64_max_def
  step_range_def set_bits_def len_utf8_def Let_def


definition half_hours_at_one :: LocalSchedule where
  "half_hours_at_one =
     \<lparr>ls_minutes = 0x40000001, ls_hours = 2, ls_month_days = 0xFFFFFFFE, ls_months = 0x1FFE,
      ls_week_days = 0x7F, ls_month_day_wildcard = True, ls_week_day_wildcard = True\<rparr>"

lemma parse_half_hours: "parse_schedule (ustr ''0,30 1 * * *'') = Ok half_hours_at_one"
  by (simp add: parse_eval upt_eval half_hours_at_one_def)

lemmas scan_eval = scan_date_def scan_hour_def scan_minute_def date_matches_def Let_def
  ny_zone_def gregorian_zone_def ny_fall_day_def DAY_NS_def HOUR_NS_def
  civil_month_def civil_day_def civil_year_day_def

section \<open>Printing schedules\<close>

text \<open>
  The canonical syntax of a field: a comma-separated list of items, each \<open>*\<close>, \<open>a-b\<close> or \<open>a\<close> with
  an optional step. \<open>item_values\<close> is the set of values an item denotes, independently of the
  parser; a plain value with a step runs to the field's maximum, as in traditional cron.
\<close>

datatype cron_base = Base_Star | Base_Range nat nat | Base_Value nat

type_synonym cron_item = "cron_base \<times> nat option"

primrec show_base :: "cron_base \<Rightarrow> rstr" where
  "show_base Base_Star = ustr ''*''"
| "show_base (Base_Range a b) = dec_nat a @ uc CHR ''-'' # dec_nat b"
| "show_base (Base_Value a) = dec_nat a"

definition show_item :: "cron_item \<Rightarrow> rstr" where
  "show_item it = show_base (fst it) @
     (case snd it of None \<Rightarrow> [] | Some s \<Rightarrow> uc CHR ''/'' # dec_nat s)"

definition show_field :: "cron_item list \<Rightarrow> rstr" where
  "show_field its = str_join (uc CHR '','') (map show_item its)"

fun item_ok :: "nat \<Rightarrow> nat \<Rightarrow> cron_item \<Rightarrow> bool" where
  "item_ok lo hi (base, step) \<longleftrightarrow>
     (case base of Base_Star \<Rightarrow> True
      | Base_Range a b \<Rightarrow> lo \<le> a \<and> a \<le> b \<and> b \<le> hi
      | Base_Value a \<Rightarrow> lo \<le> a \<and> a \<le> hi) \<and>
     (case step of None \<Rightarrow> True | Some s \<Rightarrow> 0 < s \<and> s \<le> u64_max)"

fun item_values :: "nat \<Rightarrow> nat \<Rightarrow> cron_item \<Rightarrow> nat set" where
  "item_values lo hi (Base_Star, step) =
     {v. lo \<le> v \<and> v \<le> hi \<and> (v - lo) mod (case step of None \<Rightarrow> 1 | Some s \<Rightarrow> s) = 0}"
| "item_values lo hi (Base_Range a b, step) =
     {v. a \<le> v \<and> v \<le> b \<and> (v - a) mod (case step of None \<Rightarrow> 1 | Some s \<Rightarrow> s) = 0}"
| "item_values lo hi (Base_Value a, None) = {a}"
| "item_values lo hi (Base_Value a, Some s) = {v. a \<le> v \<and> v \<le> hi \<and> (v - a) mod s = 0}"

definition item_wild :: "cron_item \<Rightarrow> bool" where
  "item_wild it \<longleftrightarrow> fst it = Base_Star"

lemma sep_not_digit:
  "\<not> is_digit (uc CHR ''/'')" "\<not> is_digit (uc CHR ''-'')" "\<not> is_digit (uc CHR '','')"
  "\<not> is_digit (uc CHR ''*'')" "\<not> is_digit (uc CHR '' '')"
  by (simp_all add: is_digit_def)

lemmas dec_no_sep = sep_not_digit [THEN dec_nat_no_sep]

lemma show_base_no_sep:
  "uc CHR ''/'' \<notin> set (show_base b)" "uc CHR '','' \<notin> set (show_base b)"
  using dec_no_sep by (cases b; simp add: ustr_def)+

lemma show_base_nonempty [simp]: "show_base b \<noteq> []"
  by (cases b) (auto simp: ustr_def)

lemma show_item_nonempty [simp]: "show_item it \<noteq> []"
  by (simp add: show_item_def)

lemma show_item_no_comma: "uc CHR '','' \<notin> set (show_item it)"
  using dec_no_sep show_base_no_sep by (auto simp: show_item_def split: option.splits)

lemma show_item_split:
  "str_split (uc CHR ''/'') (show_item (b, step)) =
     show_base b # (case step of None \<Rightarrow> [] | Some s \<Rightarrow> [dec_nat s])"
  using dec_no_sep(1) show_base_no_sep(1)
  by (auto simp: show_item_def str_split_no_sep str_split_append_sep split: option.splits)

lemma show_item_slash: "uc CHR ''/'' \<in> set (show_item (b, step)) \<longleftrightarrow> step \<noteq> None"
  using show_base_no_sep(1) by (auto simp: show_item_def split: option.splits)

lemma dec_nat_not_star: "dec_nat a \<noteq> ustr ''*''"
  using dec_no_sep(4) [of a] by (auto simp: ustr_def)

lemma range_not_star: "dec_nat a @ x # y \<noteq> ustr ''*''"
  using dec_nat_nonempty [of a] by (auto simp: ustr_def append_eq_Cons_conv)

lemma parse_number_dec:
  "lo \<le> a \<Longrightarrow> a \<le> hi \<Longrightarrow> hi \<le> u64_max \<Longrightarrow> parse_number (dec_nat a) lo hi = Ok a"
  by (simp add: parse_number_def parse_usize_dec_nat)

lemma parse_base_show:
  assumes "item_ok lo hi (b, step)" "hi \<le> u64_max"
  shows "parse_base (show_item (b, step)) (show_base b) lo hi =
    Ok (case b of Base_Star \<Rightarrow> (lo, hi, True) | Base_Range x y \<Rightarrow> (x, y, False)
        | Base_Value x \<Rightarrow> (x, if step = None then x else hi, False))"
  using assms dec_no_sep(2)
  by (cases b)
    (auto simp: parse_base_def split_once_append_sep split_once_no_sep parse_number_dec
      show_item_slash [simplified] dec_nat_not_star range_not_star)

lemma parse_item_show:
  assumes ok: "item_ok lo hi it" and hi: "hi \<le> u64_max"
  shows "\<exists>vs. parse_item (show_item it) lo hi = Ok (vs, item_wild it) \<and> set vs = item_values lo hi it"
proof -
  obtain b step where it: "it = (b, step)" by fastforce
  let ?s = "case step of None \<Rightarrow> 1 | Some s \<Rightarrow> s"
  have s: "parse_step (case step of None \<Rightarrow> [] | Some s \<Rightarrow> [dec_nat s]) = Ok ?s" "0 < ?s"
    using ok by (auto simp: it parse_step_def parse_usize_dec_nat split: option.splits)
  show ?thesis
    using parse_base_show [OF ok [unfolded it] hi] s
    by (cases b; cases step)
      (auto simp: it parse_item_def show_item_split [simplified] Let_def item_wild_def set_step_range)
qed

lemma parse_items_show:
  assumes "\<forall>it \<in> set its. item_ok lo hi it" "hi \<le> u64_max"
  shows "\<exists>msk'. parse_items (map show_item its) lo hi msk w =
      Ok (msk', w \<or> (\<exists>it \<in> set its. item_wild it)) \<and>
    (\<forall>k. bit msk' k \<longleftrightarrow> bit msk k \<or> (k < 64 \<and> (\<exists>it \<in> set its. k \<in> item_values lo hi it)))"
  using assms
proof (induction its arbitrary: msk w)
  case (Cons it its)
  then obtain vs where vs: "parse_item (show_item it) lo hi = Ok (vs, item_wild it)"
    "set vs = item_values lo hi it"
    using parse_item_show by (metis list.set_intros(1))
  with Cons.IH [of "set_bits vs msk" "w \<or> item_wild it"] Cons.prems show ?case
    by (auto simp: bit_set_bits)
qed simp

lemma parse_field_show:
  assumes "its \<noteq> []" "\<forall>it \<in> set its. item_ok lo hi it" "lo \<le> hi" "hi < 64"
  shows "\<exists>msk. parse_field (show_field its) lo hi = Ok (msk, \<exists>it \<in> set its. item_wild it) \<and>
    (\<forall>k. bit msk k \<longleftrightarrow> (\<exists>it \<in> set its. k \<in> item_values lo hi it))"
proof -
  have hi: "hi \<le> u64_max" using assms(4) by (simp add: u64_max_def)
  have in64: "k < 64" if "it \<in> set its" "k \<in> item_values lo hi it" for it k
    using that assms(2,4) by (cases "(lo, hi, it)" rule: item_values.cases) force+
  obtain msk where msk: "parse_items (map show_item its) lo hi 0 False =
      Ok (msk, \<exists>it \<in> set its. item_wild it)"
    "\<forall>k. bit msk k \<longleftrightarrow> k < 64 \<and> (\<exists>it \<in> set its. k \<in> item_values lo hi it)"
    using parse_items_show [OF assms(2) hi, of 0 False] by auto
  have split: "str_split (uc CHR '','') (show_field its) = map show_item its"
    using assms(1) show_item_no_comma by (auto simp: show_field_def intro!: str_split_join)
  obtain it where it: "it \<in> set its" using assms(1) by (cases its) auto
  have "\<exists>k. k \<in> item_values lo hi it"
    using assms(2,3) it by (cases "(lo, hi, it)" rule: item_values.cases) force+
  then have "msk \<noteq> 0" using msk(2) it in64 by fastforce
  with msk split in64 show ?thesis by (auto simp: parse_field_def)
qed

definition field_ok :: "nat \<Rightarrow> nat \<Rightarrow> cron_item list \<Rightarrow> bool" where
  "field_ok lo hi its \<longleftrightarrow> its \<noteq> [] \<and> list_all (item_ok lo hi) its"

definition field_denotes :: "nat \<Rightarrow> nat \<Rightarrow> cron_item list \<Rightarrow> 64 word \<Rightarrow> bool" where
  "field_denotes lo hi its msk \<longleftrightarrow> (\<forall>k. bit msk k \<longleftrightarrow> (\<exists>it \<in> set its. k \<in> item_values lo hi it))"

definition show_schedule :: "cron_item list list \<Rightarrow> rstr" where
  "show_schedule fs = str_join (uc CHR '' '') (map show_field fs)"

definition field_char :: "uchar \<Rightarrow> bool" where
  "field_char c \<longleftrightarrow> is_digit c \<or> c \<in> {uc CHR ''*'', uc CHR ''-'', uc CHR ''/'', uc CHR '',''}"

lemma field_char_not_white: "field_char c \<Longrightarrow> \<not> is_white c \<and> c \<noteq> uc CHR ''@''"
  by (auto simp: field_char_def is_white_def is_digit_def)

lemma show_item_chars: "c \<in> set (show_item it) \<Longrightarrow> field_char c"
  by (cases "fst it")
    (auto simp: show_item_def field_char_def ustr_def dest: dec_nat_digits split: option.splits)

lemma show_field_chars: "c \<in> set (show_field its) \<Longrightarrow> field_char c"
proof -
  assume "c \<in> set (show_field its)"
  then have "c = uc CHR '','' \<or> (\<exists>it \<in> set its. c \<in> set (show_item it))"
    using set_str_join [of "uc CHR '',''" "map show_item its"] unfolding show_field_def by force
  then show ?thesis using show_item_chars by (auto simp: field_char_def [of 44])
qed

lemma str_join_nonempty: "ss \<noteq> [] \<Longrightarrow> \<forall>s \<in> set ss. s \<noteq> [] \<Longrightarrow> str_join c ss \<noteq> []"
  by (induction c ss rule: str_join.induct) auto

lemma show_field_nonempty: "its \<noteq> [] \<Longrightarrow> show_field its \<noteq> []"
  unfolding show_field_def by (rule str_join_nonempty) auto

lemma hd_str_join: "ss \<noteq> [] \<Longrightarrow> \<forall>s \<in> set ss. s \<noteq> [] \<Longrightarrow> hd (str_join c ss) = hd (hd ss)"
  by (induction c ss rule: str_join.induct) auto

lemma last_str_join: "ss \<noteq> [] \<Longrightarrow> \<forall>s \<in> set ss. s \<noteq> [] \<Longrightarrow> last (str_join c ss) = last (last ss)"
  by (induction c ss rule: str_join.induct) (auto simp: str_join_nonempty)

lemma split_whitespace_join:
  assumes "\<forall>s \<in> set ss. s \<noteq> [] \<and> (\<forall>c \<in> set s. \<not> is_white c)" "ss \<noteq> []"
  shows "split_whitespace (str_join (uc CHR '' '') ss) = ss"
proof -
  have "str_split_by is_white (str_join (uc CHR '' '') ss) = ss"
    using assms
    by (induction "uc CHR '' ''" ss rule: str_join.induct)
      (auto simp: str_split_by_no_sep str_split_by_append_sep is_white_def [of 32])
  with assms(1) show ?thesis by (simp add: split_whitespace_def filter_id_conv)
qed

lemma expand_alias_id: "hd s \<noteq> uc CHR ''@'' \<Longrightarrow> expand_alias s = s"
  by (auto simp: expand_alias_def ustr_def)

lemma fields_of_show_schedule:
  assumes "\<forall>f \<in> set fs. f \<noteq> []" "fs \<noteq> []"
  shows "split_whitespace (expand_alias (str_trim (show_schedule fs))) = map show_field fs"
proof -
  let ?s = "show_schedule fs" and ?fs = "map show_field fs"
  have ne: "\<forall>s \<in> set ?fs. s \<noteq> []" "?fs \<noteq> []"
    using assms by (auto dest: show_field_nonempty)
  have chars: "\<forall>s \<in> set ?fs. \<forall>c \<in> set s. \<not> is_white c \<and> c \<noteq> uc CHR ''@''"
    by (auto dest!: show_field_chars field_char_not_white)
  have in_fs: "hd ?fs \<in> set ?fs" "last ?fs \<in> set ?fs"
    using hd_in_set [OF ne(2)] last_in_set [OF ne(2)] by blast+
  then have "hd (hd ?fs) \<in> set (hd ?fs)" "last (last ?fs) \<in> set (last ?fs)"
    using ne(1) hd_in_set last_in_set by blast+
  moreover have "hd ?s = hd (hd ?fs)" "last ?s = last (last ?fs)"
    using hd_str_join [OF ne(2,1)] last_str_join [OF ne(2,1)] by (simp_all add: show_schedule_def)
  ultimately have "\<not> is_white (hd ?s)" "hd ?s \<noteq> uc CHR ''@''" "\<not> is_white (last ?s)"
    using chars in_fs by metis+
  moreover have "?s \<noteq> []" using str_join_nonempty [OF ne(2,1)] by (simp add: show_schedule_def)
  ultimately have "expand_alias (str_trim ?s) = ?s"
    by (simp add: str_trim_id expand_alias_id)
  moreover have "split_whitespace ?s = ?fs"
    unfolding show_schedule_def using chars ne by (intro split_whitespace_join) auto
  ultimately show ?thesis by simp
qed

text \<open>
  C38. Printing a well-formed schedule and parsing the text gives back exactly the values its five
  fields denote: \<open>LocalSchedule::parse\<close> accepts lists, ranges, wildcards and steps with the
  traditional meaning, and flags a day field as a wildcard exactly when it has a \<open>*\<close> item.
\<close>

theorem parse_show_schedule:
  assumes "field_ok 0 59 mi" "field_ok 0 23 ho" "field_ok 1 31 dm" "field_ok 1 12 mo" "field_ok 0 6 dow"
    and "str_len (show_schedule [mi, ho, dm, mo, dow]) \<le> MAX_SCHEDULE_BYTES"
  shows "\<exists>S. parse_schedule (show_schedule [mi, ho, dm, mo, dow]) = Ok S \<and>
    field_denotes 0 59 mi (ls_minutes S) \<and> field_denotes 0 23 ho (ls_hours S) \<and>
    field_denotes 1 31 dm (ls_month_days S) \<and> field_denotes 1 12 mo (ls_months S) \<and>
    field_denotes 0 6 dow (ls_week_days S) \<and>
    ls_month_day_wildcard S = list_ex item_wild dm \<and> ls_week_day_wildcard S = list_ex item_wild dow"
proof -
  let ?fs = "[mi, ho, dm, mo, dow]"
  have field: "\<exists>msk. parse_field (show_field its) lo hi = Ok (msk, list_ex item_wild its) \<and>
      field_denotes lo hi its msk" if "field_ok lo hi its" "lo \<le> hi" "hi < 64" for lo hi its
    using parse_field_show [of its lo hi] that
    by (auto simp: field_ok_def field_denotes_def list_all_iff list_ex_iff)
  obtain m1 where 1: "parse_field (show_field mi) 0 59 = Ok (m1, list_ex item_wild mi)"
      "field_denotes 0 59 mi m1" using field [OF assms(1)] by auto
  obtain m2 where 2: "parse_field (show_field ho) 0 23 = Ok (m2, list_ex item_wild ho)"
      "field_denotes 0 23 ho m2" using field [OF assms(2)] by auto
  obtain m3 where 3: "parse_field (show_field dm) 1 31 = Ok (m3, list_ex item_wild dm)"
      "field_denotes 1 31 dm m3" using field [OF assms(3)] by auto
  obtain m4 where 4: "parse_field (show_field mo) 1 12 = Ok (m4, list_ex item_wild mo)"
      "field_denotes 1 12 mo m4" using field [OF assms(4)] by auto
  obtain m5 where 5: "parse_field (show_field dow) 0 6 = Ok (m5, list_ex item_wild dow)"
      "field_denotes 0 6 dow m5" using field [OF assms(5)] by auto
  have ne: "\<forall>f \<in> set ?fs. f \<noteq> []" using assms(1-5) by (auto simp: field_ok_def)
  have "show_schedule ?fs \<noteq> []"
    using show_field_nonempty [of mi] ne by (auto simp: show_schedule_def)
  moreover have "split_whitespace (expand_alias (str_trim (show_schedule ?fs))) = map show_field ?fs"
    using ne by (intro fields_of_show_schedule) auto
  ultimately have "parse_schedule (show_schedule ?fs) =
      Ok \<lparr>ls_minutes = m1, ls_hours = m2, ls_month_days = m3, ls_months = m4, ls_week_days = m5,
          ls_month_day_wildcard = list_ex item_wild dm, ls_week_day_wildcard = list_ex item_wild dow\<rparr>"
    using assms(6) 1(1) 2(1) 3(1) 4(1) 5(1) by (simp add: parse_schedule_def)
  with 1(2) 2(2) 3(2) 4(2) 5(2) show ?thesis by auto
qed

theorem parse_show_schedule_witness:
  "\<exists>S. parse_schedule (show_schedule
      [[(Base_Value 0, None), (Base_Value 30, None)], [(Base_Range 8 18, Some 2)],
       [(Base_Star, None)], [(Base_Star, None)], [(Base_Range 1 5, None)]]) = Ok S \<and>
    field_denotes 0 23 [(Base_Range 8 18, Some 2)] (ls_hours S)"
  using parse_show_schedule [of "[(Base_Value 0, None), (Base_Value 30, None)]"
      "[(Base_Range 8 18, Some 2)]" "[(Base_Star, None)]" "[(Base_Star, None)]" "[(Base_Range 1 5, None)]"]
  by (auto simp: field_ok_def show_schedule_def show_field_def show_item_def ustr_def
      dec_nat.simps len_utf8_def MAX_SCHEDULE_BYTES_def u64_max_def)

section \<open>Properties\<close>

text \<open>
  Every schedule the parser accepts has five non-empty masks whose bits lie in the range of
  their field, so the shifts and bit tests of the calendar search never leave the 64-bit masks.
\<close>

theorem parse_schedule_bounds:
  assumes "parse_schedule e = Ok S"
  shows "schedule_wf S"
  using assms by (rule parse_schedule_wf_aux)

theorem parse_schedule_bounds_witness: "schedule_wf half_hours_at_one"
  using parse_half_hours by (rule parse_schedule_bounds)

text \<open>
  C9. An instant returned by \<open>next_after\<close> is strictly after the reference time, is selected by
  the schedule on the first date from the reference date on that still has an occurrence, and
  every occurrence on an earlier date of the search has passed. This holds for every calendar
  and time zone.
\<close>

theorem next_after_first_date:
  assumes "next_after ch S a = Ok t"
  shows "a < t \<and> (\<exists>n d. n < MAX_SEARCH_DAYS \<and> nth_date ch n (ch_date_naive ch a) = Some d \<and>
    fires_on ch S d t \<and>
    (\<forall>k < n. \<forall>e u. nth_date ch k (ch_date_naive ch a) = Some e \<longrightarrow> fires_on ch S e u \<longrightarrow> u \<le> a))"
  using assms by (rule next_after_sound)

lemma next_after_ny:
  "next_after ny_zone half_hours_at_one (ny_fall_day * DAY_NS + 5 * HOUR_NS) =
     Ok (ny_fall_day * DAY_NS + 6 * HOUR_NS)"
  by (rule next_after_today) (simp add: scan_eval half_hours_at_one_def upt_eval)

lemma next_after_utc:
  "next_after (gregorian_zone 0) half_hours_at_one (ny_fall_day * DAY_NS + HOUR_NS) =
     Ok (ny_fall_day * DAY_NS + HOUR_NS + 1800 * 10 ^ 9)"
  by (rule next_after_today) (simp add: scan_eval half_hours_at_one_def upt_eval)

lemma next_after_utc_midnight:
  "next_after (gregorian_zone 0) half_hours_at_one (ny_fall_day * DAY_NS) = Ok (ny_fall_day * DAY_NS + HOUR_NS)"
  by (rule next_after_today) (simp add: scan_eval half_hours_at_one_def upt_eval)

lemma fires_utc:
  "fires_on (gregorian_zone 0) half_hours_at_one (ny_fall_day + 1) ((ny_fall_day + 1) * DAY_NS + HOUR_NS)"
  unfolding fires_on_def fires_at_def
  by (rule exI [of _ 1], rule exI [of _ 0]) (simp add: scan_eval half_hours_at_one_def)

theorem next_after_first_date_witness:
  "ny_fall_day * DAY_NS + 5 * HOUR_NS < ny_fall_day * DAY_NS + 6 * HOUR_NS \<and>
   (\<exists>n d. n < MAX_SEARCH_DAYS \<and>
     nth_date ny_zone n (ch_date_naive ny_zone (ny_fall_day * DAY_NS + 5 * HOUR_NS)) = Some d \<and>
     fires_on ny_zone half_hours_at_one d (ny_fall_day * DAY_NS + 6 * HOUR_NS))"
  using next_after_first_date [OF next_after_ny] by blast

text \<open>
  C39. Completeness of the search: when \<open>next_after\<close> reports an error, no date of the 400-year
  search window has an occurrence after the reference time.
\<close>

theorem next_after_error_complete:
  assumes "next_after ch S a = Err x" "k < MAX_SEARCH_DAYS"
    and "nth_date ch k (ch_date_naive ch a) = Some e" "fires_on ch S e u"
  shows "u \<le> a"
  using assms by (rule next_after_Err_none)

definition last_day_zone :: "(int, int \<times> nat \<times> nat \<times> nat) chrono" where
  "last_day_zone = (gregorian_zone 0)\<lparr>ch_succ_opt := (\<lambda>d. if d < ny_fall_day then Some (d + 1) else None)\<rparr>"

lemma next_after_last_day:
  "next_after last_day_zone half_hours_at_one (ny_fall_day * DAY_NS + 5 * HOUR_NS) = Err NoFutureOccurrence"
  unfolding next_after_def MAX_SEARCH_DAYS_Suc next_after_within.simps
  by (simp add: last_day_zone_def scan_eval half_hours_at_one_def upt_eval)

theorem next_after_error_complete_witness:
  "ny_fall_day * DAY_NS + HOUR_NS \<le> ny_fall_day * DAY_NS + 5 * HOUR_NS"
proof (rule next_after_error_complete [OF next_after_last_day, of 0 ny_fall_day])
  show "0 < MAX_SEARCH_DAYS" by (simp add: MAX_SEARCH_DAYS_def)
  show "nth_date last_day_zone 0 (ch_date_naive last_day_zone (ny_fall_day * DAY_NS + 5 * HOUR_NS)) =
      Some ny_fall_day"
    by (simp add: last_day_zone_def scan_eval)
  show "fires_on last_day_zone half_hours_at_one ny_fall_day (ny_fall_day * DAY_NS + HOUR_NS)"
    unfolding fires_on_def fires_at_def
    by (rule exI [of _ 1], rule exI [of _ 0]) (simp add: last_day_zone_def scan_eval half_hours_at_one_def)
qed

text \<open>
  In a zone with a fixed offset from UTC, \<open>next_after\<close> returns the least instant after the
  reference time at which the schedule fires, over all dates.
\<close>

theorem next_after_least_fixed_zone:
  assumes "fixed_zone ch day_no offset" "next_after ch S a = Ok t" "fires_on ch S e u" "a < u"
  shows "t \<le> u"
  using assms by (rule fixed_zone.next_after_least)

theorem next_after_least_fixed_zone_witness:
  "ny_fall_day * DAY_NS + HOUR_NS + 1800 * 10 ^ 9 \<le> (ny_fall_day + 1) * DAY_NS + HOUR_NS"
  by (rule next_after_least_fixed_zone [OF greg.fixed_zone_axioms next_after_utc fires_utc])
    (simp add: DAY_NS_def algebra_simps)

text \<open>
  In the repeated hour of a fall-back transition \<open>next_after\<close> is not the next occurrence: from
  the first 01:00 the schedule \<open>0,30 1 * * *\<close> goes to the second 01:00, and the first 01:30,
  half an hour after the reference time and also an occurrence, is passed over.
\<close>

theorem next_after_skips_repeated_hour:
  "parse_schedule (ustr ''0,30 1 * * *'') = Ok half_hours_at_one \<and>
   next_after ny_zone half_hours_at_one (ny_fall_day * DAY_NS + 5 * HOUR_NS) =
     Ok (ny_fall_day * DAY_NS + 6 * HOUR_NS) \<and>
   fires_on ny_zone half_hours_at_one ny_fall_day (ny_fall_day * DAY_NS + 5 * HOUR_NS + 1800 * 10 ^ 9)"
proof -
  have "fires_on ny_zone half_hours_at_one ny_fall_day (ny_fall_day * DAY_NS + 5 * HOUR_NS + 1800 * 10 ^ 9)"
    unfolding fires_on_def fires_at_def
    by (rule exI [of _ 1], rule exI [of _ 30]) (simp add: scan_eval half_hours_at_one_def)
  with parse_half_hours next_after_ny show ?thesis by simp
qed


end
