(* ===== verification/Daemon_Config.thy ===== *)
theory Daemon_Config
  imports Cron_Schedule Wire_Validate
begin

text \<open>
  The daemon configuration of \<open>crates/greggd/src/config.rs\<close>: \<open>Config\<close>, \<open>ScheduledJobConfig\<close>,
  their validation, the effective load-gate settings, the privileged-job check and the parsing
  entry point. TOML decoding is the third-party crate \<open>toml\<close> and is a parameter of \<open>parse_config\<close>;
  the calendar is the parameter \<open>ch\<close> of the schedule component. The message strings of the
  source are the constructors of \<open>job_error\<close> and \<open>ConfigViolation\<close>.

  The lemmas state what the scheduler may rely on once a configuration validates
  (\<open>job_config_wf\<close>), and that the name bound is in characters while the wire bound is in bytes.
\<close>

section \<open>Configuration data\<close>

definition MIN_SAMPLE_INTERVAL_MS :: nat where "MIN_SAMPLE_INTERVAL_MS = 250"

definition MAX_SAMPLE_INTERVAL_MS :: nat where "MAX_SAMPLE_INTERVAL_MS = 60000"

definition MAX_NAME_LEN :: nat where "MAX_NAME_LEN = 128"

definition MAX_JOBS :: nat where "MAX_JOBS = 64"

definition MAX_JOB_NAME_CHARS :: nat where "MAX_JOB_NAME_CHARS = 96"

definition MAX_COMMAND_ARGS :: nat where "MAX_COMMAND_ARGS = 64"

definition MAX_COMMAND_ARG_BYTES :: nat where "MAX_COMMAND_ARG_BYTES = 4096"

definition MIN_RETRY_INTERVAL_MS :: nat where "MIN_RETRY_INTERVAL_MS = 10000"

definition MAX_RETRY_INTERVAL_MS :: nat where "MAX_RETRY_INTERVAL_MS = 3600000"

definition DEFAULT_RETRY_INTERVAL_MS :: nat where "DEFAULT_RETRY_INTERVAL_MS = 300000"

definition DEFAULT_MAX_WAIT_MS :: nat where "DEFAULT_MAX_WAIT_MS = 86400000"

definition MAX_MAX_WAIT_MS :: nat where "MAX_MAX_WAIT_MS = 604800000"

datatype ip_addr = V4 "32 word" | V6 "128 word"

datatype os_path = Utf8Path rstr | NonUtf8Path "byte list"

record ScheduledJobConfig =
  sj_name :: rstr
  sj_schedule :: rstr
  sj_command :: "rstr list"
  sj_working_dir :: "os_path option"
  sj_max_load :: "f32 option"
  sj_load_window :: "rstr option"
  sj_retry_interval_ms :: "nat option"
  sj_max_wait_ms :: "nat option"

record Config =
  cf_name :: rstr
  cf_host :: ip_addr
  cf_port :: nat
  cf_sample_interval_ms :: nat
  cf_stale_after_ms :: nat
  cf_allow_privileged_jobs :: bool
  cf_jobs :: "ScheduledJobConfig list"
  cf_scheduler_history_limit :: "nat option"

datatype JobPlatform = Unix | Windows

definition default_config :: Config where
  "default_config =
     \<lparr>cf_name = ustr ''greggd'', cf_host = V4 0, cf_port = 11310, cf_sample_interval_ms = 1000,
      cf_stale_after_ms = 10000, cf_allow_privileged_jobs = False, cf_jobs = [],
      cf_scheduler_history_limit = None\<rparr>"

datatype job_error =
    JobNameEmpty | JobNameTooLong | JobNameControl
  | ScheduleTooLong | ScheduleUnsatisfiable | ScheduleInvalid sched_error
  | CommandEmpty | CommandTooManyArgs | CommandArgTooLong nat | CommandArgControl nat
  | WorkingDirBad | WorkingDirNotUtf8
  | MaxLoadBad | LoadWindowRequiresMaxLoad | RetryRequiresMaxLoad | MaxWaitRequiresMaxLoad
  | LoadWindowBad | RetryOutOfRange | MaxWaitOutOfRange | RetryExceedsMaxWait
  | MaxLoadUnsupportedOnWindows

datatype jobs_violation = JobsTooMany nat | JobInvalid nat job_error | JobNameDuplicate nat rstr

datatype ConfigViolation =
    EmptyName
  | NameContainsControlCharacters
  | NameTooLong nat nat
  | InvalidPort nat
  | InvalidSampleInterval nat
  | StalenessBelowInterval nat nat
  | InvalidJobs jobs_violation
  | InvalidSchedulerHistoryLimit nat nat

datatype 'e ConfigError = ConfigParse 'e | ConfigValidation "ConfigViolation list" | PrivilegedJobsOptInRequired

section \<open>Effective settings\<close>

definition scheduler_history_limit :: "Config \<Rightarrow> nat" where
  "scheduler_history_limit c =
     (case cf_scheduler_history_limit c of None \<Rightarrow> DEFAULT_SCHEDULER_HISTORY_LIMIT | Some n \<Rightarrow> n)"

definition effective_load_window :: "ScheduledJobConfig \<Rightarrow> rstr" where
  "effective_load_window j =
     (let w = (case sj_load_window j of None \<Rightarrow> ustr ''15m'' | Some w \<Rightarrow> w) in
      if w = ustr ''1m'' then ustr ''1m'' else if w = ustr ''5m'' then ustr ''5m'' else ustr ''15m'')"

definition effective_retry_interval_ms :: "ScheduledJobConfig \<Rightarrow> nat" where
  "effective_retry_interval_ms j =
     (case sj_retry_interval_ms j of None \<Rightarrow> DEFAULT_RETRY_INTERVAL_MS | Some n \<Rightarrow> n)"

definition effective_max_wait_ms :: "ScheduledJobConfig \<Rightarrow> nat" where
  "effective_max_wait_ms j = (case sj_max_wait_ms j of None \<Rightarrow> DEFAULT_MAX_WAIT_MS | Some n \<Rightarrow> n)"

section \<open>Validation\<close>

definition validate_job_name :: "ScheduledJobConfig \<Rightarrow> job_error list" where
  "validate_job_name j =
     (if str_trim (sj_name j) = [] then [JobNameEmpty] else []) @
     (if length (sj_name j) > MAX_JOB_NAME_CHARS then [JobNameTooLong] else []) @
     (if list_ex is_control (sj_name j) then [JobNameControl] else [])"

definition validate_job_schedule :: "('d, 'c) chrono \<Rightarrow> ScheduledJobConfig \<Rightarrow> job_error list" where
  "validate_job_schedule ch j =
     (if str_len (sj_schedule j) > MAX_SCHEDULE_BYTES then [ScheduleTooLong]
      else case parse_schedule (sj_schedule j) of
        Ok S \<Rightarrow> if \<not> is_satisfiable ch S then [ScheduleUnsatisfiable] else []
      | Err e \<Rightarrow> [ScheduleInvalid e])"

fun validate_args :: "nat \<Rightarrow> rstr list \<Rightarrow> job_error list" where
  "validate_args index [] = []"
| "validate_args index (v # vs) =
     (if str_len v > MAX_COMMAND_ARG_BYTES then [CommandArgTooLong index] else []) @
     (if list_ex is_control v then [CommandArgControl index] else []) @
     validate_args (Suc index) vs"

definition validate_job_command :: "ScheduledJobConfig \<Rightarrow> job_error list" where
  "validate_job_command j =
     (if sj_command j = [] \<or> hd (sj_command j) = [] then [CommandEmpty] else []) @
     (if length (sj_command j) > MAX_COMMAND_ARGS then [CommandTooManyArgs] else []) @
     validate_args 0 (sj_command j)"

definition validate_job_working_dir :: "ScheduledJobConfig \<Rightarrow> job_error list" where
  "validate_job_working_dir j =
     (case sj_working_dir j of
        None \<Rightarrow> []
      | Some (Utf8Path v) \<Rightarrow> if v \<noteq> [] \<and> \<not> list_ex is_control v then [] else [WorkingDirBad]
      | Some (NonUtf8Path _) \<Rightarrow> [WorkingDirNotUtf8])"

definition validate_job_load :: "JobPlatform \<Rightarrow> ScheduledJobConfig \<Rightarrow> job_error list" where
  "validate_job_load platform j =
     (case sj_max_load j of
        Some load \<Rightarrow> if \<not> f32_is_finite load \<or> f32_lt load (F32_Fin 0) then [MaxLoadBad] else []
      | None \<Rightarrow>
          (if sj_load_window j \<noteq> None then [LoadWindowRequiresMaxLoad] else []) @
          (if sj_retry_interval_ms j \<noteq> None then [RetryRequiresMaxLoad] else []) @
          (if sj_max_wait_ms j \<noteq> None then [MaxWaitRequiresMaxLoad] else [])) @
     (if sj_max_load j \<noteq> None then
        (let retry = effective_retry_interval_ms j; max_wait = effective_max_wait_ms j in
         (case sj_load_window j of
            Some w \<Rightarrow> if w \<notin> {ustr ''1m'', ustr ''5m'', ustr ''15m''} then [LoadWindowBad] else []
          | None \<Rightarrow> []) @
         (if \<not> (MIN_RETRY_INTERVAL_MS \<le> retry \<and> retry \<le> MAX_RETRY_INTERVAL_MS) then [RetryOutOfRange] else []) @
         (if max_wait = 0 \<or> max_wait > MAX_MAX_WAIT_MS then [MaxWaitOutOfRange] else []) @
         (if retry > max_wait then [RetryExceedsMaxWait] else []) @
         (if platform = Windows then [MaxLoadUnsupportedOnWindows] else []))
      else [])"

definition validate_job :: "('d, 'c) chrono \<Rightarrow> JobPlatform \<Rightarrow> ScheduledJobConfig \<Rightarrow> job_error list" where
  "validate_job ch platform j =
     validate_job_name j @ validate_job_schedule ch j @ validate_job_command j @
     validate_job_working_dir j @ validate_job_load platform j"

text \<open>The job loop of \<open>validate_for\<close>, with the set of names inserted so far.\<close>

fun validate_jobs ::
  "('d, 'c) chrono \<Rightarrow> JobPlatform \<Rightarrow> nat \<Rightarrow> rstr set \<Rightarrow> ScheduledJobConfig list \<Rightarrow> ConfigViolation list" where
  "validate_jobs ch platform index names [] = []"
| "validate_jobs ch platform index names (j # js) =
     map (\<lambda>e. InvalidJobs (JobInvalid index e)) (validate_job ch platform j) @
     (if sj_name j \<in> names then [InvalidJobs (JobNameDuplicate index (sj_name j))] else []) @
     validate_jobs ch platform (Suc index) (insert (sj_name j) names) js"

definition validate_for :: "('d, 'c) chrono \<Rightarrow> JobPlatform \<Rightarrow> Config \<Rightarrow> ConfigViolation list" where
  "validate_for ch platform c =
     (let trimmed = str_trim (cf_name c) in
      if trimmed = [] then [EmptyName]
      else if list_ex is_control trimmed then [NameContainsControlCharacters]
      else if length trimmed > MAX_NAME_LEN then [NameTooLong (length trimmed) MAX_NAME_LEN] else []) @
     (if cf_port c = 0 then [InvalidPort (cf_port c)] else []) @
     (if cf_sample_interval_ms c < MIN_SAMPLE_INTERVAL_MS \<or> cf_sample_interval_ms c > MAX_SAMPLE_INTERVAL_MS
      then [InvalidSampleInterval (cf_sample_interval_ms c)] else []) @
     (if cf_stale_after_ms c > 0 \<and> cf_stale_after_ms c \<le> cf_sample_interval_ms c
      then [StalenessBelowInterval (cf_stale_after_ms c) (cf_sample_interval_ms c)] else []) @
     (if length (cf_jobs c) > MAX_JOBS then [InvalidJobs (JobsTooMany (length (cf_jobs c)))] else []) @
     (case cf_scheduler_history_limit c of
        Some limit \<Rightarrow>
          if limit > MAX_SCHEDULER_HISTORY_LIMIT
          then [InvalidSchedulerHistoryLimit limit MAX_SCHEDULER_HISTORY_LIMIT] else []
      | None \<Rightarrow> []) @
     validate_jobs ch platform 0 {} (cf_jobs c)"

definition parse_config ::
  "('d, 'c) chrono \<Rightarrow> JobPlatform \<Rightarrow> (rstr \<Rightarrow> (Config, 'e) result) \<Rightarrow> rstr \<Rightarrow> (Config, 'e ConfigError) result" where
  "parse_config ch platform from_toml content =
     (case from_toml content of
        Err e \<Rightarrow> Err (ConfigParse e)
      | Ok config \<Rightarrow>
          (let violations = validate_for ch platform config in
           if violations = [] then Ok config else Err (ConfigValidation violations)))"

definition validate_job_authority :: "Config \<Rightarrow> bool \<Rightarrow> (unit, 'e ConfigError) result" where
  "validate_job_authority c is_unix_root =
     (if is_unix_root \<and> cf_jobs c \<noteq> [] \<and> \<not> cf_allow_privileged_jobs c
      then Err PrivilegedJobsOptInRequired else Ok ())"

section \<open>What a valid configuration guarantees\<close>

definition load_config_wf :: "ScheduledJobConfig \<Rightarrow> bool" where
  "load_config_wf j \<longleftrightarrow>
     (case sj_max_load j of
        None \<Rightarrow> sj_load_window j = None \<and> sj_retry_interval_ms j = None \<and> sj_max_wait_ms j = None
      | Some load \<Rightarrow> f32_is_finite load \<and> f32_le (F32_Fin 0) load \<and>
          MIN_RETRY_INTERVAL_MS \<le> effective_retry_interval_ms j \<and>
          effective_retry_interval_ms j \<le> effective_max_wait_ms j \<and>
          effective_max_wait_ms j \<le> MAX_MAX_WAIT_MS)"

definition job_config_wf :: "('d, 'c) chrono \<Rightarrow> ScheduledJobConfig \<Rightarrow> bool" where
  "job_config_wf ch j \<longleftrightarrow>
     sj_name j \<noteq> [] \<and> length (sj_name j) \<le> MAX_JOB_NAME_CHARS \<and>
     str_len (sj_schedule j) \<le> MAX_SCHEDULER_SCHEDULE_BYTES \<and>
     (\<exists>S. parse_schedule (sj_schedule j) = Ok S \<and> schedule_wf S \<and> is_satisfiable ch S) \<and>
     sj_command j \<noteq> [] \<and> hd (sj_command j) \<noteq> [] \<and> load_config_wf j"

definition jobs_config_wf :: "('d, 'c) chrono \<Rightarrow> ScheduledJobConfig list \<Rightarrow> bool" where
  "jobs_config_wf ch js \<longleftrightarrow>
     length js \<le> MAX_JOBS \<and> distinct (map sj_name js) \<and> (\<forall>j \<in> set js. job_config_wf ch j)"

lemma effective_load_window_ok: "window_ok (effective_load_window j)"
  by (auto simp: window_ok_def effective_load_window_def Let_def)

lemma effective_load_window_configured:
  "sj_load_window j = Some w \<Longrightarrow> window_ok w \<Longrightarrow> effective_load_window j = w"
  by (auto simp: window_ok_def effective_load_window_def Let_def)

lemma f32_nonneg: "f32_is_finite x \<Longrightarrow> \<not> f32_lt x (F32_Fin 0) \<Longrightarrow> f32_le (F32_Fin 0) x"
  by (cases x) auto

lemma validate_job_load_wf: "validate_job_load platform j = [] \<Longrightarrow> load_config_wf j"
  by (auto simp: validate_job_load_def load_config_wf_def Let_def intro: f32_nonneg
      split: option.splits if_splits)

lemma validate_job_wf: "validate_job ch platform j = [] \<Longrightarrow> job_config_wf ch j"
  using validate_job_load_wf [of platform j]
  by (auto simp: validate_job_def job_config_wf_def validate_job_name_def validate_job_schedule_def
      validate_job_command_def MAX_SCHEDULE_BYTES_def MAX_SCHEDULER_SCHEDULE_BYTES_def str_trim_def
      intro: parse_schedule_wf_aux split: if_splits result.splits)

lemma validate_jobs_wf:
  "validate_jobs ch platform i names js = [] \<Longrightarrow>
     distinct (map sj_name js) \<and> names \<inter> sj_name ` set js = {} \<and> (\<forall>j \<in> set js. validate_job ch platform j = [])"
  by (induction ch platform i names js rule: validate_jobs.induct) (auto split: if_splits)

lemma validate_for_wf: "validate_for ch platform c = [] \<Longrightarrow> jobs_config_wf ch (cf_jobs c)"
  using validate_jobs_wf [of ch platform 0 "{}" "cf_jobs c"]
  by (auto simp: validate_for_def jobs_config_wf_def intro: validate_job_wf split: if_splits)

lemma validate_for_limit:
  "validate_for ch platform c = [] \<Longrightarrow> scheduler_history_limit c \<le> MAX_SCHEDULER_HISTORY_LIMIT"
  by (auto simp: validate_for_def scheduler_history_limit_def DEFAULT_SCHEDULER_HISTORY_LIMIT_def
      MAX_SCHEDULER_HISTORY_LIMIT_def split: if_splits option.splits)

section \<open>Properties\<close>

text \<open>A load-gated example job, used to instantiate the properties.\<close>

definition example_job :: "rstr \<Rightarrow> ScheduledJobConfig" where
  "example_job name =
     \<lparr>sj_name = name, sj_schedule = ustr ''0,30 1 * * *'', sj_command = [ustr ''/bin/true''],
      sj_working_dir = None, sj_max_load = Some (F32_Fin 8), sj_load_window = None,
      sj_retry_interval_ms = Some 10000, sj_max_wait_ms = Some 60000\<rparr>"

definition example_config :: "rstr \<Rightarrow> Config" where
  "example_config name = default_config\<lparr>cf_jobs := [example_job name]\<rparr>"

lemma half_hours_satisfiable: "is_satisfiable (gregorian_zone 0) half_hours_at_one"
proof -
  have "date_matches (gregorian_zone 0) half_hours_at_one (days_from_civil 2000 1 1)"
    by (simp add: days_from_civil_def half_hours_at_one_def scan_eval)
  then show ?thesis
    unfolding is_satisfiable_def MAX_SEARCH_DAYS_Suc
    by (simp add: gregorian_zone_def SATISFIABILITY_EPOCH_YEAR_def del: Suc_numeral)
qed

lemma example_config_valid:
  assumes "str_trim name \<noteq> []" "length name \<le> MAX_JOB_NAME_CHARS" "\<not> list_ex is_control name"
  shows "validate_for (gregorian_zone 0) Unix (example_config name) = []"
proof -
  have "parse_schedule (sj_schedule (example_job name)) = Ok half_hours_at_one"
    by (simp add: example_job_def parse_half_hours)
  moreover have "str_len (sj_schedule (example_job name)) \<le> MAX_SCHEDULE_BYTES"
    by (simp add: example_job_def ustr_def len_utf8_def MAX_SCHEDULE_BYTES_def)
  ultimately have "validate_job_schedule (gregorian_zone 0) (example_job name) = []"
    using half_hours_satisfiable by (simp add: validate_job_schedule_def)
  moreover have "validate_job_name (example_job name) = []"
    using assms by (simp add: validate_job_name_def example_job_def)
  moreover have "validate_job_command (example_job name) = []"
    by (simp add: validate_job_command_def example_job_def ustr_def len_utf8_def is_control_def
        MAX_COMMAND_ARGS_def MAX_COMMAND_ARG_BYTES_def)
  moreover have "validate_job_working_dir (example_job name) = []"
    by (simp add: validate_job_working_dir_def example_job_def)
  moreover have "validate_job_load Unix (example_job name) = []"
    by (simp add: validate_job_load_def example_job_def Let_def effective_retry_interval_ms_def
        effective_max_wait_ms_def MIN_RETRY_INTERVAL_MS_def MAX_RETRY_INTERVAL_MS_def MAX_MAX_WAIT_MS_def)
  ultimately have "validate_job (gregorian_zone 0) Unix (example_job name) = []"
    by (simp add: validate_job_def)
  then show ?thesis
    by (simp add: validate_for_def example_config_def default_config_def Let_def str_trim_def ustr_def
        is_white_def is_control_def MAX_NAME_LEN_def MIN_SAMPLE_INTERVAL_MS_def
        MAX_SAMPLE_INTERVAL_MS_def MAX_JOBS_def)
qed

text \<open>
  A configuration that loads gives the scheduler what it relies on: at most 64 jobs with
  distinct non-empty names, every schedule parsed and satisfiable by some calendar date, a command
  to run, a finite non-negative load threshold with a retry interval of at least ten seconds
  and at most the maximum wait, and a history limit within the frozen maximum.
\<close>

theorem loaded_config_guarantees:
  assumes "parse_config ch platform from_toml content = Ok c"
  shows "jobs_config_wf ch (cf_jobs c) \<and> scheduler_history_limit c \<le> MAX_SCHEDULER_HISTORY_LIMIT"
  using assms
  by (auto simp: parse_config_def Let_def validate_for_wf validate_for_limit split: result.splits if_splits)

theorem loaded_config_guarantees_witness:
  "jobs_config_wf (gregorian_zone 0) [example_job (ustr ''nightly'')]"
proof -
  let ?c = "example_config (ustr ''nightly'')"
  have "validate_for (gregorian_zone 0) Unix ?c = []"
    by (rule example_config_valid)
      (simp_all add: ustr_def str_trim_def is_white_def is_control_def MAX_JOB_NAME_CHARS_def)
  then have "parse_config (gregorian_zone 0) Unix (\<lambda>_. Ok ?c :: (Config, unit) result) [] = Ok ?c"
    by (simp add: parse_config_def)
  from loaded_config_guarantees [OF this] show ?thesis by (simp add: example_config_def)
qed

end
