(* ===== verification/Metrics_Wire.thy ===== *)
theory Metrics_Wire
  imports Wire_Scheduler
begin

text \<open>
  The metrics documents of both wire versions (\<open>crates/gregg-protocol/src/snapshot.rs\<close> and
  \<open>v2.rs\<close>) with the capped deserialization of their collections, and the snapshot the client
  normalizes both into (\<open>crates/gregg/src/normalized.rs\<close>).

  The lemmas show that the two ways of normalizing a document, by reference and by moving it,
  give the same snapshot.
\<close>

section \<open>Version 1\<close>

definition SCHEMA_VERSION_V1 :: nat where "SCHEMA_VERSION_V1 = 1"

record MetricCapabilities =
  mc_cpu_iowait :: bool

record SystemIdentity =
  si_name :: rstr
  si_hostname :: rstr
  si_os_name :: rstr
  si_os_version :: rstr
  si_kernel_name :: rstr
  si_kernel_release :: rstr
  si_architecture :: rstr

record CpuMetrics =
  cpu_logical_cores :: nat
  cpu_usage_pct :: f32
  cpu_iowait_pct :: "f32 option"

record LoadAverage =
  la_one :: f32
  la_five :: f32
  la_fifteen :: f32

record MemoryMetrics =
  mm_used_bytes :: nat
  mm_total_bytes :: nat
  mm_usage_pct :: f32

record SwapMetrics =
  sw_used_bytes :: nat
  sw_total_bytes :: nat
  sw_usage_pct :: f32

record StatusSnapshot =
  ss_schema_version :: nat
  ss_observed_at_unix_ms :: nat
  ss_sample_interval_ms :: nat
  ss_capabilities :: MetricCapabilities
  ss_system :: SystemIdentity
  ss_cpu :: CpuMetrics
  ss_load :: LoadAverage
  ss_memory :: MemoryMetrics
  ss_swap :: SwapMetrics

section \<open>Readiness\<close>

datatype ReadinessState = Ready | Warming | ReadinessFailed

section \<open>Version 2\<close>

definition MAX_DESERIALIZE_ENTRIES :: nat where "MAX_DESERIALIZE_ENTRIES = 64"

text \<open>The visitor of \<open>deserialize_capped_vec\<close> is the one of the scheduler documents, with its own cap.\<close>

definition deserialize_capped_vec :: "('a, 'e) result list \<Rightarrow> ('a list, 'e visit_error) result" where
  "deserialize_capped_vec sq = capped_visit_seq MAX_DESERIALIZE_ENTRIES [] sq"

definition deserialize_capped_opt_vec :: "('a, 'e) result list option \<Rightarrow> ('a list option, 'e visit_error) result" where
  "deserialize_capped_opt_vec sq =
     (case sq of None \<Rightarrow> Ok None | Some s \<Rightarrow> result_bind (deserialize_capped_vec s) (\<lambda>v. Ok (Some v)))"

record DriveMetrics =
  dm_name :: rstr
  dm_used_bytes :: nat
  dm_total_bytes :: nat
  dm_available_bytes :: "nat option"

record DiskIoMetrics =
  dio_id :: rstr
  dio_name :: rstr
  dio_read_bytes_per_sec :: nat
  dio_write_bytes_per_sec :: nat
  dio_drive_name :: "rstr option"

record DiskIoPayload =
  dp_aggregate_read_bytes_per_sec :: nat
  dp_aggregate_write_bytes_per_sec :: nat
  dp_devices :: "DiskIoMetrics list"

record NetworkInterfaceMetrics =
  ni_id :: rstr
  ni_name :: rstr
  ni_rx_bytes_per_sec :: nat
  ni_tx_bytes_per_sec :: nat
  ni_rx_capacity_bps :: "nat option"
  ni_tx_capacity_bps :: "nat option"
  ni_is_loopback :: bool
  ni_aggregate_member :: bool

record NetworkPayload =
  np_aggregate_rx_bytes_per_sec :: nat
  np_aggregate_tx_bytes_per_sec :: nat
  np_aggregate_rx_capacity_bps :: "nat option"
  np_aggregate_tx_capacity_bps :: "nat option"
  np_interfaces :: "NetworkInterfaceMetrics list"

record MetricCapabilitiesV2 =
  c2_cpu_iowait :: bool
  c2_load_average :: bool
  c2_swap :: bool
  c2_memory_commit :: bool

record CpuMetricsV2 =
  cp2_logical_cores :: nat
  cp2_usage_pct :: f32
  cp2_iowait_pct :: "f32 option"

record SwapMetricsV2 =
  s2_used_bytes :: nat
  s2_total_bytes :: nat
  s2_usage_pct :: f32

record CommitMetrics =
  co_used_bytes :: nat
  co_limit_bytes :: nat
  co_usage_pct :: f32

record StatusSnapshotV2 =
  st_schema_version :: nat
  st_observed_at_unix_ms :: nat
  st_sample_interval_ms :: nat
  st_capabilities :: MetricCapabilitiesV2
  st_system :: SystemIdentity
  st_cpu :: CpuMetricsV2
  st_load :: "LoadAverage option"
  st_memory :: MemoryMetrics
  st_swap :: "SwapMetricsV2 option"
  st_commit :: "CommitMetrics option"

record StatusPayloadV2 =
  sp_snapshot :: StatusSnapshotV2
  sp_drives :: "DriveMetrics list option"
  sp_cpu_frequency_hz :: "nat option"
  sp_disk_io :: "DiskIoPayload option"
  sp_network :: "NetworkPayload option"

section \<open>The normalized snapshot\<close>

record NormalizedDrive =
  nd_name :: rstr
  nd_used_bytes :: nat
  nd_total_bytes :: nat
  nd_available_bytes :: "nat option"

record NormalizedDiskIoDevice =
  ndd_id :: rstr
  ndd_name :: rstr
  ndd_read_bytes_per_sec :: nat
  ndd_write_bytes_per_sec :: nat
  ndd_drive_name :: "rstr option"

record NormalizedDiskIo =
  nio_aggregate_read_bytes_per_sec :: nat
  nio_aggregate_write_bytes_per_sec :: nat
  nio_devices :: "NormalizedDiskIoDevice list"

record NormalizedNetworkInterface =
  nni_id :: rstr
  nni_name :: rstr
  nni_rx_bytes_per_sec :: nat
  nni_tx_bytes_per_sec :: nat
  nni_rx_capacity_bps :: "nat option"
  nni_tx_capacity_bps :: "nat option"
  nni_is_loopback :: bool
  nni_aggregate_member :: bool

record NormalizedNetwork =
  nn_aggregate_rx_bytes_per_sec :: nat
  nn_aggregate_tx_bytes_per_sec :: nat
  nn_aggregate_rx_capacity_bps :: "nat option"
  nn_aggregate_tx_capacity_bps :: "nat option"
  nn_interfaces :: "NormalizedNetworkInterface list"

record NormalizedSwap =
  ns_used_bytes :: nat
  ns_total_bytes :: nat
  ns_usage_pct :: f32

record NormalizedCommit =
  nc_used_bytes :: nat
  nc_limit_bytes :: nat
  nc_usage_pct :: f32

record NormalizedSnapshot =
  no_wire_version :: nat
  no_observed_at_unix_ms :: nat
  no_sample_interval_ms :: nat
  no_cpu_iowait_supported :: bool
  no_load_supported :: bool
  no_swap_supported :: bool
  no_commit_supported :: bool
  no_system :: SystemIdentity
  no_logical_cores :: nat
  no_usage_pct :: f32
  no_iowait_pct :: "f32 option"
  no_cpu_frequency_hz :: "nat option"
  no_load :: "LoadAverage option"
  no_memory :: MemoryMetrics
  no_swap :: "NormalizedSwap option"
  no_commit :: "NormalizedCommit option"
  no_drives :: "NormalizedDrive list option"
  no_disk_io :: "NormalizedDiskIo option"
  no_network :: "NormalizedNetwork option"

definition from_v1 :: "StatusSnapshot \<Rightarrow> NormalizedSnapshot" where
  "from_v1 s =
     \<lparr>no_wire_version = SCHEMA_VERSION_V1, no_observed_at_unix_ms = ss_observed_at_unix_ms s,
      no_sample_interval_ms = ss_sample_interval_ms s, no_cpu_iowait_supported = mc_cpu_iowait (ss_capabilities s),
      no_load_supported = True, no_swap_supported = True, no_commit_supported = False, no_system = ss_system s,
      no_logical_cores = cpu_logical_cores (ss_cpu s), no_usage_pct = cpu_usage_pct (ss_cpu s),
      no_iowait_pct = cpu_iowait_pct (ss_cpu s), no_cpu_frequency_hz = None, no_load = Some (ss_load s),
      no_memory = ss_memory s,
      no_swap = Some \<lparr>ns_used_bytes = sw_used_bytes (ss_swap s), ns_total_bytes = sw_total_bytes (ss_swap s),
        ns_usage_pct = sw_usage_pct (ss_swap s)\<rparr>,
      no_commit = None, no_drives = None, no_disk_io = None, no_network = None\<rparr>"

text \<open>\<open>from_v1_owned\<close> takes the document apart first.\<close>

fun from_v1_owned :: "StatusSnapshot \<Rightarrow> NormalizedSnapshot" where
  "from_v1_owned \<lparr>ss_schema_version = _, ss_observed_at_unix_ms = observed, ss_sample_interval_ms = interval,
      ss_capabilities = capabilities, ss_system = system, ss_cpu = cpu, ss_load = load, ss_memory = memory,
      ss_swap = swap\<rparr> =
     \<lparr>no_wire_version = SCHEMA_VERSION_V1, no_observed_at_unix_ms = observed, no_sample_interval_ms = interval,
      no_cpu_iowait_supported = mc_cpu_iowait capabilities, no_load_supported = True, no_swap_supported = True,
      no_commit_supported = False, no_system = system, no_logical_cores = cpu_logical_cores cpu,
      no_usage_pct = cpu_usage_pct cpu, no_iowait_pct = cpu_iowait_pct cpu, no_cpu_frequency_hz = None,
      no_load = Some load, no_memory = memory,
      no_swap = Some \<lparr>ns_used_bytes = sw_used_bytes swap, ns_total_bytes = sw_total_bytes swap,
        ns_usage_pct = sw_usage_pct swap\<rparr>,
      no_commit = None, no_drives = None, no_disk_io = None, no_network = None\<rparr>"

definition normalize_drive :: "DriveMetrics \<Rightarrow> NormalizedDrive" where
  "normalize_drive d = \<lparr>nd_name = dm_name d, nd_used_bytes = dm_used_bytes d, nd_total_bytes = dm_total_bytes d,
     nd_available_bytes = dm_available_bytes d\<rparr>"

definition normalize_disk_io :: "DiskIoPayload \<Rightarrow> NormalizedDiskIo" where
  "normalize_disk_io p =
     \<lparr>nio_aggregate_read_bytes_per_sec = dp_aggregate_read_bytes_per_sec p,
      nio_aggregate_write_bytes_per_sec = dp_aggregate_write_bytes_per_sec p,
      nio_devices = map (\<lambda>d. \<lparr>ndd_id = dio_id d, ndd_name = dio_name d,
        ndd_read_bytes_per_sec = dio_read_bytes_per_sec d, ndd_write_bytes_per_sec = dio_write_bytes_per_sec d,
        ndd_drive_name = dio_drive_name d\<rparr>) (dp_devices p)\<rparr>"

definition normalize_network :: "NetworkPayload \<Rightarrow> NormalizedNetwork" where
  "normalize_network p =
     \<lparr>nn_aggregate_rx_bytes_per_sec = np_aggregate_rx_bytes_per_sec p,
      nn_aggregate_tx_bytes_per_sec = np_aggregate_tx_bytes_per_sec p,
      nn_aggregate_rx_capacity_bps = np_aggregate_rx_capacity_bps p,
      nn_aggregate_tx_capacity_bps = np_aggregate_tx_capacity_bps p,
      nn_interfaces = map (\<lambda>i. \<lparr>nni_id = ni_id i, nni_name = ni_name i,
        nni_rx_bytes_per_sec = ni_rx_bytes_per_sec i, nni_tx_bytes_per_sec = ni_tx_bytes_per_sec i,
        nni_rx_capacity_bps = ni_rx_capacity_bps i, nni_tx_capacity_bps = ni_tx_capacity_bps i,
        nni_is_loopback = ni_is_loopback i, nni_aggregate_member = ni_aggregate_member i\<rparr>) (np_interfaces p)\<rparr>"

definition from_v2_parts :: "StatusSnapshotV2 \<Rightarrow> NormalizedDrive list option \<Rightarrow> nat option \<Rightarrow> NormalizedDiskIo option \<Rightarrow>
    NormalizedNetwork option \<Rightarrow> NormalizedSnapshot" where
  "from_v2_parts s drives cpu_frequency_hz disk_io network =
     \<lparr>no_wire_version = 2, no_observed_at_unix_ms = st_observed_at_unix_ms s,
      no_sample_interval_ms = st_sample_interval_ms s, no_cpu_iowait_supported = c2_cpu_iowait (st_capabilities s),
      no_load_supported = c2_load_average (st_capabilities s), no_swap_supported = c2_swap (st_capabilities s),
      no_commit_supported = c2_memory_commit (st_capabilities s), no_system = st_system s,
      no_logical_cores = cp2_logical_cores (st_cpu s), no_usage_pct = cp2_usage_pct (st_cpu s),
      no_iowait_pct = cp2_iowait_pct (st_cpu s), no_cpu_frequency_hz = cpu_frequency_hz, no_load = st_load s,
      no_memory = st_memory s,
      no_swap = map_option (\<lambda>w. \<lparr>ns_used_bytes = s2_used_bytes w, ns_total_bytes = s2_total_bytes w,
        ns_usage_pct = s2_usage_pct w\<rparr>) (st_swap s),
      no_commit = map_option (\<lambda>c. \<lparr>nc_used_bytes = co_used_bytes c, nc_limit_bytes = co_limit_bytes c,
        nc_usage_pct = co_usage_pct c\<rparr>) (st_commit s),
      no_drives = drives, no_disk_io = disk_io, no_network = network\<rparr>"

definition from_v2 :: "StatusSnapshotV2 \<Rightarrow> NormalizedSnapshot" where
  "from_v2 s = from_v2_parts s None None None None"

definition from_v2_payload :: "StatusPayloadV2 \<Rightarrow> NormalizedSnapshot" where
  "from_v2_payload p =
     from_v2_parts (sp_snapshot p) (map_option (map normalize_drive) (sp_drives p)) (sp_cpu_frequency_hz p)
       (map_option normalize_disk_io (sp_disk_io p)) (map_option normalize_network (sp_network p))"

text \<open>The moving variants; \<open>normalize_disk_io_owned\<close> and \<open>normalize_network_owned\<close> take the payload apart.\<close>

fun normalize_disk_io_owned :: "DiskIoPayload \<Rightarrow> NormalizedDiskIo" where
  "normalize_disk_io_owned \<lparr>dp_aggregate_read_bytes_per_sec = r, dp_aggregate_write_bytes_per_sec = w, dp_devices = ds\<rparr> =
     \<lparr>nio_aggregate_read_bytes_per_sec = r, nio_aggregate_write_bytes_per_sec = w,
      nio_devices = map (\<lambda>d. \<lparr>ndd_id = dio_id d, ndd_name = dio_name d,
        ndd_read_bytes_per_sec = dio_read_bytes_per_sec d, ndd_write_bytes_per_sec = dio_write_bytes_per_sec d,
        ndd_drive_name = dio_drive_name d\<rparr>) ds\<rparr>"

fun normalize_network_owned :: "NetworkPayload \<Rightarrow> NormalizedNetwork" where
  "normalize_network_owned \<lparr>np_aggregate_rx_bytes_per_sec = rx, np_aggregate_tx_bytes_per_sec = tx,
      np_aggregate_rx_capacity_bps = rc, np_aggregate_tx_capacity_bps = tc, np_interfaces = is\<rparr> =
     \<lparr>nn_aggregate_rx_bytes_per_sec = rx, nn_aggregate_tx_bytes_per_sec = tx, nn_aggregate_rx_capacity_bps = rc,
      nn_aggregate_tx_capacity_bps = tc,
      nn_interfaces = map (\<lambda>i. \<lparr>nni_id = ni_id i, nni_name = ni_name i,
        nni_rx_bytes_per_sec = ni_rx_bytes_per_sec i, nni_tx_bytes_per_sec = ni_tx_bytes_per_sec i,
        nni_rx_capacity_bps = ni_rx_capacity_bps i, nni_tx_capacity_bps = ni_tx_capacity_bps i,
        nni_is_loopback = ni_is_loopback i, nni_aggregate_member = ni_aggregate_member i\<rparr>) is\<rparr>"

fun from_v2_payload_owned :: "StatusPayloadV2 \<Rightarrow> NormalizedSnapshot" where
  "from_v2_payload_owned \<lparr>sp_snapshot = \<lparr>st_schema_version = _, st_observed_at_unix_ms = observed,
       st_sample_interval_ms = interval, st_capabilities = capabilities, st_system = system, st_cpu = cpu,
       st_load = load, st_memory = memory, st_swap = swap, st_commit = commit\<rparr>,
     sp_drives = drives, sp_cpu_frequency_hz = frequency, sp_disk_io = disk_io, sp_network = network\<rparr> =
     \<lparr>no_wire_version = 2, no_observed_at_unix_ms = observed, no_sample_interval_ms = interval,
      no_cpu_iowait_supported = c2_cpu_iowait capabilities, no_load_supported = c2_load_average capabilities,
      no_swap_supported = c2_swap capabilities, no_commit_supported = c2_memory_commit capabilities,
      no_system = system, no_logical_cores = cp2_logical_cores cpu, no_usage_pct = cp2_usage_pct cpu,
      no_iowait_pct = cp2_iowait_pct cpu, no_cpu_frequency_hz = frequency, no_load = load, no_memory = memory,
      no_swap = map_option (\<lambda>w. \<lparr>ns_used_bytes = s2_used_bytes w, ns_total_bytes = s2_total_bytes w,
        ns_usage_pct = s2_usage_pct w\<rparr>) swap,
      no_commit = map_option (\<lambda>c. \<lparr>nc_used_bytes = co_used_bytes c, nc_limit_bytes = co_limit_bytes c,
        nc_usage_pct = co_usage_pct c\<rparr>) commit,
      no_drives = map_option (map normalize_drive) drives,
      no_disk_io = map_option normalize_disk_io_owned disk_io,
      no_network = map_option normalize_network_owned network\<rparr>"

section \<open>Moving and copying agree\<close>

lemma from_v1_owned_eq: "from_v1_owned s = from_v1 s"
  by (cases s) (simp add: from_v1_def)

lemma normalize_owned_eq: "normalize_disk_io_owned d = normalize_disk_io d" "normalize_network_owned n = normalize_network n"
  by (cases d, simp add: normalize_disk_io_def, cases n, simp add: normalize_network_def)

lemma from_v2_payload_owned_eq: "from_v2_payload_owned p = from_v2_payload p"
proof -
  obtain s d f i n where p: "p = \<lparr>sp_snapshot = s, sp_drives = d, sp_cpu_frequency_hz = f, sp_disk_io = i, sp_network = n\<rparr>"
    by (cases p)
  show ?thesis
    by (cases s) (simp add: p from_v2_payload_def from_v2_parts_def normalize_owned_eq [abs_def] cong: map_option_cong)
qed

end
