(* ===== verification/Sched_Engine.thy ===== *)
theory Sched_Engine
  imports Sched_Observer Daemon_Config Metrics_Wire "HOL-Library.Product_Lexorder"
begin

text \<open>
  The maintenance engine of the daemon (\<open>crates/greggd/src/scheduler.rs\<close>, \<open>Engine\<close>): due jobs become
  pending occurrences, load-gated occurrences wait and expire, the oldest eligible one takes the
  single child slot, and the rows of the published summary are derived from that state.

  The lemmas show which occurrence a tick launches, which ones it expires or defers, that the
  deadline computed after a tick lies in the future (the loop does not spin), that no occurrence is
  lost or duplicated by a tick, and that every published row is truthful.

  Monotonic instants and durations are natural numbers of nanoseconds, a \<open>DateTime\<close> is an integer
  number of nanoseconds since the Unix epoch; the readings of the clocks are arguments. A panic of
  \<open>expect\<close> is \<open>None\<close>. Log statements are left out.
\<close>

section \<open>State\<close>

record LoadGateState =
  ls_readiness :: ReadinessState
  ls_load :: "LoadAverage option"

definition LOAD_UNAVAILABLE :: LoadGateState where
  "LOAD_UNAVAILABLE = \<lparr>ls_readiness = Warming, ls_load = None\<rparr>"

record PendingOccurrence =
  po_since :: nat
  po_since_unix_ms :: nat
  po_scheduled :: int
  po_retry_at :: nat
  po_retry_at_unix_ms :: nat
  po_coalesced :: bool
  po_waiting_logged :: bool

record JobState =
  js_schedule :: LocalSchedule
  js_next_due :: int
  js_pending :: "PendingOccurrence option"
  js_last_gate :: "SchedulerLoadGateV2 option"

record 'b Engine =
  en_configs :: "ScheduledJobConfig list"
  en_states :: "JobState list"
  en_observer :: "'b SchedulerObserver"

record Launch =
  ln_index :: nat
  ln_pending_age :: nat
  ln_observed_load :: "f32 option"
  ln_load_window :: "rstr option"
  ln_scheduled :: int
  ln_coalesced :: bool

datatype engine_error = TooManyJobs | NoJobs | JobParse sched_error | JobSchedule rstr sched_error

section \<open>Clocks\<close>

definition MAX_CIVIL_RECHECK :: nat where "MAX_CIVIL_RECHECK = 60 * 10 ^ 9"

definition from_millis :: "nat \<Rightarrow> nat" where "from_millis ms = ms * 10 ^ 6"

definition bounded_wake_deadline :: "nat \<Rightarrow> nat \<Rightarrow> nat" where
  "bounded_wake_deadline semantic now = min semantic (now + MAX_CIVIL_RECHECK)"

definition duration_millis :: "nat \<Rightarrow> nat" where
  "duration_millis d = (let ms = d div 10 ^ 6 in if ms \<le> u64_max then ms else u64_max)"

text \<open>\<open>now_unix_ms\<close>, given the nanoseconds of \<open>SystemTime::now\<close> since the epoch.\<close>

definition now_unix_ms :: "int \<Rightarrow> nat" where
  "now_unix_ms t = (if t < 0 then 0 else let ms = nat t div 10 ^ 6 in if ms \<le> u64_max then ms else u64_max)"

text \<open>\<open>timestamp_millis().max(0).unsigned_abs()\<close>.\<close>

definition civil_unix_ms :: "int \<Rightarrow> nat" where
  "civil_unix_ms t = nat (max 0 (t div 10 ^ 6))"

section \<open>The load gate\<close>

definition load_gate ::
  "ScheduledJobConfig \<Rightarrow> LoadGateState \<Rightarrow> (bool \<times> rstr \<times> f32 option \<times> f32) option" where
  "load_gate config load =
     (case sj_max_load config of
        None \<Rightarrow> None
      | Some threshold \<Rightarrow>
          let window = effective_load_window config;
              observed =
                (case (ls_readiness load, ls_load load) of
                   (Ready, Some vs) \<Rightarrow>
                     Some (if window = ustr ''1m'' then la_one vs
                           else if window = ustr ''5m'' then la_five vs else la_fifteen vs)
                 | _ \<Rightarrow> None)
          in Some ((case observed of None \<Rightarrow> False | Some v \<Rightarrow> f32_is_finite v \<and> f32_le v threshold),
                   window, observed, threshold))"

definition gate_blocks :: "ScheduledJobConfig \<Rightarrow> LoadGateState \<Rightarrow> bool" where
  "gate_blocks config load \<longleftrightarrow>
     (case load_gate config load of None \<Rightarrow> False | Some (allowed, _) \<Rightarrow> \<not> allowed)"

definition gate_record :: "rstr \<Rightarrow> f32 option \<Rightarrow> f32 \<Rightarrow> SchedulerLoadGateV2" where
  "gate_record window observed threshold =
     \<lparr>lg_window = window, lg_threshold = threshold, lg_observed = observed\<rparr>"

section \<open>Construction and publication\<close>

definition job_state_new ::
  "('d, 'c) chrono \<Rightarrow> int \<Rightarrow> ScheduledJobConfig \<Rightarrow> (JobState, engine_error) result" where
  "job_state_new ch wall_now config =
     (case parse_schedule (sj_schedule config) of
        Err e \<Rightarrow> Err (JobParse e)
      | Ok schedule \<Rightarrow>
          (case next_after ch schedule wall_now of
             Err e \<Rightarrow> Err (JobSchedule (sj_name config) e)
           | Ok next_due \<Rightarrow> Ok \<lparr>js_schedule = schedule, js_next_due = next_due, js_pending = None,
               js_last_gate = None\<rparr>))"

text \<open>The process id, epoch counter and start reading are those the observer is created with.\<close>

definition engine_new ::
  "('d, 'c) chrono \<Rightarrow> 32 word \<Rightarrow> 64 word \<Rightarrow> int \<Rightarrow> ScheduledJobConfig list \<Rightarrow> int \<Rightarrow> nat \<Rightarrow>
   'b SchedulerPublication \<Rightarrow> ('b Engine, engine_error) result" where
  "engine_new ch pid counter clock configs wall_now history_limit publisher =
     (if length configs > MAX_JOBS then Err TooManyJobs
      else if configs = [] then Err NoJobs
      else case traverse_result (job_state_new ch wall_now) configs of
             Err e \<Rightarrow> Err e
           | Ok states \<Rightarrow>
               Ok \<lparr>en_configs = configs, en_states = states,
                   en_observer = observer_new pid counter (map sj_name configs) history_limit
                     (now_unix_ms clock) publisher\<rparr>)"

definition job_row ::
  "ScheduledJobConfig \<Rightarrow> JobState \<Rightarrow> nat option \<Rightarrow> SchedulerRunSummaryV2 option \<Rightarrow> SchedulerJobV2" where
  "job_row config st running_here last_run =
     (let deferred = (js_last_gate st \<noteq> None \<and> running_here = None \<and> js_pending st \<noteq> None) in
      \<lparr>jv_name = sj_name config, jv_schedule = sj_schedule config,
       jv_next_due_unix_ms = civil_unix_ms (js_next_due st),
       jv_state = job_state (running_here \<noteq> None) (js_pending st \<noteq> None)
         (if deferred then js_last_gate st else None),
       jv_load = js_last_gate st,
       jv_pending_since_unix_ms = map_option po_since_unix_ms (js_pending st),
       jv_next_retry_unix_ms =
         (if deferred then map_option po_retry_at_unix_ms (js_pending st) else None),
       jv_running_since_unix_ms = running_here,
       jv_last = last_run\<rparr>)"

definition running_at :: "(nat \<times> nat) option \<Rightarrow> nat \<Rightarrow> nat option" where
  "running_at running index =
     (case running of None \<Rightarrow> None | Some (active, started) \<Rightarrow> if active = index then Some started else None)"

definition engine_rows :: "'b Engine \<Rightarrow> (nat \<times> nat) option \<Rightarrow> SchedulerJobV2 list" where
  "engine_rows en running =
     map (\<lambda>(index, st). job_row (en_configs en ! index) st (running_at running index)
            (last_summary (en_observer en) index))
       (enumerate 0 (en_states en))"

definition engine_publish ::
  "(SchedulerSummaryV2 \<Rightarrow> 'b option) \<Rightarrow> (SchedulerHistoryV2 \<Rightarrow> 'b option) \<Rightarrow>
   int \<Rightarrow> (nat \<times> nat) option \<Rightarrow> 'b Engine \<Rightarrow> 'b Engine" where
  "engine_publish ser_s ser_h wall_now running en =
     en\<lparr>en_observer := snd (observer_publish ser_s ser_h (engine_rows en running)
          (civil_unix_ms wall_now) (en_observer en))\<rparr>"

section \<open>The tick\<close>

definition defer_state ::
  "(nat \<times> nat) option \<Rightarrow> nat \<Rightarrow> nat \<Rightarrow> LoadGateState \<Rightarrow> nat \<Rightarrow> ScheduledJobConfig \<Rightarrow> JobState \<Rightarrow> JobState" where
  "defer_state winner now unix_now load blocked config st =
     (case js_pending st of
        None \<Rightarrow> st
      | Some pending \<Rightarrow>
          if po_retry_at pending > now \<or>
             (case winner of None \<Rightarrow> False | Some w \<Rightarrow> (po_since pending, blocked) \<ge> w)
          then st
          else case load_gate config load of
                 None \<Rightarrow> st
               | Some (allowed, window, observed, threshold) \<Rightarrow>
                   if allowed then st
                   else st\<lparr>js_pending := Some (pending\<lparr>
                             po_waiting_logged := True,
                             po_retry_at := now + from_millis (effective_retry_interval_ms config),
                             po_retry_at_unix_ms := sat_add64 unix_now (effective_retry_interval_ms config)\<rparr>),
                           js_last_gate := Some (gate_record window observed threshold)\<rparr>)"

definition defer_blocked_before ::
  "(nat \<times> nat) option \<Rightarrow> nat \<Rightarrow> nat \<Rightarrow> LoadGateState \<Rightarrow> 'b Engine \<Rightarrow> 'b Engine" where
  "defer_blocked_before winner now unix_now load en =
     en\<lparr>en_states := map (\<lambda>(blocked, st).
          defer_state winner now unix_now load blocked (en_configs en ! blocked) st)
        (enumerate 0 (en_states en))\<rparr>"

text \<open>\<open>clock\<close> is what \<open>SystemTime::now\<close> reads when the terminal record is built.\<close>

definition take_expired ::
  "nat \<Rightarrow> nat \<Rightarrow> ScheduledJobConfig \<Rightarrow> LoadGateState \<Rightarrow> int \<Rightarrow> 'b Engine \<Rightarrow> nat option \<times> 'b Engine" where
  "take_expired index now config load clock en =
     (let st = en_states en ! index in
      case js_pending st of
        None \<Rightarrow> (None, en)
      | Some pending \<Rightarrow>
          if gate_blocks config load \<and>
             now - po_since pending \<ge> from_millis (effective_max_wait_ms config)
          then
            let pending_age_ms = duration_millis (now - po_since pending) in
            (Some pending_age_ms,
             en\<lparr>en_states := (en_states en)[index := st\<lparr>js_pending := None\<rparr>],
                en_observer := snd (record_terminal index
                  (without_child (civil_unix_ms (po_scheduled pending)) (now_unix_ms clock)
                     pending_age_ms (po_coalesced pending) LoadExpired)
                  LoadExpired (en_observer en))\<rparr>)
          else (None, en))"

definition due_state ::
  "('d, 'c) chrono \<Rightarrow> int \<Rightarrow> nat \<Rightarrow> nat \<Rightarrow> ScheduledJobConfig \<Rightarrow> JobState \<Rightarrow> (JobState, engine_error) result" where
  "due_state ch wall_now now unix_now config st =
     (if js_next_due st \<le> wall_now then
        let st =
          (case js_pending st of
             Some pending \<Rightarrow> st\<lparr>js_pending := Some (pending\<lparr>po_coalesced := True\<rparr>)\<rparr>
           | None \<Rightarrow> st\<lparr>js_pending := Some
                 \<lparr>po_since = now, po_since_unix_ms = unix_now, po_scheduled = js_next_due st,
                  po_retry_at = now, po_retry_at_unix_ms = unix_now, po_coalesced = False,
                  po_waiting_logged = False\<rparr>,
               js_last_gate := None\<rparr>)
        in case next_after ch (js_schedule st) wall_now of
             Err e \<Rightarrow> Err (JobSchedule (sj_name config) e)
           | Ok t \<Rightarrow> Ok (st\<lparr>js_next_due := t\<rparr>)
      else Ok st)"

definition mark_due ::
  "('d, 'c) chrono \<Rightarrow> int \<Rightarrow> nat \<Rightarrow> nat \<Rightarrow> 'b Engine \<Rightarrow> ('b Engine, engine_error) result" where
  "mark_due ch wall_now now unix_now en =
     (case traverse_result (\<lambda>(index, st). due_state ch wall_now now unix_now (en_configs en ! index) st)
             (enumerate 0 (en_states en)) of
        Err e \<Rightarrow> Err e
      | Ok states \<Rightarrow> Ok (en\<lparr>en_states := states\<rparr>))"

definition expire_all :: "nat \<Rightarrow> LoadGateState \<Rightarrow> (nat \<Rightarrow> int) \<Rightarrow> 'b Engine \<Rightarrow> 'b Engine" where
  "expire_all now load clock en =
     fold (\<lambda>(index, config) en. snd (take_expired index now config load (clock index) en))
       (enumerate 0 (en_configs en)) en"

definition eligible :: "ScheduledJobConfig \<Rightarrow> nat \<Rightarrow> LoadGateState \<Rightarrow> JobState \<Rightarrow> bool" where
  "eligible config now load st \<longleftrightarrow>
     (case js_pending st of None \<Rightarrow> False
      | Some pending \<Rightarrow> \<not> (po_retry_at pending > now \<or> gate_blocks config load))"

definition select_step ::
  "ScheduledJobConfig list \<Rightarrow> nat \<Rightarrow> LoadGateState \<Rightarrow> nat \<times> JobState \<Rightarrow> (nat \<times> nat) option \<Rightarrow> (nat \<times> nat) option" where
  "select_step configs now load ist selected =
     (case ist of (index, st) \<Rightarrow>
        case js_pending st of
          None \<Rightarrow> selected
        | Some pending \<Rightarrow>
            if \<not> eligible (configs ! index) now load st then selected
            else
              let key = (po_since pending, index) in
              if (case selected of None \<Rightarrow> True | Some current \<Rightarrow> key < current) then Some key
              else selected)"

definition select_candidate :: "nat \<Rightarrow> LoadGateState \<Rightarrow> 'b Engine \<Rightarrow> (nat \<times> nat) option" where
  "select_candidate now load en =
     fold (select_step (en_configs en) now load) (enumerate 0 (en_states en)) None"

text \<open>
  Taking the winner: the occurrence leaves \<open>pending\<close>, the gate it ran under is kept. \<open>None\<close> is the
  panic of \<open>expect\<close> on a selected job that is not pending.
\<close>

definition take_launch ::
  "nat \<Rightarrow> nat \<Rightarrow> LoadGateState \<Rightarrow> 'b Engine \<Rightarrow> (Launch \<times> 'b Engine) option" where
  "take_launch index now load en =
     (let st = en_states en ! index in
      case js_pending st of
        None \<Rightarrow> None
      | Some pending \<Rightarrow>
          let gate = load_gate (en_configs en ! index) load;
              st = st\<lparr>js_pending := None,
                      js_last_gate := map_option (\<lambda>(_, window, observed, threshold).
                        gate_record window observed threshold) gate\<rparr>
          in Some (\<lparr>ln_index = index, ln_pending_age = now - po_since pending,
                    ln_observed_load = (case gate of None \<Rightarrow> None | Some (_, _, observed, _) \<Rightarrow> observed),
                    ln_load_window = map_option (\<lambda>(_, window, _). window) gate,
                    ln_scheduled = po_scheduled pending, ln_coalesced = po_coalesced pending\<rparr>,
                   en\<lparr>en_states := (en_states en)[index := st]\<rparr>))"

datatype 'a tick_result = TickErr engine_error | TickPanic | TickNone 'a | TickLaunch Launch 'a

definition tick ::
  "('d, 'c) chrono \<Rightarrow> int \<Rightarrow> nat \<Rightarrow> LoadGateState \<Rightarrow> bool \<Rightarrow> (nat \<Rightarrow> int) \<Rightarrow> 'b Engine \<Rightarrow> 'b Engine tick_result" where
  "tick ch wall_now now load slot_available clock en =
     (let unix_now = civil_unix_ms wall_now in
      case mark_due ch wall_now now unix_now en of
        Err e \<Rightarrow> TickErr e
      | Ok en \<Rightarrow>
          let en = expire_all now load clock en in
          if \<not> slot_available then TickNone en
          else case select_candidate now load en of
                 None \<Rightarrow> TickNone (defer_blocked_before None now unix_now load en)
               | Some (since, index) \<Rightarrow>
                   (case take_launch index now load
                           (defer_blocked_before (Some (since, index)) now unix_now load en) of
                      None \<Rightarrow> TickPanic
                    | Some (launch, en) \<Rightarrow> TickLaunch launch en))"

definition earlier :: "nat \<Rightarrow> nat option \<Rightarrow> nat option" where
  "earlier t deadline = Some (case deadline of None \<Rightarrow> t | Some current \<Rightarrow> min current t)"

definition deadline_step ::
  "ScheduledJobConfig list \<Rightarrow> int \<Rightarrow> nat \<Rightarrow> bool \<Rightarrow> nat \<times> JobState \<Rightarrow> nat option \<Rightarrow> nat option" where
  "deadline_step configs wall_now now slot_available ist deadline =
     (case ist of (index, st) \<Rightarrow>
        let config = configs ! index;
            deadline = earlier (now + nat (js_next_due st - wall_now)) deadline
        in case js_pending st of
             None \<Rightarrow> deadline
           | Some pending \<Rightarrow>
               let deadline = (if slot_available \<and> po_retry_at pending > now
                     then earlier (po_retry_at pending) deadline else deadline);
                   expiry = po_since pending + from_millis (effective_max_wait_ms config)
               in if sj_max_load config \<noteq> None \<and> expiry > now then earlier expiry deadline else deadline)"

text \<open>\<open>next_deadline\<close>; \<open>None\<close> is the panic for an engine without jobs.\<close>

definition next_deadline :: "int \<Rightarrow> nat \<Rightarrow> bool \<Rightarrow> 'b Engine \<Rightarrow> nat option" where
  "next_deadline wall_now now slot_available en =
     fold (deadline_step (en_configs en) wall_now now slot_available) (enumerate 0 (en_states en)) None"


section \<open>Well-formed engines\<close>

definition engine_wf :: "'b Engine \<Rightarrow> bool" where
  "engine_wf en \<longleftrightarrow> en_configs en \<noteq> [] \<and> length (en_states en) = length (en_configs en) \<and>
     length (ob_histories (en_observer en)) = length (en_configs en)"

lemma engine_new_wf: "engine_new ch pid c clk configs wall limit p = Ok en \<Longrightarrow> engine_wf en"
  by (auto simp: engine_new_def engine_wf_def observer_new_def traverse_result_length
      split: if_splits result.splits)

lemma due_state_Ok:
  assumes "due_state ch wall now un cfg st = Ok st'"
  shows "wall < js_next_due st'"
    and "js_pending st \<noteq> None \<or> js_next_due st \<le> wall \<longleftrightarrow> js_pending st' \<noteq> None"
    and "js_pending st' = Some p \<Longrightarrow> \<exists>q. js_pending st = Some q \<and> po_since p = po_since q \<and>
           po_retry_at p = po_retry_at q \<and> po_scheduled p = po_scheduled q \<or>
         js_pending st = None \<and> js_next_due st \<le> wall \<and> po_since p = now \<and> po_retry_at p = now \<and>
           po_scheduled p = js_next_due st"
    and "js_schedule st' = js_schedule st"
  using assms next_after_sound [of ch "js_schedule st" wall]
  by (auto simp: due_state_def Let_def split: if_splits option.splits result.splits)

lemma mark_due_Ok:
  assumes "mark_due ch wall now un en = Ok en'"
  shows "en_configs en' = en_configs en" "en_observer en' = en_observer en"
    and "length (en_states en') = length (en_states en)"
    and "i < length (en_states en) \<Longrightarrow>
      due_state ch wall now un (en_configs en ! i) (en_states en ! i) = Ok (en_states en' ! i)"
proof -
  obtain sts where sts: "traverse_result (\<lambda>(index, st). due_state ch wall now un (en_configs en ! index) st)
      (enumerate 0 (en_states en)) = Ok sts" "en' = en\<lparr>en_states := sts\<rparr>"
    using assms by (auto simp: mark_due_def split: result.splits)
  show "en_configs en' = en_configs en" "en_observer en' = en_observer en" using sts(2) by simp_all
  show "length (en_states en') = length (en_states en)"
    using traverse_result_length [OF sts(1)] sts(2) by simp
  show "due_state ch wall now un (en_configs en ! i) (en_states en ! i) = Ok (en_states en' ! i)"
    if "i < length (en_states en)"
    using traverse_result_nth [OF sts(1), of i] sts(2) that by (simp add: nth_enumerate_eq)
qed

lemma mark_due_wf: "engine_wf en \<Longrightarrow> mark_due ch wall now un en = Ok en' \<Longrightarrow> engine_wf en'"
  by (simp add: engine_wf_def mark_due_Ok)

section \<open>Expiry\<close>

definition expires :: "ScheduledJobConfig \<Rightarrow> nat \<Rightarrow> LoadGateState \<Rightarrow> JobState \<Rightarrow> bool" where
  "expires config now load st \<longleftrightarrow> gate_blocks config load \<and>
     (\<exists>p. js_pending st = Some p \<and> now - po_since p \<ge> from_millis (effective_max_wait_ms config))"

lemma take_expired_eq:
  "snd (take_expired index now config load clock en) =
     (if expires config now load (en_states en ! index)
      then en\<lparr>en_states := (en_states en)[index := (en_states en ! index)\<lparr>js_pending := None\<rparr>],
              en_observer := record_event (index, without_child
                 (civil_unix_ms (po_scheduled (the (js_pending (en_states en ! index))))) (now_unix_ms clock)
                 (duration_millis (now - po_since (the (js_pending (en_states en ! index)))))
                 (po_coalesced (the (js_pending (en_states en ! index)))) LoadExpired, LoadExpired) (en_observer en)\<rparr>
      else en)"
  by (auto simp: take_expired_def expires_def record_event_def Let_def split: option.splits)

lemma take_expired_states:
  "en_states (snd (take_expired index now config load clock en)) =
     (if expires config now load (en_states en ! index)
      then (en_states en)[index := (en_states en ! index)\<lparr>js_pending := None\<rparr>] else en_states en)"
  by (simp add: take_expired_eq)

lemma take_expired_configs [simp]: "en_configs (snd (take_expired i now c load clk en)) = en_configs en"
  by (simp add: take_expired_eq)

abbreviation expire_step :: "nat \<Rightarrow> LoadGateState \<Rightarrow> (nat \<Rightarrow> int) \<Rightarrow> nat \<times> ScheduledJobConfig \<Rightarrow> 'b Engine \<Rightarrow> 'b Engine" where
  "expire_step now load clock \<equiv> \<lambda>(index, config) en. snd (take_expired index now config load (clock index) en)"

lemma expire_fold_states:
  "distinct (map fst xs) \<Longrightarrow> \<forall>(j, c) \<in> set xs. j < length (en_states en) \<Longrightarrow>
   length (en_states (fold (expire_step now load clock) xs en)) = length (en_states en) \<and>
   en_configs (fold (expire_step now load clock) xs en) = en_configs en \<and>
   (\<forall>i. en_states (fold (expire_step now load clock) xs en) ! i =
     (if \<exists>c. (i, c) \<in> set xs \<and> expires c now load (en_states en ! i)
      then (en_states en ! i)\<lparr>js_pending := None\<rparr> else en_states en ! i))"
proof (induction xs arbitrary: en)
  case Nil
  then show ?case by simp
next
  case (Cons x xs)
  obtain j c where x: "x = (j, c)" by (cases x)
  let ?en = "snd (take_expired j now c load (clock j) en)"
  have "distinct (map fst xs)" "\<forall>(j, c) \<in> set xs. j < length (en_states ?en)"
    using Cons.prems by (auto simp: take_expired_states)
  note IH = Cons.IH [OF this]
  have j: "j < length (en_states en)" "j \<notin> fst ` set xs" using Cons.prems by (auto simp: x)
  have "en_states ?en ! i = (if i = j \<and> expires c now load (en_states en ! i)
      then (en_states en ! i)\<lparr>js_pending := None\<rparr> else en_states en ! i)" for i
    using j(1) by (auto simp: take_expired_states nth_list_update)
  then show ?case
    using IH j by (auto simp: x take_expired_states image_iff)
qed

lemma expire_all_states:
  assumes "engine_wf en"
  shows "length (en_states (expire_all now load clock en)) = length (en_states en)"
    and "en_configs (expire_all now load clock en) = en_configs en"
    and "i < length (en_states en) \<Longrightarrow> en_states (expire_all now load clock en) ! i =
      (if expires (en_configs en ! i) now load (en_states en ! i)
       then (en_states en ! i)\<lparr>js_pending := None\<rparr> else en_states en ! i)"
proof -
  have in_enum: "(i, c) \<in> set (enumerate 0 (en_configs en)) \<longleftrightarrow> i < length (en_configs en) \<and> c = en_configs en ! i" for i c
    by (auto simp: in_set_enumerate_eq)
  have wf: "distinct (map fst (enumerate 0 (en_configs en)))"
    "\<forall>(j, c) \<in> set (enumerate 0 (en_configs en)). j < length (en_states en)"
    using assms by (auto simp: engine_wf_def in_enum simp del: enumerate_simps)
  note F = expire_fold_states [OF wf, of now load clock]
  show "length (en_states (expire_all now load clock en)) = length (en_states en)"
    and "en_configs (expire_all now load clock en) = en_configs en"
    using F by (simp_all add: expire_all_def)
  show "en_states (expire_all now load clock en) ! i =
      (if expires (en_configs en ! i) now load (en_states en ! i)
       then (en_states en ! i)\<lparr>js_pending := None\<rparr> else en_states en ! i)"
    if "i < length (en_states en)"
    using F that assms by (simp add: expire_all_def in_enum engine_wf_def)
qed

lemma expire_fold_histories:
  "length (ob_histories (en_observer (fold (expire_step now load clock) xs en))) =
     length (ob_histories (en_observer en))"
  by (induction xs arbitrary: en) (auto simp: take_expired_eq)

lemma expire_all_wf:
  assumes "engine_wf en"
  shows "engine_wf (expire_all now load clock en)"
  using assms expire_all_states(1,2) [OF assms, of now load clock]
    expire_fold_histories [of now load clock "enumerate 0 (en_configs en)" en]
  by (simp add: engine_wf_def expire_all_def)

section \<open>Selection\<close>

definition pending_key :: "JobState \<Rightarrow> nat \<Rightarrow> nat \<times> nat" where
  "pending_key st i = (po_since (the (js_pending st)), i)"

lemma eligible_pending: "eligible config now load st \<Longrightarrow> \<exists>p. js_pending st = Some p"
  by (auto simp: eligible_def split: option.splits)

lemma select_step_eq:
  "select_step configs now load (i, st) sel =
     (if eligible (configs ! i) now load st \<and> (\<forall>k. sel = Some k \<longrightarrow> pending_key st i < k)
      then Some (pending_key st i) else sel)"
  by (auto simp: select_step_def pending_key_def Let_def eligible_def split: option.splits)

lemma select_fold_Some:
  "fold (select_step configs now load) xs sel = Some k \<Longrightarrow>
   (sel = Some k \<or> (\<exists>(i, st) \<in> set xs. eligible (configs ! i) now load st \<and> k = pending_key st i)) \<and>
   (\<forall>(i, st) \<in> set xs. eligible (configs ! i) now load st \<longrightarrow> k \<le> pending_key st i) \<and>
   (\<forall>k'. sel = Some k' \<longrightarrow> k \<le> k')"
proof (induction xs arbitrary: sel)
  case Nil
  then show ?case by simp
next
  case (Cons x xs)
  obtain i st where x: "x = (i, st)" by (cases x)
  show ?case
    using Cons.IH [of "select_step configs now load x sel"] Cons.prems
    by (fastforce simp: x select_step_eq simp del: split_paired_All split: if_splits)
qed

lemma select_fold_None:
  "fold (select_step configs now load) xs sel = None \<longleftrightarrow>
   sel = None \<and> (\<forall>(i, st) \<in> set xs. \<not> eligible (configs ! i) now load st)"
  by (induction xs arbitrary: sel) (auto simp: select_step_eq split: if_splits)

lemma set_enumerate_0: "(i, x) \<in> set (enumerate 0 xs) \<longleftrightarrow> i < length xs \<and> x = xs ! i"
  by (auto simp: in_set_enumerate_eq)

lemma select_candidate_Some:
  assumes "select_candidate now load en = Some (since, i)"
  shows "i < length (en_states en)" "eligible (en_configs en ! i) now load (en_states en ! i)"
    "(since, i) = pending_key (en_states en ! i) i"
    "j < length (en_states en) \<Longrightarrow> eligible (en_configs en ! j) now load (en_states en ! j) \<Longrightarrow>
       (since, i) \<le> pending_key (en_states en ! j) j"
  using select_fold_Some [OF assms [unfolded select_candidate_def]]
  by (auto simp: set_enumerate_0 pending_key_def)

lemma select_candidate_None:
  "select_candidate now load en = None \<longleftrightarrow>
   (\<forall>i < length (en_states en). \<not> eligible (en_configs en ! i) now load (en_states en ! i))"
  by (auto simp: select_candidate_def select_fold_None set_enumerate_0)

section \<open>Deferral\<close>

lemma defer_states:
  assumes "i < length (en_states en)"
  shows "en_states (defer_blocked_before w now un load en) ! i =
    defer_state w now un load i (en_configs en ! i) (en_states en ! i)"
  using assms by (simp add: defer_blocked_before_def nth_enumerate_eq)

lemma defer_frame [simp]:
  "length (en_states (defer_blocked_before w now un load en)) = length (en_states en)"
  "en_configs (defer_blocked_before w now un load en) = en_configs en"
  "en_observer (defer_blocked_before w now un load en) = en_observer en"
  by (simp_all add: defer_blocked_before_def)

lemma defer_state_frame:
  "js_next_due (defer_state w now un load i c st) = js_next_due st"
  "js_schedule (defer_state w now un load i c st) = js_schedule st"
  "js_pending (defer_state w now un load i c st) = None \<longleftrightarrow> js_pending st = None"
  by (auto simp: defer_state_def split: option.splits prod.splits)

lemma defer_state_since:
  "js_pending (defer_state w now un load i c st) = Some p \<Longrightarrow>
   \<exists>q. js_pending st = Some q \<and> po_since p = po_since q \<and> po_scheduled p = po_scheduled q \<and>
     po_coalesced p = po_coalesced q"
  by (auto simp: defer_state_def split: option.splits prod.splits if_splits)

lemma defer_winner: "defer_state (Some (pending_key st i)) now un load i c st = st"
  by (auto simp: defer_state_def pending_key_def split: option.splits)

lemma take_launch_Some:
  assumes "js_pending (en_states en ! i) = Some p"
  shows "\<exists>l en'. take_launch i now load en = Some (l, en') \<and> ln_index l = i \<and>
    ln_pending_age l = now - po_since p \<and> ln_scheduled l = po_scheduled p \<and> ln_coalesced l = po_coalesced p \<and>
    en_configs en' = en_configs en \<and> en_observer en' = en_observer en \<and>
    en_states en' = (en_states en)[i := (en_states en ! i)\<lparr>js_pending := None,
      js_last_gate := map_option (\<lambda>(_, w, ob, th). gate_record w ob th) (load_gate (en_configs en ! i) load)\<rparr>]"
  using assms by (simp add: take_launch_def Let_def)

section \<open>The stages of a tick\<close>

text \<open>The engine a tick selects from: due jobs marked, expired occurrences taken.\<close>

definition tick_staged ::
  "('d, 'c) chrono \<Rightarrow> int \<Rightarrow> nat \<Rightarrow> LoadGateState \<Rightarrow> (nat \<Rightarrow> int) \<Rightarrow> 'b Engine \<Rightarrow> 'b Engine \<Rightarrow> bool" where
  "tick_staged ch wall now load clock en staged \<longleftrightarrow>
     (\<exists>marked. mark_due ch wall now (civil_unix_ms wall) en = Ok marked \<and>
       staged = expire_all now load clock marked)"

lemma tick_staged_wf: "engine_wf en \<Longrightarrow> tick_staged ch wall now load clock en st \<Longrightarrow> engine_wf st"
  by (auto simp: tick_staged_def intro: expire_all_wf mark_due_wf)

lemma tick_staged_frame:
  assumes "engine_wf en" "tick_staged ch wall now load clock en st"
  shows "en_configs st = en_configs en" "length (en_states st) = length (en_states en)"
    "i < length (en_states en) \<Longrightarrow> wall < js_next_due (en_states st ! i)"
proof -
  obtain m where m: "mark_due ch wall now (civil_unix_ms wall) en = Ok m" "st = expire_all now load clock m"
    using assms(2) by (auto simp: tick_staged_def)
  note wf = mark_due_wf [OF assms(1) m(1)]
  show "en_configs st = en_configs en" "length (en_states st) = length (en_states en)"
    using expire_all_states(1,2) [OF wf] mark_due_Ok [OF m(1)] m(2) by simp_all
  show "wall < js_next_due (en_states st ! i)" if i: "i < length (en_states en)"
    using expire_all_states(3) [OF wf, of i] mark_due_Ok(3) [OF m(1)] i m(2)
      due_state_Ok(1) [OF mark_due_Ok(4) [OF m(1) i]] by simp
qed

lemma tick_TickNone:
  assumes "tick ch wall now load slot clock en = TickNone en'"
  shows "\<exists>st. tick_staged ch wall now load clock en st \<and>
    (if slot then select_candidate now load st = None \<and>
       en' = defer_blocked_before None now (civil_unix_ms wall) load st else en' = st)"
  using assms by (auto simp: tick_def tick_staged_def Let_def split: result.splits option.splits if_splits)

lemma tick_TickLaunch:
  assumes "tick ch wall now load slot clock en = TickLaunch l en'"
  shows "slot \<and> (\<exists>st since i. tick_staged ch wall now load clock en st \<and>
    select_candidate now load st = Some (since, i) \<and>
    take_launch i now load (defer_blocked_before (Some (since, i)) now (civil_unix_ms wall) load st) = Some (l, en'))"
  using assms by (auto simp: tick_def tick_staged_def Let_def split: result.splits option.splits if_splits)

text \<open>No stage of a tick touches the parsed schedules.\<close>

lemma tick_staged_schedules:
  assumes "engine_wf en" "tick_staged ch wall now load clock en st"
  shows "map js_schedule (en_states st) = map js_schedule (en_states en)"
proof -
  obtain m where m: "mark_due ch wall now (civil_unix_ms wall) en = Ok m" "st = expire_all now load clock m"
    using assms(2) by (auto simp: tick_staged_def)
  note wf = mark_due_wf [OF assms(1) m(1)]
  show ?thesis
    using expire_all_states(1,2) [OF wf] mark_due_Ok [OF m(1)] due_state_Ok(4) [OF mark_due_Ok(4) [OF m(1)]]
      expire_all_states(3) [OF wf]
    by (intro nth_equalityI) (auto simp: m(2))
qed

lemma defer_schedules:
  "map js_schedule (en_states (defer_blocked_before w now un load en)) = map js_schedule (en_states en)"
  by (intro nth_equalityI) (simp_all add: defer_states defer_state_frame)

lemma take_launch_schedules:
  assumes "take_launch i now load en = Some (l, en')"
  shows "map js_schedule (en_states en') = map js_schedule (en_states en)" "en_configs en' = en_configs en"
proof -
  have upd: "map js_schedule (sts[k := st]) = map js_schedule sts"
    if "js_schedule st = js_schedule (sts ! k)" for sts k st
    using that by (cases "k < length sts") (simp_all add: map_update list_update_same_conv list_update_beyond)
  show "map js_schedule (en_states en') = map js_schedule (en_states en)" "en_configs en' = en_configs en"
    using assms by (auto simp: take_launch_def Let_def simp del: map_update intro!: upd split: option.splits)
qed

lemma tick_schedules:
  assumes "engine_wf en"
  shows "tick ch wall now load slot clock en = TickNone en' \<Longrightarrow>
      map js_schedule (en_states en') = map js_schedule (en_states en) \<and> en_configs en' = en_configs en"
    and "tick ch wall now load slot clock en = TickLaunch l en' \<Longrightarrow>
      map js_schedule (en_states en') = map js_schedule (en_states en) \<and> en_configs en' = en_configs en"
proof -
  note staged = tick_staged_schedules [OF assms] tick_staged_frame(1) [OF assms]
  show "map js_schedule (en_states en') = map js_schedule (en_states en) \<and> en_configs en' = en_configs en"
    if T: "tick ch wall now load slot clock en = TickNone en'"
    using tick_TickNone [OF T] staged by (auto simp: defer_schedules split: if_splits)
  show "map js_schedule (en_states en') = map js_schedule (en_states en) \<and> en_configs en' = en_configs en"
    if T: "tick ch wall now load slot clock en = TickLaunch l en'"
  proof -
    obtain st since i where st: "tick_staged ch wall now load clock en st"
      "take_launch i now load (defer_blocked_before (Some (since, i)) now (civil_unix_ms wall) load st) = Some (l, en')"
      using tick_TickLaunch [OF T] by blast
    show ?thesis using take_launch_schedules [OF st(2)] staged [OF st(1)] by (simp add: defer_schedules)
  qed
qed

lemma winner_still_pending:
  assumes "select_candidate now load st = Some (since, i)"
  shows "\<exists>p. js_pending (en_states (defer_blocked_before (Some (since, i)) now un load st) ! i) = Some p \<and>
    js_pending (en_states st ! i) = Some p"
proof -
  note sel = select_candidate_Some [OF assms]
  have "en_states (defer_blocked_before (Some (since, i)) now un load st) ! i = en_states st ! i"
    using sel(1,3) by (simp add: defer_states defer_winner)
  with eligible_pending [OF sel(2)] show ?thesis by auto
qed

lemma tick_no_panic:
  fixes en :: "'b Engine"
  shows "tick ch wall now load slot clock en \<noteq> TickPanic"
proof
  assume "tick ch wall now load slot clock en = TickPanic"
  then obtain st :: "'b Engine" and since i where "select_candidate now load st = Some (since, i)"
    "take_launch i now load (defer_blocked_before (Some (since, i)) now (civil_unix_ms wall) load st) = None"
    by (auto simp: tick_def Let_def split: result.splits option.splits if_splits)
  with winner_still_pending [of now load st since i] take_launch_Some show False
    by (metis option.distinct(1))
qed

lemma tick_launch_facts:
  assumes "tick ch wall now load slot clock en = TickLaunch l en'"
  shows "\<exists>st p. slot \<and> tick_staged ch wall now load clock en st \<and> ln_index l < length (en_states st) \<and>
    js_pending (en_states st ! ln_index l) = Some p \<and>
    eligible (en_configs st ! ln_index l) now load (en_states st ! ln_index l) \<and>
    (\<forall>j < length (en_states st). eligible (en_configs st ! j) now load (en_states st ! j) \<longrightarrow>
       (po_since p, ln_index l) \<le> pending_key (en_states st ! j) j) \<and>
    ln_pending_age l = now - po_since p \<and> ln_scheduled l = po_scheduled p \<and> ln_coalesced l = po_coalesced p \<and>
    en_configs en' = en_configs st \<and> en_observer en' = en_observer st \<and>
    en_states en' = (en_states (defer_blocked_before (Some (po_since p, ln_index l)) now (civil_unix_ms wall) load st))
      [ln_index l := (en_states st ! ln_index l)\<lparr>js_pending := None, js_last_gate := map_option
         (\<lambda>(_, w, ob, th). gate_record w ob th) (load_gate (en_configs st ! ln_index l) load)\<rparr>]"
proof -
  obtain st since i where st: "slot" "tick_staged ch wall now load clock en st"
    "select_candidate now load st = Some (since, i)"
    "take_launch i now load (defer_blocked_before (Some (since, i)) now (civil_unix_ms wall) load st) = Some (l, en')"
    using tick_TickLaunch [OF assms] by blast
  note sel = select_candidate_Some [OF st(3)]
  obtain p where p: "js_pending (en_states (defer_blocked_before (Some (since, i)) now (civil_unix_ms wall) load st) ! i) = Some p"
    "js_pending (en_states st ! i) = Some p"
    using winner_still_pending [OF st(3)] by blast
  have since: "since = po_since p" using sel(3) p(2) by (simp add: pending_key_def)
  have same: "en_states (defer_blocked_before (Some (since, i)) now (civil_unix_ms wall) load st) ! i = en_states st ! i"
    using sel(1,3) by (simp add: defer_states defer_winner)
  show ?thesis
    using take_launch_Some [OF p(1), of now load] st sel(1,2,4) p(2) since same
    by (intro exI [of _ st] exI [of _ p]) auto
qed


section \<open>Occurrences are neither lost nor duplicated\<close>

definition pending_count :: "'b Engine \<Rightarrow> nat" where
  "pending_count en = length (filter (\<lambda>st. js_pending st \<noteq> None) (en_states en))"

text \<open>Jobs that become pending in a tick: due, with no occurrence waiting.\<close>

definition newly_due :: "int \<Rightarrow> 'b Engine \<Rightarrow> nat" where
  "newly_due wall en = length (filter (\<lambda>st. js_next_due st \<le> wall \<and> js_pending st = None) (en_states en))"

text \<open>Occurrences that were recorded as terminal or are still waiting.\<close>

definition accounted :: "'b Engine \<Rightarrow> nat" where
  "accounted en = ob_next_sequence (en_observer en) + pending_count en"

lemma length_filter_disj:
  "\<forall>x \<in> set xs. \<not> (P x \<and> Q x) \<Longrightarrow>
   length (filter (\<lambda>x. P x \<or> Q x) xs) = length (filter P xs) + length (filter Q xs)"
  by (induction xs) auto

lemma mark_due_accounted:
  assumes "mark_due ch wall now un en = Ok m"
  shows "accounted m = accounted en + newly_due wall en"
proof -
  have "pending_count m = length (filter (\<lambda>st. js_pending st \<noteq> None \<or> js_next_due st \<le> wall \<and> js_pending st = None) (en_states en))"
    unfolding pending_count_def
    by (rule length_filter_nth_cong)
      (use due_state_Ok(2) [OF mark_due_Ok(4) [OF assms]] mark_due_Ok(3) [OF assms] in auto)
  also have "\<dots> = pending_count en + newly_due wall en"
    unfolding pending_count_def newly_due_def by (rule length_filter_disj) (simp del: not_None_eq)
  finally show ?thesis by (simp add: accounted_def mark_due_Ok(2) [OF assms])
qed

lemma take_expired_accounted:
  assumes "i < length (en_states en)" and "accounted en \<le> u64_max"
  shows "accounted (snd (take_expired i now c load clk en)) = accounted en"
proof (cases "expires c now load (en_states en ! i)")
  case True
  then have p: "js_pending (en_states en ! i) \<noteq> None" by (auto simp: expires_def)
  have *: "Suc (pending_count (snd (take_expired i now c load clk en))) = pending_count en"
    using length_filter_update_remove [OF assms(1), of "\<lambda>st. js_pending st \<noteq> None"] p True
    by (simp add: pending_count_def take_expired_states)
  have "sat_add64 (ob_next_sequence (en_observer en)) 1 = Suc (ob_next_sequence (en_observer en))"
    using * assms(2) by (simp add: accounted_def sat_add64_exact)
  with * True show ?thesis by (simp add: accounted_def take_expired_eq)
next
  case False
  then show ?thesis by (simp add: take_expired_eq)
qed

lemma expire_fold_accounted:
  "\<forall>(j, c) \<in> set xs. j < length (en_states en) \<Longrightarrow> accounted en \<le> u64_max \<Longrightarrow>
   accounted (fold (expire_step now load clock) xs en) = accounted en"
proof (induction xs arbitrary: en)
  case (Cons x xs)
  then show ?case
    by (cases x) (simp add: take_expired_accounted take_expired_states split_beta)
qed simp

lemma tick_staged_accounted:
  assumes "engine_wf en" "tick_staged ch wall now load clock en st"
    and "accounted en + newly_due wall en \<le> u64_max"
  shows "accounted st = accounted en + newly_due wall en"
proof -
  obtain m where m: "mark_due ch wall now (civil_unix_ms wall) en = Ok m" "st = expire_all now load clock m"
    using assms(2) by (auto simp: tick_staged_def)
  note acc = mark_due_accounted [OF m(1)]
  have "engine_wf m" using mark_due_wf [OF assms(1) m(1)] .
  then have "\<forall>(j, c) \<in> set (enumerate 0 (en_configs m)). j < length (en_states m)"
    by (auto simp: engine_wf_def set_enumerate_0)
  then show ?thesis
    using expire_fold_accounted [of "enumerate 0 (en_configs m)" m] acc assms(3) m(2) by (simp add: expire_all_def)
qed

lemma defer_accounted: "accounted (defer_blocked_before w now un load en) = accounted en"
proof -
  have "pending_count (defer_blocked_before w now un load en) = pending_count en"
    unfolding pending_count_def
    by (rule length_filter_nth_cong) (simp_all add: defer_states defer_state_frame)
  then show ?thesis by (simp add: accounted_def)
qed

lemma tick_accounted:
  assumes wf: "engine_wf en" and bound: "accounted en + newly_due wall en \<le> u64_max"
  shows "tick ch wall now load slot clock en = TickNone en' \<Longrightarrow>
      engine_wf en' \<and> en_configs en' = en_configs en \<and> accounted en' = accounted en + newly_due wall en"
    and "tick ch wall now load slot clock en = TickLaunch l en' \<Longrightarrow>
      engine_wf en' \<and> en_configs en' = en_configs en \<and> ln_index l < length (en_configs en') \<and>
      Suc (accounted en') = accounted en + newly_due wall en"
proof -
  assume "tick ch wall now load slot clock en = TickNone en'"
  then obtain st where st: "tick_staged ch wall now load clock en st"
    "en' = st \<or> en' = defer_blocked_before None now (civil_unix_ms wall) load st"
    using tick_TickNone by (metis (full_types))
  then show "engine_wf en' \<and> en_configs en' = en_configs en \<and> accounted en' = accounted en + newly_due wall en"
    using tick_staged_accounted [OF wf st(1) bound] tick_staged_wf [OF wf st(1)] tick_staged_frame(1) [OF wf st(1)]
    by (auto simp: defer_accounted engine_wf_def)
next
  assume "tick ch wall now load slot clock en = TickLaunch l en'"
  from tick_launch_facts [OF this] obtain st p where st: "tick_staged ch wall now load clock en st"
    "ln_index l < length (en_states st)" "js_pending (en_states st ! ln_index l) = Some p"
    and en': "en_configs en' = en_configs st" "en_observer en' = en_observer st"
      "en_states en' = (en_states (defer_blocked_before (Some (po_since p, ln_index l)) now (civil_unix_ms wall) load st))
        [ln_index l := (en_states st ! ln_index l)\<lparr>js_pending := None, js_last_gate := map_option
         (\<lambda>(_, w, ob, th). gate_record w ob th) (load_gate (en_configs st ! ln_index l) load)\<rparr>]"
    by blast
  let ?d = "defer_blocked_before (Some (po_since p, ln_index l)) now (civil_unix_ms wall) load st"
  have "js_pending (en_states ?d ! ln_index l) \<noteq> None"
    using st(2,3) by (simp add: defer_states defer_state_frame)
  then have "Suc (pending_count en') = pending_count ?d"
    unfolding pending_count_def en' using st(2) by (intro length_filter_update_remove) auto
  then have "Suc (accounted en') = accounted st"
    using defer_accounted [of "Some (po_since p, ln_index l)" now "civil_unix_ms wall" load st]
    by (simp add: accounted_def en')
  then show "engine_wf en' \<and> en_configs en' = en_configs en \<and> ln_index l < length (en_configs en') \<and>
      Suc (accounted en') = accounted en + newly_due wall en"
    using tick_staged_accounted [OF wf st(1) bound] tick_staged_wf [OF wf st(1)] tick_staged_frame(1) [OF wf st(1)] st(2)
    by (auto simp: engine_wf_def en')
qed

section \<open>Wake times\<close>

definition wake_times :: "ScheduledJobConfig \<Rightarrow> int \<Rightarrow> nat \<Rightarrow> bool \<Rightarrow> JobState \<Rightarrow> nat list" where
  "wake_times config wall now slot st =
     (now + nat (js_next_due st - wall)) #
     (case js_pending st of
        None \<Rightarrow> []
      | Some p \<Rightarrow> (if slot \<and> po_retry_at p > now then [po_retry_at p] else []) @
          (if sj_max_load config \<noteq> None \<and> po_since p + from_millis (effective_max_wait_ms config) > now
           then [po_since p + from_millis (effective_max_wait_ms config)] else []))"

lemma deadline_step_eq:
  "deadline_step configs wall now slot (i, st) d = fold earlier (wake_times (configs ! i) wall now slot st) d"
  by (simp add: deadline_step_def wake_times_def Let_def split: option.splits)

lemma deadline_fold:
  "fold (deadline_step configs wall now slot) xs d =
     fold earlier (concat (map (\<lambda>(i, st). wake_times (configs ! i) wall now slot st) xs)) d"
proof (induction xs arbitrary: d)
  case (Cons x xs)
  then show ?case by (cases x) (simp add: deadline_step_eq)
qed simp

lemma earlier_simps [simp]: "earlier t None = Some t" "earlier t (Some k) = Some (min k t)"
  by (simp_all add: earlier_def)

lemma fold_earlier_Some:
  "fold earlier ts (Some k) = Some m \<Longrightarrow> (m = k \<or> m \<in> set ts) \<and> m \<le> k \<and> (\<forall>t \<in> set ts. m \<le> t)"
proof (induction ts arbitrary: k)
  case (Cons t ts)
  have "fold earlier ts (Some (min k t)) = Some m" using Cons.prems by simp
  from Cons.IH [OF this] show ?case by (auto simp: min_def split: if_splits)
qed simp

lemma fold_earlier_ex: "\<exists>m. fold earlier ts (Some k) = Some m"
  by (induction ts arbitrary: k) simp_all

lemma next_deadline_Min:
  assumes "engine_wf en"
  shows "\<exists>d. next_deadline wall now slot en = Some d \<and>
    (\<exists>i < length (en_states en). d \<in> set (wake_times (en_configs en ! i) wall now slot (en_states en ! i))) \<and>
    (\<forall>i < length (en_states en). \<forall>t \<in> set (wake_times (en_configs en ! i) wall now slot (en_states en ! i)). d \<le> t)"
proof -
  define ts where "ts = concat (map (\<lambda>(i, st). wake_times (en_configs en ! i) wall now slot st) (enumerate 0 (en_states en)))"
  have mem: "t \<in> set ts \<longleftrightarrow>
      (\<exists>i < length (en_states en). t \<in> set (wake_times (en_configs en ! i) wall now slot (en_states en ! i)))" for t
  proof -
    have "t \<in> set ts \<longleftrightarrow> (\<exists>i x. (i, x) \<in> set (enumerate 0 (en_states en)) \<and>
        t \<in> set (wake_times (en_configs en ! i) wall now slot x))"
      by (auto simp: ts_def)
    then show ?thesis by (simp only: set_enumerate_0) blast
  qed
  have "en_states en \<noteq> []" using assms by (auto simp: engine_wf_def)
  then have "0 < length (en_states en)" by simp
  then have "now + nat (js_next_due (en_states en ! 0) - wall) \<in> set ts"
    unfolding mem by (intro exI [of _ 0]) (simp add: wake_times_def)
  then obtain t0 ts' where ts: "ts = t0 # ts'" by (cases ts) auto
  have nd: "next_deadline wall now slot en = fold earlier ts None"
    by (simp add: next_deadline_def deadline_fold ts_def)
  obtain d where d: "fold earlier ts' (Some t0) = Some d" using fold_earlier_ex by blast
  have in_ts: "d \<in> set ts" and least: "\<forall>t \<in> set ts. d \<le> t" using fold_earlier_Some [OF d] by (auto simp: ts)
  have "next_deadline wall now slot en = Some d" using d by (simp add: nd ts)
  moreover have "\<exists>i < length (en_states en). d \<in> set (wake_times (en_configs en ! i) wall now slot (en_states en ! i))"
    using in_ts mem by simp
  moreover have "\<forall>i < length (en_states en). \<forall>t \<in> set (wake_times (en_configs en ! i) wall now slot (en_states en ! i)). d \<le> t"
    using least mem by auto
  ultimately show ?thesis by blast
qed

lemma wake_times_future:
  "wall < js_next_due st \<Longrightarrow> t \<in> set (wake_times config wall now slot st) \<Longrightarrow> now < t"
  by (auto simp: wake_times_def split: option.splits if_splits)

lemma tick_none_due:
  assumes "engine_wf en" "tick ch wall now load slot clock en = TickNone en'"
  shows "engine_wf en'" "\<forall>i < length (en_states en'). wall < js_next_due (en_states en' ! i)"
proof -
  obtain st where st: "tick_staged ch wall now load clock en st"
    "en' = st \<or> en' = defer_blocked_before None now (civil_unix_ms wall) load st"
    using tick_TickNone [OF assms(2)] by (metis (full_types))
  then show "engine_wf en'" "\<forall>i < length (en_states en'). wall < js_next_due (en_states en' ! i)"
    using tick_staged_wf [OF assms(1) st(1)] tick_staged_frame [OF assms(1) st(1)]
    by (auto simp: engine_wf_def defer_states defer_state_frame)
qed

section \<open>Rows\<close>

lemma job_row_truthful: "load_truthful (job_row config st running last_run)"
  by (auto simp: load_truthful_def job_row_def job_state_def Let_def split: option.splits)

section \<open>Properties\<close>

text \<open>A one-job engine, used to instantiate the properties.\<close>

definition example_pending :: "nat \<Rightarrow> nat \<Rightarrow> PendingOccurrence" where
  "example_pending since retry = \<lparr>po_since = since, po_since_unix_ms = 0, po_scheduled = 0,
     po_retry_at = retry, po_retry_at_unix_ms = 0, po_coalesced = False, po_waiting_logged = False\<rparr>"

definition example_engine :: "PendingOccurrence option \<Rightarrow> SchedulerLoadGateV2 option \<Rightarrow> unit Engine" where
  "example_engine pending gate =
     \<lparr>en_configs = [example_job (ustr ''nightly'')],
      en_states = [\<lparr>js_schedule = half_hours_at_one, js_next_due = 10 ^ 18, js_pending = pending,
                    js_last_gate = gate\<rparr>],
      en_observer = observer_new 1 0 [ustr ''nightly''] 5 0
        \<lparr>pub_summary_bytes = (), pub_history_bytes = ()\<rparr>\<rparr>"

definition example_load :: "rat \<Rightarrow> LoadGateState" where
  "example_load v = \<lparr>ls_readiness = Ready, ls_load = Some
     \<lparr>la_one = F32_Fin v, la_five = F32_Fin v, la_fifteen = F32_Fin v\<rparr>\<rparr>"

lemmas tick_eval = tick_def mark_due_def due_state_def expire_all_def take_expired_def select_candidate_def
  select_step_def eligible_def gate_blocks_def load_gate_def take_launch_def defer_blocked_before_def
  defer_state_def example_engine_def example_pending_def example_job_def example_load_def
  from_millis_def effective_retry_interval_ms_def effective_max_wait_ms_def effective_load_window_def
  civil_unix_ms_def ustr_def Let_def

lemma example_engine_wf: "engine_wf (example_engine p g)"
  by (simp add: engine_wf_def example_engine_def observer_new_def)

lemma example_staged:
  "tick_staged ch 0 20 (example_load 1) clock (example_engine (Some (example_pending 10 15)) None)
     (example_engine (Some (example_pending 10 15)) None)"
  unfolding tick_staged_def
  by (rule exI [of _ "example_engine (Some (example_pending 10 15)) None"]) (simp add: tick_eval)

text \<open>
  C3. A tick never panics. It launches exactly when the child slot is free and some occurrence is
  eligible (its retry time has come and its load gate, if it has one, is open), and then launches
  the oldest eligible one, the first in configuration order among equally old ones, with the
  scheduled time and coalescing mark of that occurrence.
\<close>

theorem tick_launches_oldest:
  assumes "engine_wf en" and "tick_staged ch wall now load clock en st"
  shows "case tick ch wall now load slot clock en of
      TickErr _ \<Rightarrow> False
    | TickPanic \<Rightarrow> False
    | TickNone _ \<Rightarrow> slot \<longrightarrow> (\<forall>j < length (en_states st). \<not> eligible (en_configs st ! j) now load (en_states st ! j))
    | TickLaunch l _ \<Rightarrow> slot \<and> (\<exists>p. js_pending (en_states st ! ln_index l) = Some p \<and>
        eligible (en_configs st ! ln_index l) now load (en_states st ! ln_index l) \<and>
        ln_scheduled l = po_scheduled p \<and> ln_coalesced l = po_coalesced p \<and>
        ln_pending_age l = now - po_since p \<and>
        (\<forall>j < length (en_states st). eligible (en_configs st ! j) now load (en_states st ! j) \<longrightarrow>
           (po_since p, ln_index l) \<le> pending_key (en_states st ! j) j))"
proof (cases "tick ch wall now load slot clock en")
  case (TickErr e)
  then show ?thesis
    using assms(2) by (auto simp: tick_def tick_staged_def Let_def split: if_splits option.splits)
next
  case TickPanic
  then show ?thesis using tick_no_panic by blast
next
  case (TickNone en')
  then show ?thesis
    using tick_TickNone [OF TickNone] assms(2) by (auto simp: tick_staged_def select_candidate_None)
next
  case (TickLaunch l en')
  then show ?thesis
    using tick_launch_facts [OF TickLaunch] assms(2) by (auto simp: tick_staged_def)
qed

theorem tick_launches_oldest_witness:
  "case tick (gregorian_zone 0) 0 20 (example_load 1) True (\<lambda>_. 0) (example_engine (Some (example_pending 10 15)) None) of
     TickLaunch l _ \<Rightarrow> ln_index l = 0 \<and> ln_pending_age l = 10 | _ \<Rightarrow> False"
  using tick_launches_oldest [OF example_engine_wf example_staged [of "gregorian_zone 0" "\<lambda>_. 0"], of True]
  by (simp add: tick_eval)

text \<open>
  Expiry takes a waiting occurrence exactly when its load gate refuses it now and it has waited
  its full maximum wait, and leaves every other job as it is: a time-only job never expires, nor
  does a gated one whose gate is open, and no refused occurrence outlives its maximum wait.
\<close>

theorem expiry_exact:
  assumes "engine_wf en" and "i < length (en_states en)"
  shows "en_states (expire_all now load clock en) ! i =
      (if gate_blocks (en_configs en ! i) load \<and> (\<exists>p. js_pending (en_states en ! i) = Some p \<and>
            from_millis (effective_max_wait_ms (en_configs en ! i)) \<le> now - po_since p)
       then (en_states en ! i)\<lparr>js_pending := None\<rparr> else en_states en ! i)"
  using expire_all_states(3) [OF assms] by (simp add: expires_def)

theorem expiry_exact_witness:
  "js_pending (en_states (expire_all (7 * 10 ^ 10) (example_load 9) (\<lambda>_. 0)
     (example_engine (Some (example_pending 10 15)) None)) ! 0) = None"
  using expiry_exact [OF example_engine_wf, of 0 "Some (example_pending 10 15)" None "7 * 10 ^ 10"
      "example_load 9" "\<lambda>_. 0"]
  by (simp add: tick_eval)

text \<open>
  C27. The loop does not spin and does not oversleep: after a tick that launched nothing, at any
  later reading of the clock the wake-up instant is strictly in the future, at most one minute
  away, and not after the next due time of any job, the retry time of any waiting occurrence that
  the free slot could take, or the expiry of any gated one, where these are still in the future.
\<close>

theorem wake_after_idle_tick:
  assumes "engine_wf en" and "tick ch wall now load slot clock en = TickNone en'" and "now2 \<le> now3"
  shows "\<exists>d. next_deadline wall now2 slot en' = Some d \<and>
    now2 < bounded_wake_deadline d now3 \<and> bounded_wake_deadline d now3 \<le> now3 + MAX_CIVIL_RECHECK \<and>
    (\<forall>i < length (en_states en'). \<forall>t \<in> set (wake_times (en_configs en' ! i) wall now2 slot (en_states en' ! i)).
       bounded_wake_deadline d now3 \<le> t)"
proof -
  note idle = tick_none_due [OF assms(1,2)]
  obtain d where d: "next_deadline wall now2 slot en' = Some d"
    "\<exists>i < length (en_states en'). d \<in> set (wake_times (en_configs en' ! i) wall now2 slot (en_states en' ! i))"
    "\<forall>i < length (en_states en'). \<forall>t \<in> set (wake_times (en_configs en' ! i) wall now2 slot (en_states en' ! i)). d \<le> t"
    using next_deadline_Min [OF idle(1)] by blast
  have "now2 < d" using d(2) idle(2) wake_times_future by blast
  then have "now2 < bounded_wake_deadline d now3"
    using assms(3) by (simp add: bounded_wake_deadline_def MAX_CIVIL_RECHECK_def)
  moreover have "bounded_wake_deadline d now3 \<le> d" "bounded_wake_deadline d now3 \<le> now3 + MAX_CIVIL_RECHECK"
    by (simp_all add: bounded_wake_deadline_def)
  ultimately show ?thesis using d(1,3) by (meson order_trans)
qed

lemma example_idle_tick:
  "tick ch 0 20 (example_load 9) True clock (example_engine (Some (example_pending 10 15)) None) =
     TickNone (example_engine
       (Some \<lparr>po_since = 10, po_since_unix_ms = 0, po_scheduled = 0, po_retry_at = 20 + 10 ^ 10,
              po_retry_at_unix_ms = 10000, po_coalesced = False, po_waiting_logged = True\<rparr>)
       (Some \<lparr>lg_window = ustr ''15m'', lg_threshold = F32_Fin 8, lg_observed = Some (F32_Fin 9)\<rparr>))"
  by (simp add: tick_eval sat_add64_def u64_max_def gate_record_def)

theorem wake_after_idle_tick_witness:
  "\<exists>d. next_deadline 0 25 True (example_engine
       (Some \<lparr>po_since = 10, po_since_unix_ms = 0, po_scheduled = 0, po_retry_at = 20 + 10 ^ 10,
              po_retry_at_unix_ms = 10000, po_coalesced = False, po_waiting_logged = True\<rparr>)
       (Some \<lparr>lg_window = ustr ''15m'', lg_threshold = F32_Fin 8, lg_observed = Some (F32_Fin 9)\<rparr>)) = Some d \<and>
     25 < bounded_wake_deadline d 30"
  using wake_after_idle_tick [OF example_engine_wf example_idle_tick
      [where ch = "gregorian_zone 0" and clock = "\<lambda>_. 0"], of 25 30] by auto

text \<open>
  Every published row is truthful about load, whatever state the engine is in: a row held back
  by load names its gate and is not running, a row without telemetry shows no reading, and only a
  row held back by load has a retry time.
\<close>

theorem published_rows_truthful: "list_all load_truthful (engine_rows en running)"
  by (auto simp: list_all_iff engine_rows_def job_row_truthful)

text \<open>
  After an idle tick with a free slot, every waiting occurrence has its retry time in the
  future, for the retry intervals the configuration accepts.
\<close>

theorem idle_tick_defers_all:
  assumes "engine_wf en" and "list_all load_config_wf (en_configs en)"
    and "tick ch wall now load True clock en = TickNone en'"
    and "i < length (en_states en')" and "js_pending (en_states en' ! i) = Some p"
  shows "now < po_retry_at p"
proof -
  obtain st where st: "tick_staged ch wall now load clock en st" "select_candidate now load st = None"
    "en' = defer_blocked_before None now (civil_unix_ms wall) load st"
    using tick_TickNone [OF assms(3)] by auto
  have wf: "engine_wf st" using tick_staged_wf [OF assms(1) st(1)] .
  have cfg: "en_configs st = en_configs en" using tick_staged_frame(1) [OF assms(1) st(1)] .
  have i: "i < length (en_states st)" "i < length (en_configs en)" using assms(4) st(3) wf cfg by (auto simp: engine_wf_def)
  have "load_config_wf (en_configs st ! i)" using assms(2) i(2) cfg by (auto simp: list_all_length)
  then have retry: "gate_blocks (en_configs st ! i) load \<Longrightarrow> 0 < effective_retry_interval_ms (en_configs st ! i)"
    by (auto simp: load_config_wf_def gate_blocks_def load_gate_def MIN_RETRY_INTERVAL_MS_def split: option.splits)
  have "\<not> eligible (en_configs st ! i) now load (en_states st ! i)"
    using st(2) i(1) by (simp add: select_candidate_None)
  then show ?thesis
    using assms(5) st(3) i(1) retry
    by (auto simp: defer_states defer_state_def eligible_def gate_blocks_def from_millis_def
        split: option.splits prod.splits if_splits)
qed

theorem idle_tick_defers_all_witness: "(20::nat) < 20 + 10 ^ 10"
proof -
  have "list_all load_config_wf (en_configs (example_engine (Some (example_pending 10 15)) None))"
    by (simp add: example_engine_def load_config_wf_def example_job_def effective_retry_interval_ms_def
        effective_max_wait_ms_def MIN_RETRY_INTERVAL_MS_def MAX_MAX_WAIT_MS_def)
  from idle_tick_defers_all [OF example_engine_wf this example_idle_tick
      [where ch = "gregorian_zone 0" and clock = "\<lambda>_. 0"], of 0]
  show ?thesis by (simp add: example_engine_def)
qed

text \<open>
  While a child runs, a job held back by load is published with a retry time that has already
  passed: the retry time is only moved by a tick with a free slot.
\<close>

theorem busy_slot_publishes_elapsed_retry:
  "\<exists>en'. tick (gregorian_zone 0) (5 * 10 ^ 9) 20 (example_load 9) False (\<lambda>_. 0)
       (example_engine (Some (example_pending 10 15)) (Some (gate_record (ustr ''15m'') (Some (F32_Fin 9)) (F32_Fin 8))))
       = TickNone en' \<and>
     (\<exists>t. map jv_next_retry_unix_ms (engine_rows en' None) = [Some t] \<and> t < civil_unix_ms (5 * 10 ^ 9))"
  by (simp add: tick_eval engine_rows_def job_row_def running_at_def)

end
