(* ===== verification/Sched_Run.thy ===== *)
theory Sched_Run
  imports Sched_Engine
begin

text \<open>
  The run loop of the maintenance scheduler and its one child (\<open>crates/greggd/src/scheduler.rs\<close>,
  \<open>RunningChild\<close> to \<open>run\<close>): spawning, draining while the child runs, the frozen exit, the bounded
  settle of inherited pipes, the terminal record, and the loop that ticks, publishes and waits.

  One iteration of the loop is a function of the loop state and of what the environment shows it:
  clock readings, the cached load, the result of the spawn, and the arm of the \<open>select!\<close> that won
  with the reads that completed meanwhile. A wait that loses the \<open>select!\<close> keeps what it folded in,
  which is the state the next iteration starts from. Killing the child at shutdown only
  talks to the operating system and is left out.

  The lemmas show that a child's tails, exit status and exit time do not depend on the wakes in
  between, that the settle stops at its frozen bound, that a running child is replaced only after
  its terminal record was written, that the loop accounts for every occurrence exactly once and
  never panics, and that what it serves is current after every iteration.
\<close>

section \<open>Children\<close>

definition POST_EXIT_OUTPUT_SETTLE :: nat where "POST_EXIT_OUTPUT_SETTLE = 250 * 10 ^ 6"

record ExitStatus =
  es_code :: "int option"
  es_signal :: "int option"

datatype io_error = IoError

record ChildExit =
  ce_status :: "(ExitStatus, io_error) result"
  ce_finished :: nat
  ce_finished_unix_ms :: nat

record RunningChild =
  rc_stdout :: "reader option"
  rc_stderr :: "reader option"
  rc_stdout_tail :: OutputTail
  rc_stderr_tail :: OutputTail
  rc_index :: nat
  rc_job_name :: rstr
  rc_started :: nat
  rc_started_unix_ms :: nat
  rc_scheduled_unix_ms :: nat
  rc_delay_ms :: nat
  rc_coalesced :: bool
  rc_exit :: "ChildExit option"
  rc_settle_deadline :: "nat option"
  rc_stdout_done :: bool
  rc_stderr_done :: bool

record ChildCompletion =
  cc_status :: "(ExitStatus, io_error) result"
  cc_finished_unix_ms :: nat
  cc_duration_ms :: nat
  cc_stdout :: OutputTail
  cc_stderr :: OutputTail

definition freeze_exit ::
  "(ExitStatus, io_error) result \<Rightarrow> nat \<Rightarrow> int \<Rightarrow> RunningChild \<Rightarrow> RunningChild" where
  "freeze_exit status finished clock child =
     (if rc_exit child \<noteq> None then child
      else child\<lparr>rc_exit := Some \<lparr>ce_status = status, ce_finished = finished,
                   ce_finished_unix_ms = now_unix_ms clock\<rparr>,
                 rc_settle_deadline := Some (finished + POST_EXIT_OUTPUT_SETTLE)\<rparr>)"

definition step_stdout :: "RunningChild \<Rightarrow> RunningChild" where
  "step_stdout child =
     (case drain_step (rc_stdout child) (rc_stdout_tail child) (rc_stdout_done child) of
        (_, r, t, d) \<Rightarrow> child\<lparr>rc_stdout := r, rc_stdout_tail := t, rc_stdout_done := d\<rparr>)"

definition step_stderr :: "RunningChild \<Rightarrow> RunningChild" where
  "step_stderr child =
     (case drain_step (rc_stderr child) (rc_stderr_tail child) (rc_stderr_done child) of
        (_, r, t, d) \<Rightarrow> child\<lparr>rc_stderr := r, rc_stderr_tail := t, rc_stderr_done := d\<rparr>)"

text \<open>
  The polls of the settle loop: when, and whether a read on stdout and on stderr is ready. The
  timer comes first in the biased \<open>select!\<close>; a poll with nothing ready leaves the \<open>select!\<close> waiting.
\<close>

fun settle_output :: "nat \<Rightarrow> (nat \<times> bool \<times> bool) list \<Rightarrow> bool \<Rightarrow> RunningChild \<Rightarrow> RunningChild" where
  "settle_output deadline [] prefer_stdout child = child"
| "settle_output deadline ((t, out_ready, err_ready) # polls) prefer_stdout child =
     (if rc_stdout_done child \<and> rc_stderr_done child then child
      else if t \<ge> deadline then child
      else
        let out = (out_ready \<and> \<not> rc_stdout_done child);
            err = (err_ready \<and> \<not> rc_stderr_done child)
        in if out \<and> (prefer_stdout \<or> \<not> err)
           then settle_output deadline polls (\<not> prefer_stdout) (step_stdout child)
           else if err then settle_output deadline polls (\<not> prefer_stdout) (step_stderr child)
           else settle_output deadline polls prefer_stdout child)"

text \<open>
  What a wait for the child sees before it completes or is cancelled: the reads that complete while
  the child runs (\<open>True\<close> for stdout), the exit if it happens, and the polls of the settle.
\<close>

record child_env =
  cv_reads :: "bool list"
  cv_exit :: "((ExitStatus, io_error) result \<times> nat \<times> int) option"
  cv_polls :: "(nat \<times> bool \<times> bool) list"

definition child_reads :: "bool list \<Rightarrow> RunningChild \<Rightarrow> RunningChild" where
  "child_reads reads child = fold (\<lambda>out c. if out then step_stdout c else step_stderr c) reads child"

definition child_progress :: "child_env \<Rightarrow> RunningChild \<Rightarrow> RunningChild" where
  "child_progress env child =
     (let child =
        (if rc_exit child = None then
           let child = child_reads (cv_reads env) child in
           case cv_exit env of
             None \<Rightarrow> child
           | Some (status, finished, clock) \<Rightarrow> freeze_exit status finished clock child
         else child)
      in case (rc_exit child, rc_settle_deadline child) of
           (Some _, Some deadline) \<Rightarrow> settle_output deadline (cv_polls env) True child
         | _ \<Rightarrow> child)"

text \<open>
  \<open>await_child_completion\<close>, once its wait and settle are through; \<open>None\<close> when the child has not
  exited (the wait is still pending) or an \<open>expect\<close> would panic.
\<close>

definition await_child_completion :: "child_env \<Rightarrow> RunningChild \<Rightarrow> (ChildCompletion \<times> RunningChild) option" where
  "await_child_completion env child =
     (let child = child_progress env child in
      case (rc_exit child, rc_settle_deadline child) of
        (Some ex, Some _) \<Rightarrow>
          Some (\<lparr>cc_status = ce_status ex, cc_finished_unix_ms = ce_finished_unix_ms ex,
                 cc_duration_ms = duration_millis (ce_finished ex - rc_started child),
                 cc_stdout = rc_stdout_tail child, cc_stderr = rc_stderr_tail child\<rparr>,
                child\<lparr>rc_exit := None, rc_stdout := None, rc_stderr := None,
                      rc_stdout_tail := output_tail_new, rc_stderr_tail := output_tail_new\<rparr>)
      | _ \<Rightarrow> None)"

definition exit_signal :: "JobPlatform \<Rightarrow> ExitStatus \<Rightarrow> nat option" where
  "exit_signal platform status =
     (case platform of Unix \<Rightarrow> map_option (\<lambda>s. nat \<bar>s\<bar>) (es_signal status) | Windows \<Rightarrow> None)"

record FinishedChild =
  fc_sequence :: nat
  fc_outcome :: SchedulerOutcomeV2
  fc_exit_code :: "int option"
  fc_signal :: "nat option"
  fc_duration_ms :: nat

definition child_outcome ::
  "JobPlatform \<Rightarrow> (ExitStatus, io_error) result \<Rightarrow> SchedulerOutcomeV2 \<times> int option \<times> nat option" where
  "child_outcome platform status =
     (case status of
        Ok st \<Rightarrow> ((if es_code st = Some 0 then Success else Failed), es_code st, exit_signal platform st)
      | Err _ \<Rightarrow> (WaitFailed, None, None))"

definition finish_child ::
  "JobPlatform \<Rightarrow> RunningChild \<Rightarrow> ChildCompletion \<Rightarrow> 'b Engine \<Rightarrow> FinishedChild \<times> 'b Engine" where
  "finish_child platform child completion en =
     (case child_outcome platform (cc_status completion) of (outcome, exit_code, signal) \<Rightarrow>
        case record_terminal (rc_index child)
               \<lparr>tr_scheduled_unix_ms = rc_scheduled_unix_ms child,
                tr_started_unix_ms = Some (rc_started_unix_ms child),
                tr_finished_unix_ms = cc_finished_unix_ms completion,
                tr_delay_ms = rc_delay_ms child, tr_coalesced = rc_coalesced child,
                tr_exit_code = exit_code, tr_signal = signal,
                tr_duration_ms = Some (cc_duration_ms completion),
                tr_stdout = cc_stdout completion, tr_stderr = cc_stderr completion\<rparr>
               outcome (en_observer en) of
          (sequence, ob) \<Rightarrow>
            (\<lparr>fc_sequence = sequence, fc_outcome = outcome, fc_exit_code = exit_code,
              fc_signal = signal, fc_duration_ms = cc_duration_ms completion\<rparr>,
             en\<lparr>en_observer := ob\<rparr>))"

datatype 'x start_error = NoExecutable | SpawnError 'x

type_synonym 'x spawn =
  "rstr \<Rightarrow> rstr list \<Rightarrow> bool \<Rightarrow> os_path option \<Rightarrow> (reader option \<times> reader option, 'x) result"

text \<open>
  \<open>spawn\<close> stands for \<open>Command::spawn\<close> with the executable, the arguments, whether the streams are
  piped, and the working directory; it returns the pipes of the child.
\<close>

definition start_child ::
  "'x spawn \<Rightarrow> nat \<Rightarrow> int \<Rightarrow> ScheduledJobConfig \<Rightarrow> nat \<Rightarrow> bool \<Rightarrow> (RunningChild, 'x start_error) result" where
  "start_child spawn started clock job index capture_output =
     (case sj_command job of
        [] \<Rightarrow> Err NoExecutable
      | executable # args \<Rightarrow>
          (case spawn executable args capture_output (sj_working_dir job) of
             Err e \<Rightarrow> Err (SpawnError e)
           | Ok (out, err) \<Rightarrow>
               Ok \<lparr>rc_stdout = out, rc_stderr = err, rc_stdout_tail = output_tail_new,
                   rc_stderr_tail = output_tail_new, rc_index = index, rc_job_name = sj_name job,
                   rc_started = started, rc_started_unix_ms = now_unix_ms clock,
                   rc_scheduled_unix_ms = 0, rc_delay_ms = 0, rc_coalesced = False, rc_exit = None,
                   rc_settle_deadline = None, rc_stdout_done = (out = None),
                   rc_stderr_done = (err = None)\<rparr>))"

section \<open>The loop\<close>

datatype wake_event = WakeChild child_env | WakeDeadline child_env | WakeShutdown

record 'x iter_env =
  it_now :: nat
  it_wall :: int
  it_load :: LoadGateState
  it_expire_clock :: "nat \<Rightarrow> int"
  it_spawn :: "'x spawn"
  it_started :: nat
  it_started_clock :: int
  it_fail_clock :: int
  it_publish_wall :: int
  it_now2 :: nat
  it_now3 :: nat
  it_wake :: wake_event

record 'b RunState =
  ru_engine :: "'b Engine"
  ru_active :: "RunningChild option"

text \<open>
  The result of an iteration: the next loop state with the wake-up instant the wait was armed with
  (if it waited), the return of \<open>run\<close>, or a panic.
\<close>

datatype 'b loop_step =
  LoopContinue "nat option" "'b RunState" | LoopReturn "(unit, engine_error) result" | LoopPanic

definition active_row :: "RunningChild option \<Rightarrow> (nat \<times> nat) option" where
  "active_row active = map_option (\<lambda>c. (rc_index c, rc_started_unix_ms c)) active"

definition run_launch ::
  "(SchedulerSummaryV2 \<Rightarrow> 'b option) \<Rightarrow> (SchedulerHistoryV2 \<Rightarrow> 'b option) \<Rightarrow> 'x iter_env \<Rightarrow>
   Launch \<Rightarrow> 'b Engine \<Rightarrow> 'b RunState" where
  "run_launch ser_s ser_h env launch en =
     (case start_child (it_spawn env) (it_started env) (it_started_clock env)
             (en_configs en ! ln_index launch) (ln_index launch) (capture_enabled (en_observer en)) of
        Ok child \<Rightarrow>
          let child = child\<lparr>rc_scheduled_unix_ms := civil_unix_ms (ln_scheduled launch),
                            rc_delay_ms := duration_millis (ln_pending_age launch),
                            rc_coalesced := ln_coalesced launch\<rparr>
          in \<lparr>ru_engine = engine_publish ser_s ser_h (it_publish_wall env) (active_row (Some child)) en,
              ru_active = Some child\<rparr>
      | Err _ \<Rightarrow>
          let ob = snd (record_terminal (ln_index launch)
                (without_child (civil_unix_ms (ln_scheduled launch)) (now_unix_ms (it_fail_clock env))
                   (duration_millis (ln_pending_age launch)) (ln_coalesced launch) SpawnFailed)
                SpawnFailed (en_observer en))
          in \<lparr>ru_engine = engine_publish ser_s ser_h (it_publish_wall env) None (en\<lparr>en_observer := ob\<rparr>),
              ru_active = None\<rparr>)"

definition run_wait ::
  "(SchedulerSummaryV2 \<Rightarrow> 'b option) \<Rightarrow> (SchedulerHistoryV2 \<Rightarrow> 'b option) \<Rightarrow> JobPlatform \<Rightarrow>
   'x iter_env \<Rightarrow> nat \<Rightarrow> 'b RunState \<Rightarrow> 'b loop_step" where
  "run_wait ser_s ser_h platform env wake_at s =
     (case it_wake env of
        WakeShutdown \<Rightarrow> LoopReturn (Ok ())
      | WakeDeadline progress \<Rightarrow>
          LoopContinue (Some wake_at) (s\<lparr>ru_active := map_option (child_progress progress) (ru_active s)\<rparr>)
      | WakeChild progress \<Rightarrow>
          (case ru_active s of
             None \<Rightarrow> LoopContinue (Some wake_at) s
           | Some child \<Rightarrow>
               (case await_child_completion progress child of
                  None \<Rightarrow> LoopContinue (Some wake_at) (s\<lparr>ru_active := Some (child_progress progress child)\<rparr>)
                | Some (completion, child) \<Rightarrow>
                    LoopContinue (Some wake_at)
                      \<lparr>ru_engine = engine_publish ser_s ser_h (it_publish_wall env) None
                         (snd (finish_child platform child completion (ru_engine s))),
                       ru_active = None\<rparr>)))"

definition run_iteration ::
  "('d, 'c) chrono \<Rightarrow> (SchedulerSummaryV2 \<Rightarrow> 'b option) \<Rightarrow> (SchedulerHistoryV2 \<Rightarrow> 'b option) \<Rightarrow>
   JobPlatform \<Rightarrow> 'x iter_env \<Rightarrow> 'b RunState \<Rightarrow> 'b loop_step" where
  "run_iteration ch ser_s ser_h platform env s =
     (case tick ch (it_wall env) (it_now env) (it_load env) (ru_active s = None) (it_expire_clock env)
             (ru_engine s) of
        TickErr e \<Rightarrow> LoopReturn (Err e)
      | TickPanic \<Rightarrow> LoopPanic
      | TickLaunch launch en \<Rightarrow> LoopContinue None (run_launch ser_s ser_h env launch en)
      | TickNone en \<Rightarrow>
          let en = engine_publish ser_s ser_h (it_wall env) (active_row (ru_active s)) en in
          case next_deadline (it_wall env) (it_now2 env) (ru_active s = None) en of
            None \<Rightarrow> LoopPanic
          | Some semantic \<Rightarrow>
              run_wait ser_s ser_h platform env (bounded_wake_deadline semantic (it_now3 env))
                (s\<lparr>ru_engine := en\<rparr>))"

definition run_start ::
  "('d, 'c) chrono \<Rightarrow> (SchedulerSummaryV2 \<Rightarrow> 'b option) \<Rightarrow> (SchedulerHistoryV2 \<Rightarrow> 'b option) \<Rightarrow>
   32 word \<Rightarrow> 64 word \<Rightarrow> int \<Rightarrow> ScheduledJobConfig list \<Rightarrow> int \<Rightarrow> int \<Rightarrow> nat \<Rightarrow> 'b SchedulerPublication \<Rightarrow>
   ('b RunState, engine_error) result" where
  "run_start ch ser_s ser_h pid counter clock jobs wall_now wall_publish history_limit publisher =
     (case engine_new ch pid counter clock jobs wall_now history_limit publisher of
        Err e \<Rightarrow> Err e
      | Ok en \<Rightarrow> Ok \<lparr>ru_engine = engine_publish ser_s ser_h wall_publish None en, ru_active = None\<rparr>)"

text \<open>
  The loop on a finite sequence of environments: the state it has reached, or how it ended.
\<close>

fun run_loop ::
  "('d, 'c) chrono \<Rightarrow> (SchedulerSummaryV2 \<Rightarrow> 'b option) \<Rightarrow> (SchedulerHistoryV2 \<Rightarrow> 'b option) \<Rightarrow>
   JobPlatform \<Rightarrow> 'x iter_env list \<Rightarrow> 'b RunState \<Rightarrow> 'b loop_step" where
  "run_loop ch ser_s ser_h platform [] s = LoopContinue None s"
| "run_loop ch ser_s ser_h platform (env # envs) s =
     (case run_iteration ch ser_s ser_h platform env s of
        LoopContinue _ s' \<Rightarrow> run_loop ch ser_s ser_h platform envs s'
      | LoopReturn r \<Rightarrow> LoopReturn r
      | LoopPanic \<Rightarrow> LoopPanic)"


section \<open>What a wait changes\<close>

lemma step_frame [simp]:
  "rc_index (step_stdout c) = rc_index c" "rc_index (step_stderr c) = rc_index c"
  "rc_started (step_stdout c) = rc_started c" "rc_started (step_stderr c) = rc_started c"
  "rc_started_unix_ms (step_stdout c) = rc_started_unix_ms c" "rc_started_unix_ms (step_stderr c) = rc_started_unix_ms c"
  "rc_scheduled_unix_ms (step_stdout c) = rc_scheduled_unix_ms c" "rc_scheduled_unix_ms (step_stderr c) = rc_scheduled_unix_ms c"
  "rc_exit (step_stdout c) = rc_exit c" "rc_exit (step_stderr c) = rc_exit c"
  "rc_settle_deadline (step_stdout c) = rc_settle_deadline c" "rc_settle_deadline (step_stderr c) = rc_settle_deadline c"
  by (simp_all add: step_stdout_def step_stderr_def split: prod.splits)

text \<open>
  Everything a wait keeps: which launch the child belongs to, and a frozen exit with its bound.
\<close>

definition same_child :: "RunningChild \<Rightarrow> RunningChild \<Rightarrow> bool" where
  "same_child c c' \<longleftrightarrow> rc_index c' = rc_index c \<and> rc_started c' = rc_started c \<and>
     rc_started_unix_ms c' = rc_started_unix_ms c \<and> rc_scheduled_unix_ms c' = rc_scheduled_unix_ms c \<and>
     (\<forall>ex. rc_exit c = Some ex \<longrightarrow> rc_exit c' = Some ex \<and> rc_settle_deadline c' = rc_settle_deadline c)"

lemma same_child_refl [simp]: "same_child c c"
  by (simp add: same_child_def)

lemma same_child_trans: "same_child a b \<Longrightarrow> same_child b c \<Longrightarrow> same_child a c"
  by (simp add: same_child_def)

lemma same_child_step [simp]: "same_child c (step_stdout c)" "same_child c (step_stderr c)"
  by (simp_all add: same_child_def)

lemma settle_Cons:
  "settle_output dl (q # polls) pref c = c \<or>
   (\<exists>pref'. settle_output dl (q # polls) pref c = settle_output dl polls pref' (step_stdout c)) \<or>
   (\<exists>pref'. settle_output dl (q # polls) pref c = settle_output dl polls pref' (step_stderr c)) \<or>
   settle_output dl (q # polls) pref c = settle_output dl polls pref c"
  by (cases q) (auto simp: Let_def)

lemma settle_invariant:
  assumes "P c" and "\<And>c. P c \<Longrightarrow> P (step_stdout c)" and "\<And>c. P c \<Longrightarrow> P (step_stderr c)"
  shows "P (settle_output dl polls pref c)"
  using assms(1)
proof (induction polls arbitrary: pref c)
  case (Cons q polls)
  then show ?case using settle_Cons [of dl q polls pref c] assms(2,3) by auto
qed simp

lemma settle_same_child: "same_child c (settle_output dl polls pref c)"
  by (rule settle_invariant) (auto intro: same_child_trans)

lemma settle_exit [simp]:
  "rc_exit (settle_output dl polls pref c) = rc_exit c"
  "rc_settle_deadline (settle_output dl polls pref c) = rc_settle_deadline c"
  by (rule settle_invariant [where P = "\<lambda>x. rc_exit x = rc_exit c"], simp_all)
    (rule settle_invariant [where P = "\<lambda>x. rc_settle_deadline x = rc_settle_deadline c"], simp_all)

lemma child_reads_invariant:
  assumes "P c" and "\<And>c. P c \<Longrightarrow> P (step_stdout c)" and "\<And>c. P c \<Longrightarrow> P (step_stderr c)"
  shows "P (child_reads reads c)"
  using assms(1) by (induction reads arbitrary: c) (auto simp: child_reads_def assms(2,3))

lemma child_reads_exit [simp]:
  "rc_exit (child_reads reads c) = rc_exit c"
  "rc_settle_deadline (child_reads reads c) = rc_settle_deadline c"
  by (rule child_reads_invariant [where P = "\<lambda>x. rc_exit x = rc_exit c"], simp_all)
    (rule child_reads_invariant [where P = "\<lambda>x. rc_settle_deadline x = rc_settle_deadline c"], simp_all)

lemma child_progress_invariant:
  assumes "P c" and "\<And>c. P c \<Longrightarrow> P (step_stdout c)" and "\<And>c. P c \<Longrightarrow> P (step_stderr c)"
    and "\<And>c st fin clk. P c \<Longrightarrow> rc_exit c = None \<Longrightarrow> P (freeze_exit st fin clk c)"
  shows "P (child_progress env c)"
proof -
  have R: "P (child_reads reads c)" for reads
    using assms(1-3) by (rule child_reads_invariant)
  have S: "P (settle_output dl polls True c')" if "P c'" for dl polls c'
    using that assms(2,3) by (rule settle_invariant)
  have F: "P (freeze_exit st fin clk (child_reads reads c))" if "rc_exit c = None" for st fin clk reads
    using R that by (intro assms(4)) simp_all
  show ?thesis
    using assms(1) R S F by (simp add: child_progress_def Let_def split: option.splits)
qed

lemma child_progress_same: "same_child c (child_progress env c)"
  by (rule child_progress_invariant)
    (auto simp: same_child_def freeze_exit_def)

definition child_ok :: "RunningChild \<Rightarrow> bool" where
  "child_ok c \<longleftrightarrow> (rc_exit c \<noteq> None \<longrightarrow> rc_settle_deadline c \<noteq> None)"

lemma child_progress_ok: "child_ok c \<Longrightarrow> child_ok (child_progress env c)"
  by (auto simp: child_ok_def child_progress_def Let_def freeze_exit_def split: option.splits)

lemma child_progress_exit:
  "child_ok c \<Longrightarrow> rc_exit (child_progress env c) =
     (case rc_exit c of
        Some ex \<Rightarrow> Some ex
      | None \<Rightarrow> map_option (\<lambda>(status, finished, clock). \<lparr>ce_status = status, ce_finished = finished,
          ce_finished_unix_ms = now_unix_ms clock\<rparr>) (cv_exit env))"
  by (auto simp: child_ok_def child_progress_def Let_def freeze_exit_def split: option.splits)

lemma await_child_completion_Some:
  assumes "child_ok c" and "rc_exit (child_progress env c) = Some ex"
  shows "\<exists>cpl c'. await_child_completion env c = Some (cpl, c') \<and> cc_status cpl = ce_status ex \<and>
    cc_finished_unix_ms cpl = ce_finished_unix_ms ex \<and>
    cc_duration_ms cpl = duration_millis (ce_finished ex - rc_started c) \<and>
    cc_stdout cpl = rc_stdout_tail (child_progress env c) \<and> cc_stderr cpl = rc_stderr_tail (child_progress env c) \<and>
    rc_index c' = rc_index c"
  using assms child_progress_ok [OF assms(1), of env] child_progress_same [of c env]
  by (auto simp: await_child_completion_def Let_def child_ok_def same_child_def)

lemma await_child_completion_index:
  "await_child_completion env c = Some (cpl, c') \<Longrightarrow> rc_index c' = rc_index c \<and> rc_exit (child_progress env c) \<noteq> None"
  using child_progress_same [of c env]
  by (auto simp: await_child_completion_def Let_def same_child_def split: option.splits)

definition child_waits :: "child_env list \<Rightarrow> RunningChild \<Rightarrow> RunningChild" where
  "child_waits envs c = fold child_progress envs c"

lemma child_waits_simps [simp]:
  "child_waits [] c = c" "child_waits (env # envs) c = child_waits envs (child_progress env c)"
  by (simp_all add: child_waits_def)

lemma child_waits_same: "same_child c (child_waits envs c)"
  by (induction envs arbitrary: c) (auto intro: same_child_trans child_progress_same)

lemma child_waits_ok: "child_ok c \<Longrightarrow> child_ok (child_waits envs c)"
  by (induction envs arbitrary: c) (auto intro: child_progress_ok)

lemma child_waits_no_exit:
  "child_ok c \<Longrightarrow> rc_exit c = None \<Longrightarrow> \<forall>env \<in> set envs. cv_exit env = None \<Longrightarrow> rc_exit (child_waits envs c) = None"
  by (induction envs arbitrary: c) (auto simp: child_progress_exit child_progress_ok)

section \<open>What a wait reads\<close>

abbreviation out_view :: "RunningChild \<Rightarrow> reader option \<times> OutputTail \<times> bool" where
  "out_view c \<equiv> (rc_stdout c, rc_stdout_tail c, rc_stdout_done c)"

abbreviation err_view :: "RunningChild \<Rightarrow> reader option \<times> OutputTail \<times> bool" where
  "err_view c \<equiv> (rc_stderr c, rc_stderr_tail c, rc_stderr_done c)"

text \<open>\<open>n\<close> reads on stdout and \<open>m\<close> on stderr lead from one child to the other.\<close>

definition reads_between :: "nat \<Rightarrow> nat \<Rightarrow> RunningChild \<Rightarrow> RunningChild \<Rightarrow> bool" where
  "reads_between n m c c' \<longleftrightarrow>
     out_view c' = drain_steps n (rc_stdout c) (rc_stdout_tail c) (rc_stdout_done c) \<and>
     err_view c' = drain_steps m (rc_stderr c) (rc_stderr_tail c) (rc_stderr_done c)"

lemma drain_steps_add:
  "drain_steps n r t d = (r', t', d') \<Longrightarrow> drain_steps (n + m) r t d = drain_steps m r' t' d'"
  by (induction n arbitrary: r t d) (auto split: prod.splits)

lemma reads_between_0 [simp]: "reads_between 0 0 c c"
  by (simp add: reads_between_def)

lemma reads_between_stdout: "reads_between 1 0 c (step_stdout c)"
  by (simp add: reads_between_def step_stdout_def split: prod.splits)

lemma reads_between_stderr: "reads_between 0 1 c (step_stderr c)"
  by (simp add: reads_between_def step_stderr_def split: prod.splits)

lemma reads_between_trans:
  "reads_between n m a b \<Longrightarrow> reads_between n' m' b c \<Longrightarrow> reads_between (n + n') (m + m') a c"
  unfolding reads_between_def using drain_steps_add by metis

lemma reads_between_freeze: "reads_between n m c (freeze_exit st fin clk c') \<longleftrightarrow> reads_between n m c c'"
  by (simp add: reads_between_def freeze_exit_def)

lemma child_progress_reads: "\<exists>n m. reads_between n m c (child_progress env c)"
proof (rule child_progress_invariant)
  show "\<exists>n m. reads_between n m c c" using reads_between_0 by blast
  show "\<exists>n m. reads_between n m c (freeze_exit st fin clk c')" if "\<exists>n m. reads_between n m c c'" for c' st fin clk
    using that by (simp add: reads_between_freeze)
qed (use reads_between_trans reads_between_stdout reads_between_stderr in blast)+

lemma child_waits_reads: "\<exists>n m. reads_between n m c (child_waits envs c)"
proof (induction envs arbitrary: c)
  case Nil
  show ?case by (auto intro: reads_between_0)
next
  case (Cons env envs)
  then show ?case using child_progress_reads [of c env] reads_between_trans by (metis child_waits_simps(2))
qed


lemma drain_steps_True [simp]: "drain_steps n r t True = (r, t, True)"
  by (induction n) simp_all

lemma drain_steps_chunks:
  "drain_steps n (Some r) t False = (r', t', d') \<Longrightarrow>
   t' = fold tail_push (take n (chunks r)) t \<and> (d' \<longrightarrow> length (chunks r) \<le> n)"
proof (induction r arbitrary: n t rule: chunks.induct)
  case (1 c r)
  then show ?case by (cases n) (auto split: if_splits)
next
  case (2 r)
  then show ?case by (cases n) auto
next
  case 3
  then show ?case by (cases n) auto
qed

lemma await_child_completion_same:
  "await_child_completion env c = Some (cpl, c') \<Longrightarrow> rc_index c' = rc_index c \<and>
     rc_started_unix_ms c' = rc_started_unix_ms c \<and> rc_scheduled_unix_ms c' = rc_scheduled_unix_ms c"
  using child_progress_same [of c env]
  by (auto simp: await_child_completion_def Let_def same_child_def split: option.splits)

section \<open>The settle\<close>

lemma settle_takeWhile:
  "settle_output dl polls pref c = settle_output dl (takeWhile (\<lambda>(t, _). t < dl) polls) pref c"
proof (induction polls arbitrary: pref c)
  case (Cons q polls)
  obtain t o' e' where q: "q = (t, o', e')" by (cases q)
  show ?case
  proof (cases "t < dl")
    case True
    then show ?thesis by (auto simp: q Let_def Cons.IH [symmetric])
  qed (simp add: q)
qed simp

lemma drain_step_done: "drain_step r t True = (False, r, t, True)"
  by (cases r) simp_all

lemma step_done_mono:
  "rc_stdout_done c \<Longrightarrow> rc_stdout_done (step_stdout c)" "rc_stderr_done c \<Longrightarrow> rc_stderr_done (step_stderr c)"
  "rc_stdout_done (step_stderr c) = rc_stdout_done c" "rc_stderr_done (step_stdout c) = rc_stderr_done c"
  by (simp_all add: step_stdout_def step_stderr_def drain_step_done split: prod.splits)

lemma settle_done_mono:
  "rc_stdout_done c \<Longrightarrow> rc_stdout_done (settle_output dl polls pref c)"
  "rc_stderr_done c \<Longrightarrow> rc_stderr_done (settle_output dl polls pref c)"
  by (rule settle_invariant, simp_all add: step_done_mono)+

lemma settle_fair_aux:
  assumes "\<forall>(t, o', e') \<in> set polls. t < dl \<and> o' \<and> e'"
  shows "\<exists>n m. reads_between n m c (settle_output dl polls pref c) \<and>
    (rc_stdout_done (settle_output dl polls pref c) \<or> n \<ge> (length polls + (if pref then 1 else 0)) div 2) \<and>
    (rc_stderr_done (settle_output dl polls pref c) \<or> m \<ge> (length polls + (if pref then 0 else 1)) div 2)"
  using assms
proof (induction polls arbitrary: pref c)
  case Nil
  show ?case by (auto intro!: exI [of _ 0])
next
  case (Cons q polls)
  obtain t where q: "q = (t, True, True)" and t: "t < dl" using Cons.prems by (cases q) auto
  have rest: "\<forall>(t, o', e') \<in> set polls. t < dl \<and> o' \<and> e'" using Cons.prems by simp
  consider (fin) "rc_stdout_done c" "rc_stderr_done c"
    | (out) "\<not> rc_stdout_done c" "pref \<or> rc_stderr_done c"
    | (err) "\<not> rc_stderr_done c" "\<not> pref \<or> rc_stdout_done c" by blast
  then show ?case
  proof cases
    case fin
    then show ?thesis by (auto simp: q intro!: exI [of _ 0])
  next
    case out
    let ?c = "step_stdout c"
    have eq: "settle_output dl (q # polls) pref c = settle_output dl polls (\<not> pref) ?c"
      using out t by (auto simp: q Let_def)
    obtain n m where nm: "reads_between n m ?c (settle_output dl polls (\<not> pref) ?c)"
      "rc_stdout_done (settle_output dl polls (\<not> pref) ?c) \<or> n \<ge> (length polls + (if \<not> pref then 1 else 0)) div 2"
      "rc_stderr_done (settle_output dl polls (\<not> pref) ?c) \<or> m \<ge> (length polls + (if \<not> pref then 0 else 1)) div 2"
      using Cons.IH [OF rest, of ?c "\<not> pref"] by blast
    have "rc_stderr_done c \<Longrightarrow> rc_stderr_done (settle_output dl polls (\<not> pref) ?c)"
      by (rule settle_done_mono) (simp add: step_done_mono)
    then show ?thesis
      using reads_between_trans [OF reads_between_stdout nm(1)] nm(2,3) out
      unfolding eq by (intro exI [of _ "Suc n"] exI [of _ m]) (auto split: if_splits)
  next
    case err
    let ?c = "step_stderr c"
    have eq: "settle_output dl (q # polls) pref c = settle_output dl polls (\<not> pref) ?c"
      using err t by (auto simp: q Let_def)
    obtain n m where nm: "reads_between n m ?c (settle_output dl polls (\<not> pref) ?c)"
      "rc_stdout_done (settle_output dl polls (\<not> pref) ?c) \<or> n \<ge> (length polls + (if \<not> pref then 1 else 0)) div 2"
      "rc_stderr_done (settle_output dl polls (\<not> pref) ?c) \<or> m \<ge> (length polls + (if \<not> pref then 0 else 1)) div 2"
      using Cons.IH [OF rest, of ?c "\<not> pref"] by blast
    have "rc_stdout_done c \<Longrightarrow> rc_stdout_done (settle_output dl polls (\<not> pref) ?c)"
      by (rule settle_done_mono) (simp add: step_done_mono)
    then show ?thesis
      using reads_between_trans [OF reads_between_stderr nm(1)] nm(2,3) err
      unfolding eq by (intro exI [of _ n] exI [of _ "Suc m"]) (auto split: if_splits)
  qed
qed

section \<open>The loop invariant\<close>

lemma engine_publish_frame [simp]:
  "en_configs (engine_publish ser_s ser_h w r en) = en_configs en"
  "en_states (engine_publish ser_s ser_h w r en) = en_states en"
  "accounted (engine_publish ser_s ser_h w r en) = accounted en"
  "engine_wf (engine_publish ser_s ser_h w r en) = engine_wf en"
  "engine_rows (engine_publish ser_s ser_h w r en) running = engine_rows en running"
  by (simp_all add: engine_publish_def accounted_def pending_count_def engine_wf_def engine_rows_def
      last_summary_def case_prod_beta)

lemma engine_publish_observer [simp]:
  "ob_histories (en_observer (engine_publish ser_s ser_h w r en)) = ob_histories (en_observer en)"
  "ob_limit (en_observer (engine_publish ser_s ser_h w r en)) = ob_limit (en_observer en)"
  by (simp_all add: engine_publish_def)

definition run_total :: "'b RunState \<Rightarrow> nat" where
  "run_total s = accounted (ru_engine s) + (if ru_active s = None then 0 else 1)"

definition run_inv ::
  "(SchedulerSummaryV2 \<Rightarrow> 'b) \<Rightarrow> (SchedulerHistoryV2 \<Rightarrow> 'b) \<Rightarrow> 'b RunState \<Rightarrow> bool" where
  "run_inv enc_s enc_h s \<longleftrightarrow> engine_wf (ru_engine s) \<and>
     observer_inv (\<lambda>d. Some (enc_s d)) (\<lambda>d. Some (enc_h d)) (en_observer (ru_engine s)) \<and>
     serves_current (\<lambda>d. Some (enc_s d)) (\<lambda>d. Some (enc_h d)) (en_observer (ru_engine s))
       (engine_rows (ru_engine s) (active_row (ru_active s))) \<and>
     (\<forall>c. ru_active s = Some c \<longrightarrow> child_ok c \<and> rc_index c < length (en_configs (ru_engine s)))"

lemma publish_established:
  assumes "engine_wf en" and "observer_inv (\<lambda>d. Some (enc_s d)) (\<lambda>d. Some (enc_h d)) (en_observer en)"
    and "\<forall>c. active = Some c \<longrightarrow> child_ok c \<and> rc_index c < length (en_configs en)"
  shows "run_inv enc_s enc_h \<lparr>ru_engine = engine_publish (\<lambda>d. Some (enc_s d)) (\<lambda>d. Some (enc_h d)) w (active_row active) en,
    ru_active = active\<rparr>"
  using assms observer_log.publish_current [OF assms(2)] observer_log.inv_publish [OF assms(2)]
  by (simp add: run_inv_def) (simp add: engine_publish_def)

lemma expire_fold_observer_inv:
  "\<forall>(j, c) \<in> set xs. j < length (en_states en) \<Longrightarrow> accounted en \<le> u64_max \<Longrightarrow>
   observer_inv ser_s ser_h (en_observer en) \<Longrightarrow>
   observer_inv ser_s ser_h (en_observer (fold (expire_step now load clock) xs en))"
proof (induction xs arbitrary: en)
  case (Cons x xs)
  obtain j c where x: "x = (j, c)" by (cases x)
  let ?en = "snd (take_expired j now c load (clock j) en)"
  have j: "j < length (en_states en)" using Cons.prems by (simp add: x)
  have "observer_inv ser_s ser_h (en_observer ?en)"
  proof (cases "expires c now load (en_states en ! j)")
    case True
    then have "\<exists>st \<in> set (en_states en). js_pending st \<noteq> None"
      using j by (intro bexI [of _ "en_states en ! j"]) (auto simp: expires_def)
    then have "0 < pending_count en" by (auto simp: pending_count_def filter_empty_conv)
    then have "ob_next_sequence (en_observer en) < u64_max" using Cons.prems(2) by (simp add: accounted_def)
    then show ?thesis using True Cons.prems(3) by (simp add: take_expired_eq observer_inv_record)
  qed (simp add: take_expired_eq Cons.prems(3))
  then show ?case
    using Cons.IH [of ?en] Cons.prems(1,2) j
    by (simp add: x take_expired_accounted take_expired_states split_beta)
qed simp

lemma tick_staged_observer_inv:
  assumes "engine_wf en" "tick_staged ch wall now load clock en st"
    and "accounted en + newly_due wall en \<le> u64_max" and "observer_inv ser_s ser_h (en_observer en)"
  shows "observer_inv ser_s ser_h (en_observer st)"
proof -
  obtain m where m: "mark_due ch wall now (civil_unix_ms wall) en = Ok m" "st = expire_all now load clock m"
    using assms(2) by (auto simp: tick_staged_def)
  have "engine_wf m" using mark_due_wf [OF assms(1) m(1)] .
  then have "\<forall>(j, c) \<in> set (enumerate 0 (en_configs m)). j < length (en_states m)"
    by (auto simp: engine_wf_def set_enumerate_0)
  then show ?thesis
    unfolding m(2) expire_all_def
    by (rule expire_fold_observer_inv) (use assms(3,4) mark_due_accounted [OF m(1)] mark_due_Ok(2) [OF m(1)] in simp_all)
qed

lemma tick_observer_inv:
  assumes "engine_wf en" and "accounted en + newly_due wall en \<le> u64_max"
    and "observer_inv ser_s ser_h (en_observer en)"
  shows "tick ch wall now load slot clock en = TickNone en' \<Longrightarrow> observer_inv ser_s ser_h (en_observer en')"
    and "tick ch wall now load slot clock en = TickLaunch l en' \<Longrightarrow> observer_inv ser_s ser_h (en_observer en')"
proof -
  assume "tick ch wall now load slot clock en = TickNone en'"
  from tick_TickNone [OF this] obtain st where "tick_staged ch wall now load clock en st"
    "en' = st \<or> en' = defer_blocked_before None now (civil_unix_ms wall) load st"
    by (metis (full_types))
  with tick_staged_observer_inv [OF assms(1) _ assms(2,3)] show "observer_inv ser_s ser_h (en_observer en')"
    by auto
next
  assume "tick ch wall now load slot clock en = TickLaunch l en'"
  from tick_launch_facts [OF this] obtain st where "tick_staged ch wall now load clock en st"
    "en_observer en' = en_observer st" by blast
  with tick_staged_observer_inv [OF assms(1) _ assms(2,3)] show "observer_inv ser_s ser_h (en_observer en')"
    by simp
qed

lemma accounted_record:
  assumes "accounted en < u64_max"
  shows "accounted (en\<lparr>en_observer := record_event ev (en_observer en)\<rparr>) = Suc (accounted en)"
  using assms by (simp add: accounted_def pending_count_def sat_add64_exact)

lemma finish_child_event:
  "\<exists>rec oc. snd (finish_child platform c cpl en) = en\<lparr>en_observer := record_event (rc_index c, rec, oc) (en_observer en)\<rparr> \<and>
     tr_started_unix_ms rec = Some (rc_started_unix_ms c) \<and> tr_finished_unix_ms rec = cc_finished_unix_ms cpl \<and>
     tr_scheduled_unix_ms rec = rc_scheduled_unix_ms c \<and> tr_stdout rec = cc_stdout cpl \<and> tr_stderr rec = cc_stderr cpl \<and>
     oc = fst (child_outcome platform (cc_status cpl))"
  by (simp add: finish_child_def record_event_def case_prod_beta) (rule exI, rule conjI, rule refl, simp)

lemma run_launch_inv:
  fixes en :: "'b Engine" and env :: "'x iter_env"
  assumes wf: "engine_wf en" and ob: "observer_inv (\<lambda>d. Some (enc_s d)) (\<lambda>d. Some (enc_h d)) (en_observer en)"
    and i: "ln_index l < length (en_configs en)" and bound: "accounted en < u64_max"
  defines "s \<equiv> run_launch (\<lambda>d. Some (enc_s d)) (\<lambda>d. Some (enc_h d)) env l en"
  shows "run_inv enc_s enc_h s" "run_total s = Suc (accounted en)" "en_configs (ru_engine s) = en_configs en"
proof -
  have seq: "ob_next_sequence (en_observer en) < u64_max" using bound by (simp add: accounted_def)
  have wf': "engine_wf (en\<lparr>en_observer := record_event ev (en_observer en)\<rparr>)" for ev
    using wf by (simp add: engine_wf_def)
  have ob': "observer_inv (\<lambda>d. Some (enc_s d)) (\<lambda>d. Some (enc_h d))
      (en_observer (en\<lparr>en_observer := record_event ev (en_observer en)\<rparr>))" for ev
    using observer_log.inv_rec [OF ob seq] by simp
  have rt: "snd (record_terminal j rec oc ob0) = record_event (j, rec, oc) ob0" for j rec oc and ob0 :: "'b SchedulerObserver"
    by (simp add: record_event_def)
  show "run_inv enc_s enc_h s"
  proof (cases "start_child (it_spawn env) (it_started env) (it_started_clock env) (en_configs en ! ln_index l)
      (ln_index l) (capture_enabled (en_observer en))")
    case (Ok c)
    then have "rc_index c = ln_index l" "rc_exit c = None"
      by (auto simp: start_child_def split: list.splits result.splits)
    then show ?thesis
      using publish_established [OF wf ob] i Ok by (simp add: s_def run_launch_def Let_def child_ok_def)
  next
    case (Err e)
    then show ?thesis
      using publish_established [OF wf' ob', where active = None]
      by (simp add: s_def run_launch_def Let_def rt active_row_def)
  qed
  show "run_total s = Suc (accounted en)" "en_configs (ru_engine s) = en_configs en"
    using accounted_record [OF bound]
    by (simp_all add: s_def run_launch_def run_total_def Let_def rt split: result.splits)
qed

lemma run_wait_inv:
  assumes inv: "run_inv enc_s enc_h s" and bound: "run_total s \<le> u64_max"
    and step: "run_wait (\<lambda>d. Some (enc_s d)) (\<lambda>d. Some (enc_h d)) platform env w s = LoopContinue w' s'"
  shows "run_inv enc_s enc_h s' \<and> run_total s' = run_total s \<and> en_configs (ru_engine s') = en_configs (ru_engine s)"
proof -
  have prog: "run_inv enc_s enc_h (s\<lparr>ru_active := Some (child_progress p c)\<rparr>) \<and>
      run_total (s\<lparr>ru_active := Some (child_progress p c)\<rparr>) = run_total s" if "ru_active s = Some c" for p c
    using inv that child_progress_same [of c p] child_progress_ok [of c p]
    by (simp add: run_inv_def run_total_def active_row_def same_child_def)
  have same: "s\<lparr>ru_active := None\<rparr> = s" if "ru_active s = None" using that by simp
  show ?thesis
  proof (cases "\<exists>p c cpl c'. it_wake env = WakeChild p \<and> ru_active s = Some c \<and>
      await_child_completion p c = Some (cpl, c')")
    case False
    then show ?thesis
      using step prog inv
      by (cases "ru_active s") (auto simp: run_wait_def same split: wake_event.splits option.splits)
  next
    case True
    then obtain p c cpl c' where c: "it_wake env = WakeChild p" "ru_active s = Some c"
      "await_child_completion p c = Some (cpl, c')" by blast
    obtain ev where ev: "snd (finish_child platform c' cpl (ru_engine s)) =
        (ru_engine s)\<lparr>en_observer := record_event ev (en_observer (ru_engine s))\<rparr>"
      using finish_child_event by blast
    let ?en = "(ru_engine s)\<lparr>en_observer := record_event ev (en_observer (ru_engine s))\<rparr>"
    have s': "s' = \<lparr>ru_engine = engine_publish (\<lambda>d. Some (enc_s d)) (\<lambda>d. Some (enc_h d)) (it_publish_wall env) (active_row None) ?en,
        ru_active = None\<rparr>"
      using step c by (simp add: run_wait_def ev active_row_def)
    have acc: "accounted (ru_engine s) < u64_max" using bound c(2) by (simp add: run_total_def)
    then have seq: "ob_next_sequence (en_observer (ru_engine s)) < u64_max" by (simp add: accounted_def)
    have "engine_wf ?en" using inv by (simp add: run_inv_def engine_wf_def)
    moreover have "observer_inv (\<lambda>d. Some (enc_s d)) (\<lambda>d. Some (enc_h d)) (en_observer ?en)"
      using inv observer_log.inv_rec [OF _ seq] by (simp add: run_inv_def)
    ultimately have "run_inv enc_s enc_h s'" unfolding s' by (rule publish_established) simp
    then show ?thesis using accounted_record [OF acc, of ev] c(2) by (simp add: s' run_total_def)
  qed
qed

lemma run_iteration_inv:
  assumes inv: "run_inv enc_s enc_h s" and bound: "run_total s + newly_due (it_wall env) (ru_engine s) \<le> u64_max"
    and step: "run_iteration ch (\<lambda>d. Some (enc_s d)) (\<lambda>d. Some (enc_h d)) platform env s = LoopContinue w s'"
  shows "run_inv enc_s enc_h s' \<and> run_total s' = run_total s + newly_due (it_wall env) (ru_engine s) \<and>
    en_configs (ru_engine s') = en_configs (ru_engine s)"
proof -
  let ?en = "ru_engine s" and ?wall = "it_wall env"
  let ?tick = "tick ch ?wall (it_now env) (it_load env) (ru_active s = None) (it_expire_clock env) ?en"
  have wf: "engine_wf ?en" and ob: "observer_inv (\<lambda>d. Some (enc_s d)) (\<lambda>d. Some (enc_h d)) (en_observer ?en)"
    using inv by (simp_all add: run_inv_def)
  have acc: "accounted ?en + newly_due ?wall ?en \<le> u64_max" using bound by (simp add: run_total_def)
  show ?thesis
  proof (cases ?tick)
    case (TickLaunch l en')
    note T = tick_accounted(2) [OF wf acc TickLaunch] tick_observer_inv(2) [OF wf acc ob TickLaunch]
    have idle: "ru_active s = None" using tick_TickLaunch [OF TickLaunch] by simp
    have s': "s' = run_launch (\<lambda>d. Some (enc_s d)) (\<lambda>d. Some (enc_h d)) env l en'"
      using step TickLaunch by (simp add: run_iteration_def)
    have "accounted en' < u64_max" "ln_index l < length (en_configs en')" "engine_wf en'" using T acc by auto
    note L = run_launch_inv [OF this(3) T(2) this(2,1), of env, folded s']
    have "run_total s = accounted ?en" using idle by (simp add: run_total_def)
    with L T show ?thesis by simp
  next
    case (TickNone en')
    note T = tick_accounted(1) [OF wf acc TickNone] tick_observer_inv(1) [OF wf acc ob TickNone]
    let ?s = "s\<lparr>ru_engine := engine_publish (\<lambda>d. Some (enc_s d)) (\<lambda>d. Some (enc_h d)) ?wall (active_row (ru_active s)) en'\<rparr>"
    have "run_inv enc_s enc_h \<lparr>ru_engine = ru_engine ?s, ru_active = ru_active s\<rparr>"
      using publish_established [of en' enc_s enc_h "ru_active s" ?wall] T inv by (simp add: run_inv_def)
    then have "run_inv enc_s enc_h ?s" by (simp add: run_inv_def)
    moreover have tot: "run_total ?s = run_total s + newly_due ?wall ?en" using T by (simp add: run_total_def)
    moreover obtain w'' where wait:
      "run_wait (\<lambda>d. Some (enc_s d)) (\<lambda>d. Some (enc_h d)) platform env w'' ?s = LoopContinue w s'"
      using step TickNone by (auto simp: run_iteration_def Let_def split: option.splits)
    ultimately show ?thesis
      using run_wait_inv [OF _ _ wait] bound T by simp
  qed (use step in \<open>simp_all add: run_iteration_def\<close>)
qed

text \<open>The occurrences created along a run.\<close>

fun run_created ::
  "('d, 'c) chrono \<Rightarrow> (SchedulerSummaryV2 \<Rightarrow> 'b option) \<Rightarrow> (SchedulerHistoryV2 \<Rightarrow> 'b option) \<Rightarrow>
   JobPlatform \<Rightarrow> 'x iter_env list \<Rightarrow> 'b RunState \<Rightarrow> nat" where
  "run_created ch ser_s ser_h platform [] s = 0"
| "run_created ch ser_s ser_h platform (env # envs) s =
     newly_due (it_wall env) (ru_engine s) +
     (case run_iteration ch ser_s ser_h platform env s of
        LoopContinue _ s' \<Rightarrow> run_created ch ser_s ser_h platform envs s' | _ \<Rightarrow> 0)"

lemma newly_due_le: "engine_wf en \<Longrightarrow> newly_due wall en \<le> length (en_configs en)"
  using length_filter_le [of "\<lambda>st. js_next_due st \<le> wall \<and> js_pending st = None" "en_states en"]
  by (simp add: newly_due_def engine_wf_def)

lemma job_state_new_idle: "job_state_new ch wall cfg = Ok st \<Longrightarrow> js_pending st = None"
  by (auto simp: job_state_new_def split: result.splits)

lemma engine_new_facts:
  assumes "engine_new ch pid c clk jobs wall limit p = Ok en"
  shows "en_configs en = jobs" "length jobs \<le> MAX_JOBS"
    "en_observer en = observer_new pid c (map sj_name jobs) limit (now_unix_ms clk) p"
    "pending_count en = 0"
proof -
  obtain sts where sts: "traverse_result (job_state_new ch wall) jobs = Ok sts" "en_states en = sts"
    using assms by (auto simp: engine_new_def split: if_splits result.splits)
  show "en_configs en = jobs" "length jobs \<le> MAX_JOBS"
    "en_observer en = observer_new pid c (map sj_name jobs) limit (now_unix_ms clk) p"
    using assms by (auto simp: engine_new_def split: if_splits result.splits)
  have "js_pending st = None" if "st \<in> set sts" for st
    using that sts(1) job_state_new_idle
    by (metis in_set_conv_nth traverse_result_length traverse_result_nth)
  then show "pending_count en = 0" by (simp add: pending_count_def filter_empty_conv sts(2))
qed

lemma run_start_inv:
  assumes "run_start ch (\<lambda>d. Some (enc_s d)) (\<lambda>d. Some (enc_h d)) pid c clk jobs wall wall' limit p = Ok s"
  shows "run_inv enc_s enc_h s" "run_total s = 1" "length (en_configs (ru_engine s)) \<le> MAX_JOBS"
proof -
  obtain en where en: "engine_new ch pid c clk jobs wall limit p = Ok en"
    "s = \<lparr>ru_engine = engine_publish (\<lambda>d. Some (enc_s d)) (\<lambda>d. Some (enc_h d)) wall' (active_row None) en, ru_active = None\<rparr>"
    using assms by (auto simp: run_start_def active_row_def split: result.splits)
  note new = engine_new_facts [OF en(1)]
  have "observer_inv (\<lambda>d. Some (enc_s d)) (\<lambda>d. Some (enc_h d)) (en_observer en)"
    unfolding new(3) observer_inv_def by (simp add: published_inv_new) (simp add: observer_new_def)
  then show "run_inv enc_s enc_h s"
    unfolding en(2) by (rule publish_established [OF engine_new_wf [OF en(1)]]) simp
  have "accounted en = 1" by (simp add: accounted_def new(3,4) observer_new_def)
  then show "run_total s = 1" by (simp add: en(2) run_total_def)
  show "length (en_configs (ru_engine s)) \<le> MAX_JOBS" using new(1,2) by (simp add: en(2))
qed

lemma run_iteration_no_panic:
  assumes "engine_wf (ru_engine s)"
  shows "run_iteration ch ser_s ser_h platform env s \<noteq> LoopPanic"
proof -
  have nd: "next_deadline wall now slot (engine_publish ser_s ser_h w r en') \<noteq> None" if "engine_wf en'" for wall now slot w r en'
    using next_deadline_Min [of "engine_publish ser_s ser_h w r en'" wall now slot] that by auto
  show ?thesis
  proof (cases "tick ch (it_wall env) (it_now env) (it_load env) (ru_active s = None) (it_expire_clock env) (ru_engine s)")
    case (TickNone en')
    from nd [OF tick_none_due(1) [OF assms TickNone]] show ?thesis
      by (auto simp: run_iteration_def TickNone run_wait_def Let_def split: option.splits wake_event.splits)
  qed (simp_all add: run_iteration_def tick_no_panic)
qed

lemma run_iteration_error:
  assumes "run_iteration ch ser_s ser_h platform env s = LoopReturn (Err e)"
  shows "\<exists>i se S. e = JobSchedule (sj_name (en_configs (ru_engine s) ! i)) se \<and> i < length (en_states (ru_engine s)) \<and>
    S = js_schedule (en_states (ru_engine s) ! i) \<and> js_next_due (en_states (ru_engine s) ! i) \<le> it_wall env \<and>
    next_after ch S (it_wall env) = Err se"
proof -
  have "mark_due ch (it_wall env) (it_now env) (civil_unix_ms (it_wall env)) (ru_engine s) = Err e"
    using assms
    by (auto simp: run_iteration_def run_wait_def tick_def Let_def
        split: tick_result.splits option.splits wake_event.splits result.splits if_splits)
  then obtain i st where "(i, st) \<in> set (enumerate 0 (en_states (ru_engine s)))"
    "due_state ch (it_wall env) (it_now env) (civil_unix_ms (it_wall env)) (en_configs (ru_engine s) ! i) st = Err e"
    by (fastforce simp: mark_due_def split: result.splits dest!: traverse_result_Err)
  then show ?thesis
    by (auto simp: set_enumerate_0 due_state_def Let_def split: if_splits option.splits result.splits)
qed

lemma run_loop_inv:
  assumes "run_inv enc_s enc_h s"
    and "run_total s + length (en_configs (ru_engine s)) * length envs \<le> u64_max"
  shows "run_loop ch (\<lambda>d. Some (enc_s d)) (\<lambda>d. Some (enc_h d)) platform envs s \<noteq> LoopPanic"
    and "run_loop ch (\<lambda>d. Some (enc_s d)) (\<lambda>d. Some (enc_h d)) platform envs s = LoopContinue w s' \<Longrightarrow>
      run_inv enc_s enc_h s' \<and>
      run_total s' = run_total s + run_created ch (\<lambda>d. Some (enc_s d)) (\<lambda>d. Some (enc_h d)) platform envs s"
  using assms
proof (induction envs arbitrary: s)
  case Nil
  { case 1 show ?case by simp }
  { case 2 then show ?case by simp }
next
  case (Cons env envs)
  let ?it = "run_iteration ch (\<lambda>d. Some (enc_s d)) (\<lambda>d. Some (enc_h d)) platform env"
  have next_ok: "run_inv enc_s enc_h t' \<and> run_total t' = run_total t + newly_due (it_wall env) (ru_engine t) \<and>
      run_total t' + length (en_configs (ru_engine t')) * length envs \<le> u64_max"
    if "run_inv enc_s enc_h t" "run_total t + length (en_configs (ru_engine t)) * length (env # envs) \<le> u64_max"
      "?it t = LoopContinue v t'" for t t' v
  proof -
    have le: "newly_due (it_wall env) (ru_engine t) \<le> length (en_configs (ru_engine t))"
      using that(1) by (intro newly_due_le) (simp add: run_inv_def)
    with that(2) have "run_total t + newly_due (it_wall env) (ru_engine t) \<le> u64_max" by simp
    from run_iteration_inv [OF that(1) this that(3)] le that(2) show ?thesis by simp
  qed
  {
    case 1
    have np: "?it s \<noteq> LoopPanic" by (rule run_iteration_no_panic) (use 1 in \<open>simp add: run_inv_def\<close>)
    show ?case
    proof (cases "?it s")
      case (LoopContinue v t)
      from next_ok [OF 1 LoopContinue] Cons.IH(1) [of t] LoopContinue show ?thesis by simp
    qed (use np in simp_all)
  next
    case 2
    then obtain v t where t: "?it s = LoopContinue v t" "run_loop ch (\<lambda>d. Some (enc_s d)) (\<lambda>d. Some (enc_h d)) platform envs t = LoopContinue w s'"
      by (auto split: loop_step.splits)
    from next_ok [OF 2(2,3) t(1)] Cons.IH(2) [OF t(2)] t(1) show ?case by simp
  }
qed

section \<open>Properties\<close>

text \<open>A started run of the example job and one idle environment, used to instantiate the properties.\<close>

definition example_wall :: int where
  "example_wall = ny_fall_day * DAY_NS"

definition example_new :: "unit Engine" where
  "example_new = \<lparr>en_configs = [example_job (ustr ''nightly'')],
     en_states = [\<lparr>js_schedule = half_hours_at_one, js_next_due = example_wall + HOUR_NS,
       js_pending = None, js_last_gate = None\<rparr>],
     en_observer = observer_new 1 0 [ustr ''nightly''] 5 0 \<lparr>pub_summary_bytes = (), pub_history_bytes = ()\<rparr>\<rparr>"

definition example_run :: "unit RunState" where
  "example_run = \<lparr>ru_engine = engine_publish (\<lambda>d. Some ()) (\<lambda>d. Some ()) example_wall None example_new, ru_active = None\<rparr>"

definition example_env :: "wake_event \<Rightarrow> unit iter_env" where
  "example_env wake = \<lparr>it_now = 5, it_wall = example_wall + HOUR_NS, it_load = example_load 1, it_expire_clock = (\<lambda>_. 0),
     it_spawn = (\<lambda>_ _ _ _. Ok (Some [ReadOk [104, 105]], Some [])), it_started = 6, it_started_clock = example_wall,
     it_fail_clock = example_wall, it_publish_wall = example_wall, it_now2 = 7, it_now3 = 8, it_wake = wake\<rparr>"

lemma example_run_start:
  "run_start (gregorian_zone 0) (\<lambda>d. Some ()) (\<lambda>d. Some ()) 1 0 0 [example_job (ustr ''nightly'')]
     example_wall example_wall 5 \<lparr>pub_summary_bytes = (), pub_history_bytes = ()\<rparr> = Ok example_run"
proof -
  have "job_state_new (gregorian_zone 0) example_wall (example_job (ustr ''nightly'')) =
      Ok \<lparr>js_schedule = half_hours_at_one, js_next_due = example_wall + HOUR_NS, js_pending = None, js_last_gate = None\<rparr>"
    by (simp add: job_state_new_def example_job_def parse_half_hours next_after_utc_midnight example_wall_def)
  moreover have "sj_name (example_job (ustr ''nightly'')) = ustr ''nightly''" by (simp add: example_job_def)
  ultimately show ?thesis
    by (simp add: run_start_def engine_new_def example_run_def example_new_def MAX_JOBS_def now_unix_ms_def)
qed

lemma example_tick:
  "\<exists>l en'. tick (gregorian_zone 0) (example_wall + HOUR_NS) 5 (example_load 1) True (\<lambda>_. 0) (ru_engine example_run)
     = TickLaunch l en' \<and> ln_index l = 0 \<and> en_configs en' = [example_job (ustr ''nightly'')]"
proof -
  have "next_after (gregorian_zone 0) half_hours_at_one (example_wall + HOUR_NS) =
      Ok (example_wall + HOUR_NS + 1800 * 10 ^ 9)"
    using next_after_utc by (simp add: example_wall_def)
  moreover have "en_states (ru_engine example_run) = en_states example_new"
    "en_configs (ru_engine example_run) = [example_job (ustr ''nightly'')]"
    by (simp_all add: example_run_def example_new_def)
  ultimately show ?thesis by (simp add: example_new_def tick_eval)
qed

lemma example_launched:
  "\<exists>s' child. run_loop (gregorian_zone 0) (\<lambda>d. Some ()) (\<lambda>d. Some ()) Unix [example_env WakeShutdown] example_run
     = LoopContinue None s' \<and> ru_active s' = Some child"
proof -
  obtain l en' where T: "tick (gregorian_zone 0) (example_wall + HOUR_NS) 5 (example_load 1) True (\<lambda>_. 0) (ru_engine example_run)
     = TickLaunch l en'" "ln_index l = 0" "en_configs en' = [example_job (ustr ''nightly'')]"
    using example_tick by blast
  have "\<exists>c. start_child (it_spawn (example_env WakeShutdown)) st clk (en_configs en' ! ln_index l) i cap = Ok c" for st clk i cap
    by (simp add: T example_env_def start_child_def example_job_def)
  then obtain c where c: "start_child (it_spawn (example_env WakeShutdown)) (it_started (example_env WakeShutdown))
      (it_started_clock (example_env WakeShutdown)) (en_configs en' ! ln_index l) (ln_index l)
      (capture_enabled (en_observer en')) = Ok c" by blast
  have idle: "ru_active example_run = None" by (simp add: example_run_def)
  have env: "it_wall (example_env WakeShutdown) = example_wall + HOUR_NS" "it_now (example_env WakeShutdown) = 5"
    "it_load (example_env WakeShutdown) = example_load 1" "it_expire_clock (example_env WakeShutdown) = (\<lambda>_. 0)"
    by (simp_all add: example_env_def)
  show ?thesis by (simp add: run_iteration_def env idle T(1) run_launch_def c Let_def)
qed

lemma started_run:
  assumes "run_start ch (\<lambda>d. Some (enc_s d)) (\<lambda>d. Some (enc_h d)) pid c clk jobs wall wall' limit p = Ok s"
    and "MAX_JOBS * length envs < u64_max"
  shows "run_loop ch (\<lambda>d. Some (enc_s d)) (\<lambda>d. Some (enc_h d)) platform envs s \<noteq> LoopPanic"
    and "run_loop ch (\<lambda>d. Some (enc_s d)) (\<lambda>d. Some (enc_h d)) platform envs s = LoopContinue w s' \<Longrightarrow>
      run_inv enc_s enc_h s' \<and>
      run_total s' = Suc (run_created ch (\<lambda>d. Some (enc_s d)) (\<lambda>d. Some (enc_h d)) platform envs s)"
proof -
  note S = run_start_inv [OF assms(1)]
  have bound: "run_total s + length (en_configs (ru_engine s)) * length envs \<le> u64_max"
    using mult_le_mono1 [OF S(3), of "length envs"] S(2) assms(2) by linarith
  show "run_loop ch (\<lambda>d. Some (enc_s d)) (\<lambda>d. Some (enc_h d)) platform envs s \<noteq> LoopPanic"
    using run_loop_inv(1) [OF S(1) bound] .
  show "run_inv enc_s enc_h s' \<and>
      run_total s' = Suc (run_created ch (\<lambda>d. Some (enc_s d)) (\<lambda>d. Some (enc_h d)) platform envs s)"
    if "run_loop ch (\<lambda>d. Some (enc_s d)) (\<lambda>d. Some (enc_h d)) platform envs s = LoopContinue w s'"
    using run_loop_inv(2) [OF S(1) bound that] S(2) by simp
qed

text \<open>
  Along a run the engine keeps the started jobs and the schedules parsed from their expressions.
\<close>

definition runs_jobs :: "ScheduledJobConfig list \<Rightarrow> 'b Engine \<Rightarrow> bool" where
  "runs_jobs jobs en \<longleftrightarrow> engine_wf en \<and> en_configs en = jobs \<and>
     map (\<lambda>job. parse_schedule (sj_schedule job)) jobs = map (\<lambda>st. Ok (js_schedule st)) (en_states en)"

lemma runs_jobs_kept:
  assumes "runs_jobs jobs en" "map js_schedule (en_states en') = map js_schedule (en_states en)"
    "en_configs en' = en_configs en" "engine_wf en'"
  shows "runs_jobs jobs en'"
proof -
  have "map (\<lambda>st. Ok (js_schedule st)) sts = map Ok (map js_schedule sts)" for sts by simp
  with assms show ?thesis unfolding runs_jobs_def by metis
qed

lemma engine_new_runs_jobs:
  assumes "engine_new ch pid c clk jobs wall limit p = Ok en"
  shows "runs_jobs jobs en"
proof -
  obtain sts where sts: "traverse_result (job_state_new ch wall) jobs = Ok sts" "en_states en = sts"
    using assms by (auto simp: engine_new_def split: if_splits result.splits)
  have "parse_schedule (sj_schedule job) = Ok (js_schedule st)" if "job_state_new ch wall job = Ok st" for job st
    using that by (auto simp: job_state_new_def split: result.splits)
  then have "parse_schedule (sj_schedule (jobs ! i)) = Ok (js_schedule (sts ! i))" if "i < length jobs" for i
    using traverse_result_nth [OF sts(1) that] by blast
  then show ?thesis
    using engine_new_wf [OF assms] engine_new_facts(1) [OF assms] traverse_result_length [OF sts(1)]
    by (auto simp: runs_jobs_def sts(2) intro!: nth_equalityI)
qed

lemma finish_child_jobs:
  "en_states (snd (finish_child platform c cpl en)) = en_states en"
  "en_configs (snd (finish_child platform c cpl en)) = en_configs en"
  by (simp_all add: finish_child_def split: prod.splits)

lemma run_iteration_runs_jobs:
  assumes "runs_jobs jobs (ru_engine s)" "engine_wf (ru_engine s')"
    and step: "run_iteration ch ser_s ser_h platform env s = LoopContinue w s'"
  shows "runs_jobs jobs (ru_engine s')"
proof -
  have wf: "engine_wf (ru_engine s)" using assms(1) by (simp add: runs_jobs_def)
  show ?thesis
  proof (cases "tick ch (it_wall env) (it_now env) (it_load env) (ru_active s = None) (it_expire_clock env) (ru_engine s)")
    case (TickLaunch l en')
    have "en_states (ru_engine (run_launch ser_s ser_h env l en')) = en_states en'"
      "en_configs (ru_engine (run_launch ser_s ser_h env l en')) = en_configs en'"
      by (simp_all add: run_launch_def Let_def split: result.splits)
    moreover have "s' = run_launch ser_s ser_h env l en'" using step TickLaunch by (simp add: run_iteration_def)
    ultimately show ?thesis
      using runs_jobs_kept [OF assms(1) _ _ assms(2)] tick_schedules(2) [OF wf TickLaunch] by simp
  next
    case (TickNone en')
    then have "en_states (ru_engine s') = en_states en'" "en_configs (ru_engine s') = en_configs en'"
      using step
      by (auto simp: run_iteration_def run_wait_def finish_child_jobs Let_def split: option.splits wake_event.splits)
    then show ?thesis
      using runs_jobs_kept [OF assms(1) _ _ assms(2)] tick_schedules(1) [OF wf TickNone] by simp
  qed (use step in \<open>simp_all add: run_iteration_def\<close>)
qed

lemma run_loop_append:
  "run_loop ch ser_s ser_h platform (xs @ ys) s =
     (case run_loop ch ser_s ser_h platform xs s of
        LoopContinue _ t \<Rightarrow> run_loop ch ser_s ser_h platform ys t
      | LoopReturn r \<Rightarrow> LoopReturn r | LoopPanic \<Rightarrow> LoopPanic)"
  by (induction xs arbitrary: s) (auto split: loop_step.splits)

lemma run_loop_last_iteration:
  "run_loop ch ser_s ser_h platform envs s = LoopReturn r \<Longrightarrow>
   \<exists>before env after w t. envs = before @ env # after \<and>
     run_loop ch ser_s ser_h platform before s = LoopContinue w t \<and>
     run_iteration ch ser_s ser_h platform env t = LoopReturn r"
proof (induction envs arbitrary: s)
  case (Cons env envs)
  show ?case
  proof (cases "run_iteration ch ser_s ser_h platform env s")
    case (LoopContinue v t)
    with Cons.prems have "run_loop ch ser_s ser_h platform envs t = LoopReturn r" by simp
    from Cons.IH [OF this] obtain before env' after w t' where "envs = before @ env' # after"
      "run_loop ch ser_s ser_h platform before t = LoopContinue w t'"
      "run_iteration ch ser_s ser_h platform env' t' = LoopReturn r" by blast
    with LoopContinue show ?thesis by (intro exI [of _ "env # before"]) auto
  qed (use Cons in \<open>auto intro: exI [of _ "[]"]\<close>)
qed simp

lemma run_iteration_shutdown:
  "run_iteration ch ser_s ser_h platform env s = LoopReturn (Ok u) \<Longrightarrow> it_wake env = WakeShutdown"
  by (auto simp: run_iteration_def run_wait_def Let_def
      split: tick_result.splits option.splits wake_event.splits)

lemma started_run_jobs:
  assumes "run_start ch (\<lambda>d. Some (enc_s d)) (\<lambda>d. Some (enc_h d)) pid c clk jobs wall wall' limit p = Ok s"
    and "MAX_JOBS * length envs < u64_max"
    and "run_loop ch (\<lambda>d. Some (enc_s d)) (\<lambda>d. Some (enc_h d)) platform envs s = LoopContinue w s'"
  shows "runs_jobs jobs (ru_engine s')"
  using assms(2,3)
proof (induction envs arbitrary: s' w rule: rev_induct)
  case Nil
  obtain en where en: "engine_new ch pid c clk jobs wall limit p = Ok en"
    "ru_engine s = engine_publish (\<lambda>d. Some (enc_s d)) (\<lambda>d. Some (enc_h d)) wall' None en"
    using assms(1) by (auto simp: run_start_def split: result.splits)
  have "engine_wf (ru_engine s)" using run_start_inv(1) [OF assms(1)] by (simp add: run_inv_def)
  then have "runs_jobs jobs (ru_engine s)"
    by (intro runs_jobs_kept [OF engine_new_runs_jobs [OF en(1)]]) (simp_all add: en(2))
  with Nil show ?case by simp
next
  case (snoc env envs)
  obtain v t where t: "run_loop ch (\<lambda>d. Some (enc_s d)) (\<lambda>d. Some (enc_h d)) platform envs s = LoopContinue v t"
    "\<exists>w. run_iteration ch (\<lambda>d. Some (enc_s d)) (\<lambda>d. Some (enc_h d)) platform env t = LoopContinue w s'"
    using snoc.prems(2) by (auto simp: run_loop_append split: loop_step.splits)
  have "engine_wf (ru_engine s')"
    using started_run(2) [OF assms(1) snoc.prems] by (simp add: run_inv_def)
  with t snoc.IH [OF _ t(1)] snoc.prems(1) run_iteration_runs_jobs show ?case by fastforce
qed

text \<open>
  C1. Whatever the environment does, a started run serves a current pair after every iteration: the
  summary and history bodies are the serialization of the job rows (with the child that holds the
  slot), the histories, the epoch and the revision of that moment.
\<close>

theorem run_serves_current:
  assumes "run_start ch (\<lambda>d. Some (enc_s d)) (\<lambda>d. Some (enc_h d)) pid c clk jobs wall wall' limit p = Ok s"
    and "MAX_JOBS * length envs < u64_max"
    and "run_loop ch (\<lambda>d. Some (enc_s d)) (\<lambda>d. Some (enc_h d)) platform envs s = LoopContinue w s'"
  shows "serves_current (\<lambda>d. Some (enc_s d)) (\<lambda>d. Some (enc_h d)) (en_observer (ru_engine s'))
     (engine_rows (ru_engine s') (active_row (ru_active s')))"
  using started_run(2) [OF assms] by (simp add: run_inv_def)

theorem run_serves_current_witness:
  "\<exists>s' child. run_loop (gregorian_zone 0) (\<lambda>d. Some ()) (\<lambda>d. Some ()) Unix [example_env WakeShutdown] example_run
     = LoopContinue None s' \<and> ru_active s' = Some child \<and>
     serves_current (\<lambda>d. Some ()) (\<lambda>d. Some ()) (en_observer (ru_engine s')) (engine_rows (ru_engine s') (active_row (Some child)))"
  using example_launched run_serves_current [OF example_run_start, of "[example_env WakeShutdown]" Unix None]
  by (fastforce simp: MAX_JOBS_def u64_max_def)

text \<open>
  C40. The loop never panics. It ends with an error only in an iteration at which one of the started
  jobs was due, with that job's name, and because the search for its next occurrence in the schedule
  parsed from its own expression failed at the time of that iteration; it ends without an error only
  at the shutdown.
\<close>

theorem run_ends_cleanly:
  assumes "run_start ch (\<lambda>d. Some (enc_s d)) (\<lambda>d. Some (enc_h d)) pid c clk jobs wall wall' limit p = Ok s"
    and "MAX_JOBS * length envs < u64_max"
  shows "case run_loop ch (\<lambda>d. Some (enc_s d)) (\<lambda>d. Some (enc_h d)) platform envs s of
      LoopPanic \<Rightarrow> False
    | LoopReturn (Err e) \<Rightarrow>
        (\<exists>before env after w t i S se. envs = before @ env # after \<and>
           run_loop ch (\<lambda>d. Some (enc_s d)) (\<lambda>d. Some (enc_h d)) platform before s = LoopContinue w t \<and>
           i < length jobs \<and> js_next_due (en_states (ru_engine t) ! i) \<le> it_wall env \<and>
           e = JobSchedule (sj_name (jobs ! i)) se \<and> parse_schedule (sj_schedule (jobs ! i)) = Ok S \<and>
           next_after ch S (it_wall env) = Err se)
    | LoopReturn (Ok _) \<Rightarrow>
        (\<exists>before env after w t. envs = before @ env # after \<and> it_wake env = WakeShutdown \<and>
           run_loop ch (\<lambda>d. Some (enc_s d)) (\<lambda>d. Some (enc_h d)) platform before s = LoopContinue w t)
    | LoopContinue _ _ \<Rightarrow> True"
proof (cases "run_loop ch (\<lambda>d. Some (enc_s d)) (\<lambda>d. Some (enc_h d)) platform envs s")
  case (LoopReturn r)
  obtain before env after w t where last: "envs = before @ env # after"
    "run_loop ch (\<lambda>d. Some (enc_s d)) (\<lambda>d. Some (enc_h d)) platform before s = LoopContinue w t"
    "run_iteration ch (\<lambda>d. Some (enc_s d)) (\<lambda>d. Some (enc_h d)) platform env t = LoopReturn r"
    using run_loop_last_iteration [OF LoopReturn] by blast
  show ?thesis
  proof (cases r)
    case (Ok u)
    with LoopReturn last run_iteration_shutdown [of ch _ _ platform env t u] show ?thesis by auto
  next
    case (Err e)
    have "MAX_JOBS * length before < u64_max" using assms(2) by (simp add: last(1) algebra_simps)
    then have J: "runs_jobs jobs (ru_engine t)" using started_run_jobs [OF assms(1) _ last(2)] by simp
    obtain i se where i: "e = JobSchedule (sj_name (en_configs (ru_engine t) ! i)) se"
      "i < length (en_states (ru_engine t))" "js_next_due (en_states (ru_engine t) ! i) \<le> it_wall env"
      "next_after ch (js_schedule (en_states (ru_engine t) ! i)) (it_wall env) = Err se"
      using run_iteration_error [OF last(3) [unfolded Err]] by blast
    have len: "length (en_states (ru_engine t)) = length jobs" "en_configs (ru_engine t) = jobs"
      using J by (auto simp: runs_jobs_def engine_wf_def)
    have "parse_schedule (sj_schedule (jobs ! i)) = Ok (js_schedule (en_states (ru_engine t) ! i))"
      using J i(2) len unfolding runs_jobs_def by (metis (no_types, lifting) nth_map)
    with i len have "i < length jobs \<and> js_next_due (en_states (ru_engine t) ! i) \<le> it_wall env \<and>
        e = JobSchedule (sj_name (jobs ! i)) se \<and>
        parse_schedule (sj_schedule (jobs ! i)) = Ok (js_schedule (en_states (ru_engine t) ! i)) \<and>
        next_after ch (js_schedule (en_states (ru_engine t) ! i)) (it_wall env) = Err se" by simp
    with last(1,2) show ?thesis unfolding LoopReturn Err loop_step.case result.case by blast
  qed
qed (use started_run(1) [OF assms] in simp_all)

theorem run_ends_cleanly_witness:
  "run_loop (gregorian_zone 0) (\<lambda>d. Some ()) (\<lambda>d. Some ()) Unix [example_env WakeShutdown, example_env WakeShutdown]
     example_run \<noteq> LoopPanic"
  using run_ends_cleanly [OF example_run_start, of "[example_env WakeShutdown, example_env WakeShutdown]" Unix]
  by (auto simp: MAX_JOBS_def u64_max_def)

text \<open>
  C2. Along any run every occurrence is accounted for exactly once: the terminal records written,
  the occurrences still waiting and the running child together are the occurrences the ticks
  created.
\<close>

theorem run_accounts_occurrences:
  assumes "run_start ch (\<lambda>d. Some (enc_s d)) (\<lambda>d. Some (enc_h d)) pid c clk jobs wall wall' limit p = Ok s"
    and "MAX_JOBS * length envs < u64_max"
    and "run_loop ch (\<lambda>d. Some (enc_s d)) (\<lambda>d. Some (enc_h d)) platform envs s = LoopContinue w s'"
  shows "(ob_next_sequence (en_observer (ru_engine s')) - 1) + pending_count (ru_engine s') +
      (if ru_active s' = None then 0 else 1) =
    run_created ch (\<lambda>d. Some (enc_s d)) (\<lambda>d. Some (enc_h d)) platform envs s"
proof -
  have "run_total s' = Suc (run_created ch (\<lambda>d. Some (enc_s d)) (\<lambda>d. Some (enc_h d)) platform envs s)"
    "0 < ob_next_sequence (en_observer (ru_engine s'))"
    using started_run(2) [OF assms] by (auto simp: run_inv_def observer_inv_def)
  then show ?thesis by (simp add: run_total_def accounted_def)
qed

theorem run_accounts_occurrences_witness:
  "\<exists>s'. run_loop (gregorian_zone 0) (\<lambda>d. Some ()) (\<lambda>d. Some ()) Unix [example_env WakeShutdown] example_run =
       LoopContinue None s' \<and>
     (ob_next_sequence (en_observer (ru_engine s')) - 1) + pending_count (ru_engine s') + 1 =
     run_created (gregorian_zone 0) (\<lambda>d. Some ()) (\<lambda>d. Some ()) Unix [example_env WakeShutdown] example_run"
proof -
  obtain s' child where s': "run_loop (gregorian_zone 0) (\<lambda>d. Some ()) (\<lambda>d. Some ()) Unix [example_env WakeShutdown]
      example_run = LoopContinue None s'" "ru_active s' = Some child"
    using example_launched by blast
  have "MAX_JOBS * length [example_env WakeShutdown] < u64_max" by (simp add: MAX_JOBS_def u64_max_def)
  from run_accounts_occurrences [OF example_run_start this s'(1)] s' show ?thesis
    by (intro exI [of _ s']) (simp del: run_loop.simps run_created.simps)
qed

text \<open>
  C7. The one child slot: while a child runs, an iteration either keeps that child (with its exit,
  once frozen, and what the wait of this iteration's wake read), or frees the slot. It frees it only
  when the child arm of this iteration's \<open>select!\<close> won and the wait it reports completed the child;
  then the newest record of its job carries the child's own scheduled and start times, and the
  finish time and the outcome of the exit status of that completion. No other launch can take the
  slot in between.
\<close>

theorem running_child_kept_until_recorded:
  assumes "ru_active s = Some c" and "run_iteration ch ser_s ser_h platform env s = LoopContinue w s'"
  shows "case ru_active s' of
      Some c' \<Rightarrow> same_child c c' \<and> (\<exists>p. c' = child_progress p c \<and>
        (it_wake env = WakeDeadline p \<or> it_wake env = WakeChild p \<and> await_child_completion p c = None))
    | None \<Rightarrow> \<exists>p cpl c'. it_wake env = WakeChild p \<and> await_child_completion p c = Some (cpl, c') \<and>
        (capture_enabled (en_observer (ru_engine s')) \<and> rc_index c < length (ob_histories (en_observer (ru_engine s'))) \<longrightarrow>
          (\<exists>r. last (hs_records (ob_histories (en_observer (ru_engine s')) ! rc_index c)) = r \<and>
             rr_scheduled_unix_ms r = rc_scheduled_unix_ms c \<and> rr_started_unix_ms r = Some (rc_started_unix_ms c) \<and>
             rr_finished_unix_ms r = cc_finished_unix_ms cpl \<and> rr_outcome r = fst (child_outcome platform (cc_status cpl))))"
proof -
  obtain en' where T: "tick ch (it_wall env) (it_now env) (it_load env) (ru_active s = None) (it_expire_clock env) (ru_engine s) = TickNone en'"
    using assms tick_TickLaunch
    by (fastforce simp: run_iteration_def split: tick_result.splits)
  let ?en = "engine_publish ser_s ser_h (it_wall env) (active_row (ru_active s)) en'"
  obtain w' where W: "run_wait ser_s ser_h platform env w' (s\<lparr>ru_engine := ?en\<rparr>) = LoopContinue w s'"
    using assms(2) T by (auto simp: run_iteration_def Let_def split: option.splits)
  show ?thesis
  proof (cases "ru_active s'")
    case (Some c')
    then have "\<exists>p. c' = child_progress p c \<and>
        (it_wake env = WakeDeadline p \<or> it_wake env = WakeChild p \<and> await_child_completion p c = None)"
      using W assms(1) by (auto simp: run_wait_def split: wake_event.splits option.splits)
    then show ?thesis using Some child_progress_same by auto
  next
    case None
    then obtain p cpl c' where c': "await_child_completion p c = Some (cpl, c')" "it_wake env = WakeChild p"
      "s' = \<lparr>ru_engine = engine_publish ser_s ser_h (it_publish_wall env) None (snd (finish_child platform c' cpl ?en)), ru_active = None\<rparr>"
      using W assms(1) by (auto simp: run_wait_def split: wake_event.splits option.splits)
    note same = await_child_completion_same [OF c'(1)]
    obtain rec oc where ev: "snd (finish_child platform c' cpl ?en) = ?en\<lparr>en_observer := record_event (rc_index c', rec, oc) (en_observer ?en)\<rparr>"
      "tr_started_unix_ms rec = Some (rc_started_unix_ms c')" "tr_finished_unix_ms rec = cc_finished_unix_ms cpl"
      "tr_scheduled_unix_ms rec = rc_scheduled_unix_ms c'" "oc = fst (child_outcome platform (cc_status cpl))"
      using finish_child_event by blast
    have hist: "ob_histories (en_observer (ru_engine s')) = ob_histories (record_event (rc_index c', rec, oc) (en_observer ?en))"
      "ob_limit (en_observer (ru_engine s')) = ob_limit (en_observer ?en)"
      by (simp_all add: c'(3) ev(1))
    have "last (hs_records (ob_histories (en_observer (ru_engine s')) ! rc_index c)) = wire_record (ob_next_sequence (en_observer ?en)) rec oc"
      if "capture_enabled (en_observer (ru_engine s'))" "rc_index c < length (ob_histories (en_observer (ru_engine s')))"
      using that same
      by (simp add: hist record_event_records capture_enabled_def take_last_append) (simp add: take_last_def)
    then show ?thesis using None c'(1,2) same ev by (auto simp: wire_record_def)
  qed
qed

definition example_child :: RunningChild where
  "example_child = \<lparr>rc_stdout = Some [ReadOk [104], ReadOk [105]], rc_stderr = Some [], rc_stdout_tail = output_tail_new,
     rc_stderr_tail = output_tail_new, rc_index = 0, rc_job_name = ustr ''nightly'', rc_started = 6,
     rc_started_unix_ms = 1000, rc_scheduled_unix_ms = 900, rc_delay_ms = 0, rc_coalesced = False, rc_exit = None,
     rc_settle_deadline = None, rc_stdout_done = False, rc_stderr_done = False\<rparr>"

definition example_exit :: child_env where
  "example_exit = \<lparr>cv_reads = [True], cv_exit = Some (Ok \<lparr>es_code = Some 0, es_signal = None\<rparr>, 9, 10 ^ 9),
     cv_polls = [(20, True, True), (30, True, True)]\<rparr>"

lemma example_idle_engine:
  "tick ch example_wall 5 (example_load 1) slot (\<lambda>_. 0) example_new = TickNone example_new"
  by (simp add: example_new_def tick_eval HOUR_NS_def)

lemma example_completes:
  "\<exists>w s'. run_iteration (gregorian_zone 0) (\<lambda>d. Some ()) (\<lambda>d. Some ()) Unix
     ((example_env (WakeChild example_exit))\<lparr>it_wall := example_wall\<rparr>)
     \<lparr>ru_engine = example_new, ru_active = Some example_child\<rparr> = LoopContinue w s' \<and> ru_active s' = None"
proof -
  have "engine_wf example_new" by (simp add: engine_wf_def example_new_def observer_new_def)
  then have "\<exists>d. next_deadline example_wall 7 False
      (engine_publish (\<lambda>d. Some ()) (\<lambda>d. Some ()) example_wall r example_new) = Some d" for r
    using next_deadline_Min by (metis engine_publish_frame(4))
  then obtain d where d: "next_deadline example_wall 7 False
      (engine_publish (\<lambda>d. Some ()) (\<lambda>d. Some ()) example_wall (active_row (Some example_child)) example_new) = Some d"
    by blast
  have "rc_exit (child_progress example_exit example_child) \<noteq> None" "child_ok example_child"
    by (simp_all add: child_progress_exit child_ok_def example_child_def example_exit_def)
  then obtain cpl c' where "await_child_completion example_exit example_child = Some (cpl, c')"
    using await_child_completion_Some by blast
  with d example_idle_engine [of "gregorian_zone 0" False] show ?thesis
    by (simp add: run_iteration_def example_env_def run_wait_def Let_def)
qed

theorem running_child_kept_until_recorded_witness:
  "\<exists>w s' cpl c'. run_iteration (gregorian_zone 0) (\<lambda>d. Some ()) (\<lambda>d. Some ()) Unix
     ((example_env (WakeChild example_exit))\<lparr>it_wall := example_wall\<rparr>)
     \<lparr>ru_engine = example_new, ru_active = Some example_child\<rparr> = LoopContinue w s' \<and>
     await_child_completion example_exit example_child = Some (cpl, c')"
proof -
  obtain w s' where s': "run_iteration (gregorian_zone 0) (\<lambda>d. Some ()) (\<lambda>d. Some ()) Unix
     ((example_env (WakeChild example_exit))\<lparr>it_wall := example_wall\<rparr>)
     \<lparr>ru_engine = example_new, ru_active = Some example_child\<rparr> = LoopContinue w s'" "ru_active s' = None"
    using example_completes by blast
  from running_child_kept_until_recorded [OF _ s'(1)] s' show ?thesis by (auto simp: example_env_def)
qed

text \<open>
  The terminal event of a child is its exit, not the wake that reports it: whatever waits were
  cancelled before the exit and during the settle after it, the completion exists and carries the
  exit status and clock readings of the exit itself, and the duration runs from start to exit.
\<close>

theorem completion_reports_exit:
  assumes "start_child spawn started clk job i capture = Ok c"
    and "\<forall>e \<in> set before. cv_exit e = None" and "cv_exit ex = Some (status, finished, clock)"
  shows "\<exists>cpl c'. await_child_completion final (child_waits (before @ ex # after) c) = Some (cpl, c') \<and>
    cc_status cpl = status \<and> cc_finished_unix_ms cpl = now_unix_ms clock \<and>
    cc_duration_ms cpl = duration_millis (finished - started) \<and> rc_index c' = i"
proof -
  have c: "rc_exit c = None" "rc_started c = started" "rc_index c = i" "child_ok c"
    using assms(1) by (auto simp: start_child_def child_ok_def split: list.splits result.splits)
  let ?b = "child_waits before c"
  let ?a = "child_waits after (child_progress ex ?b)"
  have "rc_exit ?b = None" by (rule child_waits_no_exit [OF c(4,1) assms(2)])
  then have "rc_exit (child_progress ex ?b) =
      Some \<lparr>ce_status = status, ce_finished = finished, ce_finished_unix_ms = now_unix_ms clock\<rparr>"
    using child_waits_ok [OF c(4), of before] by (simp add: child_progress_exit assms(3))
  moreover have ok: "child_ok ?a" by (intro child_waits_ok child_progress_ok c(4))
  ultimately have ex: "rc_exit (child_progress final ?a) =
      Some \<lparr>ce_status = status, ce_finished = finished, ce_finished_unix_ms = now_unix_ms clock\<rparr>"
    using child_waits_same [of "child_progress ex ?b" after] by (simp add: child_progress_exit same_child_def)
  have "rc_started ?a = started" "rc_index ?a = i"
    using child_waits_same [of "child_progress ex ?b" after] child_progress_same [of ?b ex]
      child_waits_same [of c before] c by (simp_all add: same_child_def)
  with await_child_completion_Some [OF ok ex] show ?thesis
    by (auto simp: child_waits_def)
qed

theorem completion_reports_exit_witness:
  "\<exists>cpl c'. await_child_completion \<lparr>cv_reads = [], cv_exit = None, cv_polls = []\<rparr>
      (child_waits ([\<lparr>cv_reads = [True], cv_exit = None, cv_polls = []\<rparr>] @ example_exit # [])
        \<lparr>rc_stdout = Some [ReadOk [104]], rc_stderr = Some [], rc_stdout_tail = output_tail_new,
         rc_stderr_tail = output_tail_new, rc_index = 0, rc_job_name = ustr ''nightly'', rc_started = 6,
         rc_started_unix_ms = 0, rc_scheduled_unix_ms = 0, rc_delay_ms = 0, rc_coalesced = False, rc_exit = None,
         rc_settle_deadline = None, rc_stdout_done = False, rc_stderr_done = False\<rparr>) = Some (cpl, c') \<and>
    cc_finished_unix_ms cpl = 1000 \<and> cc_duration_ms cpl = 0"
proof -
  have "start_child (\<lambda>_ _ _ _. Ok (Some [ReadOk [104]], Some []) :: (_, unit) result) 6 0 (example_job (ustr ''nightly'')) 0 True = Ok
      \<lparr>rc_stdout = Some [ReadOk [104]], rc_stderr = Some [], rc_stdout_tail = output_tail_new,
       rc_stderr_tail = output_tail_new, rc_index = 0, rc_job_name = ustr ''nightly'', rc_started = 6,
       rc_started_unix_ms = 0, rc_scheduled_unix_ms = 0, rc_delay_ms = 0, rc_coalesced = False, rc_exit = None,
       rc_settle_deadline = None, rc_stdout_done = False, rc_stderr_done = False\<rparr>"
    by (simp add: start_child_def example_job_def now_unix_ms_def)
  from completion_reports_exit [OF this, of "[\<lparr>cv_reads = [True], cv_exit = None, cv_polls = []\<rparr>]" example_exit
      "Ok \<lparr>es_code = Some 0, es_signal = None\<rparr>" 9 "10 ^ 9" "\<lparr>cv_reads = [], cv_exit = None, cv_polls = []\<rparr>" "[]"]
  show ?thesis by (fastforce simp: example_exit_def now_unix_ms_def duration_millis_def u64_max_def)
qed

text \<open>
  C31. Captured output has no gaps: however the waits were cut by wakes and the settle by its bound,
  the tails of a completed child are the last 1024 bytes of what its streams delivered up to some
  read, starting from the first byte.
\<close>

theorem completion_output_prefix:
  assumes "start_child spawn started clk job i capture = Ok c"
    and "rc_stdout c = Some out" and "rc_stderr c = Some err"
    and "await_child_completion final (child_waits envs c) = Some (cpl, c')"
  shows "\<exists>n m. ot_buffer (cc_stdout cpl) = take_last MAX_SCHEDULER_OUTPUT_BYTES (concat (take n (chunks out))) \<and>
    ot_buffer (cc_stderr cpl) = take_last MAX_SCHEDULER_OUTPUT_BYTES (concat (take m (chunks err)))"
proof -
  have c: "rc_stdout_tail c = output_tail_new" "rc_stderr_tail c = output_tail_new"
    "\<not> rc_stdout_done c" "\<not> rc_stderr_done c"
    using assms(1-3) by (auto simp: start_child_def split: list.splits result.splits)
  let ?d = "child_progress final (child_waits envs c)"
  obtain n m where nm: "reads_between n m c ?d"
    using child_waits_reads [of c envs] child_progress_reads [of "child_waits envs c" final] reads_between_trans by blast
  have "cc_stdout cpl = rc_stdout_tail ?d" "cc_stderr cpl = rc_stderr_tail ?d"
    using assms(4) by (auto simp: await_child_completion_def Let_def split: option.splits)
  moreover have "drain_steps n (Some out) output_tail_new False = out_view ?d"
    "drain_steps m (Some err) output_tail_new False = err_view ?d"
    using nm c assms(2,3) by (simp_all add: reads_between_def)
  from this [THEN drain_steps_chunks]
  have "rc_stdout_tail ?d = fold tail_push (take n (chunks out)) output_tail_new"
    "rc_stderr_tail ?d = fold tail_push (take m (chunks err)) output_tail_new" by blast+
  moreover have "ot_buffer (fold tail_push cs output_tail_new) = take_last MAX_SCHEDULER_OUTPUT_BYTES (concat cs)" for cs
    using tail_ring.contents_fold [OF tail_inv_new, of cs] by (simp add: output_tail_new_def)
  ultimately show ?thesis by metis
qed

definition example_started :: RunningChild where
  "example_started = example_child\<lparr>rc_started_unix_ms := 0, rc_scheduled_unix_ms := 0\<rparr>"

lemma example_start:
  "start_child (\<lambda>_ _ _ _. Ok (Some [ReadOk [104], ReadOk [105]], Some []) :: (_, unit) result) 6 0
     (example_job (ustr ''nightly'')) 0 True = Ok example_started"
  by (simp add: start_child_def example_job_def now_unix_ms_def example_started_def example_child_def)

theorem completion_output_prefix_witness:
  "\<exists>cpl c' n. await_child_completion example_exit (child_waits [] example_started) = Some (cpl, c') \<and>
     ot_buffer (cc_stdout cpl) = take_last MAX_SCHEDULER_OUTPUT_BYTES (concat (take n [[104], [105]]))"
proof -
  have "rc_exit (child_progress example_exit example_started) \<noteq> None" "child_ok example_started"
    by (simp_all add: child_progress_exit child_ok_def example_started_def example_child_def example_exit_def)
  then obtain cpl c' where cpl: "await_child_completion example_exit example_started = Some (cpl, c')"
    using await_child_completion_Some by blast
  have r: "rc_stdout example_started = Some [ReadOk [104], ReadOk [105]]" "rc_stderr example_started = Some []"
    by (simp_all add: example_started_def example_child_def)
  show ?thesis
    using completion_output_prefix [OF example_start r, of example_exit "[]" cpl c'] cpl by auto
qed

text \<open>
  The settle after an exit is bounded and fair: no read happens at or after the deadline frozen
  at the exit, a poll later than it changes nothing, and while both streams are ready before the
  deadline, \<open>2 * k\<close> polls give each stream that is not finished at least \<open>k\<close> reads.
\<close>

theorem settle_bounded_and_fair:
  assumes "\<forall>(t, out_ready, err_ready) \<in> set polls. t < deadline \<and> out_ready \<and> err_ready"
    and "length polls = 2 * k" and "\<forall>(t, _) \<in> set late. deadline \<le> t"
  shows "settle_output deadline (polls @ late) True c = settle_output deadline polls True c \<and>
    (\<exists>n m. reads_between n m c (settle_output deadline polls True c) \<and>
       (rc_stdout_done (settle_output deadline polls True c) \<or> k \<le> n) \<and>
       (rc_stderr_done (settle_output deadline polls True c) \<or> k \<le> m))"
proof -
  have late: "takeWhile (\<lambda>(t, _). t < deadline) late = []"
    using assms(3) by (cases late) auto
  have "takeWhile (\<lambda>(t, _). t < deadline) (polls @ late) = polls"
    using assms(1) late by (subst takeWhile_append2) auto
  then have "settle_output deadline (polls @ late) True c = settle_output deadline polls True c"
    using settle_takeWhile [of deadline "polls @ late" True c] by simp
  moreover obtain n m where "reads_between n m c (settle_output deadline polls True c)"
    "rc_stdout_done (settle_output deadline polls True c) \<or> (2 * k + 1) div 2 \<le> n"
    "rc_stderr_done (settle_output deadline polls True c) \<or> (2 * k) div 2 \<le> m"
    using settle_fair_aux [OF assms(1), of c True] assms(2) by auto
  ultimately show ?thesis by auto
qed

theorem settle_bounded_and_fair_witness:
  "settle_output 100 ([(10, True, True), (20, True, True)] @ [(100, True, True)]) True example_child =
     settle_output 100 [(10, True, True), (20, True, True)] True example_child"
  using settle_bounded_and_fair [of "[(10, True, True), (20, True, True)]" 100 1 "[(100, True, True)]" example_child]
  by simp

end
