(* ===== verification/Net_Addr.thy ===== *)
theory Net_Addr
  imports Gregg_Prelude
begin

text \<open>
  The address literals of \<open>std::net\<close> as the endpoint code uses them: \<open>IpAddr\<close> and
  \<open>Ipv6Addr\<close> parsing (\<open>str::parse\<close>) and their \<open>Display\<close> form. The lemmas show that every
  address is the parse of its own display form.
\<close>

section \<open>Parsing\<close>

datatype IpAddr = V4 "nat list" | V6 "nat list"

definition ip_wf :: "IpAddr \<Rightarrow> bool" where
  "ip_wf a = (case a of V4 os \<Rightarrow> length os = 4 \<and> list_all (\<lambda>x. x < 256) os
     | V6 gs \<Rightarrow> length gs = 8 \<and> list_all (\<lambda>x. x < 65536) gs)"

text \<open>\<open>char::to_digit\<close>.\<close>

definition to_digit :: "nat \<Rightarrow> uchar \<Rightarrow> nat option" where
  "to_digit radix c =
     (let d = (if 48 \<le> c \<and> c \<le> 57 then c - 48
               else if 97 \<le> c \<and> c \<le> 122 then c - 87
               else if 65 \<le> c \<and> c \<le> 90 then c - 55 else radix)
      in if d < radix then Some d else None)"

text \<open>The loop of \<open>read_number\<close>: digits read so far, value so far; \<open>None\<close> on overflow or too many digits.\<close>

fun read_digits :: "nat \<Rightarrow> nat \<Rightarrow> nat \<Rightarrow> nat \<Rightarrow> nat \<Rightarrow> rstr \<Rightarrow> (nat \<times> nat \<times> rstr) option" where
  "read_digits radix bound max_digits n acc [] = Some (n, acc, [])"
| "read_digits radix bound max_digits n acc (c # s) =
     (case to_digit radix c of
        None \<Rightarrow> Some (n, acc, c # s)
      | Some d \<Rightarrow>
          if bound < acc * radix + d \<or> max_digits < Suc n then None
          else read_digits radix bound max_digits (Suc n) (acc * radix + d) s)"

definition read_number :: "nat \<Rightarrow> nat \<Rightarrow> nat \<Rightarrow> bool \<Rightarrow> rstr \<Rightarrow> (nat \<times> rstr) option" where
  "read_number radix bound max_digits allow_zero_prefix s =
     (case read_digits radix bound max_digits 0 0 s of
        None \<Rightarrow> None
      | Some (n, v, rest) \<Rightarrow>
          if n = 0 then None
          else if \<not> allow_zero_prefix \<and> hd s = 48 \<and> n > 1 then None
          else Some (v, rest))"

fun read_given_char :: "uchar \<Rightarrow> rstr \<Rightarrow> rstr option" where
  "read_given_char c [] = None"
| "read_given_char c (x # s) = (if x = c then Some s else None)"

definition read_separator :: "uchar \<Rightarrow> nat \<Rightarrow> (rstr \<Rightarrow> ('a \<times> rstr) option) \<Rightarrow> rstr \<Rightarrow> ('a \<times> rstr) option" where
  "read_separator sep index inner s =
     (if index > 0 then Option.bind (read_given_char sep s) inner else inner s)"

fun read_octets :: "nat \<Rightarrow> nat \<Rightarrow> rstr \<Rightarrow> (nat list \<times> rstr) option" where
  "read_octets 0 i s = Some ([], s)"
| "read_octets (Suc k) i s =
     (case read_separator 46 i (read_number 10 255 3 False) s of
        None \<Rightarrow> None
      | Some (x, s) \<Rightarrow> (case read_octets k (Suc i) s of None \<Rightarrow> None | Some (xs, s) \<Rightarrow> Some (x # xs, s)))"

definition read_ipv4_addr :: "rstr \<Rightarrow> (nat list \<times> rstr) option" where
  "read_ipv4_addr s = read_octets 4 0 s"

definition octets_to_groups :: "nat list \<Rightarrow> nat list" where
  "octets_to_groups os = [os ! 0 * 256 + os ! 1, os ! 2 * 256 + os ! 3]"

text \<open>\<open>read_groups\<close> with \<open>k\<close> slots left, at slot \<open>i\<close>.\<close>

fun read_groups :: "nat \<Rightarrow> nat \<Rightarrow> rstr \<Rightarrow> nat list \<times> bool \<times> rstr" where
  "read_groups 0 i s = ([], False, s)"
| "read_groups (Suc k) i s =
     (case (if k > 0 then read_separator 58 i read_ipv4_addr s else None) of
        Some (os, rest) \<Rightarrow> (octets_to_groups os, True, rest)
      | None \<Rightarrow>
          (case read_separator 58 i (read_number 16 65535 4 True) s of
             None \<Rightarrow> ([], False, s)
           | Some (g, rest) \<Rightarrow> (case read_groups k (Suc i) rest of (gs, v4, rest) \<Rightarrow> (g # gs, v4, rest))))"

definition read_ipv6_addr :: "rstr \<Rightarrow> (nat list \<times> rstr) option" where
  "read_ipv6_addr s =
     (case read_groups 8 0 s of (h, h4, s1) \<Rightarrow>
        if length h = 8 then Some (h, s1)
        else if h4 then None
        else (case Option.bind (read_given_char 58 s1) (read_given_char 58) of
                None \<Rightarrow> None
              | Some s2 \<Rightarrow>
                  (case read_groups (8 - (length h + 1)) 0 s2 of (t, _, s3) \<Rightarrow>
                     Some (h @ replicate (8 - length h - length t) 0 @ t, s3))))"

definition parse_ipv6 :: "rstr \<Rightarrow> nat list option" where
  "parse_ipv6 s = (case read_ipv6_addr s of Some (gs, []) \<Rightarrow> Some gs | _ \<Rightarrow> None)"

definition parse_ip :: "rstr \<Rightarrow> IpAddr option" where
  "parse_ip s =
     (case read_ipv4_addr s of
        Some (os, rest) \<Rightarrow> if rest = [] then Some (V4 os) else None
      | None \<Rightarrow> map_option V6 (parse_ipv6 s))"

section \<open>Display\<close>

definition digit_char :: "nat \<Rightarrow> uchar" where
  "digit_char d = (if d < 10 then 48 + d else 87 + d)"

fun fmt_radix :: "nat \<Rightarrow> nat \<Rightarrow> rstr" where
  "fmt_radix radix n =
     (if n < radix \<or> radix < 2 then [digit_char n] else fmt_radix radix (n div radix) @ [digit_char (n mod radix)])"

declare fmt_radix.simps [simp del]

definition show_ipv4 :: "nat list \<Rightarrow> rstr" where
  "show_ipv4 os = str_join 46 (map (fmt_radix 10) os)"

definition fmt_subslice :: "nat list \<Rightarrow> rstr" where
  "fmt_subslice gs = str_join 58 (map (fmt_radix 16) gs)"

text \<open>The search for the longest run of zero segments: \<open>(start, length)\<close> of the current and the longest run.\<close>

fun zero_span :: "nat \<Rightarrow> nat \<times> nat \<Rightarrow> nat \<times> nat \<Rightarrow> nat list \<Rightarrow> nat \<times> nat" where
  "zero_span i current longest [] = longest"
| "zero_span i current longest (g # gs) =
     (if g = 0 then
        let current = ((if snd current = 0 then i else fst current), Suc (snd current))
        in zero_span (Suc i) current (if snd longest < snd current then current else longest) gs
      else zero_span (Suc i) (0, 0) longest gs)"

definition show_ipv6 :: "nat list \<Rightarrow> rstr" where
  "show_ipv6 gs =
     (if take 6 gs = [0, 0, 0, 0, 0, 0xFFFF]
      then ustr ''::ffff:'' @ show_ipv4 [gs ! 6 div 256, gs ! 6 mod 256, gs ! 7 div 256, gs ! 7 mod 256]
      else let (st, len) = zero_span 0 (0, 0) (0, 0) gs in
           if len > 1 then fmt_subslice (take st gs) @ ustr ''::'' @ fmt_subslice (drop (st + len) gs)
           else fmt_subslice gs)"

primrec show_ip :: "IpAddr \<Rightarrow> rstr" where
  "show_ip (V4 os) = show_ipv4 os"
| "show_ip (V6 gs) = show_ipv6 gs"

section \<open>Numbers\<close>

lemma to_digit_char [simp]: "d < radix \<Longrightarrow> radix \<le> 16 \<Longrightarrow> to_digit radix (digit_char d) = Some d"
  by (auto simp: to_digit_def digit_char_def)

lemma to_digit_sep [simp]: "radix \<le> 16 \<Longrightarrow> to_digit radix 46 = None" "radix \<le> 16 \<Longrightarrow> to_digit radix 58 = None"
  "radix \<le> 16 \<Longrightarrow> to_digit radix 37 = None" "radix \<le> 16 \<Longrightarrow> to_digit radix 93 = None"
  by (simp_all add: to_digit_def)

definition stops :: "nat \<Rightarrow> rstr \<Rightarrow> bool" where
  "stops radix s \<longleftrightarrow> s = [] \<or> to_digit radix (hd s) = None"

lemma stops_simps [simp]: "stops radix []" "stops radix (c # s) \<longleftrightarrow> to_digit radix c = None"
  by (simp_all add: stops_def)

definition digits_value :: "nat \<Rightarrow> nat \<Rightarrow> nat list \<Rightarrow> nat" where
  "digits_value radix acc ds = foldl (\<lambda>a d. a * radix + d) acc ds"

lemma digits_value_mono: "1 \<le> radix \<Longrightarrow> acc \<le> digits_value radix acc ds"
proof (induction ds arbitrary: acc)
  case (Cons d ds)
  have "acc \<le> acc * radix + d" using Cons.prems by (simp add: trans_le_add1)
  also have "\<dots> \<le> digits_value radix (acc * radix + d) ds" by (rule Cons.IH [OF Cons.prems])
  finally show ?case by (simp add: digits_value_def)
qed (simp add: digits_value_def)

lemma read_digits_append:
  assumes "1 \<le> radix" "radix \<le> 16" "\<forall>d \<in> set ds. d < radix"
    "digits_value radix acc ds \<le> bound" "n + length ds \<le> max_digits"
  shows "read_digits radix bound max_digits n acc (map digit_char ds @ s) =
    read_digits radix bound max_digits (n + length ds) (digits_value radix acc ds) s"
  using assms(3-5)
proof (induction ds arbitrary: n acc)
  case (Cons d ds)
  have "acc * radix + d \<le> digits_value radix (acc * radix + d) ds"
    using assms(1) by (rule digits_value_mono)
  also have "\<dots> \<le> bound" using Cons.prems(2) by (simp add: digits_value_def)
  finally show ?case
    using Cons.IH [of "acc * radix + d" "Suc n"] Cons.prems assms(2) by (simp add: digits_value_def)
qed (simp add: digits_value_def)

lemma read_digits_stop: "stops radix s \<Longrightarrow> read_digits radix bound m n acc s = Some (n, acc, s)"
  by (cases s) auto

text \<open>The digits printed for a number.\<close>

fun radix_digits :: "nat \<Rightarrow> nat \<Rightarrow> nat list" where
  "radix_digits radix n =
     (if n < radix \<or> radix < 2 then [n] else radix_digits radix (n div radix) @ [n mod radix])"

declare radix_digits.simps [simp del]

lemma radix_digits_cases:
  "2 \<le> radix \<Longrightarrow> n < radix \<Longrightarrow> radix_digits radix n = [n]"
  "2 \<le> radix \<Longrightarrow> \<not> n < radix \<Longrightarrow> radix_digits radix n = radix_digits radix (n div radix) @ [n mod radix]"
  by (subst radix_digits.simps, simp)+

lemma fmt_radix_cases:
  "2 \<le> radix \<Longrightarrow> n < radix \<Longrightarrow> fmt_radix radix n = [digit_char n]"
  "2 \<le> radix \<Longrightarrow> \<not> n < radix \<Longrightarrow> fmt_radix radix n = fmt_radix radix (n div radix) @ [digit_char (n mod radix)]"
  by (subst fmt_radix.simps, simp)+

lemma radix_digits_induct [consumes 1, case_names small big]:
  assumes "2 \<le> radix" and small: "\<And>n. n < radix \<Longrightarrow> P n" and big: "\<And>n. \<not> n < radix \<Longrightarrow> P (n div radix) \<Longrightarrow> P n"
  shows "P (n :: nat)"
proof (induction n rule: less_induct)
  case (less n)
  show ?case
  proof (cases "n < radix")
    case False
    then have "n div radix < n" using assms(1) by (intro div_less_dividend) auto
    from less [OF this] show ?thesis by (rule big [OF False])
  qed (rule small)
qed

lemma radix_digits_nonempty [simp]: "radix_digits radix n \<noteq> []"
  by (subst radix_digits.simps) simp

lemma radix_digits_facts:
  assumes r: "2 \<le> radix"
  shows fmt_radix_digits: "fmt_radix radix n = map digit_char (radix_digits radix n)"
    and radix_digits_lt: "\<forall>d \<in> set (radix_digits radix n). d < radix"
    and radix_digits_value: "digits_value radix 0 (radix_digits radix n) = n"
    and radix_digits_hd: "n \<noteq> 0 \<Longrightarrow> hd (radix_digits radix n) \<noteq> 0"
    and radix_digits_length: "n < radix ^ Suc m \<Longrightarrow> length (radix_digits radix n) \<le> Suc m"
proof -
  note cs = radix_digits_cases [OF r]
  show "fmt_radix radix n = map digit_char (radix_digits radix n)"
  proof (induction n rule: radix_digits_induct [OF r])
    case (1 n) then show ?case by (simp add: fmt_radix_cases [OF r] cs)
  next
    case (2 n) then show ?case unfolding cs(2) [OF 2(1)] fmt_radix_cases(2) [OF r 2(1)] by simp
  qed
  show "\<forall>d \<in> set (radix_digits radix n). d < radix"
  proof (induction n rule: radix_digits_induct [OF r])
    case (1 n) then show ?case by (simp add: cs(1))
  next
    case (2 n) then show ?case unfolding cs(2) [OF 2(1)] using r by simp
  qed
  show "digits_value radix 0 (radix_digits radix n) = n"
  proof (induction n rule: radix_digits_induct [OF r])
    case (1 n) then show ?case by (simp add: cs(1) digits_value_def)
  next
    case (2 n) then show ?case unfolding cs(2) [OF 2(1)] using r by (simp add: digits_value_def)
  qed
  show "n \<noteq> 0 \<Longrightarrow> hd (radix_digits radix n) \<noteq> 0"
  proof (induction n rule: radix_digits_induct [OF r])
    case (1 n) then show ?case by (simp add: cs(1))
  next
    case (2 n) then show ?case unfolding cs(2) [OF 2(1)] using r by (simp add: div_eq_0_iff)
  qed
  show "n < radix ^ Suc m \<Longrightarrow> length (radix_digits radix n) \<le> Suc m"
  proof (induction n arbitrary: m rule: radix_digits_induct [OF r])
    case (2 n)
    show ?case
    proof (cases m)
      case (Suc k)
      have "n div radix < radix ^ Suc k" using 2(3) Suc by (simp add: less_mult_imp_div_less mult.commute)
      from 2(2) [OF this] show ?thesis unfolding cs(2) [OF 2(1)] using Suc by simp
    qed (use 2 in simp)
  qed (simp add: cs(1))
qed

lemma read_number_fmt:
  assumes r: "2 \<le> radix" "radix \<le> 16" and n: "n \<le> bound" "n < radix ^ Suc m" and s: "stops radix s"
  shows "read_number radix bound (Suc m) z (fmt_radix radix n @ s) = Some (n, s)"
proof -
  let ?ds = "radix_digits radix n"
  have "read_digits radix bound (Suc m) 0 0 (map digit_char ?ds @ s) = Some (length ?ds, n, s)"
    using read_digits_append [of radix ?ds 0 bound 0 "Suc m" s] r n radix_digits_lt [OF r(1)]
      radix_digits_value [OF r(1)] radix_digits_length [OF r(1) n(2)]
    by (simp add: read_digits_stop [OF s])
  moreover have "length ?ds = 1" if "hd (map digit_char ?ds @ s) = 48"
  proof (cases "n = 0")
    case True then show ?thesis using r(1) by (simp add: radix_digits_cases)
  next
    case False
    then show ?thesis using radix_digits_hd [OF r(1) False] that
      by (cases ?ds) (auto simp: digit_char_def split: if_splits)
  qed
  ultimately show ?thesis by (auto simp: read_number_def fmt_radix_digits [OF r(1)])
qed


section \<open>Round trip\<close>

fun sep_join :: "uchar \<Rightarrow> nat \<Rightarrow> rstr list \<Rightarrow> rstr" where
  "sep_join c i [] = []"
| "sep_join c i (s # ss) = (if i > 0 then c # s else s) @ sep_join c (Suc i) ss"

lemma str_join_sep_join: "str_join c ss = sep_join c 0 ss"
proof -
  have "sep_join c (Suc i) ss = (if ss = [] then [] else c # str_join c ss)" for i ss
    by (induction c ss arbitrary: i rule: str_join.induct) simp_all
  moreover have "str_join c (s # t) = s @ (if t = [] then [] else c # str_join c t)" for s t by (cases t) simp_all
  ultimately show ?thesis by (cases ss) simp_all
qed

lemma read_octets_show:
  "list_all (\<lambda>x. x < 256) os \<Longrightarrow> stops 10 s \<Longrightarrow>
   read_octets (length os) i (sep_join 46 i (map (fmt_radix 10) os) @ s) = Some (os, s)"
proof (induction os arbitrary: i)
  case (Cons x os)
  let ?t = "sep_join 46 (Suc i) (map (fmt_radix 10) os) @ s"
  have "stops 10 ?t" using Cons.prems(2) by (cases os) simp_all
  then have "read_number 10 255 3 False (fmt_radix 10 x @ ?t) = Some (x, ?t)"
    using Cons.prems(1) read_number_fmt [of 10 x 255 2 ?t False] by simp
  then show ?case using Cons by (cases i) (simp_all add: read_separator_def)
qed simp

lemma read_ipv4_show:
  "length os = 4 \<Longrightarrow> list_all (\<lambda>x. x < 256) os \<Longrightarrow> stops 10 s \<Longrightarrow> read_ipv4_addr (show_ipv4 os @ s) = Some (os, s)"
  using read_octets_show [of os s 0] by (simp add: read_ipv4_addr_def show_ipv4_def str_join_sep_join)

lemma read_digits_suffix:
  "read_digits radix b m n acc s = Some (n', v, r) \<Longrightarrow> \<exists>ds. s = ds @ r \<and> (\<forall>c \<in> set ds. to_digit radix c \<noteq> None)"
proof (induction radix b m n acc s rule: read_digits.induct)
  case (2 radix b m n acc c s)
  show ?case
  proof (cases "to_digit radix c")
    case (Some d)
    then obtain ds where "s = ds @ r" "\<forall>c \<in> set ds. to_digit radix c \<noteq> None"
      using 2 by (auto split: if_splits)
    then show ?thesis using Some by (intro exI [of _ "c # ds"]) simp
  qed (use 2 in simp)
qed simp

lemma read_number_suffix:
  "read_number radix b m z s = Some (v, r) \<Longrightarrow> \<exists>ds. s = ds @ r \<and> (\<forall>c \<in> set ds. to_digit radix c \<noteq> None)"
  by (auto simp: read_number_def split: option.splits if_splits dest: read_digits_suffix)

lemma read_octets_4:
  "read_octets 4 i s = read_octets (Suc (Suc 2)) i s"
  by (simp add: numeral_eq_Suc del: read_octets.simps)

lemma read_ipv4_none:
  assumes "46 \<notin> set h" "t = [] \<or> hd t = 58"
  shows "read_ipv4_addr (h @ t) = None"
proof (rule ccontr)
  assume "read_ipv4_addr (h @ t) \<noteq> None"
  then obtain x r y where n: "read_number 10 255 3 False (h @ t) = Some (x, r)" and "read_octets (Suc 2) 1 r = Some y"
    unfolding read_ipv4_addr_def read_octets_4 read_octets.simps(2) [of "Suc 2"]
    by (auto simp: read_separator_def simp del: read_octets.simps split: option.splits)
  then have "read_given_char 46 r \<noteq> None"
    unfolding read_octets.simps
    by (auto simp: read_separator_def bind_eq_Some_conv simp del: read_octets.simps split: option.splits)
  then obtain r' where r': "r = 46 # r'" by (cases r) (auto split: if_splits)
  obtain ds where ds: "h @ t = ds @ 46 # r'" "\<forall>c \<in> set ds. to_digit 10 c \<noteq> None"
    using read_number_suffix [OF n] r' by blast
  have "58 \<notin> set ds" using ds(2) by (auto dest: bspec [of _ _ 58])
  obtain us where "h = ds @ us \<and> us @ t = 46 # r' \<or> h @ us = ds \<and> t = us @ 46 # r'"
    using ds(1) by (auto simp: append_eq_append_conv2)
  then show False
    using assms \<open>58 \<notin> set ds\<close> by (cases us) (auto simp: Cons_eq_append_conv)
qed

lemma fmt_radix_16_set: "c \<in> set (fmt_radix 16 n) \<Longrightarrow> c \<noteq> 46 \<and> c \<noteq> 58"
  using radix_digits_lt [of 16 n] by (auto simp: fmt_radix_digits digit_char_def split: if_splits)

lemma read_number_sep [simp]: "radix \<le> 16 \<Longrightarrow> read_number radix b m z [] = None"
  "radix \<le> 16 \<Longrightarrow> read_number radix b m z (58 # s) = None"
  by (simp_all add: read_number_def)

lemma read_groups_show:
  assumes "rest = [] \<or> (\<exists>r. rest = 58 # 58 # r)"
  shows "list_all (\<lambda>x. x < 65536) gs \<Longrightarrow> length gs \<le> k \<Longrightarrow>
   read_groups k i (sep_join 58 i (map (fmt_radix 16) gs) @ rest) = (gs, False, rest)"
proof (induction gs arbitrary: i k)
  case Nil
  have "read_separator 58 i read_ipv4_addr rest = None"
    using assms read_ipv4_none [of "[]"] by (auto simp: read_separator_def)
  moreover have "read_separator 58 i (read_number 16 65535 4 True) rest = None"
    using assms by (auto simp: read_separator_def)
  ultimately show ?case by (cases k) simp_all
next
  case (Cons g gs)
  obtain k' where k: "k = Suc k'" "length gs \<le> k'" using Cons.prems(2) by (cases k) auto
  let ?t = "sep_join 58 (Suc i) (map (fmt_radix 16) gs) @ rest"
  have t: "?t = [] \<or> hd ?t = 58" using assms by (cases gs) auto
  have "read_separator 58 i read_ipv4_addr (sep_join 58 i (map (fmt_radix 16) (g # gs)) @ rest) = None"
    using read_ipv4_none [OF _ t, of "fmt_radix 16 g"] fmt_radix_16_set by (auto simp: read_separator_def)
  moreover have "stops 16 ?t" using t by (auto simp: stops_def)
  then have "read_number 16 65535 4 True (fmt_radix 16 g @ ?t) = Some (g, ?t)"
    using Cons.prems(1) read_number_fmt [of 16 g 65535 3 ?t True] by simp
  then have "read_separator 58 i (read_number 16 65535 4 True) (sep_join 58 i (map (fmt_radix 16) (g # gs)) @ rest) = Some (g, ?t)"
    by (cases i) (simp_all add: read_separator_def)
  ultimately show ?case
    using Cons.IH [of k' "Suc i"] Cons.prems(1) k by (cases k') auto
qed

text \<open>The span found is a run of zeros.\<close>

lemma zero_span_zeros:
  assumes "length ps = i" "snd cur = 0 \<or> fst cur + snd cur = i"
    "\<forall>j. fst cur \<le> j \<and> j < fst cur + snd cur \<longrightarrow> ps ! j = 0"
    "fst lon + snd lon \<le> i" "\<forall>j. fst lon \<le> j \<and> j < fst lon + snd lon \<longrightarrow> ps ! j = 0"
    "zero_span i cur lon gs = (st, len)"
  shows "st + len \<le> i + length gs \<and> (\<forall>j. st \<le> j \<and> j < st + len \<longrightarrow> (ps @ gs) ! j = 0)"
  using assms
proof (induction gs arbitrary: ps i cur lon)
  case Nil
  then show ?case by auto
next
  case (Cons g gs)
  let ?cur = "(if g = 0 then ((if snd cur = 0 then i else fst cur), Suc (snd cur)) else (0, 0))"
  let ?lon = "(if g = 0 \<and> snd lon < snd ?cur then ?cur else lon)"
  have "zero_span (Suc i) ?cur ?lon gs = (st, len)" using Cons.prems(6) by (auto simp: Let_def split: if_splits)
  moreover have "snd ?cur = 0 \<or> fst ?cur + snd ?cur = Suc i" using Cons.prems(2) by auto
  moreover have c: "\<forall>j. fst ?cur \<le> j \<and> j < fst ?cur + snd ?cur \<longrightarrow> (ps @ [g]) ! j = 0"
    using Cons.prems(1-3) by (auto simp: nth_append less_Suc_eq)
  moreover have "fst ?lon + snd ?lon \<le> Suc i" using Cons.prems(2,4) by auto
  moreover have "\<forall>j. fst ?lon \<le> j \<and> j < fst ?lon + snd ?lon \<longrightarrow> (ps @ [g]) ! j = 0"
    using c Cons.prems(1,4,5) by (auto simp: nth_append)
  ultimately show ?case
    using Cons.IH [of "ps @ [g]" "Suc i" ?cur ?lon] Cons.prems(1) by simp
qed

lemma zero_span_split:
  assumes "zero_span 0 (0, 0) (0, 0) gs = (st, len)"
  shows "gs = take st gs @ replicate len 0 @ drop (st + len) gs \<and> st + len \<le> length gs"
proof -
  have z: "st + len \<le> length gs" "\<forall>j. st \<le> j \<and> j < st + len \<longrightarrow> gs ! j = 0"
    using zero_span_zeros [of "[]" 0 "(0, 0)" "(0, 0)" gs st len] assms by simp_all
  have "take len (drop st gs) = replicate len 0"
    using z by (intro nth_equalityI) auto
  then have "gs = take st gs @ replicate len 0 @ drop len (drop st gs)" by (metis append_take_drop_id)
  then show ?thesis using z(1) by (simp add: add.commute)
qed


lemma fmt_subslice_groups:
  "rest = [] \<or> (\<exists>r. rest = 58 # 58 # r) \<Longrightarrow> list_all (\<lambda>x. x < 65536) gs \<Longrightarrow> length gs \<le> k \<Longrightarrow>
   read_groups k 0 (fmt_subslice gs @ rest) = (gs, False, rest)"
  using read_groups_show [of rest gs k 0] by (simp add: fmt_subslice_def str_join_sep_join)

lemma fmt_subslice_not_ipv4:
  assumes "rest = [] \<or> hd rest = 58"
  shows "read_ipv4_addr (fmt_subslice gs @ rest) = None"
proof (cases gs)
  case Nil
  then show ?thesis using read_ipv4_none [of "[]" rest] assms by (simp add: fmt_subslice_def)
next
  case (Cons g gs')
  let ?t = "sep_join 58 1 (map (fmt_radix 16) gs') @ rest"
  have "?t = [] \<or> hd ?t = 58" using assms by (cases gs') auto
  then have "read_ipv4_addr (fmt_radix 16 g @ ?t) = None"
    using fmt_radix_16_set by (intro read_ipv4_none) auto
  then show ?thesis using Cons by (simp add: fmt_subslice_def str_join_sep_join)
qed

lemma read_ipv6_compressed:
  assumes "list_all (\<lambda>x. x < 65536) (h @ t)" "length h + length t \<le> 7"
  shows "read_ipv6_addr (fmt_subslice h @ ustr ''::'' @ fmt_subslice t) =
    Some (h @ replicate (8 - length h - length t) 0 @ t, [])"
proof -
  have "read_groups 8 0 (fmt_subslice h @ 58 # 58 # fmt_subslice t) = (h, False, 58 # 58 # fmt_subslice t)"
    using assms by (intro fmt_subslice_groups) auto
  moreover have "read_groups (7 - length h) 0 (fmt_subslice t) = (t, False, [])"
    using fmt_subslice_groups [of "[]" t "7 - length h"] assms by simp
  ultimately show ?thesis using assms by (simp add: read_ipv6_addr_def ustr_def)
qed

lemma parse_ipv6_mapped:
  assumes "length os = 4" "list_all (\<lambda>x. x < 256) os"
  shows "parse_ipv6 (ustr ''::ffff:'' @ show_ipv4 os) = Some ([0, 0, 0, 0, 0, 65535] @ octets_to_groups os)"
proof -
  have f: "fmt_radix 16 65535 = ustr ''ffff''"
    by (simp add: fmt_radix.simps ustr_def digit_char_def)
  have "read_ipv4_addr (ustr ''ffff'' @ 58 # show_ipv4 os) = None"
    by (rule read_ipv4_none) (simp_all add: ustr_def)
  moreover have "read_number 16 65535 4 True (ustr ''ffff'' @ 58 # show_ipv4 os) = Some (65535, 58 # show_ipv4 os)"
    using read_number_fmt [of 16 65535 65535 3 "58 # show_ipv4 os" True] by (simp add: f)
  moreover have "read_groups 6 1 (58 # show_ipv4 os) = (octets_to_groups os, True, [])"
  proof -
    have "read_groups (Suc 5) 1 (58 # show_ipv4 os) = (octets_to_groups os, True, [])"
      unfolding read_groups.simps using read_ipv4_show [OF assms, of "[]"] by (simp add: read_separator_def)
    then show ?thesis by simp
  qed
  ultimately have t: "read_groups (Suc 6) 0 (ustr ''ffff'' @ 58 # show_ipv4 os) = (65535 # octets_to_groups os, True, [])"
    unfolding read_groups.simps by (simp add: read_separator_def)
  have "read_groups 8 0 (58 # 58 # r) = ([], False, 58 # 58 # r)" for r
    using fmt_subslice_groups [of "58 # 58 # r" "[]" 8] by (simp add: fmt_subslice_def)
  moreover have "read_groups 7 0 (ustr ''ffff'' @ 58 # show_ipv4 os) = (65535 # octets_to_groups os, True, [])"
    using t by (simp del: read_groups.simps)
  moreover have "replicate 5 (0 :: nat) = [0, 0, 0, 0, 0]" by (simp add: numeral_eq_Suc)
  ultimately show ?thesis by (simp add: parse_ipv6_def read_ipv6_addr_def ustr_def octets_to_groups_def)
qed

lemma parse_ipv6_show:
  assumes "length gs = 8" "list_all (\<lambda>x. x < 65536) gs"
  shows "parse_ipv6 (show_ipv6 gs) = Some gs \<and> read_ipv4_addr (show_ipv6 gs) = None"
proof (cases "take 6 gs = [0, 0, 0, 0, 0, 0xFFFF]")
  case True
  have "drop 6 gs = [gs ! 6, gs ! 7]"
    using assms(1) by (intro nth_equalityI) (auto simp: less_Suc_eq numeral_2_eq_2)
  then have gs: "gs = [0, 0, 0, 0, 0, 65535] @ [gs ! 6, gs ! 7]" using True append_take_drop_id [of 6 gs] by metis
  let ?os = "[gs ! 6 div 256, gs ! 6 mod 256, gs ! 7 div 256, gs ! 7 mod 256]"
  have "gs ! 6 < 65536" "gs ! 7 < 65536" using assms by (simp_all add: list_all_length)
  then have "list_all (\<lambda>x. x < 256) ?os" by auto
  from parse_ipv6_mapped [OF _ this] have "parse_ipv6 (show_ipv6 gs) = Some ([0, 0, 0, 0, 0, 65535] @ octets_to_groups ?os)"
    using True by (simp add: show_ipv6_def)
  moreover have "octets_to_groups ?os = [gs ! 6, gs ! 7]" by (simp add: octets_to_groups_def)
  moreover have "read_ipv4_addr (show_ipv6 gs) = None"
    using True read_ipv4_none [of "[]" "show_ipv6 gs"] by (simp add: show_ipv6_def ustr_def)
  ultimately show ?thesis using gs by simp
next
  case False
  obtain st len where z: "zero_span 0 (0, 0) (0, 0) gs = (st, len)" by fastforce
  show ?thesis
  proof (cases "len > 1")
    case True
    let ?h = "take st gs" and ?t = "drop (st + len) gs"
    have split: "gs = ?h @ replicate len 0 @ ?t" "st + len \<le> 8" using zero_span_split [OF z] assms(1) by simp_all
    have "list_all (\<lambda>x. x < 65536) (?h @ ?t)" using assms(2) by (metis split(1) list_all_append)
    then have "read_ipv6_addr (fmt_subslice ?h @ ustr ''::'' @ fmt_subslice ?t) =
        Some (?h @ replicate (8 - length ?h - length ?t) 0 @ ?t, [])"
      using True split(2) assms(1) by (intro read_ipv6_compressed) auto
    moreover have "8 - length ?h - length ?t = len" using split(2) assms(1) True by simp
    moreover have "read_ipv4_addr (fmt_subslice ?h @ ustr ''::'' @ fmt_subslice ?t) = None"
      by (rule fmt_subslice_not_ipv4) (simp add: ustr_def)
    ultimately show ?thesis using False z True split(1) by (simp add: show_ipv6_def parse_ipv6_def)
  next
    case f: False
    have "read_groups 8 0 (fmt_subslice gs) = (gs, False, [])"
      using fmt_subslice_groups [of "[]" gs 8] assms by simp
    then show ?thesis
      using False f z fmt_subslice_not_ipv4 [of "[]" gs] assms(1)
      by (simp add: show_ipv6_def parse_ipv6_def read_ipv6_addr_def)
  qed
qed

lemma parse_ip_show: "ip_wf a \<Longrightarrow> parse_ip (show_ip a) = Some a"
proof (cases a)
  case (V4 os)
  moreover assume "ip_wf a"
  ultimately show ?thesis using read_ipv4_show [of os "[]"] by (simp add: ip_wf_def parse_ip_def)
next
  case (V6 gs)
  moreover assume "ip_wf a"
  ultimately show ?thesis using parse_ipv6_show [of gs] by (simp add: ip_wf_def parse_ip_def)
qed


section \<open>Range\<close>

lemma read_digits_le: "read_digits radix b m n acc s = Some (n', v, r) \<Longrightarrow> acc \<le> b \<Longrightarrow> v \<le> b"
  by (induction radix b m n acc s rule: read_digits.induct) (auto split: option.splits if_splits)

lemma read_number_le: "read_number radix b m z s = Some (v, r) \<Longrightarrow> v \<le> b"
  by (auto simp: read_number_def split: option.splits if_splits dest: read_digits_le)

lemma read_separator_SomeD: "read_separator c i inner s = Some x \<Longrightarrow> \<exists>s'. inner s' = Some x"
  by (auto simp: read_separator_def bind_eq_Some_conv split: if_splits)

lemma read_octets_wf: "read_octets k i s = Some (os, r) \<Longrightarrow> length os = k \<and> list_all (\<lambda>x. x < 256) os"
proof (induction k arbitrary: i s os)
  case (Suc k)
  then obtain x s' xs where x: "read_separator 46 i (read_number 10 255 3 False) s = Some (x, s')"
    "read_octets k (Suc i) s' = Some (xs, r)" "os = x # xs"
    by (auto split: option.splits)
  then have "x \<le> 255" using read_separator_SomeD [OF x(1)] read_number_le by blast
  then show ?case using Suc.IH [OF x(2)] x(3) by simp
qed simp

lemma octets_to_groups_wf:
  "length os = 4 \<Longrightarrow> list_all (\<lambda>x. x < 256) os \<Longrightarrow>
   length (octets_to_groups os) = 2 \<and> list_all (\<lambda>x. x < 65536) (octets_to_groups os)"
proof -
  assume "length os = 4" "list_all (\<lambda>x. x < 256) os"
  then have "os ! 0 < 256" "os ! 1 < 256" "os ! 2 < 256" "os ! 3 < 256" by (simp_all add: list_all_length)
  then show ?thesis by (simp add: octets_to_groups_def)
qed

lemma read_groups_wf: "read_groups k i s = (gs, v4, r) \<Longrightarrow> length gs \<le> k \<and> list_all (\<lambda>x. x < 65536) gs"
proof (induction k arbitrary: i s gs)
  case (Suc k)
  consider (v4) os where "k > 0" "read_separator 58 i read_ipv4_addr s = Some (os, r)" "gs = octets_to_groups os"
    | (group) g s' gs' where "read_separator 58 i (read_number 16 65535 4 True) s = Some (g, s')"
        "read_groups k (Suc i) s' = (gs', v4, r)" "gs = g # gs'"
    | (none) "gs = []"
    using Suc.prems by (auto split: option.splits if_splits prod.splits)
  then show ?case
  proof cases
    case v4
    then have "length os = 4 \<and> list_all (\<lambda>x. x < 256) os"
      using read_separator_SomeD [OF v4(2)] by (auto simp: read_ipv4_addr_def dest: read_octets_wf)
    then show ?thesis using octets_to_groups_wf v4 by fastforce
  next
    case group
    then have "g \<le> 65535" using read_separator_SomeD [OF group(1)] read_number_le by blast
    then show ?thesis using Suc.IH [OF group(2)] group(3) by simp
  qed simp
qed simp

lemma read_ipv6_wf: "read_ipv6_addr s = Some (gs, r) \<Longrightarrow> length gs = 8 \<and> list_all (\<lambda>x. x < 65536) gs"
proof -
  assume a: "read_ipv6_addr s = Some (gs, r)"
  obtain h h4 s1 where h: "read_groups 8 0 s = (h, h4, s1)" by (cases "read_groups 8 0 s")
  note hw = read_groups_wf [OF h]
  show ?thesis
  proof (cases "length h = 8")
    case True
    then show ?thesis using a h hw by (simp add: read_ipv6_addr_def)
  next
    case False
    then obtain s2 t b where t: "read_groups (8 - (length h + 1)) 0 s2 = (t, b, r)"
      "gs = h @ replicate (8 - length h - length t) 0 @ t"
      using a h by (auto simp: read_ipv6_addr_def split: if_splits option.splits prod.splits)
    then show ?thesis using read_groups_wf [OF t(1)] hw False by (auto simp: list_all_iff)
  qed
qed

lemma parse_ip_wf: "parse_ip s = Some a \<Longrightarrow> ip_wf a"
  by (auto simp: parse_ip_def parse_ipv6_def ip_wf_def read_ipv4_addr_def
      split: option.splits if_splits prod.splits list.splits dest: read_octets_wf read_ipv6_wf)

end
