(* ===== verification/Client_Endpoint.thy ===== *)
theory Client_Endpoint
  imports Net_Addr
begin

text \<open>
  Endpoint parsing, normalization and display of the client (\<open>crates/gregg/src/endpoint.rs\<close>), the
  host spelling of its request URLs (\<open>poller.rs\<close>) and the host equivalence the reducers apply
  (\<open>state.rs\<close>). The URL parser that \<open>gregg add\<close> calls (the \<open>url\<close> crate) and the identifier
  generator are parameters.

  The lemmas show that normalization is idempotent, that a parsed endpoint has a usable port and a
  normalized host, and that displaying and parsing an endpoint gives it back.
\<close>

section \<open>String operations of the standard library\<close>

fun str_contains :: "rstr \<Rightarrow> rstr \<Rightarrow> bool" where
  "str_contains pat [] \<longleftrightarrow> pat = []"
| "str_contains pat (c # s) \<longleftrightarrow> take (length pat) (c # s) = pat \<or> str_contains pat s"

text \<open>The part after the first occurrence of a pattern (\<open>split_once\<close> on a string).\<close>

fun str_after :: "rstr \<Rightarrow> rstr \<Rightarrow> rstr option" where
  "str_after pat [] = (if pat = [] then Some [] else None)"
| "str_after pat (c # s) =
     (if take (length pat) (c # s) = pat then Some (drop (length pat) (c # s)) else str_after pat s)"

definition strip_prefix :: "rstr \<Rightarrow> rstr \<Rightarrow> rstr option" where
  "strip_prefix pat s = (if take (length pat) s = pat then Some (drop (length pat) s) else None)"

definition strip_suffix :: "rstr \<Rightarrow> rstr \<Rightarrow> rstr option" where
  "strip_suffix pat s = map_option rev (strip_prefix (rev pat) (rev s))"

definition starts_with :: "uchar \<Rightarrow> rstr \<Rightarrow> bool" where
  "starts_with c s \<longleftrightarrow> s \<noteq> [] \<and> hd s = c"

definition ends_with :: "uchar \<Rightarrow> rstr \<Rightarrow> bool" where
  "ends_with c s \<longleftrightarrow> s \<noteq> [] \<and> last s = c"

definition count_char :: "uchar \<Rightarrow> rstr \<Rightarrow> nat" where
  "count_char c s = length (filter (\<lambda>x. x = c) s)"

definition rsplit_once :: "uchar \<Rightarrow> rstr \<Rightarrow> (rstr \<times> rstr) option" where
  "rsplit_once c s = map_option (\<lambda>(a, b). (rev b, rev a)) (split_once c (rev s))"

definition ascii_lower :: "uchar \<Rightarrow> uchar" where
  "ascii_lower c = (if 65 \<le> c \<and> c \<le> 90 then c + 32 else c)"

definition to_ascii_lowercase :: "rstr \<Rightarrow> rstr" where
  "to_ascii_lowercase s = map ascii_lower s"

definition eq_ignore_ascii_case :: "rstr \<Rightarrow> rstr \<Rightarrow> bool" where
  "eq_ignore_ascii_case a b \<longleftrightarrow> to_ascii_lowercase a = to_ascii_lowercase b"

definition parse_u32 :: "rstr \<Rightarrow> nat option" where
  "parse_u32 s = (case parse_usize s of None \<Rightarrow> None | Some n \<Rightarrow> if n < 2 ^ 32 then Some n else None)"

section \<open>Endpoints\<close>

definition DEFAULT_PORT :: nat where "DEFAULT_PORT = 11310"

definition MAX_ENDPOINT_NAME_LEN :: nat where "MAX_ENDPOINT_NAME_LEN = 128"

record Endpoint =
  en_id :: rstr
  en_host :: rstr
  en_port :: nat
  en_name :: "rstr option"

record EndpointSpec =
  es_host :: rstr
  es_port :: nat
  es_port_was_explicit :: bool
  es_name :: "rstr option"

datatype EndpointError =
    EmptyInput
  | HasScheme rstr
  | UnsupportedScheme rstr rstr
  | MalformedUrl rstr
  | HasPath rstr
  | HasCredentials rstr
  | PortZero
  | PortOverflow rstr
  | PortNotANumber rstr
  | MalformedBrackets rstr
  | EmptyHost
  | InvalidName rstr
  | ExplicitPortRequired
  | AmbiguousName rstr
  | MultipleAtSeparators rstr

fun endpoint_error_text :: "EndpointError \<Rightarrow> rstr" where
  "endpoint_error_text EmptyInput = ustr ''endpoint is empty''"
| "endpoint_error_text (HasScheme input) = ustr ''endpoint must not include a URL scheme: '' @ input"
| "endpoint_error_text (UnsupportedScheme scheme input) =
     ustr ''unsupported endpoint URL scheme '' @ [0x27] @ scheme @ [0x27] @ ustr '': '' @ input"
| "endpoint_error_text (MalformedUrl input) = ustr ''malformed endpoint URL: '' @ input"
| "endpoint_error_text (HasPath input) = ustr ''endpoint must not include a path: '' @ input"
| "endpoint_error_text (HasCredentials input) = ustr ''endpoint must not include credentials: '' @ input"
| "endpoint_error_text PortZero = ustr ''port must be greater than 0''"
| "endpoint_error_text (PortOverflow input) = ustr ''port exceeds valid range: '' @ input"
| "endpoint_error_text (PortNotANumber input) = ustr ''port is not a valid number: '' @ input"
| "endpoint_error_text (MalformedBrackets input) =
     ustr ''malformed IPv6 bracket syntax (an IPv6 host has to be bracketed): '' @ input"
| "endpoint_error_text EmptyHost = ustr ''host is empty''"
| "endpoint_error_text (InvalidName reason) = ustr ''invalid display name: '' @ reason"
| "endpoint_error_text ExplicitPortRequired =
     ustr ''gregg add requires an explicit port; specify host:port instead of host''"
| "endpoint_error_text (AmbiguousName input) =
     ustr ''gregg add received both an inline nickname and --name; pick one: '' @ input"
| "endpoint_error_text (MultipleAtSeparators input) =
     ustr ''endpoint contains multiple '' @ [0x27] @ ustr ''@'' @ [0x27] @ ustr '' separators; use at most one '' @
       [0x27] @ ustr ''nickname@'' @ [0x27] @ ustr '' prefix: '' @ input"

text \<open>The zone after the first \<open>%\<close>, without the \<open>25\<close> of an encoded separator.\<close>

definition zone_of :: "rstr \<Rightarrow> rstr \<Rightarrow> rstr" where
  "zone_of input zone =
     (if str_contains (ustr ''%25'') input
      then (case strip_prefix (ustr ''25'') zone of None \<Rightarrow> zone | Some z \<Rightarrow> z) else zone)"

definition normalize_host :: "rstr \<Rightarrow> (rstr, EndpointError) result" where
  "normalize_host host =
     (let trimmed = str_trim host;
          plain = (case parse_ip trimmed of Some ip \<Rightarrow> Ok (show_ip ip) | None \<Rightarrow> Ok trimmed)
      in if trimmed = [] then Err EmptyHost
         else (case split_once (uc CHR ''%'') trimmed of
                 Some (address, zone) \<Rightarrow>
                   if parse_ipv6 address \<noteq> None \<and> uc CHR '':'' \<notin> set zone
                   then let zone = zone_of trimmed zone in
                        if zone = [] then Err EmptyHost else Ok (address @ ustr ''%25'' @ zone)
                   else plain
               | None \<Rightarrow> plain))"

definition is_ipv6_with_zone_id :: "rstr \<Rightarrow> bool" where
  "is_ipv6_with_zone_id host =
     (case split_once (uc CHR ''%'') host of
        None \<Rightarrow> False
      | Some (address, zone) \<Rightarrow>
          let zone = zone_of host zone in
          zone \<noteq> [] \<and> uc CHR '':'' \<notin> set zone \<and> parse_ipv6 address \<noteq> None)"

definition parse_port :: "rstr \<Rightarrow> rstr \<Rightarrow> (nat, EndpointError) result" where
  "parse_port port_str full_input =
     (let trimmed = str_trim port_str in
      if trimmed = [] then Err (MalformedBrackets full_input)
      else (case parse_usize trimmed of
              None \<Rightarrow> Err (PortNotANumber full_input)
            | Some port \<Rightarrow>
                if port = 0 then Err PortZero
                else if port > 65535 then Err (PortOverflow full_input)
                else Ok port))"

definition rsplit_once_colon :: "rstr \<Rightarrow> (rstr \<times> rstr) option" where
  "rsplit_once_colon s = rsplit_once (uc CHR '':'') s"

definition is_ambiguous_bare_ipv6_with_port :: "rstr \<Rightarrow> bool" where
  "is_ambiguous_bare_ipv6_with_port input =
     (case rsplit_once_colon input of
        None \<Rightarrow> False
      | Some (host_part, port_part) \<Rightarrow>
          if ends_with (uc CHR '':'') host_part \<or> uc CHR ''%'' \<in> set host_part then False
          else (case parse_u32 port_part of
                  None \<Rightarrow> False
                | Some port \<Rightarrow>
                    if port = 0 \<or> port > 65535 then False else parse_ip host_part \<noteq> None))"

definition parse_bracketed_ipv6 :: "rstr \<Rightarrow> (EndpointSpec, EndpointError) result" where
  "parse_bracketed_ipv6 input =
     (case split_once (uc CHR '']'') input of
        None \<Rightarrow> Err (MalformedBrackets input)
      | Some (front, rest) \<Rightarrow>
          let addr_part = drop 1 front in
          if addr_part = [] then Err EmptyHost
          else if rest = [] then Err (MalformedBrackets input)
          else if \<not> starts_with (uc CHR '':'') rest then Err (MalformedBrackets input)
          else if uc CHR ''/'' \<in> set (drop 1 rest) \<or> uc CHR ''?'' \<in> set (drop 1 rest) \<or> uc CHR ''#'' \<in> set (drop 1 rest)
          then Err (HasPath input)
          else result_bind (parse_port (drop 1 rest) input) (\<lambda>port.
            if parse_ipv6 addr_part = None \<and> \<not> is_ipv6_with_zone_id addr_part then Err (MalformedBrackets input)
            else (case normalize_host addr_part of
                    Err _ \<Rightarrow> Err (MalformedBrackets input)
                  | Ok host \<Rightarrow> Ok \<lparr>es_host = host, es_port = port, es_port_was_explicit = True, es_name = None\<rparr>)))"

definition host_only_spec :: "rstr \<Rightarrow> (EndpointSpec, EndpointError) result" where
  "host_only_spec host = result_bind (normalize_host host) (\<lambda>host.
     Ok \<lparr>es_host = host, es_port = DEFAULT_PORT, es_port_was_explicit = False, es_name = None\<rparr>)"

definition host_port_spec :: "rstr \<Rightarrow> rstr \<Rightarrow> rstr \<Rightarrow> (EndpointSpec, EndpointError) result" where
  "host_port_spec input host_part port_part =
     result_bind (parse_port port_part input) (\<lambda>port. result_bind (normalize_host host_part) (\<lambda>host.
       Ok \<lparr>es_host = host, es_port = port, es_port_was_explicit = True, es_name = None\<rparr>))"

definition parse_spec :: "rstr \<Rightarrow> (EndpointSpec, EndpointError) result" where
  "parse_spec input0 =
     (let input = str_trim input0 in
      if input = [] then Err EmptyInput
      else if str_contains (ustr ''://'') input then Err (HasScheme input)
      else if \<not> starts_with (uc CHR ''['') input \<and> uc CHR ''/'' \<in> set input then Err (HasPath input)
      else if uc CHR ''@'' \<in> set input then Err (HasCredentials input)
      else if starts_with (uc CHR ''['') input then parse_bracketed_ipv6 input
      else if count_char (uc CHR '':'') input = 0 then host_only_spec input
      else if count_char (uc CHR '':'') input = 1 then
        (case rsplit_once_colon input of
           None \<Rightarrow> Err (MalformedBrackets input)
         | Some (host_part, port_part) \<Rightarrow> host_port_spec input host_part port_part)
      else if parse_ip input \<noteq> None \<or> is_ipv6_with_zone_id input then
        (if is_ambiguous_bare_ipv6_with_port input then Err (MalformedBrackets input)
         else host_only_spec input)
      else
        (case rsplit_once_colon input of
           None \<Rightarrow> Err (MalformedBrackets input)
         | Some (host_part, port_part) \<Rightarrow>
             if uc CHR ''%'' \<in> set input \<and> \<not> is_ipv6_with_zone_id host_part then Err (MalformedBrackets input)
             else host_port_spec input host_part port_part))"

definition parse_host_only :: "rstr \<Rightarrow> (EndpointSpec, EndpointError) result" where
  "parse_host_only input =
     (let trimmed = str_trim input in
      if parse_ip trimmed \<noteq> None \<or> is_ipv6_with_zone_id trimmed then host_only_spec trimmed
      else parse_spec trimmed)"

definition raw_authority_host :: "rstr \<Rightarrow> rstr option" where
  "raw_authority_host authority =
     (case strip_prefix (ustr ''['') authority of
        Some rest \<Rightarrow> map_option fst (split_once (uc CHR '']'') rest)
      | None \<Rightarrow>
          (case rsplit_once (uc CHR '':'') authority of
             Some (host, _) \<Rightarrow> if uc CHR '':'' \<notin> set host then Some host else Some authority
           | None \<Rightarrow> Some authority))"

definition raw_authority_port :: "rstr \<Rightarrow> rstr option" where
  "raw_authority_port authority =
     (case split_once (uc CHR '']'') authority of
        Some (_, rest) \<Rightarrow> strip_prefix (ustr '':'') rest
      | None \<Rightarrow>
          (case rsplit_once (uc CHR '':'') authority of
             Some (host, port) \<Rightarrow> if uc CHR '':'' \<notin> set host then Some port else None
           | None \<Rightarrow> None))"

definition unbracketed_host :: "rstr \<Rightarrow> rstr" where
  "unbracketed_host host =
     (case Option.bind (strip_prefix (ustr ''['') host) (strip_suffix (ustr '']'')) of None \<Rightarrow> host | Some h \<Rightarrow> h)"

text \<open>What the \<open>url\<close> crate reports of a parsed URL.\<close>

record url_view =
  uv_scheme :: rstr
  uv_username :: rstr
  uv_password :: "rstr option"
  uv_host_str :: "rstr option"
  uv_port :: "nat option"

definition parse_add_input :: "(rstr \<Rightarrow> url_view option) \<Rightarrow> rstr \<Rightarrow> (EndpointSpec, EndpointError) result" where
  "parse_add_input url_parse input =
     (let trimmed = str_trim input in
      if \<not> str_contains (ustr ''://'') trimmed then parse_spec trimmed
      else (case url_parse trimmed of
              None \<Rightarrow> Err (MalformedUrl trimmed)
            | Some url \<Rightarrow>
                if \<not> eq_ignore_ascii_case (uv_scheme url) (ustr ''http'') then Err (UnsupportedScheme (uv_scheme url) trimmed)
                else
                  let authority = (case str_after (ustr ''://'') trimmed of
                        None \<Rightarrow> []
                      | Some rest \<Rightarrow> takeWhile (\<lambda>c. c \<notin> {uc CHR ''/'', uc CHR ''?'', uc CHR ''#''}) rest) in
                  if uc CHR ''@'' \<in> set authority \<or> uv_username url \<noteq> [] \<or> uv_password url \<noteq> None
                  then Err (HasCredentials trimmed)
                  else (case uv_host_str url of
                          None \<Rightarrow> Err EmptyHost
                        | Some parsed_host \<Rightarrow>
                            let raw = (case raw_authority_host authority of
                                         Some h \<Rightarrow> if uc CHR ''%'' \<in> set h then h else parsed_host
                                       | None \<Rightarrow> parsed_host);
                                host = unbracketed_host raw;
                                authority_host = (if uc CHR '':'' \<in> set host then ustr ''['' @ host @ ustr '']'' else host);
                                explicit_port = (case uv_port url of
                                                   Some port \<Rightarrow> Some (dec_nat port)
                                                 | None \<Rightarrow> raw_authority_port authority)
                            in parse_spec (case explicit_port of
                                             Some port \<Rightarrow> authority_host @ ustr '':'' @ port
                                           | None \<Rightarrow> authority_host))))"


definition endpoint_new :: "rstr \<Rightarrow> rstr \<Rightarrow> nat \<Rightarrow> rstr option \<Rightarrow> Endpoint" where
  "endpoint_new uuid host port name = \<lparr>en_id = uuid, en_host = host, en_port = port, en_name = name\<rparr>"

definition into_endpoint :: "rstr \<Rightarrow> EndpointSpec \<Rightarrow> Endpoint" where
  "into_endpoint uuid spec = endpoint_new uuid (es_host spec) (es_port spec) (es_name spec)"

definition validate_name :: "rstr \<Rightarrow> (unit, EndpointError) result" where
  "validate_name name =
     (let trimmed = str_trim name in
      if trimmed = [] then Err (InvalidName (ustr ''name is empty''))
      else if name \<noteq> trimmed then Err (InvalidName (ustr ''name has surrounding whitespace''))
      else if list_ex is_control trimmed then Err (InvalidName (ustr ''name contains control characters''))
      else if list_ex (\<lambda>c. c = uc CHR ''@'' \<or> c = uc CHR '':'' \<or> c = uc CHR ''/'') trimmed
      then Err (InvalidName (map of_char (''name contains '' @ [CHR 0x27] @ ''@'' @ [CHR 0x27] @ '', '' @ [CHR 0x27] @
        '':'' @ [CHR 0x27] @ '', or '' @ [CHR 0x27] @ ''/'' @ [CHR 0x27])))
      else if str_len trimmed > MAX_ENDPOINT_NAME_LEN
      then Err (InvalidName (ustr ''name is '' @ dec_nat (str_len trimmed) @ ustr '' bytes, exceeds maximum of '' @
        dec_nat MAX_ENDPOINT_NAME_LEN))
      else Ok ())"

section \<open>Spelling and identity\<close>

definition bracketed_host :: "rstr \<Rightarrow> (rstr, EndpointError) result" where
  "bracketed_host host = normalize_host (unbracketed_host host)"

definition display_address :: "rstr \<Rightarrow> nat \<Rightarrow> rstr" where
  "display_address host port =
     (case bracketed_host host of
        Err _ \<Rightarrow> ustr ''<invalid>:'' @ dec_nat port
      | Ok normalized \<Rightarrow>
          if uc CHR '':'' \<in> set normalized then ustr ''['' @ normalized @ ustr '']:'' @ dec_nat port
          else normalized @ ustr '':'' @ dec_nat port)"

definition endpoint_display :: "Endpoint \<Rightarrow> rstr" where
  "endpoint_display e =
     (case en_name e of Some name \<Rightarrow> name | None \<Rightarrow> []) @ ustr ''  '' @ display_address (en_host e) (en_port e)"

definition matches_host :: "Endpoint \<Rightarrow> rstr \<Rightarrow> bool" where
  "matches_host e host =
     (case parse_ip host of
        Some ip \<Rightarrow> (case parse_ip (en_host e) of Some self_ip \<Rightarrow> ip = self_ip | None \<Rightarrow> False)
      | None \<Rightarrow> eq_ignore_ascii_case (en_host e) host)"

definition matches_full :: "Endpoint \<Rightarrow> rstr \<Rightarrow> bool" where
  "matches_full e spec =
     (case parse_spec spec of
        Ok parsed \<Rightarrow> eq_ignore_ascii_case (en_host e) (es_host parsed) \<and> en_port e = es_port parsed
      | Err _ \<Rightarrow> False)"

text \<open>\<open>poller::bracketed_host\<close>, the URL builders of the poller and of the scheduler routes.\<close>

definition url_host :: "rstr \<Rightarrow> (rstr, EndpointError) result" where
  "url_host host = result_bind (bracketed_host host) (\<lambda>host.
     if uc CHR '':'' \<in> set host then Ok (ustr ''['' @ host @ ustr '']'') else Ok host)"

definition status_url :: "rstr \<Rightarrow> nat \<Rightarrow> (rstr, EndpointError) result" where
  "status_url host port = result_bind (url_host host) (\<lambda>host.
     Ok (ustr ''http://'' @ host @ ustr '':'' @ dec_nat port @ ustr ''/v1/status''))"

definition v2_status_url :: "rstr \<Rightarrow> nat \<Rightarrow> (rstr, EndpointError) result" where
  "v2_status_url host port = result_bind (url_host host) (\<lambda>host.
     Ok (ustr ''http://'' @ host @ ustr '':'' @ dec_nat port @ ustr ''/v2/status''))"

definition scheduler_url :: "rstr \<Rightarrow> nat \<Rightarrow> (rstr, EndpointError) result" where
  "scheduler_url host port = result_bind (url_host host) (\<lambda>host.
     Ok (ustr ''http://'' @ host @ ustr '':'' @ dec_nat port @ ustr ''/v2/scheduler''))"

definition scheduler_history_url :: "rstr \<Rightarrow> nat \<Rightarrow> (rstr, EndpointError) result" where
  "scheduler_history_url host port = result_bind (url_host host) (\<lambda>host.
     Ok (ustr ''http://'' @ host @ ustr '':'' @ dec_nat port @ ustr ''/v2/scheduler/history''))"

text \<open>\<open>state::equivalent_endpoint_host\<close>.\<close>

definition equivalent_endpoint_host :: "rstr \<Rightarrow> rstr \<Rightarrow> bool" where
  "equivalent_endpoint_host left right =
     (case (normalize_host left, normalize_host right) of
        (Ok l, Ok r) \<Rightarrow> eq_ignore_ascii_case l r
      | _ \<Rightarrow> eq_ignore_ascii_case left right)"


section \<open>Trimming and searching\<close>

lemma str_trim_ends: "str_trim s \<noteq> [] \<Longrightarrow> \<not> is_white (hd (str_trim s)) \<and> \<not> is_white (last (str_trim s))"
proof -
  let ?d = "dropWhile is_white s"
  let ?r = "dropWhile is_white (rev ?d)"
  assume "str_trim s \<noteq> []"
  then have r: "?r \<noteq> []" by (simp add: str_trim_def)
  then have h: "\<not> is_white (hd ?r)" by (rule hd_dropWhile)
  have "?d \<noteq> []" using r by (metis dropWhile.simps(1) rev.simps(1))
  then have d: "\<not> is_white (hd ?d)" by (rule hd_dropWhile)
  have "hd (rev ?r) = last ?r" using r by (simp add: hd_rev)
  also have "\<dots> = last (rev ?d)" using r by (metis append_is_Nil_conv last_appendR takeWhile_dropWhile_id)
  also have "\<dots> = hd ?d" using \<open>?d \<noteq> []\<close> by (simp add: last_rev)
  finally have "\<not> is_white (hd (rev ?r))" using d by simp
  then show ?thesis using r h by (simp add: str_trim_def last_rev)
qed

lemma str_trim_idem [simp]: "str_trim (str_trim s) = str_trim s"
proof (cases "str_trim s = []")
  case False
  then show ?thesis using str_trim_ends [of s] by (intro str_trim_id) auto
next
  case True
  show ?thesis unfolding True by (simp add: str_trim_def)
qed

lemma str_contains_set: "str_contains pat s \<Longrightarrow> set pat \<subseteq> set s"
proof (induction pat s rule: str_contains.induct)
  case (2 pat c s)
  show ?case
  proof (cases "take (length pat) (c # s) = pat")
    case True
    then show ?thesis using set_take_subset [of "length pat" "c # s"] by simp
  qed (use 2 in auto)
qed simp

lemma str_contains_append: "str_contains pat (a @ pat @ b)"
proof (induction a)
  case Nil
  have "take (length pat) (pat @ b) = pat" by simp
  then show ?case by (cases "pat @ b") (simp_all del: append_eq_conv_conj)
qed simp

lemma split_once_SomeD: "split_once c s = Some (a, b) \<Longrightarrow> s = a @ c # b \<and> c \<notin> set a"
  by (induction s arbitrary: a b) (auto split: if_splits option.splits)

lemma split_once_None_iff: "split_once c s = None \<longleftrightarrow> c \<notin> set s"
  by (induction s) (auto split: option.splits)

lemma rsplit_once_append: "c \<notin> set b \<Longrightarrow> rsplit_once c (a @ c # b) = Some (a, b)"
  using split_once_append_sep [of c "rev b" "rev a"] by (simp add: rsplit_once_def)

section \<open>Normalized hosts\<close>

definition ip_char :: "uchar \<Rightarrow> bool" where
  "ip_char c \<longleftrightarrow> c = 46 \<or> c = 58 \<or> 48 \<le> c \<and> c \<le> 57 \<or> 97 \<le> c \<and> c \<le> 102"

lemma fmt_radix_ip_char: "2 \<le> radix \<Longrightarrow> radix \<le> 16 \<Longrightarrow> \<forall>c \<in> set (fmt_radix radix n). ip_char c"
  using radix_digits_lt [of radix n] by (fastforce simp: fmt_radix_digits digit_char_def ip_char_def)

lemma str_join_ip_char:
  assumes "2 \<le> radix" "radix \<le> 16" "ip_char c"
  shows "\<forall>x \<in> set (str_join c (map (fmt_radix radix) ns)). ip_char x"
  using set_str_join [of c "map (fmt_radix radix) ns"] fmt_radix_ip_char [OF assms(1,2)] assms(3) by fastforce

lemma show_ip_chars: "\<forall>c \<in> set (show_ip a). ip_char c"
proof -
  have c: "ip_char 46" "ip_char 58" "ip_char 102" by (simp_all add: ip_char_def)
  have v4: "\<forall>c \<in> set (show_ipv4 os). ip_char c" for os
    unfolding show_ipv4_def by (rule str_join_ip_char) (simp_all add: c)
  have sub: "\<forall>c \<in> set (fmt_subslice gs). ip_char c" for gs
    unfolding fmt_subslice_def by (rule str_join_ip_char) (simp_all add: c)
  have "\<forall>c \<in> set (show_ipv6 gs). ip_char c" for gs
    using v4 sub c by (simp add: show_ipv6_def ustr_def Let_def split_beta ball_Un)
  then show ?thesis using v4 by (cases a) simp_all
qed

lemma show_ip_nonempty: "ip_wf a \<Longrightarrow> show_ip a \<noteq> []"
proof
  assume "ip_wf a" "show_ip a = []"
  moreover have "parse_ip [] = None"
    using read_ipv4_none [of "[]" "[]"] fmt_subslice_groups [of "[]" "[]" 8]
    by (simp add: parse_ip_def parse_ipv6_def read_ipv6_addr_def fmt_subslice_def)
  ultimately show False using parse_ip_show [of a] by simp
qed


lemma ip_char_facts: "ip_char c \<Longrightarrow> \<not> is_white c \<and> c \<noteq> 37 \<and> c \<noteq> 47 \<and> c \<noteq> 64 \<and> c \<noteq> 91 \<and> c \<noteq> 93"
  by (auto simp: ip_char_def is_white_def)

lemma parse_ipv6_Nil [simp]: "parse_ipv6 [] = None"
  using fmt_subslice_groups [of "[]" "[]" 8] by (simp add: parse_ipv6_def read_ipv6_addr_def fmt_subslice_def)

lemma show_ip_trim: "ip_wf a \<Longrightarrow> str_trim (show_ip a) = show_ip a"
  using show_ip_nonempty [of a] show_ip_chars [of a] by (intro str_trim_id) (auto simp: ip_char_facts)

text \<open>A normalized host is one of a zoned IPv6 address, a printed address and a trimmed name.\<close>

lemma dec_nat_inj: "dec_nat a = dec_nat b \<longleftrightarrow> a = b"
  using digits_val_dec_nat by metis

lemma split_sep_iff:
  fixes c :: uchar
  assumes "c \<notin> set a" "c \<notin> set a'"
  shows "a @ c # b = a' @ c # b' \<longleftrightarrow> a = a' \<and> b = b'"
proof
  assume "a @ c # b = a' @ c # b'"
  then have "split_once c (a @ c # b) = split_once c (a' @ c # b')" by simp
  then show "a = a' \<and> b = b'" unfolding split_once_append_sep [OF assms(1)] split_once_append_sep [OF assms(2)] by simp
qed simp

lemma rsplit_sep_iff:
  fixes c :: uchar
  assumes "c \<notin> set b" "c \<notin> set b'"
  shows "a @ c # b = a' @ c # b' \<longleftrightarrow> a = a' \<and> b = b'"
proof
  assume "a @ c # b = a' @ c # b'"
  then have "rsplit_once c (a @ c # b) = rsplit_once c (a' @ c # b')" by simp
  then show "a = a' \<and> b = b'" unfolding rsplit_once_append [OF assms(1)] rsplit_once_append [OF assms(2)] by simp
qed simp

lemma normalize_host_cases:
  assumes "normalize_host h = Ok n"
  obtains (zone) address zone where "n = address @ ustr ''%25'' @ zone" "parse_ipv6 address \<noteq> None" "zone \<noteq> []"
      "58 \<notin> set zone" "37 \<notin> set address" "\<not> is_white (hd address)" "\<not> is_white (last zone)"
    | (ip) a where "n = show_ip a" "ip_wf a"
    | (name) "n = str_trim h" "n \<noteq> []" "parse_ip n = None"
proof -
  have t: "str_trim h \<noteq> []" using assms by (auto simp: normalize_host_def Let_def)
  note ends = str_trim_ends [OF t]
  show ?thesis
  proof (cases "\<exists>address z. split_once 37 (str_trim h) = Some (address, z) \<and> parse_ipv6 address \<noteq> None \<and> 58 \<notin> set z")
    case True
    then obtain address z where z: "split_once 37 (str_trim h) = Some (address, z)" "parse_ipv6 address \<noteq> None" "58 \<notin> set z"
      by blast
    then have n: "n = address @ ustr ''%25'' @ zone_of (str_trim h) z" "zone_of (str_trim h) z \<noteq> []"
      using assms t by (auto simp: normalize_host_def Let_def split: if_splits)
    have s: "str_trim h = address @ 37 # z" "37 \<notin> set address" using split_once_SomeD [OF z(1)] by simp_all
    have "address \<noteq> []" using z(2) by auto
    have suffix: "\<exists>p. z = p @ zone_of (str_trim h) z"
      by (auto simp: zone_of_def strip_prefix_def split: option.splits if_splits) (metis append_take_drop_id)
    then have "last z = last (zone_of (str_trim h) z)" "z \<noteq> []" using n(2) by (metis append_is_Nil_conv last_appendR)+
    moreover have "58 \<notin> set (zone_of (str_trim h) z)" using suffix z(3) by (metis Un_iff set_append)
    ultimately show ?thesis
      using zone [OF n(1) z(2) n(2) _ s(2)] ends s(1) \<open>address \<noteq> []\<close> by auto
  next
    case False
    then have "n = (case parse_ip (str_trim h) of Some a \<Rightarrow> show_ip a | None \<Rightarrow> str_trim h)"
      using assms t by (auto simp: normalize_host_def Let_def split: option.splits if_splits)
    then show ?thesis
      using ip name t by (auto split: option.splits dest: parse_ip_wf)
  qed
qed

lemma str_trim_ends_id: "a \<noteq> [] \<Longrightarrow> b \<noteq> [] \<Longrightarrow> \<not> is_white (hd a) \<Longrightarrow> \<not> is_white (last b) \<Longrightarrow> str_trim (a @ c @ b) = a @ c @ b"
  by (rule str_trim_id) auto

lemma zoned_split:
  assumes "37 \<notin> set address"
  shows "split_once 37 (address @ ustr ''%25'' @ zone) = Some (address, ustr ''25'' @ zone)"
    and "zone_of (address @ ustr ''%25'' @ zone) (ustr ''25'' @ zone) = zone"
proof -
  show "split_once 37 (address @ ustr ''%25'' @ zone) = Some (address, ustr ''25'' @ zone)"
    using split_once_append_sep [OF assms, of "ustr ''25'' @ zone"] by (simp add: ustr_def)
  show "zone_of (address @ ustr ''%25'' @ zone) (ustr ''25'' @ zone) = zone"
    using str_contains_append [of "ustr ''%25''" address zone] by (simp add: zone_of_def strip_prefix_def ustr_def)
qed

lemma normalize_host_idem:
  assumes "normalize_host h = Ok n"
  shows "normalize_host n = Ok n"
  using assms
proof (cases rule: normalize_host_cases)
  case (zone address zone)
  have "address \<noteq> []" using zone(2) by auto
  then have "str_trim n = n" unfolding zone(1) using zone by (intro str_trim_ends_id) auto
  then show ?thesis
    using zoned_split [OF zone(5)] zone \<open>address \<noteq> []\<close> by (simp add: normalize_host_def Let_def ustr_def)
next
  case (ip a)
  have "37 \<notin> set (show_ip a)" using show_ip_chars ip_char_facts by blast
  then show ?thesis
    using ip show_ip_trim [OF ip(2)] show_ip_nonempty [OF ip(2)] parse_ip_show [OF ip(2)]
    by (simp add: normalize_host_def Let_def split_once_no_sep)
next
  case name
  then have "normalize_host n = normalize_host h" by (simp add: normalize_host_def)
  then show ?thesis using assms by simp
qed

lemma normalized_nonempty: "normalize_host h = Ok n \<Longrightarrow> n \<noteq> []"
  by (frule normalize_host_idem) (auto simp: normalize_host_def Let_def str_trim_def)


section \<open>Parsed endpoints\<close>

lemma parse_port_range: "parse_port p input = Ok port \<Longrightarrow> 1 \<le> port \<and> port \<le> 65535"
  by (auto simp: parse_port_def Let_def split: if_splits option.splits)

lemma host_port_spec_ok:
  "host_port_spec i h p = Ok sp \<Longrightarrow> normalize_host h = Ok (es_host sp) \<and> 1 \<le> es_port sp \<and> es_port sp \<le> 65535"
  by (auto simp: host_port_spec_def dest: parse_port_range)

lemma host_only_spec_ok:
  "host_only_spec h = Ok sp \<Longrightarrow> normalize_host h = Ok (es_host sp) \<and> es_port sp = DEFAULT_PORT"
  by (auto simp: host_only_spec_def)

lemma parse_bracketed_ok:
  "parse_bracketed_ipv6 i = Ok sp \<Longrightarrow> (\<exists>h. normalize_host h = Ok (es_host sp)) \<and> 1 \<le> es_port sp \<and> es_port sp \<le> 65535"
  using parse_port_range
  by (auto simp: parse_bracketed_ipv6_def Let_def split: option.splits if_splits result.splits) fastforce+

lemma parse_spec_ok:
  assumes "parse_spec input = Ok sp"
  shows "normalize_host (es_host sp) = Ok (es_host sp) \<and> 1 \<le> es_port sp \<and> es_port sp \<le> 65535"
proof -
  have "(\<exists>h. normalize_host h = Ok (es_host sp)) \<and> 1 \<le> es_port sp \<and> es_port sp \<le> 65535"
    using assms
    by (auto simp: parse_spec_def Let_def DEFAULT_PORT_def split: if_splits option.splits
        dest!: host_port_spec_ok host_only_spec_ok parse_bracketed_ok)
  then show ?thesis using normalize_host_idem by blast
qed

lemma parse_port_dec: "1 \<le> p \<Longrightarrow> p \<le> 65535 \<Longrightarrow> parse_port (dec_nat p) input = Ok p"
proof -
  assume p: "1 \<le> p" "p \<le> 65535"
  have "is_digit (hd (dec_nat p))" "is_digit (last (dec_nat p))"
    using dec_nat_digits [of "hd (dec_nat p)" p] dec_nat_digits [of "last (dec_nat p)" p] by simp_all
  then have "str_trim (dec_nat p) = dec_nat p" by (intro str_trim_id) (auto simp: is_digit_def is_white_def)
  then show ?thesis using p by (simp add: parse_port_def parse_usize_dec_nat u64_max_def)
qed

text \<open>A host whose display form can be read back: no delimiter of the endpoint syntax in it, and colons
  only in an IPv6 literal.\<close>

definition addressable :: "rstr \<Rightarrow> bool" where
  "addressable host \<longleftrightarrow> set host \<inter> set (ustr ''/@[]'') = {} \<and>
     (uc CHR '':'' \<in> set host \<longrightarrow> parse_ipv6 host \<noteq> None \<or> is_ipv6_with_zone_id host)"

lemma normalized_trim: "normalize_host h = Ok n \<Longrightarrow> str_trim n = n"
proof (erule normalize_host_cases)
  fix address zone
  assume "n = address @ ustr ''%25'' @ zone" "parse_ipv6 address \<noteq> None" "zone \<noteq> []" "\<not> is_white (hd address)"
    "\<not> is_white (last zone)"
  then show "str_trim n = n" by (metis parse_ipv6_Nil str_trim_ends_id)
qed (simp_all add: show_ip_trim)

lemma display_parse_aux:
  assumes n: "normalize_host h = Ok host" and p: "1 \<le> port" "port \<le> 65535" and a: "addressable host"
  shows "parse_spec (display_address host port) =
    Ok \<lparr>es_host = host, es_port = port, es_port_was_explicit = True, es_name = None\<rparr>"
proof -
  have norm: "normalize_host host = Ok host" "host \<noteq> []" using n by (auto dest: normalize_host_idem normalized_nonempty)
  have white: "\<not> is_white (hd host)" using str_trim_ends [of host] normalized_trim [OF n] norm(2) by simp
  have chars: "47 \<notin> set host" "64 \<notin> set host" "91 \<notin> set host" "93 \<notin> set host"
    using a by (auto simp: addressable_def ustr_def)
  then have "unbracketed_host host = host"
    using norm(2) by (cases host) (auto simp: unbracketed_host_def strip_prefix_def ustr_def)
  then have b: "bracketed_host host = Ok host" using norm(1) by (simp add: bracketed_host_def)
  have digit: "c \<noteq> 47 \<and> c \<noteq> 64 \<and> c \<noteq> 58 \<and> c \<noteq> 63 \<and> c \<noteq> 35 \<and> \<not> is_white c" if "c \<in> set (dec_nat port)" for c
    using dec_nat_digits [OF that] by (auto simp: is_digit_def is_white_def)
  have last: "\<not> is_white (last (dec_nat port))" using digit [of "last (dec_nat port)"] by simp
  show ?thesis
  proof (cases "58 \<in> set host")
    case False
    let ?i = "host @ 58 # dec_nat port"
    have i: "display_address host port = ?i" using b False by (simp add: display_address_def ustr_def)
    have "str_trim ?i = ?i" using norm(2) white last by (intro str_trim_id) auto
    moreover have "47 \<notin> set ?i" "64 \<notin> set ?i" using chars digit by auto
    moreover from this have "\<not> str_contains (ustr ''://'') ?i" by (auto dest!: str_contains_set simp: ustr_def)
    moreover have "\<not> starts_with 91 ?i" using norm(2) chars(3) by (cases host) (auto simp: starts_with_def)
    moreover have "count_char 58 ?i = 1"
      using False digit by (auto simp: count_char_def filter_empty_conv)
    moreover have "rsplit_once_colon ?i = Some (host, dec_nat port)"
      using digit by (auto simp: rsplit_once_colon_def intro!: rsplit_once_append)
    ultimately show ?thesis
      using norm p by (simp add: i parse_spec_def Let_def host_port_spec_def parse_port_dec)
  next
    case True
    let ?i = "91 # host @ 93 # 58 # dec_nat port"
    have i: "display_address host port = ?i" using b True by (simp add: display_address_def ustr_def)
    have "str_trim ?i = ?i" using last by (intro str_trim_id) (auto simp: is_white_def)
    moreover have "47 \<notin> set ?i" "64 \<notin> set ?i" using chars digit by auto
    moreover from this have "\<not> str_contains (ustr ''://'') ?i" by (auto dest!: str_contains_set simp: ustr_def)
    moreover have "split_once 93 ?i = Some (91 # host, 58 # dec_nat port)"
      using split_once_append_sep [of 93 "91 # host" "58 # dec_nat port"] chars by simp
    moreover have "parse_ipv6 host \<noteq> None \<or> is_ipv6_with_zone_id host" using a True by (simp add: addressable_def)
    moreover have "47 \<notin> set (dec_nat port)" "63 \<notin> set (dec_nat port)" "35 \<notin> set (dec_nat port)" using digit by auto
    ultimately show ?thesis
      using norm p by (auto simp: i parse_spec_def Let_def parse_bracketed_ipv6_def parse_port_dec starts_with_def)
  qed
qed


section \<open>Properties\<close>

text \<open>
  C35. Displaying and parsing are inverse: the display address of a normalized host and a port parses
  back to exactly that host and port, for names, IPv4 and IPv6 literals with and without a zone, as
  long as the host has no delimiter of the endpoint syntax and colons only in an IPv6 literal.
\<close>

theorem display_parse_round_trip:
  assumes "normalize_host h = Ok host" and "1 \<le> port" and "port \<le> 65535" and "addressable host"
  shows "parse_spec (display_address host port) =
    Ok \<lparr>es_host = host, es_port = port, es_port_was_explicit = True, es_name = None\<rparr>"
  using assms by (rule display_parse_aux)

lemma example_ipv6_shown: "show_ip (V6 [0, 0, 0, 0, 0, 0, 0, 1]) = ustr ''::1''"
  by (simp add: show_ipv6_def fmt_subslice_def fmt_radix.simps ustr_def digit_char_def)

lemma example_ipv6_host: "normalize_host (show_ip (V6 [0, 0, 0, 0, 0, 0, 0, 1])) = Ok (ustr ''::1'')"
proof -
  have wf: "ip_wf (V6 [0, 0, 0, 0, 0, 0, 0, 1])" by (simp add: ip_wf_def)
  have "37 \<notin> set (show_ip (V6 [0, 0, 0, 0, 0, 0, 0, 1]))" using show_ip_chars ip_char_facts by blast
  then show ?thesis
    using example_ipv6_shown show_ip_trim [OF wf] show_ip_nonempty [OF wf] parse_ip_show [OF wf]
    by (simp add: normalize_host_def Let_def split_once_no_sep)
qed

lemma example_addressable: "addressable (ustr ''::1'')"
proof -
  have "parse_ipv6 (ustr ''::1'') \<noteq> None"
    using parse_ipv6_show [of "[0, 0, 0, 0, 0, 0, 0, 1]"]
    by (simp add: show_ipv6_def fmt_subslice_def fmt_radix.simps ustr_def digit_char_def)
  then show ?thesis by (auto simp: addressable_def ustr_def)
qed

theorem display_parse_round_trip_witness:
  "parse_spec (display_address (ustr ''::1'') 8080) =
    Ok \<lparr>es_host = ustr ''::1'', es_port = 8080, es_port_was_explicit = True, es_name = None\<rparr>"
  using display_parse_round_trip [OF example_ipv6_host, of 8080] example_addressable by simp

text \<open>
  C37. What the endpoint parser accepts is usable: the host is in normal form (normalizing it again
  changes nothing) and the port is between 1 and 65535, for every accepted spelling.
\<close>

theorem parsed_endpoint_normal:
  assumes "parse_spec input = Ok spec"
  shows "normalize_host (es_host spec) = Ok (es_host spec) \<and> 1 \<le> es_port spec \<and> es_port spec \<le> 65535"
  using assms by (rule parse_spec_ok)

theorem parsed_endpoint_normal_witness: "normalize_host (ustr ''::1'') = Ok (ustr ''::1'') \<and> (8080 :: nat) \<le> 65535"
  using parsed_endpoint_normal [OF display_parse_aux [OF example_ipv6_host, of 8080]] example_addressable by simp

text \<open>
  A malformed host with a colon is accepted: \<open>foo:bar:80\<close> parses to the host \<open>foo:bar\<close>, whose
  display address \<open>[foo:bar]:80\<close> the same parser rejects.
\<close>

theorem colon_host_accepted:
  "parse_spec (ustr ''foo:bar:80'') =
     Ok \<lparr>es_host = ustr ''foo:bar'', es_port = 80, es_port_was_explicit = True, es_name = None\<rparr> \<and>
   parse_spec (display_address (ustr ''foo:bar'') 80) = Err (MalformedBrackets (ustr ''[foo:bar]:80''))"
proof -
  have no4: "read_ipv4_addr (102 # s) = None" for s
    unfolding read_ipv4_addr_def read_octets_4 read_octets.simps
    by (simp add: read_separator_def read_number_def to_digit_def)
  have "read_groups (Suc (Suc 6)) 0 (102 # 111 # s) = ([15], False, 111 # s)" for s
    unfolding read_groups.simps by (simp add: read_separator_def read_number_def to_digit_def no4)
  then have g: "read_groups 8 0 (102 # 111 # s) = ([15], False, 111 # s)" for s by simp
  have no6: "parse_ipv6 (102 # 111 # s) = None" for s
    by (simp add: parse_ipv6_def read_ipv6_addr_def g)
  have noip: "parse_ip (102 # 111 # s) = None" for s by (simp add: parse_ip_def no4 no6)
  have dec: "dec_nat 80 = [56, 48]" by (simp add: dec_nat.simps)
  have host: "normalize_host (ustr ''foo:bar'') = Ok (ustr ''foo:bar'')"
    by (simp add: normalize_host_def Let_def ustr_def str_trim_def is_white_def noip)
  have "parse_spec (ustr ''foo:bar:80'') =
      Ok \<lparr>es_host = ustr ''foo:bar'', es_port = 80, es_port_was_explicit = True, es_name = None\<rparr>"
    using host parse_port_dec [of 80]
    by (simp add: parse_spec_def Let_def ustr_def str_trim_def is_white_def starts_with_def count_char_def noip
        is_ipv6_with_zone_id_def rsplit_once_colon_def rsplit_once_def host_port_spec_def dec)
  moreover have "display_address (ustr ''foo:bar'') 80 = ustr ''[foo:bar]:80''"
    using host by (simp add: display_address_def bracketed_host_def unbracketed_host_def strip_prefix_def ustr_def dec)
  moreover have "parse_spec (ustr ''[foo:bar]:80'') = Err (MalformedBrackets (ustr ''[foo:bar]:80''))"
    using parse_port_dec [of 80]
    by (simp add: parse_spec_def Let_def ustr_def str_trim_def is_white_def starts_with_def parse_bracketed_ipv6_def
        no6 is_ipv6_with_zone_id_def dec)
  ultimately show ?thesis by simp
qed

end
