(* ===== verification/Ordered_Map.thy ===== *)
theory Ordered_Map
  imports Gregg_Prelude "HOL-Library.List_Lexorder" "HOL-Library.Product_Lexorder"
begin

text \<open>
  The ordered maps of the client (\<open>std::collections::BTreeMap\<close>) as association lists with strictly
  ascending keys, so that iteration order is the list order. Strings are ordered lexicographically
  by code point, which is the byte order of their UTF-8 encodings.
\<close>

type_synonym ('k, 'v) btree = "('k \<times> 'v) list"

definition bt_wf :: "('k::linorder, 'v) btree \<Rightarrow> bool" where
  "bt_wf m \<longleftrightarrow> sorted_wrt (<) (map fst m)"

fun bt_insert :: "'k::linorder \<Rightarrow> 'v \<Rightarrow> ('k, 'v) btree \<Rightarrow> ('k, 'v) btree" where
  "bt_insert k v [] = [(k, v)]"
| "bt_insert k v ((k', v') # m) =
     (if k < k' then (k, v) # (k', v') # m
      else if k = k' then (k, v) # m
      else (k', v') # bt_insert k v m)"

definition bt_get :: "('k, 'v) btree \<Rightarrow> 'k \<Rightarrow> 'v option" where
  "bt_get m k = map_of m k"

definition bt_remove :: "'k \<Rightarrow> ('k, 'v) btree \<Rightarrow> ('k, 'v) btree" where
  "bt_remove k m = filter (\<lambda>e. fst e \<noteq> k) m"

definition bt_retain :: "('k \<Rightarrow> bool) \<Rightarrow> ('k, 'v) btree \<Rightarrow> ('k, 'v) btree" where
  "bt_retain P m = filter (\<lambda>e. P (fst e)) m"

text \<open>\<open>entry(k).or_default()\<close> followed by an update of the entry.\<close>

definition bt_get_or :: "'v \<Rightarrow> ('k, 'v) btree \<Rightarrow> 'k \<Rightarrow> 'v" where
  "bt_get_or d m k = (case bt_get m k of None \<Rightarrow> d | Some v \<Rightarrow> v)"

section \<open>Laws\<close>

lemma bt_wf_Nil [simp]: "bt_wf []"
  by (simp add: bt_wf_def)

lemma bt_wf_Cons: "bt_wf ((k, v) # m) \<longleftrightarrow> bt_wf m \<and> (\<forall>e \<in> set m. k < fst e)"
  by (auto simp: bt_wf_def)

lemma bt_wf_distinct: "bt_wf m \<Longrightarrow> distinct (map fst m)"
  by (simp add: bt_wf_def strict_sorted_iff)

lemma set_bt_insert:
  "bt_wf m \<Longrightarrow> set (bt_insert k v m) = insert (k, v) {e \<in> set m. fst e \<noteq> k}"
  by (induction m rule: bt_insert.induct) (auto simp: bt_wf_Cons)

lemma bt_wf_insert [intro, simp]: "bt_wf m \<Longrightarrow> bt_wf (bt_insert k v m)"
proof (induction k v m rule: bt_insert.induct)
  case (2 k v k' v' m)
  then show ?case by (auto simp: bt_wf_Cons set_bt_insert dest: less_trans)
qed (simp add: bt_wf_Cons)

lemma bt_wf_remove [intro, simp]: "bt_wf m \<Longrightarrow> bt_wf (bt_remove k m)"
  by (simp add: bt_wf_def bt_remove_def sorted_wrt_map sorted_wrt_filter)

lemma bt_wf_retain [intro, simp]: "bt_wf m \<Longrightarrow> bt_wf (bt_retain P m)"
  by (simp add: bt_wf_def bt_retain_def sorted_wrt_map sorted_wrt_filter)

lemma bt_get_insert: "bt_get (bt_insert k v m) k' = (if k' = k then Some v else bt_get m k')"
  by (induction k v m rule: bt_insert.induct) (auto simp: bt_get_def)

lemma bt_get_remove: "bt_get (bt_remove k m) k' = (if k' = k then None else bt_get m k')"
  by (induction m) (auto simp: bt_get_def bt_remove_def)

lemma bt_get_retain: "bt_get (bt_retain P m) k = (if P k then bt_get m k else None)"
  by (induction m) (auto simp: bt_get_def bt_retain_def)

lemma bt_get_SomeI: "bt_wf m \<Longrightarrow> (k, v) \<in> set m \<Longrightarrow> bt_get m k = Some v"
  by (simp add: bt_get_def bt_wf_distinct)

lemma bt_get_SomeD: "bt_get m k = Some v \<Longrightarrow> (k, v) \<in> set m"
  by (simp add: bt_get_def map_of_SomeD)

lemma bt_get_iff: "bt_wf m \<Longrightarrow> bt_get m k = Some v \<longleftrightarrow> (k, v) \<in> set m"
  using bt_get_SomeI bt_get_SomeD by metis

lemma bt_from_keys: "bt_wf m \<Longrightarrow> map (\<lambda>k. (k, the (bt_get m k))) (map fst m) = m"
  by (auto simp: bt_get_SomeI intro!: map_idI)

lemma bt_eqI:
  assumes "bt_wf m" "bt_wf m'" "\<And>k. bt_get m k = bt_get m' k"
  shows "m = m'"
proof -
  have "set (map fst m) = set (map fst m')"
    using assms(3) by (force simp: bt_get_def dom_map_of_conv_image_fst [symmetric])
  then have "map fst m = map fst m'"
    using assms(1,2) by (intro strict_sorted_equal) (simp_all add: bt_wf_def)
  then show ?thesis
    using bt_from_keys [OF assms(1)] bt_from_keys [OF assms(2)] assms(3) by simp
qed

text \<open>
  The contract of a map, as its clients rely on it.
\<close>

locale ordered_map =
  fixes wf :: "'m \<Rightarrow> bool"
    and get :: "'m \<Rightarrow> 'k \<Rightarrow> 'v option"
    and insert :: "'k \<Rightarrow> 'v \<Rightarrow> 'm \<Rightarrow> 'm"
    and remove :: "'k \<Rightarrow> 'm \<Rightarrow> 'm"
    and retain :: "('k \<Rightarrow> bool) \<Rightarrow> 'm \<Rightarrow> 'm"
  assumes wf_insert: "wf m \<Longrightarrow> wf (insert k v m)"
    and wf_remove: "wf m \<Longrightarrow> wf (remove k m)"
    and wf_retain: "wf m \<Longrightarrow> wf (retain P m)"
    and get_insert: "get (insert k v m) k' = (if k' = k then Some v else get m k')"
    and get_remove: "get (remove k m) k' = (if k' = k then None else get m k')"
    and get_retain: "get (retain P m) k = (if P k then get m k else None)"
    and get_ext: "wf m \<Longrightarrow> wf m' \<Longrightarrow> (\<And>k. get m k = get m' k) \<Longrightarrow> m = m'"
begin

lemma insert_same: "wf m \<Longrightarrow> get m k = Some v \<Longrightarrow> insert k v m = m"
  by (rule get_ext) (simp_all add: wf_insert get_insert)

lemma insert_insert: "wf m \<Longrightarrow> insert k v (insert k v' m) = insert k v m"
  by (rule get_ext) (simp_all add: wf_insert get_insert)

lemma insert_commute: "wf m \<Longrightarrow> k \<noteq> k' \<Longrightarrow> insert k v (insert k' v' m) = insert k' v' (insert k v m)"
  by (rule get_ext) (simp_all add: wf_insert get_insert)

lemma remove_insert_new: "wf m \<Longrightarrow> get m k = None \<Longrightarrow> remove k (insert k v m) = m"
  by (rule get_ext) (simp_all add: wf_insert wf_remove get_insert get_remove)

lemma retain_all: "wf m \<Longrightarrow> (\<And>k. get m k \<noteq> None \<Longrightarrow> P k) \<Longrightarrow> retain P m = m"
  by (rule get_ext) (auto simp: wf_retain get_retain, metis not_None_eq)

end

interpretation btree: ordered_map bt_wf bt_get bt_insert bt_remove bt_retain
  by unfold_locales (simp_all add: bt_get_insert bt_get_remove bt_get_retain bt_eqI)

lemma bt_sum_insert:
  "bt_wf m \<Longrightarrow> sum_list (map (\<lambda>e. f (snd e)) (bt_insert k v m)) + (case bt_get m k of None \<Rightarrow> 0 | Some w \<Rightarrow> f w) =
     sum_list (map (\<lambda>e. f (snd e)) m) + (f v :: nat)"
proof (induction k v m rule: bt_insert.induct)
  case (2 k v k' v' m)
  have "map_of m k = None" if "k < k' \<or> k = k'"
    using 2 that by (auto simp: bt_wf_Cons map_of_eq_None_iff)
  then show ?case using 2 by (auto simp: bt_wf_Cons bt_get_def split: option.splits)
qed (simp add: bt_get_def)

lemma bt_length_insert:
  "bt_wf m \<Longrightarrow> length (bt_insert k v m) = length m + (if bt_get m k = None then 1 else 0)"
  using bt_sum_insert [where f = "\<lambda>_. 1" and m = m and k = k and v = v]
  by (auto simp: sum_list_triv split: option.splits)

lemma bt_insert_values:
  "bt_wf m \<Longrightarrow> (\<forall>e \<in> set m. P (fst e) (snd e)) \<Longrightarrow> P k v \<Longrightarrow> \<forall>e \<in> set (bt_insert k v m). P (fst e) (snd e)"
  by (auto simp: set_bt_insert)

end
