(* ===== verification/Cron_Cache.thy ===== *)
theory Cron_Cache
  imports Wire_Validate Ordered_Map
begin

text \<open>
  The client's memory-only view of the remote schedulers (\<open>crates/gregg/src/cron.rs\<close>): per system
  the capability, the latest summary, the last error and the retained records of every job, and the
  fleet-wide cache with its per-job depth and global record ceiling.

  The lemmas show that the bounds and the record count are kept by every operation, that repeated
  documents add nothing, that successive windows of a remote ring accumulate to the newest records
  of what was observed, and what the global eviction drops.
\<close>

section \<open>State\<close>

definition DEFAULT_DISPLAY_HISTORY :: nat where "DEFAULT_DISPLAY_HISTORY = 5"

definition MAX_DISPLAY_HISTORY :: nat where "MAX_DISPLAY_HISTORY = 20"

definition DEFAULT_CACHE_HISTORY :: nat where "DEFAULT_CACHE_HISTORY = 25"

definition MAX_CACHE_HISTORY :: nat where "MAX_CACHE_HISTORY = 50"

definition MAX_TOTAL_CRON_RECORDS :: nat where "MAX_TOTAL_CRON_RECORDS = 4096"

definition MAX_CRON_JOBS_PER_SYSTEM :: nat where "MAX_CRON_JOBS_PER_SYSTEM = 64"

datatype CronCapability = Unknown | Unsupported | Supported

datatype CronFetchError = Transport rstr | BodyTooLarge | Invalid rstr | Incoherent rstr

record CronRenderedState =
  cd_capability :: CronCapability
  cd_identity :: "(SchedulerEpochV2 \<times> nat) option"
  cd_jobs :: "SchedulerJobV2 list option"
  cd_last_error :: "CronFetchError option"

record RecordId =
  ri_started_at_unix_ms :: nat
  ri_nonce :: "64 word"
  ri_sequence :: nat

record CronRecord =
  cr_epoch :: SchedulerEpochV2
  cr_record :: SchedulerRunRecordV2

definition identity :: "CronRecord \<Rightarrow> RecordId" where
  "identity r = \<lparr>ri_started_at_unix_ms = ep_started_at_unix_ms (cr_epoch r),
     ri_nonce = ep_nonce (cr_epoch r), ri_sequence = rr_sequence (cr_record r)\<rparr>"

record CronJobCache =
  cj_records :: "CronRecord list"

definition job_cache_empty :: CronJobCache where
  "job_cache_empty = \<lparr>cj_records = []\<rparr>"

definition job_contains :: "CronJobCache \<Rightarrow> RecordId \<Rightarrow> bool" where
  "job_contains job rid \<longleftrightarrow> list_ex (\<lambda>r. identity r = rid) (cj_records job)"

record CronSystemState =
  cs_capability :: CronCapability
  cs_summary :: "SchedulerSummaryV2 option"
  cs_epoch :: "SchedulerEpochV2 option"
  cs_history_revision :: "nat option"
  cs_last_attempt_at_unix_ms :: "nat option"
  cs_last_success_at_unix_ms :: "nat option"
  cs_last_error :: "CronFetchError option"
  cs_jobs :: "(rstr, CronJobCache) btree"

definition system_unknown :: CronSystemState where
  "system_unknown = \<lparr>cs_capability = Unknown, cs_summary = None, cs_epoch = None,
     cs_history_revision = None, cs_last_attempt_at_unix_ms = None, cs_last_success_at_unix_ms = None,
     cs_last_error = None, cs_jobs = []\<rparr>"

section \<open>One system\<close>

definition apply_summary :: "SchedulerSummaryV2 \<Rightarrow> nat \<Rightarrow> CronSystemState \<Rightarrow> CronSystemState" where
  "apply_summary summary now s =
     s\<lparr>cs_capability := Supported, cs_last_attempt_at_unix_ms := Some now,
       cs_last_success_at_unix_ms := Some now, cs_last_error := None, cs_summary := Some summary\<rparr>"

definition rendered_state :: "CronSystemState \<Rightarrow> CronRenderedState" where
  "rendered_state s =
     \<lparr>cd_capability = cs_capability s,
      cd_identity = map_option (\<lambda>m. (sm_epoch m, sm_history_revision m)) (cs_summary s),
      cd_jobs = map_option sm_jobs (cs_summary s), cd_last_error = cs_last_error s\<rparr>"

definition mark_unsupported :: "CronSystemState \<Rightarrow> CronSystemState" where
  "mark_unsupported s = s\<lparr>cs_capability := Unsupported, cs_last_error := None, cs_summary := None\<rparr>"

definition mark_failed :: "CronFetchError \<Rightarrow> nat \<Rightarrow> CronSystemState \<Rightarrow> CronSystemState" where
  "mark_failed err now s = s\<lparr>cs_last_error := Some err, cs_last_attempt_at_unix_ms := Some now\<rparr>"

definition needs_history :: "SchedulerSummaryV2 \<Rightarrow> CronSystemState \<Rightarrow> bool" where
  "needs_history summary s =
     (if cs_capability s \<noteq> Supported then True
      else if cs_history_revision s \<noteq> Some (sm_history_revision summary) then True
      else cs_epoch s \<noteq> Some (sm_epoch summary))"

text \<open>The inner loop of \<open>apply_history\<close>: the entry and whether anything was added.\<close>

fun merge_records ::
  "SchedulerEpochV2 \<Rightarrow> SchedulerRunRecordV2 list \<Rightarrow> CronJobCache \<times> bool \<Rightarrow> CronJobCache \<times> bool" where
  "merge_records epoch [] (job, added) = (job, added)"
| "merge_records epoch (r # rs) (job, added) =
     (let candidate = \<lparr>cr_epoch = epoch, cr_record = r\<rparr> in
      if job_contains job (identity candidate) then merge_records epoch rs (job, added)
      else merge_records epoch rs (job\<lparr>cj_records := cj_records job @ [candidate]\<rparr>, True))"

definition depth_evict :: "nat \<Rightarrow> CronJobCache \<Rightarrow> CronJobCache" where
  "depth_evict per_job job =
     (if length (cj_records job) > per_job
      then let excess = length (cj_records job) - per_job in job\<lparr>cj_records := drop excess (cj_records job)\<rparr>
      else job)"

definition merge_job ::
  "SchedulerEpochV2 \<Rightarrow> nat \<Rightarrow> SchedulerJobHistoryV2 \<Rightarrow> (rstr, CronJobCache) btree \<times> bool \<Rightarrow>
   (rstr, CronJobCache) btree \<times> bool" where
  "merge_job epoch per_job job jobs_added =
     (case jobs_added of (jobs, added) \<Rightarrow>
        if jh_name job = [] \<or> str_len (jh_name job) > MAX_SCHEDULER_JOB_NAME_BYTES then (jobs, added)
        else
          let entry = bt_get_or job_cache_empty jobs (jh_name job) in
          case merge_records epoch (jh_records job) (entry, added) of
            (entry, added) \<Rightarrow> (bt_insert (jh_name job) (depth_evict per_job entry) jobs, added))"

definition evict_stale_jobs :: "CronSystemState \<Rightarrow> CronSystemState" where
  "evict_stale_jobs s =
     (case cs_summary s of
        None \<Rightarrow> s
      | Some summary \<Rightarrow>
          let live = map jv_name (sm_jobs summary);
              all_live = list_all (\<lambda>e. fst e \<in> set live) (cs_jobs s);
              jobs = (if \<not> all_live then bt_retain (\<lambda>name. name \<in> set live) (cs_jobs s) else cs_jobs s)
          in s\<lparr>cs_jobs := pop_front_while MAX_CRON_JOBS_PER_SYSTEM jobs\<rparr>)"

definition system_apply_history :: "SchedulerHistoryV2 \<Rightarrow> nat \<Rightarrow> CronSystemState \<Rightarrow> bool \<times> CronSystemState" where
  "system_apply_history history per_job s =
     (let epoch = hi_epoch history;
          s = s\<lparr>cs_epoch := Some epoch, cs_history_revision := Some (hi_history_revision history)\<rparr>
      in case fold (merge_job epoch per_job) (hi_jobs history) (cs_jobs s, False) of
           (jobs, added) \<Rightarrow> (added, evict_stale_jobs (s\<lparr>cs_jobs := jobs\<rparr>)))"

definition job_records :: "CronSystemState \<Rightarrow> rstr \<Rightarrow> CronRecord list" where
  "job_records s name = (case bt_get (cs_jobs s) name of None \<Rightarrow> [] | Some job \<Rightarrow> cj_records job)"

definition recent :: "CronSystemState \<Rightarrow> rstr \<Rightarrow> nat \<Rightarrow> CronRecord list" where
  "recent s name depth =
     (let recs = job_records s name in
      if depth \<ge> length recs then recs else drop (length recs - depth) recs)"

section \<open>The fleet-wide cache\<close>

record CronCache =
  ca_per_job :: nat
  ca_total_cap :: nat
  ca_total :: nat
  ca_systems :: "(rstr, CronSystemState) btree"

definition clamp :: "nat \<Rightarrow> nat \<Rightarrow> nat \<Rightarrow> nat" where
  "clamp lo hi n = (if n < lo then lo else if n > hi then hi else n)"

definition cache_new :: "nat \<Rightarrow> nat \<Rightarrow> CronCache" where
  "cache_new per_job total_cap =
     \<lparr>ca_per_job = clamp 1 MAX_CACHE_HISTORY per_job,
      ca_total_cap = clamp 1 MAX_TOTAL_CRON_RECORDS total_cap, ca_total = 0, ca_systems = []\<rparr>"

definition cache_default :: CronCache where
  "cache_default = cache_new DEFAULT_CACHE_HISTORY MAX_TOTAL_CRON_RECORDS"

definition system_count :: "CronCache \<Rightarrow> nat" where
  "system_count c = length (ca_systems c)"

text \<open>\<open>system_mut\<close> followed by an update of the system it returns.\<close>

definition system_update :: "rstr \<Rightarrow> (CronSystemState \<Rightarrow> CronSystemState) \<Rightarrow> CronCache \<Rightarrow> CronCache" where
  "system_update sid f c =
     c\<lparr>ca_systems := bt_insert sid (f (bt_get_or system_unknown (ca_systems c) sid)) (ca_systems c)\<rparr>"

definition system_records :: "CronSystemState \<Rightarrow> nat" where
  "system_records s = sum_list (map (\<lambda>e. length (cj_records (snd e))) (cs_jobs s))"

definition recount :: "CronCache \<Rightarrow> CronCache" where
  "recount c = c\<lparr>ca_total := sum_list (map (\<lambda>e. system_records (snd e)) (ca_systems c))\<rparr>"

definition reset_system :: "rstr \<Rightarrow> CronCache \<Rightarrow> bool \<times> CronCache" where
  "reset_system sid c =
     (let removed = (bt_get (ca_systems c) sid \<noteq> None);
          c = c\<lparr>ca_systems := bt_remove sid (ca_systems c)\<rparr>
      in (removed, if removed then recount c else c))"

definition retain_systems :: "rstr list \<Rightarrow> CronCache \<Rightarrow> CronCache" where
  "retain_systems live c =
     recount (c\<lparr>ca_systems := bt_retain (\<lambda>sid. list_ex (\<lambda>kept. kept = sid) live) (ca_systems c)\<rparr>)"

definition cache_apply_summary :: "rstr \<Rightarrow> SchedulerSummaryV2 \<Rightarrow> nat \<Rightarrow> CronCache \<Rightarrow> CronCache" where
  "cache_apply_summary sid summary now c = system_update sid (apply_summary summary now) c"

text \<open>
  \<open>oldest_record\<close>: the least of \<open>(finished_unix_ms, system, job)\<close> over the first record of every
  job, visited in map order.
\<close>

definition oldest_step :: "nat \<times> rstr \<times> rstr \<Rightarrow> (nat \<times> rstr \<times> rstr) option \<Rightarrow> (nat \<times> rstr \<times> rstr) option" where
  "oldest_step candidate best =
     Some (case best of None \<Rightarrow> candidate
           | Some current \<Rightarrow> if current \<le> candidate then current else candidate)"

definition head_candidates :: "CronCache \<Rightarrow> (nat \<times> rstr \<times> rstr) list" where
  "head_candidates c =
     concat (map (\<lambda>(sid, s). concat (map (\<lambda>(name, job).
         case cj_records job of
           [] \<Rightarrow> []
         | r # _ \<Rightarrow> [(rr_finished_unix_ms (cr_record r), sid, name)]) (cs_jobs s))) (ca_systems c))"

definition oldest_record :: "CronCache \<Rightarrow> (nat \<times> rstr \<times> rstr) option" where
  "oldest_record c = fold oldest_step (head_candidates c) None"

definition remove_head :: "rstr \<Rightarrow> rstr \<Rightarrow> CronCache \<Rightarrow> CronCache" where
  "remove_head sid name c =
     (case bt_get (ca_systems c) sid of
        None \<Rightarrow> c
      | Some s \<Rightarrow>
          (case bt_get (cs_jobs s) name of
             None \<Rightarrow> c
           | Some job \<Rightarrow>
               c\<lparr>ca_systems := bt_insert sid
                   (s\<lparr>cs_jobs := bt_insert name (job\<lparr>cj_records := tl (cj_records job)\<rparr>) (cs_jobs s)\<rparr>)
                   (ca_systems c)\<rparr>))"

function enforce_total :: "CronCache \<Rightarrow> CronCache" where
  "enforce_total c =
     (if ca_total c > ca_total_cap c then
        (case oldest_record c of
           None \<Rightarrow> recount c
         | Some (_, sid, name) \<Rightarrow> enforce_total ((remove_head sid name c)\<lparr>ca_total := ca_total c - 1\<rparr>))
      else c)"
  by pat_completeness auto

termination enforce_total
  by (relation "measure ca_total") auto

declare enforce_total.simps [simp del]

definition cache_apply_history :: "rstr \<Rightarrow> SchedulerHistoryV2 \<Rightarrow> CronCache \<Rightarrow> bool \<times> CronCache" where
  "cache_apply_history sid history c =
     (case system_apply_history history (ca_per_job c) (bt_get_or system_unknown (ca_systems c) sid) of
        (added, s) \<Rightarrow>
          (added, enforce_total (recount (c\<lparr>ca_systems := bt_insert sid s (ca_systems c)\<rparr>))))"


section \<open>Merging one job\<close>

text \<open>The records a merge appends: those whose identity was not seen before.\<close>

fun fresh_records :: "SchedulerEpochV2 \<Rightarrow> SchedulerRunRecordV2 list \<Rightarrow> RecordId set \<Rightarrow> CronRecord list" where
  "fresh_records epoch [] seen = []"
| "fresh_records epoch (r # rs) seen =
     (let c = \<lparr>cr_epoch = epoch, cr_record = r\<rparr> in
      if identity c \<in> seen then fresh_records epoch rs seen
      else c # fresh_records epoch rs (insert (identity c) seen))"

abbreviation job_ids :: "CronJobCache \<Rightarrow> RecordId set" where
  "job_ids job \<equiv> identity ` set (cj_records job)"

lemma job_contains_iff: "job_contains job i \<longleftrightarrow> i \<in> job_ids job"
  by (auto simp: job_contains_def list_ex_iff)

lemma merge_records_fresh:
  "merge_records epoch rs (job, added) =
     (job\<lparr>cj_records := cj_records job @ fresh_records epoch rs (job_ids job)\<rparr>,
      added \<or> fresh_records epoch rs (job_ids job) \<noteq> [])"
proof (induction rs arbitrary: job added)
  case (Cons r rs)
  show ?case
    by (simp add: Cons.IH Let_def job_contains_iff)
qed simp

lemma fresh_records_ids:
  "distinct (map identity (fresh_records epoch rs seen)) \<and> identity ` set (fresh_records epoch rs seen) \<inter> seen = {}"
  by (induction rs arbitrary: seen) (auto simp: Let_def)

lemma fresh_records_none:
  "(\<forall>r \<in> set rs. identity \<lparr>cr_epoch = epoch, cr_record = r\<rparr> \<in> seen) \<Longrightarrow> fresh_records epoch rs seen = []"
  by (induction rs) (simp_all add: Let_def)

lemma fresh_records_append_old:
  "(\<forall>r \<in> set old. identity \<lparr>cr_epoch = epoch, cr_record = r\<rparr> \<in> seen) \<Longrightarrow>
   fresh_records epoch (old @ rs) seen = fresh_records epoch rs seen"
  by (induction old) (simp_all add: Let_def)

lemma fresh_records_all:
  "distinct (map rr_sequence rs) \<Longrightarrow>
   (\<forall>r \<in> set rs. identity \<lparr>cr_epoch = epoch, cr_record = r\<rparr> \<notin> seen) \<Longrightarrow>
   fresh_records epoch rs seen = map (\<lambda>r. \<lparr>cr_epoch = epoch, cr_record = r\<rparr>) rs"
proof (induction rs arbitrary: seen)
  case (Cons a rs)
  let ?i = "\<lambda>r. identity \<lparr>cr_epoch = epoch, cr_record = r\<rparr>"
  have "\<forall>r \<in> set rs. ?i r \<notin> insert (?i a) seen"
    using Cons.prems by (auto simp: identity_def image_iff)
  then show ?case using Cons by (simp add: Let_def)
qed simp

lemma depth_evict_records: "cj_records (depth_evict p job) = take_last p (cj_records job)"
  by (simp add: depth_evict_def Let_def take_last_def)

section \<open>Invariants of a system\<close>

definition job_inv :: "nat \<Rightarrow> rstr \<Rightarrow> CronJobCache \<Rightarrow> bool" where
  "job_inv per_job name job \<longleftrightarrow> name_ok name \<and> length (cj_records job) \<le> per_job \<and>
     distinct (map identity (cj_records job))"

definition system_inv :: "nat \<Rightarrow> CronSystemState \<Rightarrow> bool" where
  "system_inv per_job s \<longleftrightarrow> bt_wf (cs_jobs s) \<and> (\<forall>e \<in> set (cs_jobs s). job_inv per_job (fst e) (snd e))"

lemma job_inv_merge:
  assumes "job_inv per_job name job \<or> job = job_cache_empty" "name_ok name"
  shows "job_inv per_job name (depth_evict per_job (fst (merge_records epoch rs (job, added))))"
proof -
  have "distinct (map identity (cj_records job @ fresh_records epoch rs (job_ids job)))"
    using assms(1) fresh_records_ids [of epoch rs "job_ids job"]
    by (auto simp: job_inv_def job_cache_empty_def)
  then show ?thesis
    using assms(2) by (simp add: job_inv_def merge_records_fresh depth_evict_records map_take_last distinct_take_last)
qed

lemma merge_job_inv:
  assumes "bt_wf jobs" "\<forall>e \<in> set jobs. job_inv per_job (fst e) (snd e)"
  shows "bt_wf (fst (merge_job epoch per_job job (jobs, added))) \<and>
    (\<forall>e \<in> set (fst (merge_job epoch per_job job (jobs, added))). job_inv per_job (fst e) (snd e))"
proof (cases "jh_name job = [] \<or> str_len (jh_name job) > MAX_SCHEDULER_JOB_NAME_BYTES")
  case True
  then show ?thesis using assms by (simp add: merge_job_def)
next
  case False
  then have "name_ok (jh_name job)" by (simp add: name_ok_def)
  moreover have "job_inv per_job (jh_name job) (bt_get_or job_cache_empty jobs (jh_name job)) \<or>
      bt_get_or job_cache_empty jobs (jh_name job) = job_cache_empty"
    using assms(2) by (fastforce simp: bt_get_or_def dest!: bt_get_SomeD split: option.splits)
  ultimately have "job_inv per_job (jh_name job) (depth_evict per_job (fst (merge_records epoch (jh_records job)
      (bt_get_or job_cache_empty jobs (jh_name job), added))))"
    by (rule job_inv_merge [rotated])
  moreover have "fst (merge_job epoch per_job job (jobs, added)) =
      bt_insert (jh_name job) (depth_evict per_job (fst (merge_records epoch (jh_records job)
        (bt_get_or job_cache_empty jobs (jh_name job), added)))) jobs"
    using False by (simp add: merge_job_def Let_def split: prod.splits)
  ultimately show ?thesis
    using bt_insert_values [OF assms] assms(1) by simp
qed

lemma fold_merge_job_inv:
  "bt_wf jobs \<Longrightarrow> \<forall>e \<in> set jobs. job_inv per_job (fst e) (snd e) \<Longrightarrow>
   bt_wf (fst (fold (merge_job epoch per_job) hs (jobs, added))) \<and>
   (\<forall>e \<in> set (fst (fold (merge_job epoch per_job) hs (jobs, added))). job_inv per_job (fst e) (snd e))"
proof (induction hs arbitrary: jobs added)
  case (Cons h hs)
  obtain jobs' added' where eq: "merge_job epoch per_job h (jobs, added) = (jobs', added')" by fastforce
  have "bt_wf jobs'" "\<forall>e \<in> set jobs'. job_inv per_job (fst e) (snd e)"
    using merge_job_inv [OF Cons.prems, of epoch h added] eq by simp_all
  from Cons.IH [OF this] eq show ?case by simp
qed simp

lemma evict_stale_jobs_inv:
  assumes "system_inv per_job s"
  shows "system_inv per_job (evict_stale_jobs s)"
proof -
  have "bt_wf (take_last n m)" if "bt_wf m" for n and m :: "(rstr, CronJobCache) btree"
    using that by (simp add: bt_wf_def map_take_last sorted_wrt_take_last)
  then show ?thesis
    using assms set_take_last
    by (fastforce simp: system_inv_def evict_stale_jobs_def Let_def pop_front_while_eq bt_retain_def [abs_def]
        bt_wf_def sorted_wrt_map sorted_wrt_filter split: option.splits)
qed

lemma evict_stale_jobs_bound:
  "cs_summary s \<noteq> None \<Longrightarrow> length (cs_jobs (evict_stale_jobs s)) \<le> MAX_CRON_JOBS_PER_SYSTEM"
  by (auto simp: evict_stale_jobs_def Let_def pop_front_while_eq)

lemma system_apply_history_inv:
  "system_inv per_job s \<Longrightarrow> system_inv per_job (snd (system_apply_history h per_job s))"
  using fold_merge_job_inv [of "cs_jobs s" per_job "hi_epoch h" "hi_jobs h" False]
  by (auto simp: system_apply_history_def Let_def system_inv_def
      intro!: evict_stale_jobs_inv [unfolded system_inv_def] split: prod.splits)

section \<open>Invariants of the cache\<close>

definition cache_count :: "CronCache \<Rightarrow> nat" where
  "cache_count c = sum_list (map (\<lambda>e. system_records (snd e)) (ca_systems c))"

definition cache_shape :: "CronCache \<Rightarrow> bool" where
  "cache_shape c \<longleftrightarrow> bt_wf (ca_systems c) \<and> (\<forall>e \<in> set (ca_systems c). system_inv (ca_per_job c) (snd e))"

definition cache_inv :: "CronCache \<Rightarrow> bool" where
  "cache_inv c \<longleftrightarrow> cache_shape c \<and> ca_total c = cache_count c \<and> ca_total c \<le> ca_total_cap c \<and>
     1 \<le> ca_per_job c \<and> ca_per_job c \<le> MAX_CACHE_HISTORY \<and>
     1 \<le> ca_total_cap c \<and> ca_total_cap c \<le> MAX_TOTAL_CRON_RECORDS"

lemma system_unknown_inv [simp]: "system_inv p system_unknown" "system_records system_unknown = 0"
  by (simp_all add: system_inv_def system_unknown_def system_records_def)

lemma recount_simps [simp]:
  "ca_total (recount c) = cache_count c" "ca_systems (recount c) = ca_systems c"
  "ca_per_job (recount c) = ca_per_job c" "ca_total_cap (recount c) = ca_total_cap c"
  "cache_count (recount c) = cache_count c" "cache_shape (recount c) = cache_shape c"
  by (simp_all add: recount_def cache_count_def cache_shape_def)

lemma cache_shape_system:
  "cache_shape c \<Longrightarrow> system_inv (ca_per_job c) (bt_get_or system_unknown (ca_systems c) sid)"
  by (fastforce simp: cache_shape_def bt_get_or_def dest!: bt_get_SomeD split: option.splits)

lemma cache_shape_insert:
  "cache_shape c \<Longrightarrow> system_inv (ca_per_job c) s \<Longrightarrow> cache_shape (c\<lparr>ca_systems := bt_insert sid s (ca_systems c)\<rparr>)"
  using bt_insert_values [of "ca_systems c" "\<lambda>_. system_inv (ca_per_job c)" sid s]
  by (simp add: cache_shape_def)

lemma cache_count_insert:
  "cache_shape c \<Longrightarrow>
   cache_count (c\<lparr>ca_systems := bt_insert sid s (ca_systems c)\<rparr>) +
     system_records (bt_get_or system_unknown (ca_systems c) sid) = cache_count c + system_records s"
  using bt_sum_insert [of "ca_systems c" system_records sid s]
  by (simp add: cache_count_def cache_shape_def bt_get_or_def split: option.splits)

text \<open>An update of one system that keeps its records keeps the cache invariant.\<close>

lemma cache_inv_system_update:
  assumes "cache_inv c" and "\<And>s. cs_jobs (f s) = cs_jobs s"
  shows "cache_inv (system_update sid f c)"
proof -
  let ?s = "bt_get_or system_unknown (ca_systems c) sid"
  have rec: "system_records (f ?s) = system_records ?s" using assms(2) by (simp add: system_records_def)
  have shape: "cache_shape c" using assms(1) by (simp add: cache_inv_def)
  have "system_inv (ca_per_job c) (f ?s)"
    using cache_shape_system [OF shape, of sid] assms(2) by (simp add: system_inv_def)
  then show ?thesis
    using assms(1) cache_shape_insert [OF shape, of "f ?s" sid] cache_count_insert [OF shape, of sid "f ?s"] rec
    by (simp add: cache_inv_def system_update_def)
qed

lemma cache_inv_filter:
  assumes "cache_inv c" and "set m \<subseteq> set (ca_systems c)" and "bt_wf m"
  shows "cache_inv (recount (c\<lparr>ca_systems := m\<rparr>))"
proof -
  have "sum_list (map (\<lambda>e. system_records (snd e)) m) \<le> sum_list (map (\<lambda>e. system_records (snd e)) (ca_systems c))"
  proof -
    have "distinct m" "distinct (ca_systems c)"
      using assms bt_wf_distinct by (auto simp: cache_inv_def cache_shape_def distinct_map)
    then show ?thesis using assms(2) by (simp add: sum_list_distinct_conv_sum_set sum_mono2)
  qed
  moreover have "cache_shape (c\<lparr>ca_systems := m\<rparr>)"
    using assms by (auto simp: cache_inv_def cache_shape_def)
  ultimately show ?thesis using assms(1) by (simp add: cache_inv_def cache_count_def)
qed

section \<open>Eviction\<close>

lemma head_candidates_iff:
  "(f, sid, name) \<in> set (head_candidates c) \<longleftrightarrow>
     (\<exists>s job r rs. (sid, s) \<in> set (ca_systems c) \<and> (name, job) \<in> set (cs_jobs s) \<and>
        cj_records job = r # rs \<and> f = rr_finished_unix_ms (cr_record r))"
proof
  assume "(f, sid, name) \<in> set (head_candidates c)"
  then show "\<exists>s job r rs. (sid, s) \<in> set (ca_systems c) \<and> (name, job) \<in> set (cs_jobs s) \<and>
      cj_records job = r # rs \<and> f = rr_finished_unix_ms (cr_record r)"
    by (auto simp: head_candidates_def set_concat split: list.splits) (metis | blast)+
next
  assume "\<exists>s job r rs. (sid, s) \<in> set (ca_systems c) \<and> (name, job) \<in> set (cs_jobs s) \<and>
      cj_records job = r # rs \<and> f = rr_finished_unix_ms (cr_record r)"
  then obtain s job r rs where v: "(sid, s) \<in> set (ca_systems c)" "(name, job) \<in> set (cs_jobs s)"
    "cj_records job = r # rs" "f = rr_finished_unix_ms (cr_record r)" by blast
  have "(f, sid, name) \<in> set (case cj_records job of [] \<Rightarrow> []
      | r # _ \<Rightarrow> [(rr_finished_unix_ms (cr_record r), sid, name)])" using v by simp
  then show "(f, sid, name) \<in> set (head_candidates c)"
    unfolding head_candidates_def set_concat set_map using v(1,2) by (force simp: split_beta)
qed

lemma fold_oldest_step:
  "fold oldest_step xs (Some b) = Some (fold min xs b)"
  by (induction xs arbitrary: b) (auto simp: oldest_step_def min_def split: if_splits)

lemma fold_min_mem: "fold min xs (b :: 'a::linorder) \<in> insert b (set xs) \<and> (\<forall>x \<in> insert b (set xs). fold min xs b \<le> x)"
proof (induction xs arbitrary: b)
  case (Cons x xs)
  from Cons.IH [of "min x b"] show ?case by (cases "x \<le> b") (auto simp: min_absorb1 min_absorb2)
qed simp

lemma oldest_record_None: "oldest_record c = None \<longleftrightarrow> head_candidates c = []"
  by (cases "head_candidates c") (simp_all add: oldest_record_def fold_oldest_step oldest_step_def)

lemma oldest_record_Some:
  "oldest_record c = Some v \<Longrightarrow> v \<in> set (head_candidates c) \<and> (\<forall>w \<in> set (head_candidates c). v \<le> w)"
proof (cases "head_candidates c")
  case (Cons x xs)
  moreover assume "oldest_record c = Some v"
  ultimately have "v = fold min xs x" by (simp add: oldest_record_def oldest_step_def fold_oldest_step)
  then show ?thesis using fold_min_mem [of xs x] Cons by auto
qed (simp add: oldest_record_def)

lemma no_candidates_count: "head_candidates c = [] \<Longrightarrow> cache_count c = 0"
proof -
  assume "head_candidates c = []"
  then have none: "\<And>sid s name job. (sid, s) \<in> set (ca_systems c) \<Longrightarrow> (name, job) \<in> set (cs_jobs s) \<Longrightarrow> cj_records job = []"
    using head_candidates_iff [of _ _ _ c] by (metis empty_iff empty_set list.exhaust)
  have "system_records s = 0" if "(sid, s) \<in> set (ca_systems c)" for sid s
    using none [OF that] by (auto simp: system_records_def)
  then show ?thesis by (auto simp: cache_count_def)
qed

lemma remove_head_eq:
  assumes "cache_shape c" and "(sid, s) \<in> set (ca_systems c)" and "(name, job) \<in> set (cs_jobs s)"
  shows "remove_head sid name c = c\<lparr>ca_systems := bt_insert sid
      (s\<lparr>cs_jobs := bt_insert name (job\<lparr>cj_records := tl (cj_records job)\<rparr>) (cs_jobs s)\<rparr>) (ca_systems c)\<rparr>"
    and "bt_get (ca_systems c) sid = Some s" and "bt_get (cs_jobs s) name = Some job" and "system_inv (ca_per_job c) s"
proof -
  show inv: "system_inv (ca_per_job c) s" using assms by (fastforce simp: cache_shape_def)
  show s: "bt_get (ca_systems c) sid = Some s" using assms(1,2) by (simp add: cache_shape_def bt_get_SomeI)
  show job: "bt_get (cs_jobs s) name = Some job" using inv assms(3) by (simp add: system_inv_def bt_get_SomeI)
  show "remove_head sid name c = c\<lparr>ca_systems := bt_insert sid
      (s\<lparr>cs_jobs := bt_insert name (job\<lparr>cj_records := tl (cj_records job)\<rparr>) (cs_jobs s)\<rparr>) (ca_systems c)\<rparr>"
    by (simp add: remove_head_def s job)
qed

lemma remove_head_shape:
  assumes "cache_shape c" and "(f, sid, name) \<in> set (head_candidates c)"
  shows "cache_shape (remove_head sid name c)" "Suc (cache_count (remove_head sid name c)) = cache_count c"
proof -
  obtain s job r rs where v: "(sid, s) \<in> set (ca_systems c)" "(name, job) \<in> set (cs_jobs s)" "cj_records job = r # rs"
    using assms(2) by (auto simp: head_candidates_iff)
  note R = remove_head_eq [OF assms(1) v(1,2)]
  let ?job = "job\<lparr>cj_records := tl (cj_records job)\<rparr>"
  let ?s = "s\<lparr>cs_jobs := bt_insert name ?job (cs_jobs s)\<rparr>"
  have wf: "bt_wf (cs_jobs s)" "\<forall>e \<in> set (cs_jobs s). job_inv (ca_per_job c) (fst e) (snd e)"
    using R(4) by (simp_all add: system_inv_def)
  have "job_inv (ca_per_job c) name job" using wf(2) v(2) by fastforce
  then have "job_inv (ca_per_job c) name ?job" by (simp add: job_inv_def v(3))
  then have "system_inv (ca_per_job c) ?s"
    using bt_insert_values [OF wf, of name ?job] wf(1) by (simp add: system_inv_def)
  then show "cache_shape (remove_head sid name c)"
    unfolding R(1) by (rule cache_shape_insert [OF assms(1)])
  have "Suc (system_records ?s) = system_records s"
    using bt_sum_insert [OF wf(1), of "\<lambda>j. length (cj_records j)" name ?job] R(3) v(3)
    by (simp add: system_records_def)
  then show "Suc (cache_count (remove_head sid name c)) = cache_count c"
    unfolding R(1) using cache_count_insert [OF assms(1), of sid ?s] R(2) by (simp add: bt_get_or_def)
qed

lemma remove_head_frame [simp]:
  "ca_per_job (remove_head sid name c) = ca_per_job c" "ca_total_cap (remove_head sid name c) = ca_total_cap c"
  by (simp_all add: remove_head_def split: option.splits)


lemma enforce_step:
  assumes "cache_shape c" "ca_total c = cache_count c" "ca_total c > ca_total_cap c"
  obtains f sid name where "oldest_record c = Some (f, sid, name)"
    "(f, sid, name) \<in> set (head_candidates c)" "\<forall>w \<in> set (head_candidates c). (f, sid, name) \<le> w"
    "enforce_total c = enforce_total ((remove_head sid name c)\<lparr>ca_total := ca_total c - 1\<rparr>)"
    "cache_shape ((remove_head sid name c)\<lparr>ca_total := ca_total c - 1\<rparr>)"
    "cache_count ((remove_head sid name c)\<lparr>ca_total := ca_total c - 1\<rparr>) = ca_total c - 1"
proof (cases "oldest_record c")
  case None
  then have "cache_count c = 0" by (simp add: oldest_record_None no_candidates_count)
  then show ?thesis using assms by simp
next
  case (Some v)
  obtain f sid name where v: "v = (f, sid, name)" by (cases v)
  note m = oldest_record_Some [OF Some [unfolded v]]
  have "cache_shape ((remove_head sid name c)\<lparr>ca_total := ca_total c - 1\<rparr>)"
    "cache_count ((remove_head sid name c)\<lparr>ca_total := ca_total c - 1\<rparr>) = ca_total c - 1"
    using remove_head_shape [OF assms(1) conjunct1 [OF m]] assms(2) by (simp_all add: cache_shape_def cache_count_def)
  with Some v m assms(3) that show ?thesis by (simp add: enforce_total.simps [of c])
qed

text \<open>Rule induction for the eviction loop on a consistent cache.\<close>

lemma enforce_total_induct [consumes 2, case_names stop step]:
  assumes "cache_shape c" "ca_total c = cache_count c"
    and stop: "\<And>c. cache_shape c \<Longrightarrow> ca_total c = cache_count c \<Longrightarrow> ca_total c \<le> ca_total_cap c \<Longrightarrow> P c c"
    and step: "\<And>c f sid name r. cache_shape c \<Longrightarrow> ca_total c = cache_count c \<Longrightarrow> ca_total c > ca_total_cap c \<Longrightarrow>
       (f, sid, name) \<in> set (head_candidates c) \<Longrightarrow> \<forall>w \<in> set (head_candidates c). (f, sid, name) \<le> w \<Longrightarrow>
       P ((remove_head sid name c)\<lparr>ca_total := ca_total c - 1\<rparr>) r \<Longrightarrow> P c r"
  shows "P c (enforce_total c)"
  using assms(1,2)
proof (induction "ca_total c" arbitrary: c rule: less_induct)
  case (less c)
  show ?case
  proof (cases "ca_total c > ca_total_cap c")
    case False
    then show ?thesis using stop [OF less.prems] by (simp add: enforce_total.simps [of c])
  next
    case True
    show ?thesis
    proof (rule enforce_step [OF less.prems True])
      fix f sid name
      let ?n = "(remove_head sid name c)\<lparr>ca_total := ca_total c - 1\<rparr>"
      assume s: "(f, sid, name) \<in> set (head_candidates c)" "\<forall>w \<in> set (head_candidates c). (f, sid, name) \<le> w"
        "enforce_total c = enforce_total ?n" "cache_shape ?n" "cache_count ?n = ca_total c - 1"
      have "ca_total ?n < ca_total c" "ca_total ?n = cache_count ?n" using True s(5) by simp_all
      from less.hyps [OF this(1) s(4) this(2)] show ?thesis
        unfolding s(3) by (rule step [OF less.prems True s(1,2)])
    qed
  qed
qed

lemma enforce_total_inv:
  assumes "cache_shape c" "ca_total c = cache_count c"
  shows "cache_shape (enforce_total c) \<and> ca_total (enforce_total c) = cache_count (enforce_total c) \<and>
    ca_total (enforce_total c) = min (ca_total c) (ca_total_cap c) \<and>
    ca_per_job (enforce_total c) = ca_per_job c \<and> ca_total_cap (enforce_total c) = ca_total_cap c"
  using assms by (induction rule: enforce_total_induct) auto

section \<open>The operations\<close>

datatype cache_op =
    OpSummary rstr SchedulerSummaryV2 nat
  | OpHistory rstr SchedulerHistoryV2
  | OpUnsupported rstr
  | OpFailed rstr CronFetchError nat
  | OpReset rstr
  | OpRetain "rstr list"

fun cache_op_apply :: "cache_op \<Rightarrow> CronCache \<Rightarrow> CronCache" where
  "cache_op_apply (OpSummary sid m now) c = cache_apply_summary sid m now c"
| "cache_op_apply (OpHistory sid h) c = snd (cache_apply_history sid h c)"
| "cache_op_apply (OpUnsupported sid) c = system_update sid mark_unsupported c"
| "cache_op_apply (OpFailed sid e now) c = system_update sid (mark_failed e now) c"
| "cache_op_apply (OpReset sid) c = snd (reset_system sid c)"
| "cache_op_apply (OpRetain live) c = retain_systems live c"

lemma cache_apply_history_inv:
  assumes "cache_inv c"
  shows "cache_inv (snd (cache_apply_history sid h c))"
proof -
  have shape: "cache_shape c" using assms by (simp add: cache_inv_def)
  let ?s = "snd (system_apply_history h (ca_per_job c) (bt_get_or system_unknown (ca_systems c) sid))"
  let ?c = "recount (c\<lparr>ca_systems := bt_insert sid ?s (ca_systems c)\<rparr>)"
  have "cache_shape ?c" using cache_shape_insert [OF shape system_apply_history_inv [OF cache_shape_system [OF shape]]] by simp
  from enforce_total_inv [OF this] assms
  have "cache_inv (enforce_total ?c)" unfolding cache_inv_def by (auto)
  then show ?thesis by (simp add: cache_apply_history_def case_prod_beta)
qed

lemma set_bt_remove: "set (bt_remove k m) = {e \<in> set m. fst e \<noteq> k}"
  by (auto simp: bt_remove_def)

lemma cache_op_apply_inv: "cache_inv c \<Longrightarrow> cache_inv (cache_op_apply op c)"
proof (cases op)
  case (OpReset sid)
  assume "cache_inv c"
  moreover have "bt_remove sid (ca_systems c) = ca_systems c" if "bt_get (ca_systems c) sid = None"
    using that by (force simp: bt_remove_def bt_get_def map_of_eq_None_iff filter_id_conv)
  ultimately show ?thesis
    using cache_inv_filter [of c "bt_remove sid (ca_systems c)"] bt_wf_remove [of "ca_systems c" sid] OpReset
    by (auto simp: reset_system_def Let_def cache_inv_def cache_shape_def set_bt_remove)
next
  case (OpRetain live)
  assume "cache_inv c"
  then show ?thesis
    using cache_inv_filter [of c "bt_retain (\<lambda>sid. list_ex (\<lambda>kept. kept = sid) live) (ca_systems c)"] OpRetain
    by (auto simp: retain_systems_def bt_retain_def [abs_def] cache_inv_def cache_shape_def bt_wf_def sorted_wrt_map sorted_wrt_filter)
qed (simp_all add: cache_apply_summary_def cache_inv_system_update apply_summary_def mark_unsupported_def
    mark_failed_def cache_apply_history_inv)

lemma cache_new_inv: "cache_inv (cache_new p t)"
  by (simp add: cache_inv_def cache_new_def cache_shape_def cache_count_def clamp_def MAX_CACHE_HISTORY_def MAX_TOTAL_CRON_RECORDS_def)


section \<open>What the global eviction drops\<close>

definition cache_records :: "CronCache \<Rightarrow> rstr \<Rightarrow> rstr \<Rightarrow> CronRecord list" where
  "cache_records c sid name = (case bt_get (ca_systems c) sid of None \<Rightarrow> [] | Some s \<Rightarrow> job_records s name)"

abbreviation finished :: "CronRecord \<Rightarrow> nat" where
  "finished r \<equiv> rr_finished_unix_ms (cr_record r)"

lemma cache_records_total [simp]: "cache_records (c\<lparr>ca_total := n\<rparr>) sid name = cache_records c sid name"
  by (simp add: cache_records_def)

lemma remove_head_records:
  assumes "cache_shape c"
  shows "cache_records (remove_head sid name c) sid' name' =
    (if sid' = sid \<and> name' = name then tl (cache_records c sid' name') else cache_records c sid' name')"
  by (auto simp: remove_head_def cache_records_def job_records_def bt_get_insert split: option.splits)

lemma head_candidates_records:
  assumes "cache_shape c"
  shows "(f, sid, name) \<in> set (head_candidates c) \<longleftrightarrow> (\<exists>r rs. cache_records c sid name = r # rs \<and> f = finished r)"
    (is "?L \<longleftrightarrow> ?R")
proof
  assume ?L
  then obtain s job r rs where v: "(sid, s) \<in> set (ca_systems c)" "(name, job) \<in> set (cs_jobs s)"
    "cj_records job = r # rs" "f = finished r" by (auto simp: head_candidates_iff)
  then show ?R using remove_head_eq(2,3) [OF assms v(1,2)] by (simp add: cache_records_def job_records_def)
next
  assume ?R
  then show ?L
    by (fastforce simp: head_candidates_iff cache_records_def job_records_def dest!: bt_get_SomeD split: option.splits)
qed

text \<open>
  \<open>evicted k c c'\<close>: \<open>c'\<close> is \<open>c\<close> without the first \<open>k sid name\<close> records of every job, and every
  record dropped is at most every record kept, compared by finish time, system and job.
\<close>

definition evicted :: "(rstr \<Rightarrow> rstr \<Rightarrow> nat) \<Rightarrow> CronCache \<Rightarrow> CronCache \<Rightarrow> bool" where
  "evicted k c c' \<longleftrightarrow>
     (\<forall>sid name. cache_records c' sid name = drop (k sid name) (cache_records c sid name)) \<and>
     (\<forall>sid name sid' name' r r'. r \<in> set (take (k sid name) (cache_records c sid name)) \<longrightarrow>
        r' \<in> set (cache_records c' sid' name') \<longrightarrow> (finished r, sid, name) \<le> (finished r', sid', name'))"

definition finish_sorted :: "CronCache \<Rightarrow> bool" where
  "finish_sorted c \<longleftrightarrow> (\<forall>sid name. sorted (map finished (cache_records c sid name)))"

lemma candidate_least:
  assumes "cache_shape c" "finish_sorted c" "\<forall>w \<in> set (head_candidates c). (f, sid, name) \<le> w"
    "r' \<in> set (cache_records c sid' name')"
  shows "(f, sid, name) \<le> (finished r', sid', name')"
proof -
  obtain r rs where r: "cache_records c sid' name' = r # rs" using assms(4) by (cases "cache_records c sid' name'") auto
  have "(f, sid, name) \<le> (finished r, sid', name')"
    using assms(1,3) r by (simp add: head_candidates_records Ball_def)
  moreover have "sorted (map finished (r # rs))" using assms(2) r by (metis finish_sorted_def)
  then have "finished r \<le> finished r'" using assms(4) r by auto
  ultimately show ?thesis by auto
qed

lemma evicted_step:
  assumes c: "cache_shape c" "finish_sorted c" and v: "(f, sid, name) \<in> set (head_candidates c)"
    "\<forall>w \<in> set (head_candidates c). (f, sid, name) \<le> w"
    and k: "evicted k (remove_head sid name c) r"
  shows "evicted (\<lambda>s n. if s = sid \<and> n = name then Suc (k s n) else k s n) c r"
proof -
  obtain x xs where x: "cache_records c sid name = x # xs" "f = finished x"
    using v(1) head_candidates_records [OF c(1)] by blast
  have kept: "r' \<in> set (cache_records c s n)" if "r' \<in> set (cache_records r s n)" for r' s n
    using that k by (auto simp: evicted_def remove_head_records [OF c(1)] x dest!: in_set_dropD split: if_splits)
  have least: "(finished x, sid, name) \<le> (finished r', s, n)" if "r' \<in> set (cache_records r s n)" for r' s n
    using candidate_least [OF c v(2) kept [OF that]] by (simp add: x(2))
  show ?thesis
    unfolding evicted_def
  proof (intro conjI allI impI)
    fix s n
    show "cache_records r s n = drop (if s = sid \<and> n = name then Suc (k s n) else k s n) (cache_records c s n)"
      using k by (simp add: evicted_def remove_head_records [OF c(1)] x)
  next
    fix s n s' n' d r'
    assume d: "d \<in> set (take (if s = sid \<and> n = name then Suc (k s n) else k s n) (cache_records c s n))"
      and r': "r' \<in> set (cache_records r s' n')"
    have "d \<in> set (take (k s n) (cache_records (remove_head sid name c) s n)) \<or> d = x \<and> s = sid \<and> n = name"
      using d by (auto simp: remove_head_records [OF c(1)] x split: if_splits)
    then show "(finished d, s, n) \<le> (finished r', s', n')"
      using k r' least [OF r'] unfolding evicted_def by blast
  qed
qed

lemma finish_sorted_remove: "cache_shape c \<Longrightarrow> finish_sorted c \<Longrightarrow> finish_sorted (remove_head sid name c)"
  by (auto simp: finish_sorted_def remove_head_records map_tl sorted_tl)

lemma enforce_total_evicted:
  assumes "cache_shape c" "ca_total c = cache_count c"
  shows "finish_sorted c \<longrightarrow> (\<exists>k. evicted k c (enforce_total c))"
  using assms
proof (induction rule: enforce_total_induct)
  case (stop c)
  show ?case by (auto simp: evicted_def intro!: exI [of _ "\<lambda>_ _. 0"])
next
  case (step c f sid name r)
  have fs: "finish_sorted (c'\<lparr>ca_total := n\<rparr>) = finish_sorted c'" "evicted k (c'\<lparr>ca_total := n\<rparr>) r = evicted k c' r"
    for c' n k by (simp_all add: finish_sorted_def evicted_def)
  show ?case
    using step(6) finish_sorted_remove [OF step(1)] evicted_step [OF step(1) _ step(4,5)]
    unfolding fs by blast
qed


section \<open>Accumulating the windows of a remote ring\<close>

text \<open>The positions of a log covered by windows of length \<open>L\<close> that end at the given positions.\<close>

definition windows :: "nat \<Rightarrow> nat list \<Rightarrow> nat set" where
  "windows L ks = {i. \<exists>k \<in> set ks. k - L \<le> i \<and> i < k}"

abbreviation tagged :: "SchedulerEpochV2 \<Rightarrow> SchedulerRunRecordV2 list \<Rightarrow> CronRecord list" where
  "tagged epoch rs \<equiv> map (\<lambda>r. \<lparr>cr_epoch = epoch, cr_record = r\<rparr>) rs"

lemma windows_snoc: "windows L (ks @ [k]) = windows L ks \<union> {k - L..<k}"
  by (auto simp: windows_def)

lemma windows_below: "\<forall>k \<in> set ks. k \<le> b \<Longrightarrow> windows L ks \<subseteq> {..<b}"
  by (force simp: windows_def)

lemma nths_cong: "(\<And>i. i < length xs \<Longrightarrow> i \<in> A \<longleftrightarrow> i \<in> B) \<Longrightarrow> nths xs A = nths xs B"
  unfolding nths_def by (rule arg_cong [where f = "map fst"], rule filter_cong) (auto simp: set_zip)

lemma nths_split:
  assumes "W \<subseteq> {..<k}" "V \<subseteq> {k..}"
  shows "nths xs (W \<union> V) = nths xs W @ nths xs V"
proof -
  have "nths (take k xs @ drop k xs) (W \<union> V) = nths (take k xs @ drop k xs) W @ nths (take k xs @ drop k xs) V"
  proof -
    have "nths (take k xs) (W \<union> V) = nths (take k xs) W" "nths (take k xs) V = nths (take k xs) {}"
      "nths (drop k xs) {j. j + length (take k xs) \<in> W} = nths (drop k xs) {}"
      "nths (drop k xs) {j. j + length (take k xs) \<in> W \<union> V} = nths (drop k xs) {j. j + length (take k xs) \<in> V}"
      using assms by (intro nths_cong; auto)+
    then show ?thesis unfolding nths_append by simp
  qed
  then show ?thesis by simp
qed

lemma nths_interval: "nths xs {a..<b} = drop a (take b xs)"
proof -
  have "nths (take b xs @ drop b xs) {a..<b} = nths (take b xs) {i. i \<ge> a}"
  proof -
    have "nths (take b xs) {a..<b} = nths (take b xs) {i. i \<ge> a}"
      "nths (drop b xs) {j. j + length (take b xs) \<in> {a..<b}} = nths (drop b xs) {}"
      by (intro nths_cong; auto)+
    then show ?thesis unfolding nths_append by simp
  qed
  then show ?thesis unfolding append_take_drop_id by (simp add: drop_eq_nths)
qed

text \<open>One job: merging a later window extends the records that were observed.\<close>

lemma merge_window:
  assumes seq: "distinct (map rr_sequence lg)" and k: "k \<le> k'" and L: "L \<le> p"
    and W: "W \<subseteq> {..<k}" "{k - L..<k} \<subseteq> W"
    and job: "cj_records job = take_last p (tagged e (nths lg W))"
  shows "cj_records (depth_evict p (fst (merge_records e (nths lg {k' - L..<k'}) (job, b)))) =
    take_last p (tagged e (nths lg (W \<union> {k' - L..<k'})))"
proof -
  let ?new = "nths lg {max k (k' - L)..<k'}" and ?old = "nths lg {k' - L..<k}"
  have "{k' - L..<k'} = {k' - L..<k} \<union> {max k (k' - L)..<k'}" using k by auto
  moreover have "{k' - L..<k} \<subseteq> {..<k}" "{max k (k' - L)..<k'} \<subseteq> {k..}" by (rule subsetI, simp)+
  ultimately have win: "nths lg {k' - L..<k'} = ?old @ ?new" by (simp only: nths_split)
  have "W = (W - {k - L..<k}) \<union> {k - L..<k}" "W - {k - L..<k} \<subseteq> {..<k - L}" using W by auto
  moreover have "{k - L..<k} \<subseteq> {k - L..}" by (rule subsetI, simp)
  ultimately have "nths lg W = nths lg (W - {k - L..<k}) @ nths lg {k - L..<k}" by (metis nths_split)
  then have recent: "set (tagged e (nths lg {k - L..<k})) \<subseteq> set (cj_records job)"
    using L by (auto simp: job take_last_append take_last_all nths_interval)
  have old: "\<forall>r \<in> set ?old. identity \<lparr>cr_epoch = e, cr_record = r\<rparr> \<in> job_ids job"
  proof
    fix r assume "r \<in> set ?old"
    then have "r \<in> set (nths lg {k - L..<k})" using k by (auto simp: set_nths)
    then show "identity \<lparr>cr_epoch = e, cr_record = r\<rparr> \<in> job_ids job" using recent by auto
  qed
  have below: "set (cj_records job) \<subseteq> set (tagged e (nths lg {..<k}))"
  proof -
    have "set (nths lg W) \<subseteq> set (nths lg {..<k})" using W(1) by (auto simp: set_nths simp del: nths_upt_eq_take)
    then show ?thesis unfolding job by (intro subset_trans [OF set_take_last]) auto
  qed
  have new: "\<forall>r \<in> set ?new. identity \<lparr>cr_epoch = e, cr_record = r\<rparr> \<notin> job_ids job"
  proof
    fix r assume "r \<in> set ?new"
    then obtain i where i: "k \<le> i" "i < length lg" "r = lg ! i" by (auto simp: set_nths)
    have "rr_sequence r \<noteq> rr_sequence r'" if "r' \<in> set (nths lg {..<k})" for r'
      using that i seq by (auto simp: set_nths distinct_conv_nth simp del: nths_upt_eq_take)
    then show "identity \<lparr>cr_epoch = e, cr_record = r\<rparr> \<notin> job_ids job"
      using below by (fastforce simp: identity_def simp del: nths_upt_eq_take)
  qed
  have "distinct (map rr_sequence ?new)" using seq by (simp add: nths_map [symmetric])
  then have "fresh_records e (nths lg {k' - L..<k'}) (job_ids job) = tagged e ?new"
    using old new by (simp add: win fresh_records_append_old fresh_records_all)
  moreover have "W \<union> {k' - L..<k'} = W \<union> {max k (k' - L)..<k'}"
  proof -
    have "{k' - L..<k'} \<subseteq> W \<union> {max k (k' - L)..<k'}"
    proof
      fix i assume "i \<in> {k' - L..<k'}"
      then show "i \<in> W \<union> {max k (k' - L)..<k'}" using W(2) k by (cases "i < k") auto
    qed
    then show ?thesis by auto
  qed
  moreover have "nths lg (W \<union> {max k (k' - L)..<k'}) = nths lg W @ ?new"
    using W(1) by (rule nths_split) (rule subsetI, simp)
  ultimately show ?thesis
    by (simp add: merge_records_fresh depth_evict_records job take_last_append_same)
qed


section \<open>One job of a system\<close>

lemma bt_get_merge_job:
  "bt_get (fst (merge_job e p h (jobs, b))) name =
     (if jh_name h = name \<and> name_ok name
      then Some (depth_evict p (fst (merge_records e (jh_records h) (bt_get_or job_cache_empty jobs name, b))))
      else bt_get jobs name)"
  by (auto simp: merge_job_def name_ok_def Let_def bt_get_insert split: prod.splits)

lemma bt_get_fold_other:
  "name \<notin> jh_name ` set hs \<Longrightarrow> bt_get (fst (fold (merge_job e p) hs (jobs, b))) name = bt_get jobs name"
proof (induction hs arbitrary: jobs b)
  case (Cons h hs)
  obtain jobs' b' where eq: "merge_job e p h (jobs, b) = (jobs', b')" by fastforce
  have "bt_get jobs' name = bt_get jobs name"
    using bt_get_merge_job [of e p h jobs b name] Cons.prems by (auto simp: eq)
  then show ?case using Cons eq by simp
qed simp

lemma merge_records_added_irrelevant: "fst (merge_records e rs (job, b)) = fst (merge_records e rs (job, b'))"
  by (simp add: merge_records_fresh)

lemma bt_get_fold_merge:
  assumes "h \<in> set hs" "distinct (map jh_name hs)" "name_ok (jh_name h)"
  shows "bt_get (fst (fold (merge_job e p) hs (jobs, b))) (jh_name h) =
    Some (depth_evict p (fst (merge_records e (jh_records h) (bt_get_or job_cache_empty jobs (jh_name h), False))))"
  using assms(1,2)
proof (induction hs arbitrary: jobs b)
  case (Cons g hs)
  obtain jobs' b' where eq: "merge_job e p g (jobs, b) = (jobs', b')" by fastforce
  show ?case
  proof (cases "g = h")
    case True
    then have "jh_name h \<notin> jh_name ` set hs" using Cons.prems(2) by simp
    from bt_get_fold_other [OF this, of e p jobs' b'] show ?thesis
      using bt_get_merge_job [of e p h jobs b "jh_name h"] assms(3) eq True merge_records_added_irrelevant
      by simp metis
  next
    case False
    with Cons.prems have h: "h \<in> set hs" "jh_name g \<noteq> jh_name h" by (auto simp: image_iff)
    then have "bt_get jobs' (jh_name h) = bt_get jobs (jh_name h)"
      using bt_get_merge_job [of e p g jobs b "jh_name h"] by (simp add: eq)
    then show ?thesis using Cons.IH [OF h(1), of jobs' b'] Cons.prems(2) eq by (simp add: bt_get_or_def)
  qed
qed simp

text \<open>With at most 64 live jobs the stale sweep keeps every live job.\<close>

lemma evict_stale_jobs_get:
  assumes "bt_wf (cs_jobs s)" "cs_summary s = Some m" "length (sm_jobs m) \<le> MAX_CRON_JOBS_PER_SYSTEM"
    and "name \<in> jv_name ` set (sm_jobs m)"
  shows "bt_get (cs_jobs (evict_stale_jobs s)) name = bt_get (cs_jobs s) name"
proof -
  let ?live = "set (map jv_name (sm_jobs m))"
  have keep: "bt_retain (\<lambda>n. n \<in> ?live) (cs_jobs s) = cs_jobs s" if "list_all (\<lambda>e. fst e \<in> ?live) (cs_jobs s)"
    using that by (auto simp: bt_retain_def list_all_iff filter_id_conv)
  have "length (bt_retain (\<lambda>n. n \<in> ?live) (cs_jobs s)) \<le> length (sm_jobs m)"
  proof -
    let ?r = "bt_retain (\<lambda>n. n \<in> ?live) (cs_jobs s)"
    have "distinct (map fst ?r)" using assms(1) by (simp add: bt_wf_distinct)
    then have "length ?r = card (set (map fst ?r))" by (metis distinct_card length_map)
    also have "\<dots> \<le> card ?live" by (rule card_mono) (auto simp: bt_retain_def)
    also have "\<dots> \<le> length (sm_jobs m)" using card_length [of "map jv_name (sm_jobs m)"] by simp
    finally show ?thesis .
  qed
  then have "cs_jobs (evict_stale_jobs s) = bt_retain (\<lambda>n. n \<in> ?live) (cs_jobs s)"
    using assms(2,3) keep by (auto simp: evict_stale_jobs_def Let_def pop_front_while_eq take_last_all)
  then show ?thesis using assms(4) by (simp add: bt_get_retain)
qed

lemma job_records_apply_history:
  assumes "system_inv p s" "cs_summary s = Some m" "length (sm_jobs m) \<le> MAX_CRON_JOBS_PER_SYSTEM"
    "jh_name h \<in> jv_name ` set (sm_jobs m)" "h \<in> set (hi_jobs d)" "distinct (map jh_name (hi_jobs d))" "name_ok (jh_name h)"
  shows "job_records (snd (system_apply_history d p s)) (jh_name h) =
    cj_records (depth_evict p (fst (merge_records (hi_epoch d) (jh_records h)
      (\<lparr>cj_records = job_records s (jh_name h)\<rparr>, False))))"
proof -
  let ?f = "fold (merge_job (hi_epoch d) p) (hi_jobs d) (cs_jobs s, False)"
  let ?s = "s\<lparr>cs_epoch := Some (hi_epoch d), cs_history_revision := Some (hi_history_revision d), cs_jobs := fst ?f\<rparr>"
  have "snd (system_apply_history d p s) = evict_stale_jobs ?s"
    by (simp add: system_apply_history_def Let_def case_prod_beta)
  moreover have "bt_get (cs_jobs (evict_stale_jobs ?s)) (jh_name h) = bt_get (fst ?f) (jh_name h)"
    using evict_stale_jobs_get [of ?s m "jh_name h"] fold_merge_job_inv [of "cs_jobs s" p] assms(1-4)
    by (simp add: system_inv_def)
  moreover have "bt_get_or job_cache_empty (cs_jobs s) (jh_name h) = \<lparr>cj_records = job_records s (jh_name h)\<rparr>"
    by (simp add: bt_get_or_def job_records_def job_cache_empty_def split: option.splits)
  ultimately show ?thesis
    using bt_get_fold_merge [OF assms(5-7), of "hi_epoch d" p "cs_jobs s" False] by (simp add: job_records_def)
qed

lemma system_apply_history_summary: "cs_summary (snd (system_apply_history d p s)) = cs_summary s"
  by (simp add: system_apply_history_def evict_stale_jobs_def Let_def case_prod_beta split: option.splits)


text \<open>A history document that shows the window of \<open>lg\<close> ending at \<open>k\<close> for the job \<open>name\<close>.\<close>

definition shows_window ::
  "SchedulerEpochV2 \<Rightarrow> rstr \<Rightarrow> nat \<Rightarrow> SchedulerRunRecordV2 list \<Rightarrow> SchedulerHistoryV2 \<Rightarrow> nat \<Rightarrow> bool" where
  "shows_window e name L lg d k \<longleftrightarrow> hi_epoch d = e \<and> distinct (map jh_name (hi_jobs d)) \<and>
     list_ex (\<lambda>h. jh_name h = name \<and> jh_records h = take_last L (take k lg)) (hi_jobs d) \<and> k \<le> length lg"

definition apply_histories :: "nat \<Rightarrow> SchedulerHistoryV2 list \<Rightarrow> CronSystemState \<Rightarrow> CronSystemState" where
  "apply_histories p ds s = fold (\<lambda>d s. snd (system_apply_history d p s)) ds s"

lemma apply_histories_inv:
  "system_inv p s \<Longrightarrow> system_inv p (apply_histories p ds s) \<and> cs_summary (apply_histories p ds s) = cs_summary s"
  unfolding apply_histories_def
  by (induction ds arbitrary: s) (simp_all add: system_apply_history_inv system_apply_history_summary)

lemma windows_last:
  assumes "sorted ks"
  shows "windows L ks \<subseteq> {..<(if ks = [] then 0 else last ks)} \<and>
    {(if ks = [] then 0 else last ks) - L..<(if ks = [] then 0 else last ks)} \<subseteq> windows L ks"
proof (cases ks rule: rev_cases)
  case (snoc ks' k)
  then have "\<forall>x \<in> set ks. x \<le> k" using assms by (auto simp: sorted_append)
  from windows_below [OF this, of L] show ?thesis using snoc by (simp add: windows_snoc)
qed (simp add: windows_def)

lemma apply_histories_windows:
  assumes s: "system_inv p s" "cs_jobs s = []" "cs_summary s = Some m" "length (sm_jobs m) \<le> MAX_CRON_JOBS_PER_SYSTEM"
    and name: "name \<in> jv_name ` set (sm_jobs m)" "name_ok name"
    and lg: "distinct (map rr_sequence lg)" "L \<le> p"
  shows "sorted ks \<Longrightarrow> list_all2 (shows_window e name L lg) ds ks \<Longrightarrow>
    job_records (apply_histories p ds s) name = take_last p (tagged e (nths lg (windows L ks)))"
proof (induction ks arbitrary: ds rule: rev_induct)
  case Nil
  then show ?case using s(2) by (simp add: apply_histories_def windows_def job_records_def bt_get_def)
next
  case (snoc k ks)
  obtain ds' d where ds: "ds = ds' @ [d]" "list_all2 (shows_window e name L lg) ds' ks" "shows_window e name L lg d k"
    using snoc.prems(2) by (auto simp: list_all2_append2 list_all2_Cons2)
  obtain h where h: "h \<in> set (hi_jobs d)" "jh_name h = name" "jh_records h = take_last L (take k lg)"
    and d: "hi_epoch d = e" "distinct (map jh_name (hi_jobs d))" "k \<le> length lg"
    using ds(3) by (auto simp: shows_window_def list_ex_iff)
  let ?s = "apply_histories p ds' s" and ?b = "if ks = [] then 0 else last ks"
  have s': "system_inv p ?s" "cs_summary ?s = Some m" using apply_histories_inv [OF s(1)] s(3) by simp_all
  have ks: "sorted ks" "?b \<le> k" using snoc.prems(1) by (auto simp: sorted_append)
  have win: "take_last L (take k lg) = nths lg {k - L..<k}"
    using d(3) by (simp add: nths_interval take_last_def min_absorb2)
  have "job_records (apply_histories p ds s) name = cj_records (depth_evict p (fst (merge_records e
      (nths lg {k - L..<k}) (\<lparr>cj_records = job_records ?s name\<rparr>, False))))"
    using job_records_apply_history [OF s' s(4) _ h(1) d(2)] name h d(1)
    by (simp add: ds(1) apply_histories_def win)
  also have "\<dots> = take_last p (tagged e (nths lg (windows L ks \<union> {k - L..<k})))"
    using windows_last [OF ks(1), of L] snoc.IH [OF ks(1) ds(2)]
    by (intro merge_window [OF lg(1) ks(2) lg(2)]) simp_all
  finally show ?case by (simp add: windows_snoc)
qed


section \<open>Properties\<close>

text \<open>
  C32. The bounds of the cache hold after any sequence of operations: the maps are ordered, every job
  holds at most the configured depth (between 1 and 50) of records with distinct identities under
  an admissible name, and the counter is the number of records held, at most the configured ceiling
  (between 1 and 4096).
\<close>

theorem cache_operations_bounded: "cache_inv (fold cache_op_apply ops (cache_new per_job total_cap))"
proof -
  have "cache_inv (fold cache_op_apply ops c)" if "cache_inv c" for c
    using that by (induction ops arbitrary: c) (simp_all add: cache_op_apply_inv)
  then show ?thesis by (simp add: cache_new_inv)
qed

lemma enforce_total_within: "ca_total (enforce_total c) \<le> ca_total_cap c"
proof (induction c rule: enforce_total.induct)
  case (1 c)
  show ?case
  proof (cases "oldest_record c")
    case None
    then have "cache_count c = 0" by (simp add: oldest_record_None no_candidates_count)
    then show ?thesis using None by (simp add: enforce_total.simps [of c])
  next
    case (Some v)
    obtain f sid name where "v = (f, sid, name)" by (cases v)
    then show ?thesis using 1 Some by (simp add: enforce_total.simps [of c])
  qed
qed

text \<open>
  C33. The eviction loop ends within the ceiling, whatever the counter says; on a consistent cache
  whose jobs are ordered by finish time it drops exactly the excess and oldest first: from every job
  it takes the front, and no record it dropped is newer than one it kept, finish times compared
  first, then system and job.
\<close>

theorem eviction_oldest_first:
  "ca_total (enforce_total c) \<le> ca_total_cap c \<and>
   (cache_shape c \<and> ca_total c = cache_count c \<and> finish_sorted c \<longrightarrow>
      cache_count (enforce_total c) = min (cache_count c) (ca_total_cap c) \<and> (\<exists>k. evicted k c (enforce_total c)))"
  using enforce_total_within [of c] enforce_total_inv [of c] enforce_total_evicted [of c] by auto

definition example_epoch :: SchedulerEpochV2 where
  "example_epoch = \<lparr>ep_started_at_unix_ms = 1000, ep_nonce = 7\<rparr>"

definition example_record :: "nat \<Rightarrow> nat \<Rightarrow> SchedulerRunRecordV2" where
  "example_record sq f =
     \<lparr>rr_sequence = sq, rr_scheduled_unix_ms = f, rr_started_unix_ms = None, rr_finished_unix_ms = f,
      rr_outcome = SpawnFailed, rr_exit_code = None, rr_signal = None, rr_duration_ms = None, rr_delay_ms = 0,
      rr_coalesced = False, rr_stdout = \<lparr>so_text = [], so_truncated = False\<rparr>,
      rr_stderr = \<lparr>so_text = [], so_truncated = False\<rparr>\<rparr>"

definition example_history :: "SchedulerRunRecordV2 list \<Rightarrow> SchedulerHistoryV2" where
  "example_history rs = \<lparr>hi_schema_version = 2, hi_generated_at_unix_ms = 9, hi_epoch = example_epoch,
     hi_history_revision = 3, hi_jobs = [\<lparr>jh_name = ustr ''a'', jh_records = rs\<rparr>]\<rparr>"

definition example_summary :: SchedulerSummaryV2 where
  "example_summary = \<lparr>sm_schema_version = 2, sm_generated_at_unix_ms = 9, sm_epoch = example_epoch,
     sm_history_revision = 3, sm_jobs = [\<lparr>jv_name = ustr ''a'', jv_schedule = ustr ''* * * * *'',
       jv_next_due_unix_ms = 60000, jv_state = Idle, jv_load = None, jv_pending_since_unix_ms = None,
       jv_next_retry_unix_ms = None, jv_running_since_unix_ms = None, jv_last = None\<rparr>]\<rparr>"

lemma example_summary_valid: "summary_valid example_summary"
  by (simp add: summary_valid_def example_summary_def example_epoch_def ts_ok_def MAX_TIMESTAMP_UNIX_MS_def
      MAX_SCHEDULER_JOBS_def job_valid_def name_ok_def ustr_def opt_ok_def load_truthful_def
      MAX_SCHEDULER_JOB_NAME_BYTES_def MAX_SCHEDULER_SCHEDULE_BYTES_def len_utf8_def)

text \<open>
  C18. Successive reads of a remote ring accumulate: when every document of one scheduler lifetime
  shows, for a job, the last \<open>L\<close> records of a growing log and the cache is at least as deep as the
  ring, the records retained for the job are the newest \<open>per_job\<close> of all records that some window
  showed, in log order and without duplicates, however the windows overlap or leave gaps.
\<close>

theorem windows_accumulate:
  assumes "cs_jobs s = []" and "cs_summary s = Some m" and "summary_valid m" and "name \<in> jv_name ` set (sm_jobs m)"
    and "distinct (map rr_sequence lg)" and "L \<le> per_job"
    and "sorted ks" and "list_all2 (shows_window e name L lg) ds ks"
  shows "job_records (apply_histories per_job ds s) name = take_last per_job (tagged e (nths lg (windows L ks)))"
proof -
  have "length (sm_jobs m) \<le> MAX_CRON_JOBS_PER_SYSTEM" "name_ok name"
    using assms(3,4) by (auto simp: summary_valid_def MAX_SCHEDULER_JOBS_def MAX_CRON_JOBS_PER_SYSTEM_def job_valid_def)
  then show ?thesis
    using apply_histories_windows [of per_job s m name lg L ks e ds] assms by (simp add: system_inv_def)
qed


theorem windows_accumulate_witness:
  "job_records (apply_histories 2
      [example_history [example_record 1 5], example_history [example_record 2 6, example_record 3 7]]
      (apply_summary example_summary 9 system_unknown)) (ustr ''a'') =
    tagged example_epoch [example_record 2 6, example_record 3 7]"
  using windows_accumulate
    [of "apply_summary example_summary 9 system_unknown" example_summary "ustr ''a''"
      "[example_record 1 5, example_record 2 6, example_record 3 7]" 2 2 "[1, 3]" example_epoch
      "[example_history [example_record 1 5], example_history [example_record 2 6, example_record 3 7]]"]
    example_summary_valid
  by (simp add: apply_summary_def system_unknown_def shows_window_def example_history_def take_last_def
      example_summary_def example_record_def nths_Cons windows_def)

definition example_cache :: CronCache where
  "example_cache = \<lparr>ca_per_job = 5, ca_total_cap = 1, ca_total = 2, ca_systems =
     [(ustr ''x'', system_unknown\<lparr>cs_jobs := [(ustr ''a'',
        \<lparr>cj_records = tagged example_epoch [example_record 1 5, example_record 2 9]\<rparr>)]\<rparr>)]\<rparr>"

lemma example_cache_ok: "cache_shape example_cache" "ca_total example_cache = cache_count example_cache"
    "finish_sorted example_cache" "cache_count example_cache = 2" "ca_total_cap example_cache = 1"
  by (simp_all add: example_cache_def cache_shape_def system_inv_def job_inv_def bt_wf_def name_ok_def ustr_def
      len_utf8_def MAX_SCHEDULER_JOB_NAME_BYTES_def identity_def example_record_def cache_count_def
      system_records_def system_unknown_def finish_sorted_def cache_records_def job_records_def bt_get_def
      split: option.splits)

theorem eviction_oldest_first_witness:
  "cache_shape example_cache \<and> finish_sorted example_cache \<and> cache_count (enforce_total example_cache) = 1"
  using eviction_oldest_first [of example_cache] example_cache_ok by simp

lemma fresh_records_append_seen:
  "(\<forall>r \<in> set ys. identity \<lparr>cr_epoch = e, cr_record = r\<rparr> \<in> seen) \<Longrightarrow>
   fresh_records e (xs @ ys) seen = fresh_records e xs seen"
  by (induction xs arbitrary: seen) (simp_all add: Let_def fresh_records_none)

text \<open>
  A cache shallower than the remote ring loses its newest records when the same document is
  merged again: after the first merge the newest \<open>per_job\<close> records are retained, the second merge
  reports an addition and leaves older ones in their place.
\<close>

theorem reapplied_history_drops_newest:
  assumes "cs_jobs s = []" and "cs_summary s = None" and "hi_jobs d = [h]" and "name_ok (jh_name h)"
    and "distinct (map rr_sequence (jh_records h))" and "1 \<le> per_job" and "2 * per_job \<le> length (jh_records h)"
  shows "job_records (apply_histories per_job [d] s) (jh_name h) =
      tagged (hi_epoch d) (take_last per_job (jh_records h)) \<and>
    fst (system_apply_history d per_job (apply_histories per_job [d] s)) \<and>
    job_records (apply_histories per_job [d, d] s) (jh_name h) =
      tagged (hi_epoch d) (take_last per_job (take (length (jh_records h) - per_job) (jh_records h)))"
proof -
  let ?rs = "jh_records h" and ?e = "hi_epoch d" and ?n = "length (jh_records h) - per_job"
  have name: "\<not> (jh_name h = [] \<or> MAX_SCHEDULER_JOB_NAME_BYTES < str_len (jh_name h))"
    using assms(4) by (simp add: name_ok_def)
  let ?job = "\<lambda>rs. [(jh_name h, \<lparr>cj_records = tagged ?e rs\<rparr>)]"
  have step: "system_apply_history d per_job s' = (fs \<noteq> [], s'\<lparr>cs_epoch := Some ?e,
        cs_history_revision := Some (hi_history_revision d),
        cs_jobs := [(jh_name h, \<lparr>cj_records = take_last per_job (rs @ fs)\<rparr>)]\<rparr>)"
    if "cs_summary s' = None" "cs_jobs s' = [] \<and> rs = [] \<or> cs_jobs s' = [(jh_name h, \<lparr>cj_records = rs\<rparr>)]"
      "fs = fresh_records ?e ?rs (identity ` set rs)" for s' rs fs
    using that name
    by (auto simp: system_apply_history_def assms(3) merge_job_def Let_def bt_get_or_def bt_get_def
        job_cache_empty_def merge_records_fresh evict_stale_jobs_def depth_evict_def take_last_def)
  have first: "fresh_records ?e ?rs {} = tagged ?e ?rs" using assms(5) by (simp add: fresh_records_all)
  let ?s1 = "snd (system_apply_history d per_job s)"
  have s1: "cs_summary ?s1 = None" "cs_jobs ?s1 = ?job (take_last per_job ?rs)"
    using step [of s "[]" "tagged ?e ?rs"] assms(1,2) first by (simp_all add: map_take_last)
  have split: "?rs = take ?n ?rs @ take_last per_job ?rs" by (simp add: take_last_def)
  have "distinct (map rr_sequence (take ?n ?rs @ take_last per_job ?rs))" using assms(5) by (simp add: split [symmetric])
  then have old: "fresh_records ?e (take ?n ?rs) (identity ` set (tagged ?e (take_last per_job ?rs))) = tagged ?e (take ?n ?rs)"
    by (intro fresh_records_all) (auto simp: identity_def)
  have second: "fresh_records ?e ?rs (identity ` set (tagged ?e (take_last per_job ?rs))) = tagged ?e (take ?n ?rs)"
    using fresh_records_append_seen [of "take_last per_job ?rs" ?e "identity ` set (tagged ?e (take_last per_job ?rs))" "take ?n ?rs"]
      old by (simp add: split [symmetric])
  note s2 = step [OF s1(1) disjI2 [OF s1(2)] second [symmetric]]
  have "take ?n ?rs \<noteq> []" using assms(6,7) by auto
  moreover have "take_last per_job (tagged ?e (take_last per_job ?rs) @ tagged ?e (take ?n ?rs)) =
      tagged ?e (take_last per_job (take ?n ?rs))"
    using assms(7) by (simp add: take_last_append map_take_last)
  ultimately show ?thesis
    using s1 s2 by (simp add: apply_histories_def job_records_def bt_get_def)
qed

theorem reapplied_history_drops_newest_witness:
  "job_records (apply_histories 1 [example_history [example_record 1 5, example_record 2 6],
      example_history [example_record 1 5, example_record 2 6]] system_unknown) (ustr ''a'') =
    tagged example_epoch [example_record 1 5]"
  using reapplied_history_drops_newest
    [of system_unknown "example_history [example_record 1 5, example_record 2 6]"
      "\<lparr>jh_name = ustr ''a'', jh_records = [example_record 1 5, example_record 2 6]\<rparr>" 1]
  by (simp add: system_unknown_def example_history_def name_ok_def ustr_def len_utf8_def
      MAX_SCHEDULER_JOB_NAME_BYTES_def example_record_def take_last_def)

end
