(* ===== verification/Client_Config.thy ===== *)
theory Client_Config
  imports Client_Endpoint Cron_Cache
begin

text \<open>
  The client configuration: \<open>crates/gregg/src/config/model.rs\<close> (entries, defaults, validation, parsing)
  and \<open>config/validation.rs\<close>. TOML decoding is the crate \<open>toml\<close> and is a parameter of \<open>client_parse\<close>;
  file access, locking and the atomic replacement of the file are not modelled.

  The lemmas show what the rest of the client relies on once a configuration loads: distinct
  identifiers, normalized hosts, and pairwise different targets.
\<close>

section \<open>Data\<close>

definition MIN_REFRESH_SECONDS :: nat where "MIN_REFRESH_SECONDS = 1"
definition MAX_REFRESH_SECONDS :: nat where "MAX_REFRESH_SECONDS = 3600"
definition MIN_REQUEST_TIMEOUT_MS :: nat where "MIN_REQUEST_TIMEOUT_MS = 100"
definition MAX_REQUEST_TIMEOUT_MS :: nat where "MAX_REQUEST_TIMEOUT_MS = 60000"
definition MAX_CONCURRENT_REQUESTS :: nat where "MAX_CONCURRENT_REQUESTS = 64"
definition SUPPORTED_CONFIG_VERSION :: nat where "SUPPORTED_CONFIG_VERSION = 1"
definition MAX_EGGPOOL_NAME_LEN :: nat where "MAX_EGGPOOL_NAME_LEN = 128"
definition MAX_ENV_NAME_LEN :: nat where "MAX_ENV_NAME_LEN = 128"

record CronConfig =
  cc_display_history :: nat
  cc_cache_history :: nat

definition cron_config_default :: CronConfig where
  "cron_config_default = \<lparr>cc_display_history = DEFAULT_DISPLAY_HISTORY, cc_cache_history = DEFAULT_CACHE_HISTORY\<rparr>"

definition display_history :: "CronConfig \<Rightarrow> nat" where
  "display_history c = clamp 1 MAX_DISPLAY_HISTORY (cc_display_history c)"

definition cache_history :: "CronConfig \<Rightarrow> nat" where
  "cache_history c = clamp 1 MAX_CACHE_HISTORY (cc_cache_history c)"

record SystemEntry =
  se_id :: rstr
  se_host :: rstr
  se_port :: nat
  se_name :: "rstr option"

datatype EggpoolScheme = SchemeHttp | SchemeHttps

record EggpoolEntry =
  ee_id :: rstr
  ee_host :: rstr
  ee_port :: nat
  ee_scheme :: EggpoolScheme
  ee_name :: "rstr option"
  ee_api_key_env :: "rstr option"

definition to_endpoint :: "SystemEntry \<Rightarrow> Endpoint" where
  "to_endpoint s = \<lparr>en_id = se_id s, en_host = se_host s, en_port = se_port s, en_name = se_name s\<rparr>"

record ClientConfig =
  cf_config_version :: nat
  cf_refresh_seconds :: nat
  cf_request_timeout_ms :: nat
  cf_max_concurrent_requests :: nat
  cf_default_port :: nat
  cf_systems :: "SystemEntry list"
  cf_eggpool :: "EggpoolEntry option"
  cf_cron :: CronConfig

definition client_config_default :: ClientConfig where
  "client_config_default =
     \<lparr>cf_config_version = SUPPORTED_CONFIG_VERSION, cf_refresh_seconds = 5, cf_request_timeout_ms = 1500,
      cf_max_concurrent_requests = 16, cf_default_port = DEFAULT_PORT, cf_systems = [], cf_eggpool = None,
      cf_cron = cron_config_default\<rparr>"

section \<open>Validation\<close>

datatype name_problem = NameWhitespace | NameControl | NameSeparator | NameEmpty | NameOverlong

datatype env_problem = EnvEmpty | EnvOverlong | EnvPattern

datatype ClientViolation =
    CV_UnsupportedConfigVersion nat
  | CV_InvalidRefreshSeconds nat
  | CV_InvalidRequestTimeout nat
  | CV_InvalidMaxConcurrentRequests nat
  | CV_InvalidPort nat
  | CV_DuplicateEndpointId rstr
  | CV_DuplicateAddress rstr
  | CV_EmptyHost rstr
  | CV_InvalidHost rstr rstr
  | CV_InvalidEndpointPort rstr nat
  | CV_EmptyName rstr
  | CV_InvalidName rstr name_problem
  | CV_NameTooLong rstr nat nat
  | CV_InvalidEggpoolHost rstr
  | CV_InvalidEggpoolPort nat
  | CV_InvalidEggpoolName name_problem
  | CV_EggpoolAlreadyConfigured
  | CV_InvalidEggpoolApiKeyEnv rstr env_problem
  | CV_InvalidCronDisplayHistory nat
  | CV_InvalidCronCacheHistory nat
  | CV_CronCacheShallowerThanDisplay nat nat

text \<open>What makes a host more than a single authority token; \<open>validate_system_host\<close> and
  \<open>validate_eggpool\<close> spell out the same tests.\<close>

definition host_has_syntax :: "rstr \<Rightarrow> bool" where
  "host_has_syntax host \<longleftrightarrow> str_contains (ustr ''://'') host \<or>
     list_ex (\<lambda>c. c \<in> set (ustr ''/?#@[]'')) host \<or> list_ex is_white host \<or> list_ex is_control host"

text \<open>The violations pushed and the normalized host returned.\<close>

definition validate_system_host :: "SystemEntry \<Rightarrow> ClientViolation list \<times> rstr option" where
  "validate_system_host system =
     (let host = str_trim (se_host system) in
      if host = [] then ([CV_EmptyHost (se_id system)], None)
      else if host_has_syntax host then ([CV_InvalidHost (se_id system) host], None)
      else case normalize_host host of
             Ok normalized \<Rightarrow> ([], Some normalized)
           | Err _ \<Rightarrow> ([CV_InvalidHost (se_id system) host], None))"

definition validate_system_name :: "SystemEntry \<Rightarrow> ClientViolation list" where
  "validate_system_name system =
     (case se_name system of
        None \<Rightarrow> []
      | Some name \<Rightarrow>
          let trimmed = str_trim name in
          if trimmed = [] then [CV_EmptyName (se_id system)]
          else if name \<noteq> trimmed then [CV_InvalidName (se_id system) NameWhitespace]
          else if list_ex is_control trimmed then [CV_InvalidName (se_id system) NameControl]
          else if list_ex (\<lambda>c. c \<in> set (ustr ''@:/'')) trimmed then [CV_InvalidName (se_id system) NameSeparator]
          else if str_len trimmed > MAX_ENDPOINT_NAME_LEN
          then [CV_NameTooLong (se_id system) (str_len trimmed) MAX_ENDPOINT_NAME_LEN]
          else [])"

definition is_ascii_alphabetic :: "uchar \<Rightarrow> bool" where
  "is_ascii_alphabetic c \<longleftrightarrow> 0x41 \<le> c \<and> c \<le> 0x5A \<or> 0x61 \<le> c \<and> c \<le> 0x7A"

text \<open>\<open>[A-Za-z_][A-Za-z0-9_]*\<close>; a character outside ASCII has no byte the pattern allows.\<close>

definition validate_eggpool :: "EggpoolEntry \<Rightarrow> ClientViolation list" where
  "validate_eggpool entry =
     (let host = str_trim (ee_host entry) in
      if host = [] \<or> host_has_syntax host then [CV_InvalidEggpoolHost (ee_host entry)] else []) @
     (if ee_port entry = 0 then [CV_InvalidEggpoolPort (ee_port entry)] else []) @
     (case ee_name entry of
        None \<Rightarrow> []
      | Some name \<Rightarrow>
          let trimmed = str_trim name in
          if trimmed = [] then [CV_InvalidEggpoolName NameEmpty]
          else if trimmed \<noteq> name then [CV_InvalidEggpoolName NameWhitespace]
          else if str_len name > MAX_EGGPOOL_NAME_LEN then [CV_InvalidEggpoolName NameOverlong]
          else []) @
     (case ee_api_key_env entry of
        None \<Rightarrow> []
      | Some value \<Rightarrow>
          let valid = value \<noteq> [] \<and> str_len value \<le> MAX_ENV_NAME_LEN \<and>
                (is_ascii_alphabetic (hd value) \<or> hd value = uc CHR ''_'') \<and>
                list_all (\<lambda>c. is_ascii_alphabetic c \<or> is_digit c \<or> c = uc CHR ''_'') value
          in if valid then []
             else [CV_InvalidEggpoolApiKeyEnv value
                     (if value = [] then EnvEmpty else if str_len value > MAX_ENV_NAME_LEN then EnvOverlong else EnvPattern)])"

definition system_address :: "rstr \<Rightarrow> nat \<Rightarrow> rstr" where
  "system_address normalized_host port = to_ascii_lowercase normalized_host @ ustr '':'' @ dec_nat port"

text \<open>The loop over the systems, with the identifiers and the addresses seen so far.\<close>

fun validate_systems :: "rstr list \<Rightarrow> rstr list \<Rightarrow> SystemEntry list \<Rightarrow> ClientViolation list" where
  "validate_systems seen_ids seen_addresses [] = []"
| "validate_systems seen_ids seen_addresses (system # systems) =
     (let (host_violations, normalized_host) = validate_system_host system;
          address = map_option (\<lambda>h. system_address h (se_port system)) normalized_host in
      (if se_id system \<in> set seen_ids then [CV_DuplicateEndpointId (se_id system)] else []) @
      host_violations @
      (case address of
         None \<Rightarrow> []
       | Some a \<Rightarrow> if a \<in> set seen_addresses then [CV_DuplicateAddress a] else []) @
      (if se_port system = 0 then [CV_InvalidEndpointPort (se_id system) (se_port system)] else []) @
      validate_system_name system @
      validate_systems (se_id system # seen_ids)
        (case address of None \<Rightarrow> seen_addresses | Some a \<Rightarrow> a # seen_addresses) systems)"

definition client_validate :: "ClientConfig \<Rightarrow> ClientViolation list" where
  "client_validate c =
     (if cf_config_version c \<noteq> SUPPORTED_CONFIG_VERSION then [CV_UnsupportedConfigVersion (cf_config_version c)] else []) @
     (if cf_refresh_seconds c < MIN_REFRESH_SECONDS \<or> cf_refresh_seconds c > MAX_REFRESH_SECONDS
      then [CV_InvalidRefreshSeconds (cf_refresh_seconds c)] else []) @
     (if cf_request_timeout_ms c < MIN_REQUEST_TIMEOUT_MS \<or> cf_request_timeout_ms c > MAX_REQUEST_TIMEOUT_MS
      then [CV_InvalidRequestTimeout (cf_request_timeout_ms c)] else []) @
     (if cf_max_concurrent_requests c = 0 \<or> cf_max_concurrent_requests c > MAX_CONCURRENT_REQUESTS
      then [CV_InvalidMaxConcurrentRequests (cf_max_concurrent_requests c)] else []) @
     (if cf_default_port c = 0 then [CV_InvalidPort (cf_default_port c)] else []) @
     validate_systems [] [] (cf_systems c) @
     (case cf_eggpool c of None \<Rightarrow> [] | Some e \<Rightarrow> validate_eggpool e) @
     (if cc_display_history (cf_cron c) = 0 \<or> cc_display_history (cf_cron c) > MAX_DISPLAY_HISTORY
      then [CV_InvalidCronDisplayHistory (cc_display_history (cf_cron c))] else []) @
     (if cc_cache_history (cf_cron c) = 0 \<or> cc_cache_history (cf_cron c) > MAX_CACHE_HISTORY
      then [CV_InvalidCronCacheHistory (cc_cache_history (cf_cron c))] else []) @
     (if cc_display_history (cf_cron c) \<le> MAX_DISPLAY_HISTORY \<and> cc_cache_history (cf_cron c) \<le> MAX_CACHE_HISTORY \<and>
         cc_cache_history (cf_cron c) < cc_display_history (cf_cron c)
      then [CV_CronCacheShallowerThanDisplay (cc_cache_history (cf_cron c)) (cc_display_history (cf_cron c))] else [])"

section \<open>Parsing\<close>

datatype 'e client_config_error = ConfigParseError 'e | ConfigInvalid "ClientViolation list"

definition normalize_system :: "SystemEntry \<Rightarrow> (SystemEntry, 'e client_config_error) result" where
  "normalize_system s =
     (case normalize_host (se_host s) of
        Ok h \<Rightarrow> Ok (s\<lparr>se_host := h\<rparr>)
      | Err _ \<Rightarrow> Err (ConfigInvalid [CV_InvalidHost (se_id s) (se_host s)]))"

definition client_parse :: "(rstr \<Rightarrow> (ClientConfig, 'e) result) \<Rightarrow> rstr \<Rightarrow> (ClientConfig, 'e client_config_error) result" where
  "client_parse toml content =
     (case toml content of
        Err e \<Rightarrow> Err (ConfigParseError e)
      | Ok c \<Rightarrow>
          result_bind (traverse_result normalize_system (cf_systems c)) (\<lambda>systems.
          result_bind
            (case cf_eggpool c of
               None \<Rightarrow> Ok None
             | Some e \<Rightarrow>
                 (case normalize_host (ee_host e) of
                    Ok h \<Rightarrow> Ok (Some (e\<lparr>ee_host := h\<rparr>))
                  | Err _ \<Rightarrow> Err (ConfigInvalid [CV_InvalidEggpoolHost (ee_host e)]))) (\<lambda>eggpool.
          let c = c\<lparr>cf_systems := systems, cf_eggpool := eggpool\<rparr>; violations = client_validate c in
          if violations = [] then Ok c else Err (ConfigInvalid violations))))"

section \<open>What a loaded configuration guarantees\<close>

text \<open>The target of an entry as the client compares targets.\<close>

definition entry_target :: "SystemEntry \<Rightarrow> rstr \<times> nat" where
  "entry_target s = (case normalize_host (se_host s) of
     Ok h \<Rightarrow> (to_ascii_lowercase h, se_port s) | Err _ \<Rightarrow> (se_host s, se_port s))"

definition client_config_wf :: "ClientConfig \<Rightarrow> bool" where
  "client_config_wf c \<longleftrightarrow> distinct (map se_id (cf_systems c)) \<and> distinct (map entry_target (cf_systems c)) \<and>
     (\<forall>s \<in> set (cf_systems c). normalize_host (se_host s) = Ok (se_host s) \<and> 0 < se_port s) \<and>
     cf_refresh_seconds c \<in> {1..3600} \<and> cf_request_timeout_ms c \<in> {100..60000} \<and>
     cf_max_concurrent_requests c \<in> {1..64} \<and>
     1 \<le> display_history (cf_cron c) \<and> display_history (cf_cron c) \<le> cache_history (cf_cron c) \<and>
     display_history (cf_cron c) = cc_display_history (cf_cron c) \<and> cache_history (cf_cron c) = cc_cache_history (cf_cron c)"

lemma system_address_inj:
  "system_address h p = system_address h' p' \<longleftrightarrow> to_ascii_lowercase h = to_ascii_lowercase h' \<and> p = p'"
proof -
  have d: "58 \<notin> set (dec_nat q)" for q by (rule dec_nat_no_sep) (simp add: is_digit_def)
  have "system_address h p = system_address h' p' \<longleftrightarrow> to_ascii_lowercase h = to_ascii_lowercase h' \<and> dec_nat p = dec_nat p'"
    using rsplit_sep_iff [OF d d, of "to_ascii_lowercase h" p "to_ascii_lowercase h'" p']
    by (simp add: system_address_def ustr_def)
  then show ?thesis by (simp add: dec_nat_inj)
qed


lemma validate_system_host_nil:
  assumes "fst (validate_system_host s) = []"
  obtains h where "snd (validate_system_host s) = Some h" "normalize_host (se_host s) = Ok h"
  using assms by (auto simp: validate_system_host_def Let_def normalize_host_def split: if_splits result.splits)

lemma validate_systems_nil:
  assumes "validate_systems ids addresses ss = []"
  shows "distinct (map se_id ss) \<and> set ids \<inter> se_id ` set ss = {} \<and> distinct (map entry_target ss) \<and>
    (\<forall>s \<in> set ss. 0 < se_port s \<and> (\<exists>h. normalize_host (se_host s) = Ok h \<and> system_address h (se_port s) \<notin> set addresses))"
  using assms
proof (induction ids addresses ss rule: validate_systems.induct)
  case (2 ids addresses s ss)
  obtain v n where vn: "validate_system_host s = (v, n)" by force
  from 2(2) have "fst (validate_system_host s) = []" by (simp add: vn)
  then obtain h where h: "snd (validate_system_host s) = Some h" "normalize_host (se_host s) = Ok h"
    by (rule validate_system_host_nil)
  let ?a = "system_address h (se_port s)"
  have n: "n = Some h" using h vn by simp
  have here: "se_id s \<notin> set ids" "?a \<notin> set addresses" "0 < se_port s"
    and rest: "validate_systems (se_id s # ids) (?a # addresses) ss = []"
    using 2(2) by (simp_all add: vn n split: if_splits)
  note IH = 2(1) [OF refl vn [symmetric] refl, simplified n option.map option.case, OF rest]
  have other: "entry_target s \<notin> entry_target ` set ss"
  proof
    assume "entry_target s \<in> entry_target ` set ss"
    then obtain t where t: "t \<in> set ss" "entry_target s = entry_target t" by blast
    then obtain h' where h': "normalize_host (se_host t) = Ok h'" "system_address h' (se_port t) \<notin> set (?a # addresses)"
      using IH by blast
    with t h show False by (simp add: entry_target_def system_address_inj)
  qed
  show ?case using IH here other h by auto
qed simp

lemma client_validate_nil:
  assumes "client_validate c = []"
  shows "distinct (map se_id (cf_systems c))" "distinct (map entry_target (cf_systems c))"
    "s \<in> set (cf_systems c) \<Longrightarrow> 0 < se_port s"
    "cf_refresh_seconds c \<in> {1..3600}" "cf_request_timeout_ms c \<in> {100..60000}" "cf_max_concurrent_requests c \<in> {1..64}"
    "1 \<le> cc_display_history (cf_cron c)" "cc_display_history (cf_cron c) \<le> MAX_DISPLAY_HISTORY"
    "cc_cache_history (cf_cron c) \<le> MAX_CACHE_HISTORY" "cc_display_history (cf_cron c) \<le> cc_cache_history (cf_cron c)"
proof -
  have "validate_systems [] [] (cf_systems c) = []" using assms by (simp add: client_validate_def)
  from validate_systems_nil [OF this]
  show "distinct (map se_id (cf_systems c))" "distinct (map entry_target (cf_systems c))"
    "s \<in> set (cf_systems c) \<Longrightarrow> 0 < se_port s" by auto
qed (use assms in \<open>auto simp: client_validate_def MIN_REFRESH_SECONDS_def MAX_REFRESH_SECONDS_def MIN_REQUEST_TIMEOUT_MS_def
    MAX_REQUEST_TIMEOUT_MS_def MAX_CONCURRENT_REQUESTS_def split: if_splits\<close>)

lemma normalize_system_ok:
  "normalize_system s = Ok t \<Longrightarrow> normalize_host (se_host t) = Ok (se_host t) \<and> se_id t = se_id s \<and> se_port t = se_port s"
  by (auto simp: normalize_system_def split: result.splits dest: normalize_host_idem)

lemma client_parse_wf:
  fixes toml :: "rstr \<Rightarrow> (ClientConfig, 'e) result"
  assumes p: "client_parse toml content = Ok c"
  shows "client_config_wf c"
proof -
  obtain c0 systems eggpool where c: "traverse_result normalize_system (cf_systems c0) =
      (Ok systems :: (SystemEntry list, 'e client_config_error) result)"
    "c = c0\<lparr>cf_systems := systems, cf_eggpool := eggpool\<rparr>" "client_validate c = []"
    using p by (auto simp: client_parse_def Let_def split: result.splits if_splits)
  have "normalize_host (se_host s) = Ok (se_host s)" if "s \<in> set systems" for s
    using c(1) that by (fastforce simp: traverse_result_Ok_iff list_all2_conv_all_nth in_set_conv_nth dest: normalize_system_ok)
  then show ?thesis
    using client_validate_nil [OF c(3)] c(2)
    by (auto simp: client_config_wf_def display_history_def cache_history_def clamp_def)
qed

section \<open>Properties\<close>

text \<open>
  A client configuration that loads has distinct identifiers, hosts that are their own normal
  form, positive ports, pairwise different targets, and settings in range; the cron depths the
  clamping accessors return are the configured ones, and the cache is at least as deep as the display.
\<close>

theorem client_config_guarantees:
  assumes "client_parse toml content = Ok c"
  shows "client_config_wf c"
  using assms by (rule client_parse_wf)

definition example_config :: ClientConfig where
  "example_config = client_config_default\<lparr>cf_systems := [\<lparr>se_id = ustr ''x'', se_host = ustr ''::1'', se_port = 80, se_name = None\<rparr>]\<rparr>"

lemmas config_bounds = SUPPORTED_CONFIG_VERSION_def MIN_REFRESH_SECONDS_def MAX_REFRESH_SECONDS_def MIN_REQUEST_TIMEOUT_MS_def
  MAX_REQUEST_TIMEOUT_MS_def MAX_CONCURRENT_REQUESTS_def DEFAULT_PORT_def MAX_DISPLAY_HISTORY_def MAX_CACHE_HISTORY_def

lemma example_ipv6_normal: "normalize_host (ustr ''::1'') = Ok (ustr ''::1'')"
  using example_ipv6_host example_ipv6_shown by simp

lemma example_systems_valid: "validate_systems [] [] (cf_systems example_config) = []"
proof -
  have "str_trim (ustr ''::1'') = ustr ''::1''" "ustr ''::1'' \<noteq> []" "\<not> host_has_syntax (ustr ''::1'')"
    by (simp_all add: ustr_def str_trim_def is_white_def host_has_syntax_def is_control_def)
  then show ?thesis
    by (simp add: example_config_def validate_system_host_def validate_system_name_def example_ipv6_normal)
qed

lemma example_config_parses: "client_parse (\<lambda>_. Ok example_config) [] = (Ok example_config :: (_, unit client_config_error) result)"
proof -
  have "client_validate example_config = []"
    unfolding client_validate_def example_systems_valid
    by (simp add: example_config_def client_config_default_def config_bounds cron_config_default_def
        DEFAULT_DISPLAY_HISTORY_def DEFAULT_CACHE_HISTORY_def)
  then show ?thesis
    by (simp add: client_parse_def Let_def normalize_system_def example_ipv6_normal example_config_def client_config_default_def)
qed

theorem client_config_guarantees_witness: "client_config_wf example_config"
  using client_config_guarantees [OF example_config_parses] .

text \<open>
  A cache depth of zero is reported twice: as out of range, and as shallower than the display window,
  although the second test is meant for depths that are in range.
\<close>

theorem zero_cache_depth_reported_twice:
  "client_validate (example_config\<lparr>cf_cron := \<lparr>cc_display_history = 5, cc_cache_history = 0\<rparr>\<rparr>) =
     [CV_InvalidCronCacheHistory 0, CV_CronCacheShallowerThanDisplay 0 5]"
proof -
  have "cf_systems (example_config\<lparr>cf_cron := d\<rparr>) = cf_systems example_config" for d by simp
  then show ?thesis
    unfolding client_validate_def
    by (simp only: example_systems_valid) (simp add: example_config_def client_config_default_def config_bounds)
qed

end
