(* ===== verification/Metrics_Validate.thy ===== *)
theory Metrics_Validate
  imports Wire_Validate Metrics_Wire
begin

text \<open>
  Validation of the metrics documents: \<open>crates/gregg-protocol/src/validate.rs\<close> (version 1),
  \<open>validate_v2.rs\<close> (version 2), and the health envelope of \<open>health.rs\<close>.

  As in the scheduler documents, a check that pushes onto the shared violation list returns what
  it pushes. The constructors of the two violation types carry the version as a prefix. A set of
  names already seen is the list of them.

  The lemmas reduce acceptance of a document to a predicate on it (\<open>snapshot_valid\<close>,
  \<open>snapshot_v2_valid\<close>, \<open>payload_valid\<close>), and show that every health response built from a valid
  snapshot or with a category of its state survives its own decoding.
\<close>

section \<open>Constants\<close>

definition WIRE_MAX_SAMPLE_INTERVAL_MS :: nat where "WIRE_MAX_SAMPLE_INTERVAL_MS = 86400000"
definition MAX_IDENTITY_FIELD_BYTES :: nat where "MAX_IDENTITY_FIELD_BYTES = 512"
definition MAX_HEALTH_MESSAGE_BYTES :: nat where "MAX_HEALTH_MESSAGE_BYTES = 512"
definition MAX_DRIVE_ENTRIES :: nat where "MAX_DRIVE_ENTRIES = 32"
definition MAX_DRIVE_NAME_BYTES :: nat where "MAX_DRIVE_NAME_BYTES = 512"
definition MAX_DISK_IO_ENTRIES :: nat where "MAX_DISK_IO_ENTRIES = 32"
definition MAX_NETWORK_INTERFACE_ENTRIES :: nat where "MAX_NETWORK_INTERFACE_ENTRIES = 32"
definition MAX_LIVE_METRIC_ID_BYTES :: nat where "MAX_LIVE_METRIC_ID_BYTES = 512"
definition MAX_LIVE_METRIC_NAME_BYTES :: nat where "MAX_LIVE_METRIC_NAME_BYTES = 512"
definition MAX_RATE_BYTES_PER_SEC :: nat where "MAX_RATE_BYTES_PER_SEC = 2 ^ 40"
definition MAX_CAPACITY_BITS_PER_SEC :: nat where "MAX_CAPACITY_BITS_PER_SEC = 2 ^ 48"
definition MAX_CPU_FREQUENCY_HZ :: nat where "MAX_CPU_FREQUENCY_HZ = 2 ^ 34"

section \<open>Version 1\<close>

datatype ViolationKind =
    V1_UnsupportedSchemaVersion nat
  | V1_ZeroNotAllowed
  | V1_SampleIntervalOutOfRange nat
  | V1_PercentageNotFinite
  | V1_PercentageOutOfRange
  | V1_LoadValueOutOfRange
  | V1_UsedExceedsTotal
  | V1_IowaitCapabilityMismatch
  | V1_InvalidIdentityField

type_synonym violation_v1 = "ViolationKind \<times> rstr"

text \<open>The identity fields with their paths, in the order both versions check them.\<close>

definition identity_fields :: "SystemIdentity \<Rightarrow> (rstr \<times> rstr) list" where
  "identity_fields s =
     [(ustr ''system.name'', si_name s), (ustr ''system.hostname'', si_hostname s),
      (ustr ''system.os_name'', si_os_name s), (ustr ''system.os_version'', si_os_version s),
      (ustr ''system.kernel_name'', si_kernel_name s), (ustr ''system.kernel_release'', si_kernel_release s),
      (ustr ''system.architecture'', si_architecture s)]"

definition validate_identity :: "SystemIdentity \<Rightarrow> violation_v1 list" where
  "validate_identity s =
     concat (map (\<lambda>(field, value).
       if str_trim value = [] \<or> 0 \<in> set value \<or> str_len value > MAX_IDENTITY_FIELD_BYTES
       then [(V1_InvalidIdentityField, field)] else []) (identity_fields s))"

definition check_percentage :: "f32 \<Rightarrow> rstr \<Rightarrow> violation_v1 list" where
  "check_percentage value field =
     (if \<not> f32_is_finite value then [(V1_PercentageNotFinite, field)]
      else if \<not> (f32_le (F32_Fin 0) value \<and> f32_le value (F32_Fin 100)) then [(V1_PercentageOutOfRange, field)]
      else [])"

definition validate_cpu :: "CpuMetrics \<Rightarrow> bool \<Rightarrow> violation_v1 list" where
  "validate_cpu cpu cpu_iowait =
     (if cpu_logical_cores cpu = 0 then [(V1_ZeroNotAllowed, ustr ''cpu.logical_cores'')] else []) @
     check_percentage (cpu_usage_pct cpu) (ustr ''cpu.usage_pct'') @
     (case cpu_iowait_pct cpu of
        None \<Rightarrow> if cpu_iowait then [(V1_IowaitCapabilityMismatch, ustr ''cpu.iowait_pct'')] else []
      | Some value \<Rightarrow> check_percentage value (ustr ''cpu.iowait_pct'') @
          (if \<not> cpu_iowait then [(V1_IowaitCapabilityMismatch, ustr ''cpu.iowait_pct'')] else []))"

definition check_load :: "f32 \<Rightarrow> rstr \<Rightarrow> violation_v1 list" where
  "check_load value field =
     (if \<not> f32_is_finite value \<or> f32_lt value (F32_Fin 0) then [(V1_LoadValueOutOfRange, field)] else [])"

definition validate_load :: "LoadAverage \<Rightarrow> violation_v1 list" where
  "validate_load l = check_load (la_one l) (ustr ''load.one'') @ check_load (la_five l) (ustr ''load.five'') @
     check_load (la_fifteen l) (ustr ''load.fifteen'')"

definition validate_memory :: "MemoryMetrics \<Rightarrow> violation_v1 list" where
  "validate_memory m =
     (let pct = check_percentage (mm_usage_pct m) (ustr ''memory.usage_pct'');
          pct_flagged = pct \<noteq> [] in
      pct @
      (if mm_used_bytes m > mm_total_bytes m then [(V1_UsedExceedsTotal, ustr ''memory.used_bytes'')] else []) @
      (if mm_total_bytes m = 0 \<and> (mm_used_bytes m > 0 \<or> \<not> f32_eq (mm_usage_pct m) (F32_Fin 0)) then
         (V1_ZeroNotAllowed, ustr ''memory.total_bytes'') #
         (if \<not> pct_flagged \<and> \<not> f32_eq (mm_usage_pct m) (F32_Fin 0)
          then [(V1_PercentageOutOfRange, ustr ''memory.usage_pct'')] else [])
       else []))"

definition validate_swap :: "SwapMetrics \<Rightarrow> violation_v1 list" where
  "validate_swap m =
     (let pct = check_percentage (sw_usage_pct m) (ustr ''swap.usage_pct'');
          pct_flagged = pct \<noteq> [] in
      pct @
      (if sw_used_bytes m > sw_total_bytes m then [(V1_UsedExceedsTotal, ustr ''swap.used_bytes'')] else []) @
      (if sw_total_bytes m = 0 \<and> (sw_used_bytes m > 0 \<or> \<not> f32_eq (sw_usage_pct m) (F32_Fin 0)) then
         (V1_ZeroNotAllowed, ustr ''swap.total_bytes'') #
         (if \<not> pct_flagged \<and> \<not> f32_eq (sw_usage_pct m) (F32_Fin 0)
          then [(V1_PercentageOutOfRange, ustr ''swap.usage_pct'')] else [])
       else []))"

definition validate_v1 :: "StatusSnapshot \<Rightarrow> (unit, violation_v1 list) result" where
  "validate_v1 snap =
     (let violations =
        (if ss_schema_version snap \<noteq> SCHEMA_VERSION_V1
         then [(V1_UnsupportedSchemaVersion (ss_schema_version snap), ustr ''schema_version'')] else []) @
        (if ss_observed_at_unix_ms snap = 0 then [(V1_ZeroNotAllowed, ustr ''observed_at_unix_ms'')] else []) @
        (if ss_sample_interval_ms snap = 0 then [(V1_ZeroNotAllowed, ustr ''sample_interval_ms'')]
         else if ss_sample_interval_ms snap > WIRE_MAX_SAMPLE_INTERVAL_MS
         then [(V1_SampleIntervalOutOfRange WIRE_MAX_SAMPLE_INTERVAL_MS, ustr ''sample_interval_ms'')] else []) @
        validate_identity (ss_system snap) @
        validate_cpu (ss_cpu snap) (mc_cpu_iowait (ss_capabilities snap)) @
        validate_load (ss_load snap) @
        validate_memory (ss_memory snap) @
        validate_swap (ss_swap snap)
      in if violations = [] then Ok () else Err violations)"

section \<open>Version 2\<close>

datatype ViolationKindV2 =
    V2_UnsupportedSchemaVersion nat
  | V2_ZeroNotAllowed
  | V2_SampleIntervalOutOfRange nat
  | V2_PercentageNotFinite
  | V2_PercentageOutOfRange
  | V2_LoadValueOutOfRange
  | V2_UsedExceedsTotal
  | V2_AvailableExceedsTotal
  | V2_IowaitCapabilityMismatch
  | V2_LoadCapabilityMismatch
  | V2_SwapCapabilityMismatch
  | V2_CommitCapabilityMismatch
  | V2_EmptyDriveName
  | V2_DriveNameTooLong nat
  | V2_DuplicateDriveName
  | V2_UnknownDriveAssociation
  | V2_TooManyDrives nat
  | V2_CpuFrequencyZero
  | V2_CpuFrequencyExceedsMaximum nat
  | V2_TooManyDiskIoDevices nat
  | V2_DiskIoIdInvalid
  | V2_DiskIoIdTooLong nat
  | V2_DiskIoNameInvalid
  | V2_DiskIoNameTooLong nat
  | V2_DuplicateDiskIoId
  | V2_TooManyNetworkInterfaces nat
  | V2_NetworkInterfaceIdInvalid
  | V2_NetworkInterfaceIdTooLong nat
  | V2_NetworkInterfaceNameInvalid
  | V2_NetworkInterfaceNameTooLong nat
  | V2_DuplicateNetworkInterfaceId
  | V2_ZeroCapacity
  | V2_CapacityExceedsMaximum nat
  | V2_LoopbackAggregateMember
  | V2_RateExceedsMaximum nat
  | V2_InvalidIdentityField

type_synonym violation_v2 = "ViolationKindV2 \<times> rstr"

definition validate_identity_v2 :: "SystemIdentity \<Rightarrow> violation_v2 list" where
  "validate_identity_v2 s =
     concat (map (\<lambda>(field, value).
       if str_trim value = [] \<or> 0 \<in> set value \<or> str_len value > MAX_IDENTITY_FIELD_BYTES
       then [(V2_InvalidIdentityField, field)] else []) (identity_fields s))"

definition check_percentage_v2 :: "f32 \<Rightarrow> rstr \<Rightarrow> violation_v2 list" where
  "check_percentage_v2 value field =
     (if \<not> f32_is_finite value then [(V2_PercentageNotFinite, field)]
      else if \<not> (f32_le (F32_Fin 0) value \<and> f32_le value (F32_Fin 100)) then [(V2_PercentageOutOfRange, field)]
      else [])"

definition validate_cpu_v2 :: "CpuMetricsV2 \<Rightarrow> bool \<Rightarrow> violation_v2 list" where
  "validate_cpu_v2 cpu cpu_iowait =
     (if cp2_logical_cores cpu = 0 then [(V2_ZeroNotAllowed, ustr ''cpu.logical_cores'')] else []) @
     check_percentage_v2 (cp2_usage_pct cpu) (ustr ''cpu.usage_pct'') @
     (case cp2_iowait_pct cpu of
        None \<Rightarrow> if cpu_iowait then [(V2_IowaitCapabilityMismatch, ustr ''cpu.iowait_pct'')] else []
      | Some value \<Rightarrow> check_percentage_v2 value (ustr ''cpu.iowait_pct'') @
          (if \<not> cpu_iowait then [(V2_IowaitCapabilityMismatch, ustr ''cpu.iowait_pct'')] else []))"

definition check_load_v2 :: "f32 \<Rightarrow> rstr \<Rightarrow> violation_v2 list" where
  "check_load_v2 value field =
     (if \<not> f32_is_finite value \<or> f32_lt value (F32_Fin 0) then [(V2_LoadValueOutOfRange, field)] else [])"

definition validate_load_v2 :: "LoadAverage option \<Rightarrow> bool \<Rightarrow> violation_v2 list" where
  "validate_load_v2 load capable =
     (case load of
        None \<Rightarrow> if capable then [(V2_LoadCapabilityMismatch, ustr ''load'')] else []
      | Some l \<Rightarrow> check_load_v2 (la_one l) (ustr ''load.one'') @ check_load_v2 (la_five l) (ustr ''load.five'') @
          check_load_v2 (la_fifteen l) (ustr ''load.fifteen'') @
          (if \<not> capable then [(V2_LoadCapabilityMismatch, ustr ''load'')] else []))"

definition validate_memory_v2 :: "MemoryMetrics \<Rightarrow> violation_v2 list" where
  "validate_memory_v2 m =
     (let pct = check_percentage_v2 (mm_usage_pct m) (ustr ''memory.usage_pct'');
          pct_flagged = pct \<noteq> [] in
      pct @
      (if mm_used_bytes m > mm_total_bytes m then [(V2_UsedExceedsTotal, ustr ''memory.used_bytes'')] else []) @
      (if mm_total_bytes m = 0 \<and> (mm_used_bytes m > 0 \<or> \<not> f32_eq (mm_usage_pct m) (F32_Fin 0)) then
         (V2_ZeroNotAllowed, ustr ''memory.total_bytes'') #
         (if \<not> pct_flagged \<and> \<not> f32_eq (mm_usage_pct m) (F32_Fin 0)
          then [(V2_PercentageOutOfRange, ustr ''memory.usage_pct'')] else [])
       else []))"

definition validate_swap_v2 :: "SwapMetricsV2 option \<Rightarrow> bool \<Rightarrow> violation_v2 list" where
  "validate_swap_v2 swap capable =
     (case swap of
        None \<Rightarrow> if capable then [(V2_SwapCapabilityMismatch, ustr ''swap'')] else []
      | Some s \<Rightarrow>
          (let pct = check_percentage_v2 (s2_usage_pct s) (ustr ''swap.usage_pct'');
               pct_flagged = pct \<noteq> [] in
           pct @
           (if s2_used_bytes s > s2_total_bytes s then [(V2_UsedExceedsTotal, ustr ''swap.used_bytes'')] else []) @
           (if s2_total_bytes s = 0 \<and> (s2_used_bytes s > 0 \<or> \<not> f32_eq (s2_usage_pct s) (F32_Fin 0)) then
              (V2_ZeroNotAllowed, ustr ''swap.total_bytes'') #
              (if \<not> pct_flagged \<and> \<not> f32_eq (s2_usage_pct s) (F32_Fin 0)
               then [(V2_PercentageOutOfRange, ustr ''swap.usage_pct'')] else [])
            else []) @
           (if \<not> capable then [(V2_SwapCapabilityMismatch, ustr ''swap'')] else [])))"

definition validate_commit_v2 :: "CommitMetrics option \<Rightarrow> bool \<Rightarrow> violation_v2 list" where
  "validate_commit_v2 commit capable =
     (case commit of
        None \<Rightarrow> if capable then [(V2_CommitCapabilityMismatch, ustr ''commit'')] else []
      | Some c \<Rightarrow>
          (let pct = check_percentage_v2 (co_usage_pct c) (ustr ''commit.usage_pct'');
               pct_flagged = pct \<noteq> [] in
           pct @
           (if co_used_bytes c > co_limit_bytes c then [(V2_UsedExceedsTotal, ustr ''commit.used_bytes'')] else []) @
           (if co_limit_bytes c = 0 \<and> (co_used_bytes c > 0 \<or> \<not> f32_eq (co_usage_pct c) (F32_Fin 0)) then
              (V2_ZeroNotAllowed, ustr ''commit.limit_bytes'') #
              (if \<not> pct_flagged \<and> \<not> f32_eq (co_usage_pct c) (F32_Fin 0)
               then [(V2_PercentageOutOfRange, ustr ''commit.usage_pct'')] else [])
            else []) @
           (if \<not> capable then [(V2_CommitCapabilityMismatch, ustr ''commit'')] else [])))"

definition v2_violations :: "StatusSnapshotV2 \<Rightarrow> violation_v2 list" where
  "v2_violations snap =
     (if st_schema_version snap \<noteq> SCHEMA_VERSION_V2
      then [(V2_UnsupportedSchemaVersion (st_schema_version snap), ustr ''schema_version'')] else []) @
     (if st_observed_at_unix_ms snap = 0 then [(V2_ZeroNotAllowed, ustr ''observed_at_unix_ms'')] else []) @
     (if st_sample_interval_ms snap = 0 then [(V2_ZeroNotAllowed, ustr ''sample_interval_ms'')]
      else if st_sample_interval_ms snap > WIRE_MAX_SAMPLE_INTERVAL_MS
      then [(V2_SampleIntervalOutOfRange WIRE_MAX_SAMPLE_INTERVAL_MS, ustr ''sample_interval_ms'')] else []) @
     validate_identity_v2 (st_system snap) @
     validate_cpu_v2 (st_cpu snap) (c2_cpu_iowait (st_capabilities snap)) @
     validate_load_v2 (st_load snap) (c2_load_average (st_capabilities snap)) @
     validate_memory_v2 (st_memory snap) @
     validate_swap_v2 (st_swap snap) (c2_swap (st_capabilities snap)) @
     validate_commit_v2 (st_commit snap) (c2_memory_commit (st_capabilities snap))"

definition validate_v2 :: "StatusSnapshotV2 \<Rightarrow> (unit, violation_v2 list) result" where
  "validate_v2 snap = (let violations = v2_violations snap in if violations = [] then Ok () else Err violations)"

text \<open>\<open>{collection}[{index}].{field}\<close>\<close>

definition indexed_field :: "string \<Rightarrow> nat \<Rightarrow> string \<Rightarrow> rstr" where
  "indexed_field collection index field =
     ustr collection @ ustr ''['' @ dec_nat index @ ustr ''].'' @ ustr field"

text \<open>The body of the drive loop without the duplicate test, which the loop adds with its set of names.\<close>

definition validate_drive :: "nat \<Rightarrow> DriveMetrics \<Rightarrow> violation_v2 list" where
  "validate_drive index drive =
     (if str_trim (dm_name drive) = [] \<or> 0 \<in> set (dm_name drive)
      then [(V2_EmptyDriveName, indexed_field ''drives'' index ''name'')] else []) @
     (if str_len (dm_name drive) > MAX_DRIVE_NAME_BYTES
      then [(V2_DriveNameTooLong MAX_DRIVE_NAME_BYTES, indexed_field ''drives'' index ''name'')] else []) @
     (if dm_total_bytes drive = 0 \<and>
         (dm_used_bytes drive > 0 \<or> (case dm_available_bytes drive of Some a \<Rightarrow> a > 0 | None \<Rightarrow> False))
      then [(V2_ZeroNotAllowed, indexed_field ''drives'' index ''total_bytes'')] else []) @
     (if dm_used_bytes drive > dm_total_bytes drive
      then [(V2_UsedExceedsTotal, indexed_field ''drives'' index ''used_bytes'')] else []) @
     (if (case dm_available_bytes drive of Some a \<Rightarrow> a > dm_total_bytes drive | None \<Rightarrow> False)
      then [(V2_AvailableExceedsTotal, indexed_field ''drives'' index ''available_bytes'')] else [])"

text \<open>A loop over \<open>iter().enumerate()\<close> that also inserts a trimmed key into a \<open>HashSet\<close> and reports
  the key that was already there.\<close>

fun check_unique_enum :: "(nat \<Rightarrow> 'a \<Rightarrow> 'v list) \<Rightarrow> ('a \<Rightarrow> rstr) \<Rightarrow> (nat \<Rightarrow> 'v) \<Rightarrow> nat \<Rightarrow> rstr list \<Rightarrow> 'a list \<Rightarrow> 'v list" where
  "check_unique_enum check key duplicate index seen [] = []"
| "check_unique_enum check key duplicate index seen (x # xs) =
     check index x @
     (if key x \<in> set seen then [duplicate index] else []) @
     check_unique_enum check key duplicate (Suc index) (if key x \<in> set seen then seen else key x # seen) xs"

definition check_rate :: "nat \<Rightarrow> rstr \<Rightarrow> violation_v2 list" where
  "check_rate rate field =
     (if rate > MAX_RATE_BYTES_PER_SEC then [(V2_RateExceedsMaximum MAX_RATE_BYTES_PER_SEC, field)] else [])"

definition validate_capacity :: "nat option \<Rightarrow> rstr \<Rightarrow> violation_v2 list" where
  "validate_capacity capacity field =
     (case capacity of
        None \<Rightarrow> []
      | Some bps \<Rightarrow>
          if bps = 0 then [(V2_ZeroCapacity, field)]
          else if bps > MAX_CAPACITY_BITS_PER_SEC
          then [(V2_CapacityExceedsMaximum MAX_CAPACITY_BITS_PER_SEC, field)] else [])"

definition validate_disk_io_name :: "rstr \<Rightarrow> rstr \<Rightarrow> violation_v2 list" where
  "validate_disk_io_name name field =
     (let invalid = str_trim name = [] \<or> 0 \<in> set name;
          too_long = str_len name > MAX_LIVE_METRIC_NAME_BYTES in
      if \<not> invalid \<and> \<not> too_long then []
      else (if invalid then [(V2_DiskIoNameInvalid, field)] else []) @
           (if too_long then [(V2_DiskIoNameTooLong MAX_LIVE_METRIC_NAME_BYTES, field)] else []))"

definition validate_disk_io_device :: "rstr list option \<Rightarrow> nat \<Rightarrow> DiskIoMetrics \<Rightarrow> violation_v2 list" where
  "validate_disk_io_device known_drives index device =
     (if str_trim (dio_id device) = [] \<or> 0 \<in> set (dio_id device)
      then [(V2_DiskIoIdInvalid, indexed_field ''disk_io.devices'' index ''id'')] else []) @
     (if str_len (dio_id device) > MAX_LIVE_METRIC_ID_BYTES
      then [(V2_DiskIoIdTooLong MAX_LIVE_METRIC_ID_BYTES, indexed_field ''disk_io.devices'' index ''id'')] else []) @
     validate_disk_io_name (dio_name device) (indexed_field ''disk_io.devices'' index ''name'') @
     (case dio_drive_name device of
        None \<Rightarrow> []
      | Some drive_name \<Rightarrow>
          validate_disk_io_name drive_name (indexed_field ''disk_io.devices'' index ''drive_name'') @
          (case known_drives of
             None \<Rightarrow> []
           | Some known \<Rightarrow>
               if str_trim drive_name \<notin> set known
               then [(V2_UnknownDriveAssociation, indexed_field ''disk_io.devices'' index ''drive_name'')] else [])) @
     (if dio_read_bytes_per_sec device > MAX_RATE_BYTES_PER_SEC
      then check_rate (dio_read_bytes_per_sec device) (indexed_field ''disk_io.devices'' index ''read_bytes_per_sec'')
      else []) @
     (if dio_write_bytes_per_sec device > MAX_RATE_BYTES_PER_SEC
      then check_rate (dio_write_bytes_per_sec device) (indexed_field ''disk_io.devices'' index ''write_bytes_per_sec'')
      else [])"

definition validate_disk_io :: "DiskIoPayload \<Rightarrow> DriveMetrics list option \<Rightarrow> violation_v2 list" where
  "validate_disk_io disk_io drives =
     check_rate (dp_aggregate_read_bytes_per_sec disk_io) (ustr ''disk_io.aggregate_read_bytes_per_sec'') @
     check_rate (dp_aggregate_write_bytes_per_sec disk_io) (ustr ''disk_io.aggregate_write_bytes_per_sec'') @
     (if length (dp_devices disk_io) > MAX_DISK_IO_ENTRIES
      then [(V2_TooManyDiskIoDevices MAX_DISK_IO_ENTRIES, ustr ''disk_io.devices'')] else []) @
     check_unique_enum
       (validate_disk_io_device (map_option (map (\<lambda>d. str_trim (dm_name d))) drives))
       (\<lambda>d. str_trim (dio_id d))
       (\<lambda>index. (V2_DuplicateDiskIoId, indexed_field ''disk_io.devices'' index ''id'')) 0 [] (dp_devices disk_io)"

definition validate_network_interface :: "nat \<Rightarrow> NetworkInterfaceMetrics \<Rightarrow> violation_v2 list" where
  "validate_network_interface index i =
     (if str_trim (ni_id i) = [] \<or> 0 \<in> set (ni_id i)
      then [(V2_NetworkInterfaceIdInvalid, indexed_field ''network.interfaces'' index ''id'')] else []) @
     (if str_len (ni_id i) > MAX_LIVE_METRIC_ID_BYTES
      then [(V2_NetworkInterfaceIdTooLong MAX_LIVE_METRIC_ID_BYTES, indexed_field ''network.interfaces'' index ''id'')] else []) @
     (if str_trim (ni_name i) = [] \<or> 0 \<in> set (ni_name i)
      then [(V2_NetworkInterfaceNameInvalid, indexed_field ''network.interfaces'' index ''name'')] else []) @
     (if str_len (ni_name i) > MAX_LIVE_METRIC_NAME_BYTES
      then [(V2_NetworkInterfaceNameTooLong MAX_LIVE_METRIC_NAME_BYTES, indexed_field ''network.interfaces'' index ''name'')] else []) @
     (if (case ni_rx_capacity_bps i of Some bps \<Rightarrow> bps = 0 \<or> bps > MAX_CAPACITY_BITS_PER_SEC | None \<Rightarrow> False)
      then validate_capacity (ni_rx_capacity_bps i) (indexed_field ''network.interfaces'' index ''rx_capacity_bps'') else []) @
     (if (case ni_tx_capacity_bps i of Some bps \<Rightarrow> bps = 0 \<or> bps > MAX_CAPACITY_BITS_PER_SEC | None \<Rightarrow> False)
      then validate_capacity (ni_tx_capacity_bps i) (indexed_field ''network.interfaces'' index ''tx_capacity_bps'') else []) @
     (if ni_rx_bytes_per_sec i > MAX_RATE_BYTES_PER_SEC
      then check_rate (ni_rx_bytes_per_sec i) (indexed_field ''network.interfaces'' index ''rx_bytes_per_sec'') else []) @
     (if ni_tx_bytes_per_sec i > MAX_RATE_BYTES_PER_SEC
      then check_rate (ni_tx_bytes_per_sec i) (indexed_field ''network.interfaces'' index ''tx_bytes_per_sec'') else []) @
     (if ni_is_loopback i \<and> ni_aggregate_member i
      then [(V2_LoopbackAggregateMember, indexed_field ''network.interfaces'' index ''aggregate_member'')] else [])"

definition validate_network :: "NetworkPayload \<Rightarrow> violation_v2 list" where
  "validate_network network =
     check_rate (np_aggregate_rx_bytes_per_sec network) (ustr ''network.aggregate_rx_bytes_per_sec'') @
     check_rate (np_aggregate_tx_bytes_per_sec network) (ustr ''network.aggregate_tx_bytes_per_sec'') @
     validate_capacity (np_aggregate_rx_capacity_bps network) (ustr ''network.aggregate_rx_capacity_bps'') @
     validate_capacity (np_aggregate_tx_capacity_bps network) (ustr ''network.aggregate_tx_capacity_bps'') @
     (if length (np_interfaces network) > MAX_NETWORK_INTERFACE_ENTRIES
      then [(V2_TooManyNetworkInterfaces MAX_NETWORK_INTERFACE_ENTRIES, ustr ''network.interfaces'')] else []) @
     check_unique_enum validate_network_interface (\<lambda>i. str_trim (ni_id i))
       (\<lambda>index. (V2_DuplicateNetworkInterfaceId, indexed_field ''network.interfaces'' index ''id'')) 0 []
       (np_interfaces network)"

definition validate_payload_v2 :: "StatusPayloadV2 \<Rightarrow> (unit, violation_v2 list) result" where
  "validate_payload_v2 payload =
     (let violations =
        (case validate_v2 (sp_snapshot payload) of Ok _ \<Rightarrow> [] | Err violations \<Rightarrow> violations) @
        check_opt (\<lambda>drives.
          (if length drives > MAX_DRIVE_ENTRIES then [(V2_TooManyDrives MAX_DRIVE_ENTRIES, ustr ''drives'')] else []) @
          check_unique_enum validate_drive (\<lambda>d. str_trim (dm_name d))
            (\<lambda>index. (V2_DuplicateDriveName, indexed_field ''drives'' index ''name'')) 0 [] drives)
          (sp_drives payload) @
        (if sp_cpu_frequency_hz payload = Some 0 then [(V2_CpuFrequencyZero, ustr ''cpu_frequency_hz'')] else []) @
        (if (case sp_cpu_frequency_hz payload of Some hz \<Rightarrow> hz > MAX_CPU_FREQUENCY_HZ | None \<Rightarrow> False)
         then [(V2_CpuFrequencyExceedsMaximum MAX_CPU_FREQUENCY_HZ, ustr ''cpu_frequency_hz'')] else []) @
        check_opt (\<lambda>disk_io. validate_disk_io disk_io (sp_drives payload)) (sp_disk_io payload) @
        check_opt validate_network (sp_network payload)
      in if violations = [] then Ok () else Err violations)"


section \<open>Health responses\<close>

datatype HealthCategory = CategoryWarming | CollectorFailure | NotServing

definition category_allowed :: "ReadinessState \<Rightarrow> HealthCategory option \<Rightarrow> bool" where
  "category_allowed state category =
     (case state of
        Ready \<Rightarrow> category = None
      | Warming \<Rightarrow> category = Some CategoryWarming
      | ReadinessFailed \<Rightarrow> category = Some CollectorFailure \<or> category = Some NotServing)"

datatype message_error = MessageTooLong | MessageHasNul

definition message_violation :: "rstr \<Rightarrow> message_error option" where
  "message_violation m =
     (if str_len m > MAX_HEALTH_MESSAGE_BYTES then Some MessageTooLong
      else if 0 \<in> set m then Some MessageHasNul else None)"

text \<open>\<open>&s[..n]\<close> for a byte offset on a character boundary, and the test for one.\<close>

fun byte_prefix :: "nat \<Rightarrow> rstr \<Rightarrow> rstr option" where
  "byte_prefix 0 s = Some []"
| "byte_prefix (Suc n) [] = None"
| "byte_prefix (Suc n) (c # s) =
     (if len_utf8 c \<le> Suc n then map_option ((#) c) (byte_prefix (Suc n - len_utf8 c) s) else None)"

fun truncate_at_boundary :: "rstr \<Rightarrow> nat \<Rightarrow> rstr" where
  "truncate_at_boundary s 0 = []"
| "truncate_at_boundary s (Suc n) =
     (case byte_prefix (Suc n) s of Some p \<Rightarrow> p | None \<Rightarrow> truncate_at_boundary s n)"

definition sanitize_health_message :: "rstr \<Rightarrow> rstr" where
  "sanitize_health_message m =
     (let cleaned = map (\<lambda>c. if c = 0 then 0xFFFD else c) m in
      if str_len cleaned \<le> MAX_HEALTH_MESSAGE_BYTES then cleaned
      else truncate_at_boundary cleaned MAX_HEALTH_MESSAGE_BYTES)"

text \<open>
  \<open>HealthResponse\<close> and \<open>HealthResponseV2\<close> differ in the snapshot type and in the schema version,
  which the definitions take as an argument. What serde has decoded into the raw structure is the
  argument of \<open>decode_health\<close>.
\<close>

record 's HealthResponse =
  hr_schema_version :: nat
  hr_state :: ReadinessState
  hr_category :: "HealthCategory option"
  hr_message :: "rstr option"
  hr_snapshot :: "'s option"

datatype health_error =
    HealthSchema nat
  | ReadyWithoutSnapshot
  | ReadyWithCategory
  | ReadyWithMessage
  | SnapshotNotReady
  | FailedCategory
  | WarmingCategory
  | HealthMessage message_error

definition decode_health :: "nat \<Rightarrow> 's HealthResponse \<Rightarrow> ('s HealthResponse, health_error) result" where
  "decode_health version raw =
     (if hr_schema_version raw \<noteq> version then Err (HealthSchema (hr_schema_version raw))
      else result_bind
        (case hr_state raw of
           Ready \<Rightarrow>
             if hr_snapshot raw = None then Err ReadyWithoutSnapshot
             else if hr_category raw \<noteq> None then Err ReadyWithCategory
             else if hr_message raw \<noteq> None then Err ReadyWithMessage
             else Ok ()
         | ReadinessFailed \<Rightarrow>
             if hr_snapshot raw \<noteq> None then Err SnapshotNotReady
             else if \<not> category_allowed (hr_state raw) (hr_category raw) then Err FailedCategory
             else Ok ()
         | Warming \<Rightarrow>
             if hr_snapshot raw \<noteq> None then Err SnapshotNotReady
             else if \<not> category_allowed (hr_state raw) (hr_category raw) then Err WarmingCategory
             else Ok ())
        (\<lambda>_. case hr_message raw of
               Some m \<Rightarrow> (case message_violation m of Some reason \<Rightarrow> Err (HealthMessage reason) | None \<Rightarrow> Ok raw)
             | None \<Rightarrow> Ok raw))"

definition health_ready :: "nat \<Rightarrow> 's \<Rightarrow> 's HealthResponse" where
  "health_ready version snapshot =
     \<lparr>hr_schema_version = version, hr_state = Ready, hr_category = None, hr_message = None,
      hr_snapshot = Some snapshot\<rparr>"

definition health_try_ready :: "nat \<Rightarrow> ('s \<Rightarrow> (unit, 'v) result) \<Rightarrow> 's \<Rightarrow> ('s HealthResponse, 'v) result" where
  "health_try_ready version validate snapshot =
     result_bind (validate snapshot) (\<lambda>_. Ok (health_ready version snapshot))"

definition health_warming_with_message :: "nat \<Rightarrow> rstr \<Rightarrow> 's HealthResponse" where
  "health_warming_with_message version message =
     \<lparr>hr_schema_version = version, hr_state = Warming, hr_category = Some CategoryWarming,
      hr_message = Some (sanitize_health_message message), hr_snapshot = None\<rparr>"

definition health_warming :: "nat \<Rightarrow> 's HealthResponse" where
  "health_warming version = health_warming_with_message version (ustr ''collector warming up'')"

definition health_try_warming_with_message :: "nat \<Rightarrow> rstr \<Rightarrow> ('s HealthResponse, message_error) result" where
  "health_try_warming_with_message version message =
     (case message_violation message of
        Some reason \<Rightarrow> Err reason
      | None \<Rightarrow> Ok \<lparr>hr_schema_version = version, hr_state = Warming, hr_category = Some CategoryWarming,
          hr_message = Some message, hr_snapshot = None\<rparr>)"

definition health_failed :: "nat \<Rightarrow> HealthCategory \<Rightarrow> rstr \<Rightarrow> 's HealthResponse" where
  "health_failed version category message =
     \<lparr>hr_schema_version = version, hr_state = ReadinessFailed, hr_category = Some category,
      hr_message = Some (sanitize_health_message message), hr_snapshot = None\<rparr>"

definition health_try_failed :: "nat \<Rightarrow> HealthCategory \<Rightarrow> rstr \<Rightarrow> ('s HealthResponse, message_error) result" where
  "health_try_failed version category message =
     (case message_violation message of
        Some reason \<Rightarrow> Err reason
      | None \<Rightarrow> Ok \<lparr>hr_schema_version = version, hr_state = ReadinessFailed, hr_category = Some category,
          hr_message = Some message, hr_snapshot = None\<rparr>)"

section \<open>What validates\<close>

definition percent_ok :: "f32 \<Rightarrow> bool" where
  "percent_ok v \<longleftrightarrow> (case v of F32_Fin r \<Rightarrow> 0 \<le> r \<and> r \<le> 100 | _ \<Rightarrow> False)"

definition load_value_ok :: "f32 \<Rightarrow> bool" where
  "load_value_ok v \<longleftrightarrow> (case v of F32_Fin r \<Rightarrow> 0 \<le> r | _ \<Rightarrow> False)"

definition label_ok :: "nat \<Rightarrow> rstr \<Rightarrow> bool" where
  "label_ok n s \<longleftrightarrow> str_trim s \<noteq> [] \<and> 0 \<notin> set s \<and> str_len s \<le> n"

definition identity_ok :: "SystemIdentity \<Rightarrow> bool" where
  "identity_ok s \<longleftrightarrow> (\<forall>(f, v) \<in> set (identity_fields s). label_ok MAX_IDENTITY_FIELD_BYTES v)"

text \<open>Usage of a pool: within its size, a percentage, and all zero when the pool is empty.\<close>

definition usage_ok :: "nat \<Rightarrow> nat \<Rightarrow> f32 \<Rightarrow> bool" where
  "usage_ok used size_bytes pct \<longleftrightarrow> used \<le> size_bytes \<and> percent_ok pct \<and> (size_bytes = 0 \<longrightarrow> pct = F32_Fin 0)"

definition load_ok :: "LoadAverage \<Rightarrow> bool" where
  "load_ok l \<longleftrightarrow> load_value_ok (la_one l) \<and> load_value_ok (la_five l) \<and> load_value_ok (la_fifteen l)"

text \<open>A value is present exactly when the platform declares it, and then well-formed.\<close>

definition present_iff :: "bool \<Rightarrow> ('a \<Rightarrow> bool) \<Rightarrow> 'a option \<Rightarrow> bool" where
  "present_iff capable P x \<longleftrightarrow> (case x of None \<Rightarrow> \<not> capable | Some v \<Rightarrow> capable \<and> P v)"

definition sampling_ok :: "nat \<Rightarrow> nat \<Rightarrow> bool" where
  "sampling_ok observed interval \<longleftrightarrow> 0 < observed \<and> 0 < interval \<and> interval \<le> WIRE_MAX_SAMPLE_INTERVAL_MS"

definition snapshot_valid :: "StatusSnapshot \<Rightarrow> bool" where
  "snapshot_valid s \<longleftrightarrow> ss_schema_version s = 1 \<and> sampling_ok (ss_observed_at_unix_ms s) (ss_sample_interval_ms s) \<and>
     identity_ok (ss_system s) \<and> 0 < cpu_logical_cores (ss_cpu s) \<and> percent_ok (cpu_usage_pct (ss_cpu s)) \<and>
     present_iff (mc_cpu_iowait (ss_capabilities s)) percent_ok (cpu_iowait_pct (ss_cpu s)) \<and> load_ok (ss_load s) \<and>
     usage_ok (mm_used_bytes (ss_memory s)) (mm_total_bytes (ss_memory s)) (mm_usage_pct (ss_memory s)) \<and>
     usage_ok (sw_used_bytes (ss_swap s)) (sw_total_bytes (ss_swap s)) (sw_usage_pct (ss_swap s))"

definition snapshot_v2_valid :: "StatusSnapshotV2 \<Rightarrow> bool" where
  "snapshot_v2_valid s \<longleftrightarrow> st_schema_version s = 2 \<and> sampling_ok (st_observed_at_unix_ms s) (st_sample_interval_ms s) \<and>
     identity_ok (st_system s) \<and> 0 < cp2_logical_cores (st_cpu s) \<and> percent_ok (cp2_usage_pct (st_cpu s)) \<and>
     present_iff (c2_cpu_iowait (st_capabilities s)) percent_ok (cp2_iowait_pct (st_cpu s)) \<and>
     present_iff (c2_load_average (st_capabilities s)) load_ok (st_load s) \<and>
     usage_ok (mm_used_bytes (st_memory s)) (mm_total_bytes (st_memory s)) (mm_usage_pct (st_memory s)) \<and>
     present_iff (c2_swap (st_capabilities s)) (\<lambda>w. usage_ok (s2_used_bytes w) (s2_total_bytes w) (s2_usage_pct w)) (st_swap s) \<and>
     present_iff (c2_memory_commit (st_capabilities s))
       (\<lambda>c. usage_ok (co_used_bytes c) (co_limit_bytes c) (co_usage_pct c)) (st_commit s)"

definition drive_ok :: "DriveMetrics \<Rightarrow> bool" where
  "drive_ok d \<longleftrightarrow> label_ok MAX_DRIVE_NAME_BYTES (dm_name d) \<and> dm_used_bytes d \<le> dm_total_bytes d \<and>
     opt_ok (\<lambda>a. a \<le> dm_total_bytes d) (dm_available_bytes d)"

definition capacity_ok :: "nat option \<Rightarrow> bool" where
  "capacity_ok c \<longleftrightarrow> opt_ok (\<lambda>bps. 0 < bps \<and> bps \<le> MAX_CAPACITY_BITS_PER_SEC) c"

definition device_ok :: "DriveMetrics list option \<Rightarrow> DiskIoMetrics \<Rightarrow> bool" where
  "device_ok drives d \<longleftrightarrow> label_ok MAX_LIVE_METRIC_ID_BYTES (dio_id d) \<and> label_ok MAX_LIVE_METRIC_NAME_BYTES (dio_name d) \<and>
     opt_ok (\<lambda>n. label_ok MAX_LIVE_METRIC_NAME_BYTES n \<and>
       opt_ok (\<lambda>ds. \<exists>drive \<in> set ds. str_trim (dm_name drive) = str_trim n) drives) (dio_drive_name d) \<and>
     dio_read_bytes_per_sec d \<le> MAX_RATE_BYTES_PER_SEC \<and> dio_write_bytes_per_sec d \<le> MAX_RATE_BYTES_PER_SEC"

definition interface_ok :: "NetworkInterfaceMetrics \<Rightarrow> bool" where
  "interface_ok i \<longleftrightarrow> label_ok MAX_LIVE_METRIC_ID_BYTES (ni_id i) \<and> label_ok MAX_LIVE_METRIC_NAME_BYTES (ni_name i) \<and>
     capacity_ok (ni_rx_capacity_bps i) \<and> capacity_ok (ni_tx_capacity_bps i) \<and>
     ni_rx_bytes_per_sec i \<le> MAX_RATE_BYTES_PER_SEC \<and> ni_tx_bytes_per_sec i \<le> MAX_RATE_BYTES_PER_SEC \<and>
     \<not> (ni_is_loopback i \<and> ni_aggregate_member i)"

definition disk_io_ok :: "DriveMetrics list option \<Rightarrow> DiskIoPayload \<Rightarrow> bool" where
  "disk_io_ok drives p \<longleftrightarrow> dp_aggregate_read_bytes_per_sec p \<le> MAX_RATE_BYTES_PER_SEC \<and>
     dp_aggregate_write_bytes_per_sec p \<le> MAX_RATE_BYTES_PER_SEC \<and> length (dp_devices p) \<le> MAX_DISK_IO_ENTRIES \<and>
     (\<forall>d \<in> set (dp_devices p). device_ok drives d) \<and> distinct (map (\<lambda>d. str_trim (dio_id d)) (dp_devices p))"

definition network_ok :: "NetworkPayload \<Rightarrow> bool" where
  "network_ok n \<longleftrightarrow> np_aggregate_rx_bytes_per_sec n \<le> MAX_RATE_BYTES_PER_SEC \<and>
     np_aggregate_tx_bytes_per_sec n \<le> MAX_RATE_BYTES_PER_SEC \<and> capacity_ok (np_aggregate_rx_capacity_bps n) \<and>
     capacity_ok (np_aggregate_tx_capacity_bps n) \<and> length (np_interfaces n) \<le> MAX_NETWORK_INTERFACE_ENTRIES \<and>
     (\<forall>i \<in> set (np_interfaces n). interface_ok i) \<and> distinct (map (\<lambda>i. str_trim (ni_id i)) (np_interfaces n))"

definition payload_valid :: "StatusPayloadV2 \<Rightarrow> bool" where
  "payload_valid p \<longleftrightarrow> snapshot_v2_valid (sp_snapshot p) \<and>
     opt_ok (\<lambda>ds. length ds \<le> MAX_DRIVE_ENTRIES \<and> (\<forall>d \<in> set ds. drive_ok d) \<and>
       distinct (map (\<lambda>d. str_trim (dm_name d)) ds)) (sp_drives p) \<and>
     opt_ok (\<lambda>hz. 0 < hz \<and> hz \<le> MAX_CPU_FREQUENCY_HZ) (sp_cpu_frequency_hz p) \<and>
     opt_ok (disk_io_ok (sp_drives p)) (sp_disk_io p) \<and> opt_ok network_ok (sp_network p)"

lemma check_percentage_nil [check_nil]:
  "check_percentage v f = [] \<longleftrightarrow> percent_ok v" "check_percentage_v2 v f = [] \<longleftrightarrow> percent_ok v"
  by (cases v; auto simp: check_percentage_def check_percentage_v2_def percent_ok_def)+

lemma check_load_nil [check_nil]:
  "check_load v f = [] \<longleftrightarrow> load_value_ok v" "check_load_v2 v f = [] \<longleftrightarrow> load_value_ok v"
  by (cases v; auto simp: check_load_def check_load_v2_def load_value_ok_def)+

lemma validate_identity_nil [check_nil]:
  "validate_identity s = [] \<longleftrightarrow> identity_ok s" "validate_identity_v2 s = [] \<longleftrightarrow> identity_ok s"
  by (auto simp: validate_identity_def validate_identity_v2_def identity_ok_def label_ok_def identity_fields_def not_less)

lemma f32_eq_zero: "f32_eq v (F32_Fin 0) \<longleftrightarrow> v = F32_Fin 0"
  by (auto simp: f32_eq_def)

lemma validate_cpu_nil [check_nil]:
  "validate_cpu c b = [] \<longleftrightarrow> 0 < cpu_logical_cores c \<and> percent_ok (cpu_usage_pct c) \<and> present_iff b percent_ok (cpu_iowait_pct c)"
  "validate_cpu_v2 c2 b = [] \<longleftrightarrow> 0 < cp2_logical_cores c2 \<and> percent_ok (cp2_usage_pct c2) \<and> present_iff b percent_ok (cp2_iowait_pct c2)"
  by (auto simp: validate_cpu_def validate_cpu_v2_def present_iff_def check_nil split: option.splits if_splits)

lemma validate_load_nil [check_nil]:
  "validate_load l = [] \<longleftrightarrow> load_ok l" "validate_load_v2 lo b = [] \<longleftrightarrow> present_iff b load_ok lo"
  by (auto simp: validate_load_def validate_load_v2_def load_ok_def present_iff_def check_nil split: option.splits)

lemma percent_ok_zero: "percent_ok (F32_Fin 0)"
  by (simp add: percent_ok_def)

lemma validate_pool_nil [check_nil]:
  "validate_memory m = [] \<longleftrightarrow> usage_ok (mm_used_bytes m) (mm_total_bytes m) (mm_usage_pct m)"
  "validate_memory_v2 m = [] \<longleftrightarrow> usage_ok (mm_used_bytes m) (mm_total_bytes m) (mm_usage_pct m)"
  "validate_swap w = [] \<longleftrightarrow> usage_ok (sw_used_bytes w) (sw_total_bytes w) (sw_usage_pct w)"
  by (auto simp: validate_memory_def validate_memory_v2_def validate_swap_def usage_ok_def Let_def check_nil f32_eq_zero not_less)

lemma validate_optional_pool_nil [check_nil]:
  "validate_swap_v2 s b = [] \<longleftrightarrow> present_iff b (\<lambda>w. usage_ok (s2_used_bytes w) (s2_total_bytes w) (s2_usage_pct w)) s"
  "validate_commit_v2 c b = [] \<longleftrightarrow> present_iff b (\<lambda>c. usage_ok (co_used_bytes c) (co_limit_bytes c) (co_usage_pct c)) c"
  by (auto simp: validate_swap_v2_def validate_commit_v2_def usage_ok_def present_iff_def Let_def check_nil f32_eq_zero not_less
      split: option.splits)

lemma validate_v1_iff: "validate_v1 s = Ok () \<longleftrightarrow> snapshot_valid s"
  by (auto simp: validate_v1_def Let_def snapshot_valid_def SCHEMA_VERSION_V1_def sampling_ok_def check_nil)

lemma v2_violations_nil [check_nil]: "v2_violations s = [] \<longleftrightarrow> snapshot_v2_valid s"
  by (auto simp: v2_violations_def snapshot_v2_valid_def SCHEMA_VERSION_V2_def sampling_ok_def check_nil)

lemma validate_v2_iff: "validate_v2 s = Ok () \<longleftrightarrow> snapshot_v2_valid s"
  by (simp add: validate_v2_def Let_def check_nil)

lemma check_unique_enum_nil:
  assumes "\<And>i x. check i x = [] \<longleftrightarrow> P x"
  shows "check_unique_enum check key dup i seen xs = [] \<longleftrightarrow>
    (\<forall>x \<in> set xs. P x) \<and> distinct (map key xs) \<and> set seen \<inter> key ` set xs = {}"
  by (induction xs arbitrary: i seen) (auto simp: assms)

lemma validate_drive_nil [check_nil]: "validate_drive i d = [] \<longleftrightarrow> drive_ok d"
  by (auto simp: validate_drive_def drive_ok_def label_ok_def opt_ok_def not_less split: option.splits)

lemma check_rate_nil [check_nil]: "check_rate r f = [] \<longleftrightarrow> r \<le> MAX_RATE_BYTES_PER_SEC"
  by (simp add: check_rate_def)

lemma validate_capacity_nil [check_nil]: "validate_capacity c f = [] \<longleftrightarrow> capacity_ok c"
  by (auto simp: validate_capacity_def capacity_ok_def opt_ok_def split: option.splits)

lemma validate_disk_io_name_nil [check_nil]:
  "validate_disk_io_name n f = [] \<longleftrightarrow> label_ok MAX_LIVE_METRIC_NAME_BYTES n"
  by (auto simp: validate_disk_io_name_def label_ok_def Let_def)

lemma validate_disk_io_device_nil [check_nil]:
  "validate_disk_io_device (map_option (map (\<lambda>d. str_trim (dm_name d))) drives) i d = [] \<longleftrightarrow> device_ok drives d"
  by (auto simp: validate_disk_io_device_def device_ok_def label_ok_def opt_ok_def check_nil not_less image_iff split: option.splits)

lemma validate_disk_io_nil [check_nil]: "validate_disk_io p drives = [] \<longleftrightarrow> disk_io_ok drives p"
  by (auto simp: validate_disk_io_def disk_io_ok_def check_nil check_unique_enum_nil [OF validate_disk_io_device_nil])

lemma guarded_capacity_nil:
  "(case c of Some bps \<Rightarrow> bps = 0 \<or> bps > MAX_CAPACITY_BITS_PER_SEC | None \<Rightarrow> False) \<longleftrightarrow> \<not> capacity_ok c"
  by (auto simp: capacity_ok_def opt_ok_def split: option.splits)

lemma validate_network_interface_nil [check_nil]: "validate_network_interface j i = [] \<longleftrightarrow> interface_ok i"
  by (auto simp: validate_network_interface_def guarded_capacity_nil interface_ok_def label_ok_def check_nil not_less)

lemma validate_network_nil [check_nil]: "validate_network n = [] \<longleftrightarrow> network_ok n"
  by (auto simp: validate_network_def network_ok_def check_nil check_unique_enum_nil [OF validate_network_interface_nil])

lemma validate_payload_iff: "validate_payload_v2 p = Ok () \<longleftrightarrow> payload_valid p"
  by (auto simp: validate_payload_v2_def validate_v2_def Let_def payload_valid_def check_nil opt_ok_def
      check_unique_enum_nil [OF validate_drive_nil] split: option.splits if_splits)

section \<open>Health messages\<close>

lemma byte_prefix_len: "byte_prefix n s = Some p \<Longrightarrow> str_len p = n \<and> set p \<subseteq> set s"
  by (induction n s arbitrary: p rule: byte_prefix.induct) (fastforce split: if_splits)+

lemma truncate_at_boundary_len: "str_len (truncate_at_boundary s n) \<le> n \<and> set (truncate_at_boundary s n) \<subseteq> set s"
  by (induction n) (auto split: option.splits dest: byte_prefix_len)

lemma sanitized_message_ok: "message_violation (sanitize_health_message m) = None"
proof -
  let ?c = "map (\<lambda>c. if c = 0 then 0xFFFD else c) m"
  have "0 \<notin> set ?c" by auto
  then show ?thesis
    using truncate_at_boundary_len [of ?c MAX_HEALTH_MESSAGE_BYTES]
    by (auto simp: message_violation_def sanitize_health_message_def Let_def)
qed

lemma decode_health_ready: "decode_health v (health_ready v s) = Ok (health_ready v s)"
  by (simp add: decode_health_def health_ready_def)

lemma decode_health_warming: "decode_health v (health_warming_with_message v m) = Ok (health_warming_with_message v m)"
  by (simp add: decode_health_def health_warming_with_message_def category_allowed_def sanitized_message_ok)

lemma decode_health_failed:
  "decode_health v (health_failed v c m) = (if c = CategoryWarming then Err FailedCategory else Ok (health_failed v c m))"
  by (cases c) (simp_all add: decode_health_def health_failed_def category_allowed_def sanitized_message_ok)

section \<open>Properties\<close>

text \<open>
  A version 2 status payload validates exactly when every metric is well-formed (finite
  percentages, usage within size, zero percentages on empty pools), each optional metric is
  present exactly when the platform declares it, names and identifiers are bounded and distinct
  after trimming, rates, capacities and the frequency are in range, every disk device names a
  drive of the payload, and no loopback interface counts into the aggregate.
\<close>

theorem validate_payload_characterised: "validate_payload_v2 p = Ok () \<longleftrightarrow> payload_valid p"
  by (rule validate_payload_iff)

text \<open>
  The health responses the constructors build are accepted by the decoder of the same schema
  version, whatever the message: \<open>ready\<close>, \<open>warming\<close> and \<open>failed\<close> with a terminal category decode to
  themselves; \<open>failed\<close> with the warming category is the one pair that the decoder rejects.
\<close>

theorem health_constructors_decode:
  "decode_health v (health_ready v s) = Ok (health_ready v s) \<and>
   decode_health v (health_warming_with_message v m :: 's HealthResponse) = Ok (health_warming_with_message v m) \<and>
   decode_health v (health_failed v c m :: 's HealthResponse) =
     (if c = CategoryWarming then Err FailedCategory else Ok (health_failed v c m))"
  by (simp add: decode_health_ready decode_health_warming decode_health_failed)

end
