(* ===== verification/Client_Poller.thy ===== *)
theory Client_Poller
  imports Client_Endpoint Metrics_Validate
begin

text \<open>
  The metrics poller of the client (\<open>crates/gregg/src/poller.rs\<close>) and its scheduler
  (\<open>crates/gregg/src/scheduler.rs\<close>): one poll with its version negotiation and failure
  classification, the prepared targets, one generation over all endpoints, and the loop that
  numbers and delivers generations.

  The HTTP client and the JSON decoder are parameters. What the runtime decides is an argument of
  the step that meets it: the clock readings of a poll, whether a task was cancelled or panicked,
  which branch of the \<open>select!\<close> fired, and how the channel took a batch. Instants are natural numbers.

  The lemmas show that the prepared path polls as the direct one does, that an online outcome
  carries a validated document, that a generation has one result per endpoint in order, and that
  the batches of a run carry consecutive generations.
\<close>

section \<open>Outcomes\<close>

datatype PollOutcome =
    PO_Online StatusSnapshot
  | PO_OnlineV2 StatusPayloadV2
  | PO_Timeout
  | PO_ConnectionRefused
  | PO_DnsFailure
  | PO_NetworkError
  | PO_HttpStatus nat
  | PO_BodyTooLarge
  | PO_DecodeError
  | PO_UnsupportedSchema
  | PO_InvalidSnapshot
  | PO_Cancelled

record PollResult =
  pr_system_id :: rstr
  pr_endpoint :: Endpoint
  pr_outcome :: PollOutcome
  pr_latency :: nat

datatype OfflineKind =
    OK_Timeout | OK_Dns | OK_Refused | OK_Network | OK_Http | OK_TooLarge | OK_Invalid | OK_Unsupported | OK_Cancelled

record OfflineReason =
  or_kind :: OfflineKind
  or_detail :: "rstr option"

definition reason_new :: "OfflineKind \<Rightarrow> OfflineReason" where
  "reason_new kind = \<lparr>or_kind = kind, or_detail = None\<rparr>"

definition reason_with_detail :: "OfflineKind \<Rightarrow> rstr \<Rightarrow> OfflineReason" where
  "reason_with_detail kind detail =
     (let flat = str_trim (take 120 (filter (\<lambda>c. \<not> is_control c) detail)) in
      \<lparr>or_kind = kind, or_detail = (if flat = [] then None else Some flat)\<rparr>)"

fun offline_reason :: "PollOutcome \<Rightarrow> OfflineReason option" where
  "offline_reason (PO_Online _) = None"
| "offline_reason (PO_OnlineV2 _) = None"
| "offline_reason PO_Timeout = Some (reason_new OK_Timeout)"
| "offline_reason PO_DnsFailure = Some (reason_new OK_Dns)"
| "offline_reason PO_ConnectionRefused = Some (reason_new OK_Refused)"
| "offline_reason PO_NetworkError = Some (reason_new OK_Network)"
| "offline_reason (PO_HttpStatus status) = Some (reason_with_detail OK_Http (ustr ''HTTP '' @ dec_nat status))"
| "offline_reason PO_BodyTooLarge = Some (reason_new OK_TooLarge)"
| "offline_reason PO_DecodeError = Some (reason_new OK_Invalid)"
| "offline_reason PO_InvalidSnapshot = Some (reason_new OK_Invalid)"
| "offline_reason PO_UnsupportedSchema = Some (reason_new OK_Unsupported)"
| "offline_reason PO_Cancelled = Some (reason_new OK_Cancelled)"

record PollBatch =
  pb_generation :: nat
  pb_started_at :: nat
  pb_completed_at :: nat
  pb_results :: "PollResult list"

section \<open>The HTTP client\<close>

text \<open>What the code asks of a failed request and of a failed body, and what one request gives.\<close>

datatype NetworkFailureKind = NF_Dns | NF_ConnectionRefused | NF_Connect | NF_Other

record request_failure =
  rf_body_too_large :: bool
  rf_is_timeout :: bool
  rf_kind :: "NetworkFailureKind option"

datatype body_error = BE_TooLarge | BE_Timeout | BE_Other

datatype request_reply =
    RR_BuildFailed
  | RR_SendFailed request_failure
  | RR_Response nat "(byte list, body_error) result"

record http_client =
  hc_get :: "rstr \<Rightarrow> request_reply"
  hc_v1 :: "byte list \<Rightarrow> StatusSnapshot option"
  hc_v2 :: "byte list \<Rightarrow> StatusPayloadV2 option"

definition status_is_success :: "nat \<Rightarrow> bool" where
  "status_is_success status \<longleftrightarrow> 200 \<le> status \<and> status < 300"

definition classify_eggfetch_failure :: "request_failure \<Rightarrow> PollOutcome" where
  "classify_eggfetch_failure failure =
     (if rf_body_too_large failure then PO_BodyTooLarge
      else if rf_is_timeout failure then PO_Timeout
      else case rf_kind failure of
             Some NF_Dns \<Rightarrow> PO_DnsFailure
           | Some NF_ConnectionRefused \<Rightarrow> PO_ConnectionRefused
           | _ \<Rightarrow> PO_NetworkError)"

section \<open>One poll\<close>

definition make_result :: "Endpoint \<Rightarrow> PollOutcome \<Rightarrow> nat \<Rightarrow> nat \<Rightarrow> PollResult" where
  "make_result endpoint outcome start finish =
     \<lparr>pr_system_id = en_id endpoint, pr_endpoint = endpoint, pr_outcome = outcome, pr_latency = finish - start\<rparr>"

definition make_result_owned :: "Endpoint \<Rightarrow> PollOutcome \<Rightarrow> nat \<Rightarrow> nat \<Rightarrow> PollResult" where
  "make_result_owned endpoint outcome start finish =
     \<lparr>pr_system_id = en_id endpoint, pr_endpoint = endpoint, pr_outcome = outcome, pr_latency = finish - start\<rparr>"

datatype ExpectedSchema = Schema_V1 | Schema_V2

definition parse_response :: "http_client \<Rightarrow> byte list \<Rightarrow> Endpoint \<Rightarrow> ExpectedSchema \<Rightarrow> nat \<Rightarrow> nat \<Rightarrow> PollResult" where
  "parse_response cl body endpoint expected_schema start finish =
     (if expected_schema = Schema_V2 then
        (case hc_v2 cl body of
           None \<Rightarrow> make_result endpoint PO_DecodeError start finish
         | Some payload \<Rightarrow>
             if st_schema_version (sp_snapshot payload) \<noteq> SCHEMA_VERSION_V2
             then make_result endpoint PO_UnsupportedSchema start finish
             else if \<not> is_ok (validate_payload_v2 payload)
             then make_result endpoint PO_InvalidSnapshot start finish
             else make_result endpoint (PO_OnlineV2 payload) start finish)
      else
        (case hc_v1 cl body of
           None \<Rightarrow> make_result endpoint PO_DecodeError start finish
         | Some snapshot \<Rightarrow>
             if ss_schema_version snapshot \<noteq> SCHEMA_VERSION_V1
             then make_result endpoint PO_UnsupportedSchema start finish
             else if \<not> is_ok (validate_v1 snapshot)
             then make_result endpoint PO_InvalidSnapshot start finish
             else make_result endpoint (PO_Online snapshot) start finish))"

definition parse_response_owned :: "http_client \<Rightarrow> byte list \<Rightarrow> Endpoint \<Rightarrow> ExpectedSchema \<Rightarrow> nat \<Rightarrow> nat \<Rightarrow> PollResult" where
  "parse_response_owned cl body endpoint expected_schema start finish =
     (if expected_schema = Schema_V2 then
        (case hc_v2 cl body of
           None \<Rightarrow> make_result_owned endpoint PO_DecodeError start finish
         | Some payload \<Rightarrow>
             if st_schema_version (sp_snapshot payload) \<noteq> SCHEMA_VERSION_V2
             then make_result_owned endpoint PO_UnsupportedSchema start finish
             else if \<not> is_ok (validate_payload_v2 payload)
             then make_result_owned endpoint PO_InvalidSnapshot start finish
             else make_result_owned endpoint (PO_OnlineV2 payload) start finish)
      else
        (case hc_v1 cl body of
           None \<Rightarrow> make_result_owned endpoint PO_DecodeError start finish
         | Some snapshot \<Rightarrow>
             if ss_schema_version snapshot \<noteq> SCHEMA_VERSION_V1
             then make_result_owned endpoint PO_UnsupportedSchema start finish
             else if \<not> is_ok (validate_v1 snapshot)
             then make_result_owned endpoint PO_InvalidSnapshot start finish
             else make_result_owned endpoint (PO_Online snapshot) start finish))"

definition classify_body_failure :: "body_error \<Rightarrow> PollOutcome" where
  "classify_body_failure e = (case e of BE_TooLarge \<Rightarrow> PO_BodyTooLarge | BE_Timeout \<Rightarrow> PO_Timeout | BE_Other \<Rightarrow> PO_NetworkError)"

definition poll_single_url :: "http_client \<Rightarrow> rstr \<Rightarrow> Endpoint \<Rightarrow> ExpectedSchema \<Rightarrow> nat \<Rightarrow> nat \<Rightarrow> PollResult" where
  "poll_single_url cl url endpoint expected_schema start finish =
     (case hc_get cl url of
        RR_BuildFailed \<Rightarrow> make_result endpoint PO_NetworkError start finish
      | RR_SendFailed failure \<Rightarrow> make_result endpoint (classify_eggfetch_failure failure) start finish
      | RR_Response status body \<Rightarrow>
          if \<not> status_is_success status then make_result endpoint (PO_HttpStatus status) start finish
          else (case body of
                  Err e \<Rightarrow> make_result endpoint (classify_body_failure e) start finish
                | Ok bytes \<Rightarrow> parse_response cl bytes endpoint expected_schema start finish))"

definition poll_single_url_owned :: "http_client \<Rightarrow> rstr \<Rightarrow> Endpoint \<Rightarrow> ExpectedSchema \<Rightarrow> nat \<Rightarrow> nat \<Rightarrow> PollResult" where
  "poll_single_url_owned cl url endpoint expected_schema start finish =
     (case hc_get cl url of
        RR_BuildFailed \<Rightarrow> make_result_owned endpoint PO_NetworkError start finish
      | RR_SendFailed failure \<Rightarrow> make_result_owned endpoint (classify_eggfetch_failure failure) start finish
      | RR_Response status body \<Rightarrow>
          if \<not> status_is_success status then make_result_owned endpoint (PO_HttpStatus status) start finish
          else (case body of
                  Err e \<Rightarrow> make_result_owned endpoint (classify_body_failure e) start finish
                | Ok bytes \<Rightarrow> parse_response_owned cl bytes endpoint expected_schema start finish))"

text \<open>\<open>finish_v2\<close> and \<open>finish_v1\<close> are the clock readings at the end of the two requests.\<close>

definition poll :: "http_client \<Rightarrow> Endpoint \<Rightarrow> nat \<Rightarrow> nat \<Rightarrow> nat \<Rightarrow> PollResult" where
  "poll cl endpoint start finish_v2 finish_v1 =
     (case v2_status_url (en_host endpoint) (en_port endpoint) of
        Err _ \<Rightarrow> make_result endpoint PO_NetworkError start finish_v2
      | Ok v2_url \<Rightarrow>
          let v2_result = poll_single_url cl v2_url endpoint Schema_V2 start finish_v2 in
          if pr_outcome v2_result = PO_HttpStatus 404 then
            (case status_url (en_host endpoint) (en_port endpoint) of
               Err _ \<Rightarrow> make_result endpoint PO_NetworkError start finish_v1
             | Ok v1_url \<Rightarrow> poll_single_url cl v1_url endpoint Schema_V1 start finish_v1)
          else v2_result)"

definition poll_prepared :: "http_client \<Rightarrow> Endpoint \<Rightarrow> (rstr, EndpointError) result \<Rightarrow> (rstr, EndpointError) result \<Rightarrow>
    nat \<Rightarrow> nat \<Rightarrow> nat \<Rightarrow> PollResult" where
  "poll_prepared cl endpoint v1_target v2_target start finish_v2 finish_v1 =
     (case v2_target of
        Err _ \<Rightarrow> make_result_owned endpoint PO_NetworkError start finish_v2
      | Ok v2_url \<Rightarrow>
          let v2_result = poll_single_url_owned cl v2_url endpoint Schema_V2 start finish_v2 in
          if pr_outcome v2_result = PO_HttpStatus 404 then
            (let endpoint = pr_endpoint v2_result in
             case v1_target of
               Err _ \<Rightarrow> make_result_owned endpoint PO_NetworkError start finish_v1
             | Ok v1_url \<Rightarrow> poll_single_url_owned cl v1_url endpoint Schema_V1 start finish_v1)
          else v2_result)"

section \<open>The poll scheduler\<close>

record PreparedTarget =
  pt_endpoint :: Endpoint
  pt_v1_url :: "(rstr, EndpointError) result"
  pt_v2_url :: "(rstr, EndpointError) result"

definition prepare_targets :: "Endpoint list \<Rightarrow> PreparedTarget list" where
  "prepare_targets endpoints =
     map (\<lambda>e. \<lparr>pt_endpoint = e, pt_v1_url = status_url (en_host e) (en_port e),
               pt_v2_url = v2_status_url (en_host e) (en_port e)\<rparr>) endpoints"

definition advance_generation :: "nat \<Rightarrow> nat" where
  "advance_generation generation = (if generation + 1 \<le> u64_max then generation + 1 else 1)"

definition cancelled_result :: "Endpoint \<Rightarrow> PollResult" where
  "cancelled_result endpoint =
     \<lparr>pr_system_id = en_id endpoint, pr_endpoint = endpoint, pr_outcome = PO_Cancelled, pr_latency = 0\<rparr>"

text \<open>
  What becomes of one spawned task: it is cancelled while waiting for its permit or while polling,
  it panics, or it runs to its end with the network and the clock readings it meets.
\<close>

datatype task_fate = TaskCancelled | TaskPanicked | TaskRan http_client nat nat nat

definition poll_task :: "PreparedTarget \<Rightarrow> task_fate \<Rightarrow> PollResult option" where
  "poll_task target fate =
     (case fate of
        TaskCancelled \<Rightarrow> Some (cancelled_result (pt_endpoint target))
      | TaskPanicked \<Rightarrow> None
      | TaskRan cl start finish_v2 finish_v1 \<Rightarrow>
          Some (poll_prepared cl (pt_endpoint target) (pt_v1_url target) (pt_v2_url target) start finish_v2 finish_v1))"

definition poll_generation :: "PreparedTarget list \<Rightarrow> nat \<Rightarrow> nat \<Rightarrow> nat \<Rightarrow> (nat \<Rightarrow> task_fate) \<Rightarrow> PollBatch" where
  "poll_generation prepared generation started_at completed_at fates =
     (let handles = map (\<lambda>index. (index, poll_task (prepared ! index) (fates index))) [0..<length prepared] in
      \<lparr>pb_generation = generation, pb_started_at = started_at, pb_completed_at = completed_at,
       pb_results = map (\<lambda>(index, handle). case handle of
           Some result \<Rightarrow> result
         | None \<Rightarrow>
             let endpoint = pt_endpoint (prepared ! index) in
             \<lparr>pr_system_id = en_id endpoint, pr_endpoint = endpoint, pr_outcome = PO_Cancelled, pr_latency = 0\<rparr>) handles\<rparr>)"

datatype SchedulerCommand = CmdRefresh | CmdReplaceEndpoints "Endpoint list"

datatype send_outcome = SendCancelled | SendOk | SendReceiverDropped

text \<open>One turn of the loop's \<open>select!\<close>, and what the generation it starts meets.\<close>

datatype loop_event = LoopCancelled | LoopCommand SchedulerCommand | LoopClosed | LoopTick

record generation_env =
  ge_started_at :: nat
  ge_completed_at :: nat
  ge_fates :: "nat \<Rightarrow> task_fate"
  ge_send :: send_outcome

record loop_state =
  lp_endpoints :: "Endpoint list"
  lp_prepared :: "PreparedTarget list"
  lp_generation :: nat
  lp_command_open :: bool
  lp_sent :: "PollBatch list"

datatype loop_end = LoopRunning | LoopReturned "(unit, unit) result"

text \<open>
  \<open>advance_generation\<close>, \<open>poll_generation\<close> and the biased send; \<open>Err\<close> is \<open>ReceiverDropped\<close>. A send that
  cancellation preempts leads back to the \<open>select!\<close> of the loop, where \<open>biased\<close> takes the cancelled
  branch and the loop returns \<open>Ok\<close>.
\<close>

definition run_generation :: "generation_env \<Rightarrow> loop_state \<Rightarrow> loop_state \<times> loop_end" where
  "run_generation ge s =
     (let generation = advance_generation (lp_generation s);
          s = s\<lparr>lp_generation := generation\<rparr>;
          batch = poll_generation (lp_prepared s) generation (ge_started_at ge) (ge_completed_at ge) (ge_fates ge)
      in case ge_send ge of
           SendCancelled \<Rightarrow> (s, LoopReturned (Ok ()))
         | SendOk \<Rightarrow> (s\<lparr>lp_sent := lp_sent s @ [batch]\<rparr>, LoopRunning)
         | SendReceiverDropped \<Rightarrow> (s, LoopReturned (Err ())))"

definition poll_loop_start :: "Endpoint list \<Rightarrow> generation_env \<Rightarrow> loop_state \<times> loop_end" where
  "poll_loop_start endpoints ge =
     (let s = \<lparr>lp_endpoints = endpoints, lp_prepared = prepare_targets endpoints, lp_generation = 0,
               lp_command_open = True, lp_sent = []\<rparr>
      in if endpoints \<noteq> [] then run_generation ge s else (s, LoopRunning))"

text \<open>A disabled command branch cannot fire, so its events leave the state alone.\<close>

fun poll_loop_step :: "loop_event \<Rightarrow> generation_env \<Rightarrow> loop_state \<Rightarrow> loop_state \<times> loop_end" where
  "poll_loop_step LoopCancelled ge s = (s, LoopReturned (Ok ()))"
| "poll_loop_step (LoopCommand command) ge s =
     (if \<not> lp_command_open s then (s, LoopRunning)
      else
        let s = (case command of
                   CmdReplaceEndpoints replacement \<Rightarrow>
                     s\<lparr>lp_endpoints := replacement, lp_prepared := prepare_targets replacement\<rparr>
                 | CmdRefresh \<Rightarrow> s)
        in if lp_endpoints s = [] then (s, LoopRunning) else run_generation ge s)"
| "poll_loop_step LoopClosed ge s = (s\<lparr>lp_command_open := False\<rparr>, LoopRunning)"
| "poll_loop_step LoopTick ge s = (if lp_endpoints s \<noteq> [] then run_generation ge s else (s, LoopRunning))"

text \<open>The loop over the turns the runtime takes.\<close>

fun poll_loop :: "loop_state \<times> loop_end \<Rightarrow> (loop_event \<times> generation_env) list \<Rightarrow> loop_state \<times> loop_end" where
  "poll_loop (s, LoopReturned r) turns = (s, LoopReturned r)"
| "poll_loop (s, LoopRunning) [] = (s, LoopRunning)"
| "poll_loop (s, LoopRunning) ((event, ge) # turns) = poll_loop (poll_loop_step event ge s) turns"

definition poll_run :: "Endpoint list \<Rightarrow> generation_env \<Rightarrow> (loop_event \<times> generation_env) list \<Rightarrow> loop_state \<times> loop_end" where
  "poll_run endpoints ge turns = poll_loop (poll_loop_start endpoints ge) turns"


section \<open>One poll\<close>

named_theorems polled \<open>the endpoint of a result\<close>

lemma make_result_owned_eq: "make_result_owned = make_result"
  by (intro ext) (simp add: make_result_def make_result_owned_def)

lemma parse_response_owned_eq: "parse_response_owned = parse_response"
  unfolding fun_eq_iff parse_response_def parse_response_owned_def make_result_owned_eq by simp

lemma poll_single_url_owned_eq: "poll_single_url_owned = poll_single_url"
  unfolding fun_eq_iff poll_single_url_def poll_single_url_owned_def make_result_owned_eq parse_response_owned_eq by simp

lemma make_result_endpoint [polled]: "pr_endpoint (make_result e oc a b) = e" "pr_system_id (make_result e oc a b) = en_id e"
  by (simp_all add: make_result_def)

lemma parse_response_endpoint [polled]:
  "pr_endpoint (parse_response cl b e sc x y) = e" "pr_system_id (parse_response cl b e sc x y) = en_id e"
  by (simp_all add: parse_response_def polled split: option.splits)

lemma poll_single_url_endpoint [polled]:
  "pr_endpoint (poll_single_url cl u e sc x y) = e" "pr_system_id (poll_single_url cl u e sc x y) = en_id e"
  by (simp_all add: poll_single_url_def polled split: request_reply.splits result.splits)

lemma poll_prepared_eq_poll:
  "poll_prepared cl e (status_url (en_host e) (en_port e)) (v2_status_url (en_host e) (en_port e)) x y z = poll cl e x y z"
  by (simp add: poll_prepared_def poll_def poll_single_url_owned_eq make_result_owned_eq polled Let_def
      split: result.splits)

lemma poll_endpoint [polled]: "pr_endpoint (poll cl e x y z) = e" "pr_system_id (poll cl e x y z) = en_id e"
  by (simp_all add: poll_def polled Let_def split: result.splits)

text \<open>What an outcome claims about the document it carries.\<close>

fun outcome_valid :: "PollOutcome \<Rightarrow> bool" where
  "outcome_valid (PO_Online s) = snapshot_valid s"
| "outcome_valid (PO_OnlineV2 p) = payload_valid p"
| "outcome_valid _ = True"

lemma is_ok_metrics: "is_ok (validate_v1 s) \<longleftrightarrow> snapshot_valid s" "is_ok (validate_payload_v2 p) \<longleftrightarrow> payload_valid p"
  by (simp_all add: is_ok_iff validate_v1_iff validate_payload_iff)

lemma make_result_outcome [simp]: "pr_outcome (make_result e oc a b) = oc"
  by (simp add: make_result_def)

lemma parse_response_valid: "outcome_valid (pr_outcome (parse_response cl b e sc x y))"
  by (auto simp: parse_response_def is_ok_metrics split: option.splits)

lemma classify_valid [simp]: "outcome_valid (classify_eggfetch_failure f)" "outcome_valid (classify_body_failure b)"
  by (simp_all add: classify_eggfetch_failure_def classify_body_failure_def
      split: option.splits NetworkFailureKind.splits body_error.splits)

lemma poll_single_url_valid: "outcome_valid (pr_outcome (poll_single_url cl u e sc x y))"
  by (simp add: poll_single_url_def parse_response_valid split: request_reply.splits result.splits)

lemma poll_valid: "outcome_valid (pr_outcome (poll cl e x y z))"
  by (simp add: poll_def Let_def poll_single_url_valid split: result.splits)

lemma single_404:
  "pr_outcome (poll_single_url cl u e sc x y) = PO_HttpStatus 404 \<longleftrightarrow> (\<exists>b. hc_get cl u = RR_Response 404 b)"
  by (auto simp: poll_single_url_def status_is_success_def parse_response_def classify_eggfetch_failure_def
      classify_body_failure_def split: request_reply.splits result.splits option.splits NetworkFailureKind.splits body_error.splits)

section \<open>Generations\<close>

text \<open>The results of a generation: for each target the result of its own poll, or a cancelled one.\<close>

lemma poll_generation_results:
  assumes "i < length prepared"
  shows "pb_results (poll_generation prepared g a b fates) ! i =
    (case fates i of
       TaskRan cl x y z \<Rightarrow> poll_prepared cl (pt_endpoint (prepared ! i)) (pt_v1_url (prepared ! i)) (pt_v2_url (prepared ! i)) x y z
     | _ \<Rightarrow> cancelled_result (pt_endpoint (prepared ! i)))"
  using assms by (simp add: poll_generation_def poll_task_def cancelled_result_def Let_def split: task_fate.splits)

lemma poll_generation_simps [simp]:
  "pb_generation (poll_generation prepared g a b fates) = g"
  "length (pb_results (poll_generation prepared g a b fates)) = length prepared"
  by (simp_all add: poll_generation_def Let_def)

lemma prepare_targets_nth: "i < length es \<Longrightarrow> prepare_targets es ! i =
    \<lparr>pt_endpoint = es ! i, pt_v1_url = status_url (en_host (es ! i)) (en_port (es ! i)),
     pt_v2_url = v2_status_url (en_host (es ! i)) (en_port (es ! i))\<rparr>"
  by (simp add: prepare_targets_def)

lemma length_prepare_targets [simp]: "length (prepare_targets es) = length es"
  by (simp add: prepare_targets_def)

text \<open>A batch answers an endpoint list: one result per endpoint, in order, with a validated document.\<close>

definition batch_answers :: "Endpoint list \<Rightarrow> PollBatch \<Rightarrow> bool" where
  "batch_answers es b \<longleftrightarrow> map pr_endpoint (pb_results b) = es \<and> map pr_system_id (pb_results b) = map en_id es \<and>
     (\<forall>r \<in> set (pb_results b). outcome_valid (pr_outcome r))"

lemma generation_answers: "batch_answers es (poll_generation (prepare_targets es) g a b fates)"
proof -
  let ?rs = "pb_results (poll_generation (prepare_targets es) g a b fates)"
  have nth: "pr_endpoint (?rs ! i) = es ! i \<and> pr_system_id (?rs ! i) = en_id (es ! i) \<and> outcome_valid (pr_outcome (?rs ! i))"
    if "i < length es" for i
    using that by (simp add: poll_generation_results prepare_targets_nth poll_prepared_eq_poll polled poll_valid
        cancelled_result_def split: task_fate.splits)
  have "map pr_endpoint ?rs = es" "map pr_system_id ?rs = map en_id es"
    using nth by (auto intro!: nth_equalityI)
  moreover have "\<forall>r \<in> set ?rs. outcome_valid (pr_outcome r)"
    using nth by (auto simp: in_set_conv_nth)
  ultimately show ?thesis by (simp add: batch_answers_def)
qed

section \<open>The loop\<close>

definition nth_generation :: "nat \<Rightarrow> nat" where
  "nth_generation n = (advance_generation ^^ n) 0"

lemma nth_generation_simps [simp]: "nth_generation 0 = 0" "nth_generation (Suc n) = advance_generation (nth_generation n)"
  by (simp_all add: nth_generation_def)

text \<open>
  In every state the loop reaches, the batches sent so far carry the generations \<open>1, 2, \<dots>\<close> (and \<open>1\<close>
  after \<open>u64::MAX\<close>), the next one is the next of them while the loop runs, each batch answers an
  endpoint list, and the prepared targets are those of the installed list.
\<close>

definition loop_inv :: "loop_state \<times> loop_end \<Rightarrow> bool" where
  "loop_inv p \<longleftrightarrow> (case p of (s, e) \<Rightarrow>
     map pb_generation (lp_sent s) = map nth_generation [1..<Suc (length (lp_sent s))] \<and>
     (e = LoopRunning \<longrightarrow> lp_generation s = nth_generation (length (lp_sent s))) \<and>
     (\<forall>b \<in> set (lp_sent s). \<exists>es. es \<noteq> [] \<and> batch_answers es b) \<and>
     lp_prepared s = prepare_targets (lp_endpoints s))"

lemma run_generation_inv:
  assumes "loop_inv (s, LoopRunning)" "lp_endpoints s \<noteq> []"
  shows "loop_inv (run_generation ge s)"
  using assms generation_answers [of "lp_endpoints s"]
  by (auto simp: run_generation_def loop_inv_def Let_def split: send_outcome.splits)

lemma poll_loop_step_inv: "loop_inv (s, LoopRunning) \<Longrightarrow> loop_inv (poll_loop_step event ge s)"
proof (induction event ge s rule: poll_loop_step.induct)
  case (2 command ge s)
  show ?case
  proof (cases command)
    case (CmdReplaceEndpoints es)
    have "loop_inv (s\<lparr>lp_endpoints := es, lp_prepared := prepare_targets es\<rparr>, LoopRunning)"
      using 2 by (simp add: loop_inv_def)
    with 2 CmdReplaceEndpoints show ?thesis by (auto simp: Let_def intro!: run_generation_inv)
  qed (use 2 in \<open>auto intro!: run_generation_inv\<close>)
qed (auto simp: loop_inv_def [of "(_, LoopReturned _)"] loop_inv_def [of "(_\<lparr>lp_command_open := _\<rparr>, _)"]
      loop_inv_def [of "(s, LoopRunning)" for s] intro!: run_generation_inv)

lemma poll_loop_inv: "loop_inv p \<Longrightarrow> loop_inv (poll_loop p turns)"
  by (induction p turns rule: poll_loop.induct) (auto intro: poll_loop_step_inv)

lemma poll_run_inv: "loop_inv (poll_run es ge turns)"
  unfolding poll_run_def
  by (intro poll_loop_inv) (auto simp: poll_loop_start_def Let_def loop_inv_def [of "(_, LoopRunning)"] intro!: run_generation_inv)

section \<open>Properties\<close>

text \<open>
  What a peer answers on a route: status \<open>st\<close>, or a document of that route's version that decodes, names
  its schema and validates.
\<close>

definition answers :: "http_client \<Rightarrow> (rstr, EndpointError) result \<Rightarrow> nat \<Rightarrow> bool" where
  "answers cl route st \<longleftrightarrow> (\<exists>u b. route = Ok u \<and> hc_get cl u = RR_Response st b)"

definition serves_v2 :: "http_client \<Rightarrow> Endpoint \<Rightarrow> StatusPayloadV2 \<Rightarrow> bool" where
  "serves_v2 cl e p \<longleftrightarrow> (\<exists>u st b. v2_status_url (en_host e) (en_port e) = Ok u \<and> hc_get cl u = RR_Response st (Ok b) \<and>
     200 \<le> st \<and> st < 300 \<and> hc_v2 cl b = Some p \<and> st_schema_version (sp_snapshot p) = 2 \<and> payload_valid p)"

definition serves_v1 :: "http_client \<Rightarrow> Endpoint \<Rightarrow> StatusSnapshot \<Rightarrow> bool" where
  "serves_v1 cl e s \<longleftrightarrow> (\<exists>u st b. status_url (en_host e) (en_port e) = Ok u \<and> hc_get cl u = RR_Response st (Ok b) \<and>
     200 \<le> st \<and> st < 300 \<and> hc_v1 cl b = Some s \<and> ss_schema_version s = 1 \<and> snapshot_valid s)"

lemma classify_not_document [simp]:
  "classify_eggfetch_failure f \<noteq> PO_OnlineV2 p" "classify_body_failure b \<noteq> PO_OnlineV2 p"
  "classify_eggfetch_failure f \<noteq> PO_HttpStatus n" "classify_body_failure b \<noteq> PO_HttpStatus n"
  "classify_eggfetch_failure f \<noteq> PO_Online s" "classify_body_failure b \<noteq> PO_Online s"
  by (simp_all add: classify_eggfetch_failure_def classify_body_failure_def
      split: option.splits NetworkFailureKind.splits body_error.splits)

lemma parse_outcome:
  "pr_outcome (parse_response cl b e sc x y) = PO_OnlineV2 p \<longleftrightarrow>
     sc = Schema_V2 \<and> hc_v2 cl b = Some p \<and> st_schema_version (sp_snapshot p) = 2 \<and> payload_valid p"
  "pr_outcome (parse_response cl b e sc x y) = PO_Online s \<longleftrightarrow>
     sc = Schema_V1 \<and> hc_v1 cl b = Some s \<and> ss_schema_version s = 1 \<and> snapshot_valid s"
  "pr_outcome (parse_response cl b e sc x y) \<noteq> PO_HttpStatus n"
  by (cases sc; auto simp: parse_response_def is_ok_metrics SCHEMA_VERSION_V1_def SCHEMA_VERSION_V2_def
      split: option.splits)+

lemma single_outcome:
  "pr_outcome (poll_single_url cl u e sc x y) = PO_OnlineV2 p \<longleftrightarrow> sc = Schema_V2 \<and>
     (\<exists>st b. hc_get cl u = RR_Response st (Ok b) \<and> 200 \<le> st \<and> st < 300 \<and> hc_v2 cl b = Some p \<and>
        st_schema_version (sp_snapshot p) = 2 \<and> payload_valid p)"
  "pr_outcome (poll_single_url cl u e sc x y) = PO_Online s \<longleftrightarrow> sc = Schema_V1 \<and>
     (\<exists>st b. hc_get cl u = RR_Response st (Ok b) \<and> 200 \<le> st \<and> st < 300 \<and> hc_v1 cl b = Some s \<and>
        ss_schema_version s = 1 \<and> snapshot_valid s)"
  "pr_outcome (poll_single_url cl u e sc x y) = PO_HttpStatus n \<longleftrightarrow>
     (n < 200 \<or> 300 \<le> n) \<and> (\<exists>b. hc_get cl u = RR_Response n b)"
  by (auto simp: poll_single_url_def parse_outcome status_is_success_def split: request_reply.splits result.splits)

lemma poll_outcome:
  "pr_outcome (poll cl e x y z) =
     (if answers cl (v2_status_url (en_host e) (en_port e)) 404
      then (case status_url (en_host e) (en_port e) of Err _ \<Rightarrow> PO_NetworkError
            | Ok u \<Rightarrow> pr_outcome (poll_single_url cl u e Schema_V1 x z))
      else (case v2_status_url (en_host e) (en_port e) of Err _ \<Rightarrow> PO_NetworkError
            | Ok u \<Rightarrow> pr_outcome (poll_single_url cl u e Schema_V2 x y)))"
  by (auto simp: poll_def single_404 answers_def Let_def split: result.splits)

lemma poll_v2_route_only:
  assumes "\<not> answers cl (v2_status_url (en_host e) (en_port e)) 404"
    and "\<forall>u. v2_status_url (en_host e) (en_port e) = Ok u \<longrightarrow> hc_get cl' u = hc_get cl u" and "hc_v2 cl' = hc_v2 cl"
  shows "poll cl' e x y z = poll cl e x y z"
proof (cases "v2_status_url (en_host e) (en_port e)")
  case (Ok u)
  have "parse_response cl' b e Schema_V2 x y = parse_response cl b e Schema_V2 x y" for b
    using assms(3) by (simp add: parse_response_def)
  then have "poll_single_url cl' u e Schema_V2 x y = poll_single_url cl u e Schema_V2 x y"
    using assms(2) Ok by (simp add: poll_single_url_def split: request_reply.split result.split)
  then show ?thesis using assms(1) Ok by (simp add: poll_def Let_def single_404 answers_def)
qed (simp add: poll_def)

text \<open>
  C25. A poll reports a version 2 document exactly when the version 2 route serves one that decodes,
  names schema 2 and validates. It reports a version 1 document exactly when the version 2 route
  answered 404 and the version 1 route serves one that decodes, names schema 1 and validates. It
  reports a status exactly when that is the unsuccessful answer of the version 2 route other than 404,
  or that of the version 1 route after such a 404. Without a 404 the result depends on nothing but the
  version 2 route. Polling through the prepared targets of the endpoint gives the same result.
\<close>

theorem poll_negotiates:
  "poll_prepared cl e (status_url (en_host e) (en_port e)) (v2_status_url (en_host e) (en_port e)) x y z = poll cl e x y z \<and>
   (\<forall>p. pr_outcome (poll cl e x y z) = PO_OnlineV2 p \<longleftrightarrow> serves_v2 cl e p) \<and>
   (\<forall>s. pr_outcome (poll cl e x y z) = PO_Online s \<longleftrightarrow>
      answers cl (v2_status_url (en_host e) (en_port e)) 404 \<and> serves_v1 cl e s) \<and>
   (\<forall>n. pr_outcome (poll cl e x y z) = PO_HttpStatus n \<longleftrightarrow> (n < 200 \<or> 300 \<le> n) \<and>
      (if answers cl (v2_status_url (en_host e) (en_port e)) 404 then answers cl (status_url (en_host e) (en_port e)) n
       else answers cl (v2_status_url (en_host e) (en_port e)) n)) \<and>
   (\<not> answers cl (v2_status_url (en_host e) (en_port e)) 404 \<longrightarrow>
      (\<forall>cl'. (\<forall>u. v2_status_url (en_host e) (en_port e) = Ok u \<longrightarrow> hc_get cl' u = hc_get cl u) \<and> hc_v2 cl' = hc_v2 cl \<longrightarrow>
         poll cl' e x y z = poll cl e x y z))"
proof -
  have no_v2: "\<not> serves_v2 cl e p" if "answers cl (v2_status_url (en_host e) (en_port e)) 404" for p
    using that by (auto simp: serves_v2_def answers_def)
  have v2: "pr_outcome (poll cl e x y z) = PO_OnlineV2 p \<longleftrightarrow> serves_v2 cl e p" for p
    using no_v2 [of p] by (auto simp: poll_outcome single_outcome serves_v2_def split: result.splits)
  have v1: "pr_outcome (poll cl e x y z) = PO_Online s \<longleftrightarrow>
      answers cl (v2_status_url (en_host e) (en_port e)) 404 \<and> serves_v1 cl e s" for s
    by (auto simp: poll_outcome single_outcome serves_v1_def split: result.splits)
  have status: "pr_outcome (poll cl e x y z) = PO_HttpStatus n \<longleftrightarrow> (n < 200 \<or> 300 \<le> n) \<and>
      (if answers cl (v2_status_url (en_host e) (en_port e)) 404 then answers cl (status_url (en_host e) (en_port e)) n
       else answers cl (v2_status_url (en_host e) (en_port e)) n)" for n
    by (auto simp: poll_outcome single_outcome answers_def [of cl _ n] split: result.splits)
  show ?thesis using v2 v1 status poll_v2_route_only poll_prepared_eq_poll by blast
qed

definition example_v1 :: StatusSnapshot where
  "example_v1 =
     \<lparr>ss_schema_version = 1, ss_observed_at_unix_ms = 5, ss_sample_interval_ms = 1000,
      ss_capabilities = \<lparr>mc_cpu_iowait = False\<rparr>,
      ss_system = \<lparr>si_name = ustr ''a'', si_hostname = ustr ''a'', si_os_name = ustr ''l'', si_os_version = ustr ''1'',
        si_kernel_name = ustr ''l'', si_kernel_release = ustr ''6'', si_architecture = ustr ''x''\<rparr>,
      ss_cpu = \<lparr>cpu_logical_cores = 4, cpu_usage_pct = F32_Fin 10, cpu_iowait_pct = None\<rparr>,
      ss_load = \<lparr>la_one = F32_Fin 0, la_five = F32_Fin 0, la_fifteen = F32_Fin 0\<rparr>,
      ss_memory = \<lparr>mm_used_bytes = 1, mm_total_bytes = 2, mm_usage_pct = F32_Fin 50\<rparr>,
      ss_swap = \<lparr>sw_used_bytes = 0, sw_total_bytes = 0, sw_usage_pct = F32_Fin 0\<rparr>\<rparr>"

definition example_poll_host :: Endpoint where
  "example_poll_host = endpoint_new (ustr ''id'') (ustr ''::1'') 80 None"

text \<open>A peer that has no version 2 route and serves \<open>example_v1\<close>.\<close>

definition example_v1_peer :: http_client where
  "example_v1_peer =
     \<lparr>hc_get = (\<lambda>u. if status_url (ustr ''::1'') 80 = Ok u then RR_Response 200 (Ok []) else RR_Response 404 (Ok [])),
      hc_v1 = (\<lambda>_. Some example_v1), hc_v2 = (\<lambda>_. None)\<rparr>"

lemma example_status_urls:
  obtains u w where "status_url (ustr ''::1'') 80 = Ok u" "v2_status_url (ustr ''::1'') 80 = Ok w" "u \<noteq> w"
proof -
  have "normalize_host (ustr ''::1'') = Ok (ustr ''::1'')" using example_ipv6_host example_ipv6_shown by simp
  then have h: "url_host (ustr ''::1'') = Ok (ustr ''[::1]'')"
    by (simp add: url_host_def bracketed_host_def unbracketed_host_def strip_prefix_def ustr_def)
  show thesis
    by (rule that) (use h in \<open>simp_all add: status_url_def v2_status_url_def, simp add: ustr_def\<close>)
qed

theorem poll_negotiates_witness:
  "pr_outcome (poll example_v1_peer example_poll_host 0 1 2) = PO_Online example_v1"
proof -
  have v1: "snapshot_valid example_v1"
    by (simp add: snapshot_valid_def example_v1_def sampling_ok_def WIRE_MAX_SAMPLE_INTERVAL_MS_def identity_ok_def
        identity_fields_def label_ok_def ustr_def str_trim_def is_white_def len_utf8_def MAX_IDENTITY_FIELD_BYTES_def
        percent_ok_def present_iff_def load_ok_def load_value_ok_def usage_ok_def)
  obtain u w where u: "status_url (ustr ''::1'') 80 = Ok u" "v2_status_url (ustr ''::1'') 80 = Ok w" "u \<noteq> w"
    by (rule example_status_urls)
  have "ss_schema_version example_v1 = 1" by (simp add: example_v1_def)
  with u v1 have "answers example_v1_peer (v2_status_url (en_host example_poll_host) (en_port example_poll_host)) 404 \<and>
      serves_v1 example_v1_peer example_poll_host example_v1"
    by (simp add: answers_def serves_v1_def example_poll_host_def endpoint_new_def example_v1_peer_def)
  then show ?thesis using poll_negotiates [of example_v1_peer example_poll_host 0 1 2] by blast
qed

text \<open>
  A run of the poll scheduler, whatever the order of ticks, commands, cancellations and panics,
  sends batches numbered \<open>1, 2, 3, \<dots>\<close> without a gap (\<open>1\<close> again after \<open>u64::MAX\<close>), and each batch holds
  exactly one result per endpoint of a non-empty installed list, in its order, with a validated
  document where it is online.
\<close>

theorem scheduler_batches_numbered:
  "map pb_generation (lp_sent (fst (poll_run es ge turns))) =
     map nth_generation [1..<Suc (length (lp_sent (fst (poll_run es ge turns))))] \<and>
   \<not> (\<exists>b. b \<in> set (lp_sent (fst (poll_run es ge turns))) \<and> (\<nexists>es'. es' \<noteq> [] \<and> batch_answers es' b))"
  using poll_run_inv [of es ge turns] by (auto simp: loop_inv_def case_prod_beta)

end
