(* ===== verification/Eggpool.thy ===== *)
theory Eggpool
  imports Client_Config Client_Poller
begin

text \<open>
  The client of the optional EggPool service (\<open>crates/gregg/src/eggpool.rs\<close>): the two routes it
  reads, the checks that turn a decoded body into display values, and the worker that keeps at most
  one request in flight for the newest desired state.

  The HTTP client, JSON decoding, the environment, the header encoding and the \<open>url\<close> crate are
  parameters; \<open>f64\<close> values use the floating-point classes of the prelude. The runtime decides which
  branch of a \<open>select!\<close> fires: the worker is an \<open>inductive\<close> step relation, with the retained value of
  the watch channel and its change mark as part of the state. Instants are natural numbers.

  The lemmas show that a published value passed every check, and that the worker is never idle while
  its desired state is active, always works on the desired state it converged onto, and delivers
  results only for states that were published.
\<close>

section \<open>Values\<close>

definition MAX_STATUS_PROVIDER_ROWS :: nat where "MAX_STATUS_PROVIDER_ROWS = 256"
definition MAX_PROVIDER_ID_BYTES :: nat where "MAX_PROVIDER_ID_BYTES = 96"
definition MAX_STATUS_REASON_BYTES :: nat where "MAX_STATUS_REASON_BYTES = 64"
definition STATUS_SCHEMA_VERSION :: nat where "STATUS_SCHEMA_VERSION = 1"
definition REFRESH_INTERVAL :: nat where "REFRESH_INTERVAL = 60 * 1000000000"

datatype EggpoolPeriod = PeriodHour | PeriodDay | PeriodWeek | PeriodMonth

fun api_value :: "EggpoolPeriod \<Rightarrow> rstr" where
  "api_value PeriodHour = ustr ''1h''"
| "api_value PeriodDay = ustr ''24h''"
| "api_value PeriodWeek = ustr ''7d''"
| "api_value PeriodMonth = ustr ''30d''"

fun longer :: "EggpoolPeriod \<Rightarrow> EggpoolPeriod" where
  "longer PeriodHour = PeriodDay"
| "longer PeriodDay = PeriodWeek"
| "longer PeriodWeek = PeriodMonth"
| "longer PeriodMonth = PeriodMonth"

fun shorter :: "EggpoolPeriod \<Rightarrow> EggpoolPeriod" where
  "shorter PeriodHour = PeriodHour"
| "shorter PeriodDay = PeriodHour"
| "shorter PeriodWeek = PeriodDay"
| "shorter PeriodMonth = PeriodWeek"

text \<open>The derived order of the variants.\<close>

fun period_index :: "EggpoolPeriod \<Rightarrow> nat" where
  "period_index PeriodHour = 0"
| "period_index PeriodDay = 1"
| "period_index PeriodWeek = 2"
| "period_index PeriodMonth = 3"

lemma period_index_inj: "period_index a = period_index b \<longleftrightarrow> a = b"
  by (cases a; cases b) simp_all

instantiation EggpoolPeriod :: linorder
begin

definition less_eq_EggpoolPeriod :: "EggpoolPeriod \<Rightarrow> EggpoolPeriod \<Rightarrow> bool" where
  "less_eq_EggpoolPeriod a b \<longleftrightarrow> period_index a \<le> period_index b"

definition less_EggpoolPeriod :: "EggpoolPeriod \<Rightarrow> EggpoolPeriod \<Rightarrow> bool" where
  "less_EggpoolPeriod a b \<longleftrightarrow> period_index a < period_index b"

instance
  by standard (auto simp: less_eq_EggpoolPeriod_def less_EggpoolPeriod_def period_index_inj)

end

record EggpoolSummaryWire =
  sw_period :: rstr
  sw_accounted_tokens :: nat
  sw_cache_read_ratio :: "f32 option"
  sw_tokens_per_second :: f32
  sw_avg_ttft_ms :: f32
  sw_streamed_requests :: nat

record EggpoolSummary =
  eg_accounted_tokens :: nat
  eg_cache_read_ratio :: "f32 option"
  eg_output_tokens_per_second :: f32
  eg_avg_ttft_ms :: "f32 option"
  eg_period :: EggpoolPeriod

datatype EggpoolFetchOutcome =
    EF_Online EggpoolSummary
  | EF_MissingApiKeyEnv rstr
  | EF_Unauthorized
  | EF_Forbidden
  | EF_StatsUnavailable
  | EF_Timeout
  | EF_ConnectionRefused
  | EF_DnsFailure
  | EF_NetworkError
  | EF_HttpStatus nat
  | EF_BodyTooLarge
  | EF_DecodeError
  | EF_InvalidSummary
  | EF_Cancelled
  | EF_InvalidEndpoint

datatype EggpoolProxyHealth = ProxyReady | ProxyDegraded | ProxyUnready

datatype EggpoolProviderHealth = ProviderReady | ProviderDegraded | ProviderUnavailable | ProviderDisabled | ProviderUnknown

definition provider_from_wire :: "rstr \<Rightarrow> EggpoolProviderHealth" where
  "provider_from_wire value =
     (if value = ustr ''ready'' then ProviderReady
      else if value = ustr ''degraded'' then ProviderDegraded
      else if value = ustr ''unavailable'' then ProviderUnavailable
      else if value = ustr ''disabled'' then ProviderDisabled
      else ProviderUnknown)"

datatype EggpoolProviderObservation = ObservedVerified | ObservedFailed | ObservedStale | ObservedNever

definition observation_from_wire :: "rstr \<Rightarrow> EggpoolProviderObservation option" where
  "observation_from_wire value =
     (if value = ustr ''verified'' then Some ObservedVerified
      else if value = ustr ''failed'' then Some ObservedFailed
      else if value = ustr ''stale'' then Some ObservedStale
      else if value = ustr ''never'' then Some ObservedNever
      else None)"

record EggpoolProviderRow =
  ep_row_id :: rstr
  ep_row_status :: EggpoolProviderHealth
  ep_row_observation :: "EggpoolProviderObservation option"

record EggpoolHealthSnapshot =
  eh_schema_version :: nat
  eh_proxy :: EggpoolProxyHealth
  eh_available :: bool
  eh_reason_code :: "rstr option"
  eh_uptime_seconds :: "f32 option"
  eh_model_count :: "nat option"
  eh_routable_accounts :: "nat option"
  eh_enabled_accounts :: "nat option"
  eh_providers :: "EggpoolProviderRow list"

fun provider_slot :: "EggpoolProviderHealth \<Rightarrow> nat" where
  "provider_slot ProviderReady = 0"
| "provider_slot ProviderDegraded = 1"
| "provider_slot ProviderUnavailable = 2"
| "provider_slot ProviderDisabled = 3"
| "provider_slot ProviderUnknown = 4"

definition provider_counts :: "EggpoolHealthSnapshot \<Rightarrow> nat list" where
  "provider_counts s =
     fold (\<lambda>row counts. let index = provider_slot (ep_row_status row) in counts[index := counts ! index + 1])
       (eh_providers s) [0, 0, 0, 0, 0]"

datatype EggpoolHealthFetchOutcome =
    EH_Online EggpoolHealthSnapshot
  | EH_AuthenticationRequired
  | EH_Forbidden
  | EH_Unsupported
  | EH_InvalidApiKey
  | EH_Timeout
  | EH_ConnectionRefused
  | EH_DnsFailure
  | EH_NetworkError
  | EH_HttpStatus nat
  | EH_BodyTooLarge
  | EH_DecodeError
  | EH_UnsupportedSchema
  | EH_InvalidStatus
  | EH_InvalidEndpoint

record EggpoolResult =
  er_generation :: nat
  er_period :: EggpoolPeriod
  er_started_at :: nat
  er_completed_at :: nat
  er_summary :: EggpoolFetchOutcome
  er_health :: EggpoolHealthFetchOutcome

section \<open>Reading the two routes\<close>

record EggpoolProxyWire =
  pw_status :: rstr
  pw_available :: bool
  pw_reason_code :: "rstr option"
  pw_uptime_seconds :: "f32 option"
  pw_model_count :: "nat option"
  pw_routable_accounts :: "nat option"
  pw_enabled_accounts :: "nat option"

record EggpoolProviderWire =
  vw_provider_id :: rstr
  vw_status :: "rstr option"
  vw_last_observation :: "rstr option"

record EggpoolStatusWire =
  tw_schema_version :: nat
  tw_proxy :: EggpoolProxyWire
  tw_providers :: "EggpoolProviderWire list"

text \<open>
  What the client is built over: the environment (a value is the text it holds when it is UTF-8),
  the header encoding, the URL parser (the canonical text of a URL), the transport and the decoders.
\<close>

datatype env_value = EnvText rstr | EnvNotUnicode

record eggpool_client =
  ec_env :: "rstr \<Rightarrow> env_value option"
  ec_bearer :: "rstr \<Rightarrow> rstr option"
  ec_url :: "rstr \<Rightarrow> rstr option"
  ec_get :: "rstr \<Rightarrow> rstr option \<Rightarrow> request_reply"
  ec_summary :: "byte list \<Rightarrow> EggpoolSummaryWire option"
  ec_status :: "byte list \<Rightarrow> EggpoolStatusWire option"

datatype CredentialError = CredentialMissing rstr | CredentialUnusable

definition credential :: "eggpool_client \<Rightarrow> EggpoolEntry \<Rightarrow> (rstr option, CredentialError) result" where
  "credential cl endpoint =
     (case ee_api_key_env endpoint of
        None \<Rightarrow> Ok None
      | Some name \<Rightarrow>
          (case ec_env cl name of
             None \<Rightarrow> Err (CredentialMissing name)
           | Some EnvNotUnicode \<Rightarrow> Err CredentialUnusable
           | Some (EnvText value) \<Rightarrow>
               if value = [] then Err (CredentialMissing name)
               else (case ec_bearer cl value of Some auth \<Rightarrow> Ok (Some auth) | None \<Rightarrow> Err CredentialUnusable)))"

fun scheme_text :: "EggpoolScheme \<Rightarrow> rstr" where
  "scheme_text SchemeHttp = ustr ''http''"
| "scheme_text SchemeHttps = ustr ''https''"

definition origin_prefix :: "EggpoolEntry \<Rightarrow> (rstr, unit) result" where
  "origin_prefix endpoint =
     (let host = (case Option.bind (strip_prefix (ustr ''['') (ee_host endpoint)) (strip_suffix (ustr '']'')) of
                    None \<Rightarrow> ee_host endpoint | Some h \<Rightarrow> h)
      in case bracketed_host host of
           Err _ \<Rightarrow> Err ()
         | Ok host \<Rightarrow>
             let host = (if uc CHR '':'' \<in> set host then ustr ''['' @ host @ ustr '']'' else host)
             in Ok (scheme_text (ee_scheme endpoint) @ ustr ''://'' @ host @ ustr '':'' @ dec_nat (ee_port endpoint)))"

definition eggpool_summary_url :: "eggpool_client \<Rightarrow> EggpoolEntry \<Rightarrow> EggpoolPeriod \<Rightarrow> (rstr, unit) result" where
  "eggpool_summary_url cl endpoint period =
     result_bind (origin_prefix endpoint) (\<lambda>origin.
       case ec_url cl (origin @ ustr ''/api/stats/summary'') of
         None \<Rightarrow> Err ()
       | Some url \<Rightarrow> Ok (url @ ustr ''?period='' @ api_value period))"

definition eggpool_status_url :: "eggpool_client \<Rightarrow> EggpoolEntry \<Rightarrow> (rstr, unit) result" where
  "eggpool_status_url cl endpoint =
     result_bind (origin_prefix endpoint) (\<lambda>origin.
       case ec_url cl (origin @ ustr ''/api/status'') of None \<Rightarrow> Err () | Some url \<Rightarrow> Ok url)"

definition normalize_summary :: "EggpoolSummaryWire \<Rightarrow> EggpoolPeriod \<Rightarrow> (EggpoolSummary, unit) result" where
  "normalize_summary wire requested =
     (if sw_period wire \<noteq> api_value requested \<or>
         \<not> f32_is_finite (sw_tokens_per_second wire) \<or> f32_lt (sw_tokens_per_second wire) (F32_Fin 0) \<or>
         \<not> f32_is_finite (sw_avg_ttft_ms wire) \<or> f32_lt (sw_avg_ttft_ms wire) (F32_Fin 0) \<or>
         (case sw_cache_read_ratio wire of
            None \<Rightarrow> False
          | Some ratio \<Rightarrow> \<not> f32_is_finite ratio \<or> \<not> (f32_le (F32_Fin 0) ratio \<and> f32_le ratio (F32_Fin 1)))
      then Err ()
      else Ok \<lparr>eg_accounted_tokens = sw_accounted_tokens wire, eg_cache_read_ratio = sw_cache_read_ratio wire,
               eg_output_tokens_per_second = sw_tokens_per_second wire,
               eg_avg_ttft_ms = (if sw_streamed_requests wire > 0 then Some (sw_avg_ttft_ms wire) else None),
               eg_period = requested\<rparr>)"

definition bounded_optional :: "rstr option \<Rightarrow> nat \<Rightarrow> bool" where
  "bounded_optional value max_bytes = (case value of None \<Rightarrow> True | Some v \<Rightarrow> v \<noteq> [] \<and> str_len v \<le> max_bytes)"

definition normalize_provider :: "EggpoolProviderWire \<Rightarrow> (EggpoolProviderRow, unit) result" where
  "normalize_provider row =
     (if \<not> bounded_optional (Some (vw_provider_id row)) MAX_PROVIDER_ID_BYTES then Err ()
      else Ok \<lparr>ep_row_id = vw_provider_id row,
               ep_row_status = (case vw_status row of None \<Rightarrow> ProviderUnknown | Some s \<Rightarrow> provider_from_wire s),
               ep_row_observation = Option.bind (vw_last_observation row) observation_from_wire\<rparr>)"

definition proxy_from_wire :: "rstr \<Rightarrow> EggpoolProxyHealth option" where
  "proxy_from_wire status =
     (if status = ustr ''ready'' then Some ProxyReady
      else if status = ustr ''degraded'' then Some ProxyDegraded
      else if status = ustr ''unready'' then Some ProxyUnready
      else None)"

definition normalize_health :: "EggpoolStatusWire \<Rightarrow> (EggpoolHealthSnapshot, unit) result" where
  "normalize_health wire =
     (case proxy_from_wire (pw_status (tw_proxy wire)) of
        None \<Rightarrow> Err ()
      | Some proxy \<Rightarrow>
          if \<not> bounded_optional (pw_reason_code (tw_proxy wire)) MAX_STATUS_REASON_BYTES then Err ()
          else if (case pw_uptime_seconds (tw_proxy wire) of
                     None \<Rightarrow> False | Some v \<Rightarrow> \<not> (f32_is_finite v \<and> f32_le (F32_Fin 0) v)) then Err ()
          else if length (tw_providers wire) > MAX_STATUS_PROVIDER_ROWS then Err ()
          else result_bind (traverse_result normalize_provider (tw_providers wire)) (\<lambda>providers.
            Ok \<lparr>eh_schema_version = tw_schema_version wire, eh_proxy = proxy, eh_available = pw_available (tw_proxy wire),
                eh_reason_code = pw_reason_code (tw_proxy wire), eh_uptime_seconds = pw_uptime_seconds (tw_proxy wire),
                eh_model_count = pw_model_count (tw_proxy wire), eh_routable_accounts = pw_routable_accounts (tw_proxy wire),
                eh_enabled_accounts = pw_enabled_accounts (tw_proxy wire), eh_providers = providers\<rparr>))"

definition classify_request_error :: "request_failure \<Rightarrow> EggpoolFetchOutcome" where
  "classify_request_error failure =
     (if rf_body_too_large failure then EF_BodyTooLarge
      else if rf_is_timeout failure then EF_Timeout
      else case rf_kind failure of
             Some NF_Dns \<Rightarrow> EF_DnsFailure
           | Some NF_ConnectionRefused \<Rightarrow> EF_ConnectionRefused
           | _ \<Rightarrow> EF_NetworkError)"

definition classify_body_error :: "body_error \<Rightarrow> EggpoolFetchOutcome" where
  "classify_body_error e = (case e of BE_TooLarge \<Rightarrow> EF_BodyTooLarge | BE_Timeout \<Rightarrow> EF_Timeout | BE_Other \<Rightarrow> EF_NetworkError)"

definition classify_health_request_error :: "request_failure \<Rightarrow> EggpoolHealthFetchOutcome" where
  "classify_health_request_error failure =
     (if rf_body_too_large failure then EH_BodyTooLarge
      else if rf_is_timeout failure then EH_Timeout
      else case rf_kind failure of
             Some NF_Dns \<Rightarrow> EH_DnsFailure
           | Some NF_ConnectionRefused \<Rightarrow> EH_ConnectionRefused
           | _ \<Rightarrow> EH_NetworkError)"

definition classify_health_body_error :: "body_error \<Rightarrow> EggpoolHealthFetchOutcome" where
  "classify_health_body_error e = (case e of BE_TooLarge \<Rightarrow> EH_BodyTooLarge | BE_Timeout \<Rightarrow> EH_Timeout | BE_Other \<Rightarrow> EH_NetworkError)"

definition eggpool_fetch :: "eggpool_client \<Rightarrow> EggpoolEntry \<Rightarrow> EggpoolPeriod \<Rightarrow> EggpoolFetchOutcome" where
  "eggpool_fetch cl endpoint period =
     (case credential cl endpoint of
        Err (CredentialMissing name) \<Rightarrow> EF_MissingApiKeyEnv name
      | Err CredentialUnusable \<Rightarrow> EF_InvalidSummary
      | Ok auth \<Rightarrow>
          (case eggpool_summary_url cl endpoint period of
             Err _ \<Rightarrow> EF_InvalidEndpoint
           | Ok url \<Rightarrow>
               (case ec_get cl url auth of
                  RR_BuildFailed \<Rightarrow> EF_InvalidEndpoint
                | RR_SendFailed failure \<Rightarrow> classify_request_error failure
                | RR_Response status body \<Rightarrow>
                    if \<not> status_is_success status then
                      (if status = 401 then EF_Unauthorized else if status = 403 then EF_Forbidden
                       else if status = 404 then EF_StatsUnavailable else EF_HttpStatus status)
                    else (case body of
                            Err failure \<Rightarrow> classify_body_error failure
                          | Ok bytes \<Rightarrow>
                              (case ec_summary cl bytes of
                                 None \<Rightarrow> EF_DecodeError
                               | Some wire \<Rightarrow>
                                   (case normalize_summary wire period of
                                      Ok summary \<Rightarrow> EF_Online summary
                                    | Err _ \<Rightarrow> EF_InvalidSummary))))))"

definition fetch_health :: "eggpool_client \<Rightarrow> EggpoolEntry \<Rightarrow> EggpoolHealthFetchOutcome" where
  "fetch_health cl endpoint =
     (let go = (\<lambda>auth.
        (case eggpool_status_url cl endpoint of
           Err _ \<Rightarrow> EH_InvalidEndpoint
         | Ok url \<Rightarrow>
             (case ec_get cl url auth of
                RR_BuildFailed \<Rightarrow> EH_InvalidEndpoint
              | RR_SendFailed failure \<Rightarrow> classify_health_request_error failure
              | RR_Response status body \<Rightarrow>
                  if \<not> status_is_success status then
                    (if status = 401 then EH_AuthenticationRequired else if status = 403 then EH_Forbidden
                     else if status = 404 then EH_Unsupported else EH_HttpStatus status)
                  else (case body of
                          Err failure \<Rightarrow> classify_health_body_error failure
                        | Ok bytes \<Rightarrow>
                            (case ec_status cl bytes of
                               None \<Rightarrow> EH_DecodeError
                             | Some wire \<Rightarrow>
                                 if tw_schema_version wire \<noteq> STATUS_SCHEMA_VERSION then EH_UnsupportedSchema
                                 else (case normalize_health wire of
                                         Ok snapshot \<Rightarrow> EH_Online snapshot
                                       | Err _ \<Rightarrow> EH_InvalidStatus))))))
      in case credential cl endpoint of
           Ok auth \<Rightarrow> go auth
         | Err (CredentialMissing _) \<Rightarrow> go None
         | Err CredentialUnusable \<Rightarrow> EH_InvalidApiKey)"


section \<open>The worker\<close>

record EggpoolDesiredState =
  ds_active :: bool
  ds_period :: EggpoolPeriod
  ds_generation :: nat

definition desired_inactive :: EggpoolDesiredState where
  "desired_inactive = \<lparr>ds_active = False, ds_period = PeriodHour, ds_generation = 0\<rparr>"

text \<open>
  \<open>EggpoolWorkerState\<close> together with what its task holds: the retained value of the watch channel and
  whether it has not been seen yet, the completed result that waits for a slot of the result channel,
  the results accepted so far, and whether the task has ended. A request in flight is known by the
  generation and the period it was started with.
\<close>

record eggpool_worker =
  ew_desired :: EggpoolDesiredState
  ew_request :: "(nat \<times> EggpoolPeriod) option"
  ew_next_refresh_at :: "nat option"
  ew_published :: EggpoolDesiredState
  ew_changed :: bool
  ew_delivering :: "EggpoolResult option"
  ew_results :: "EggpoolResult list"
  ew_ended :: bool

definition worker_new :: eggpool_worker where
  "worker_new = \<lparr>ew_desired = desired_inactive, ew_request = None, ew_next_refresh_at = None,
     ew_published = desired_inactive, ew_changed = False, ew_delivering = None, ew_results = [], ew_ended = False\<rparr>"

definition control_publish :: "EggpoolDesiredState \<Rightarrow> eggpool_worker \<Rightarrow> eggpool_worker" where
  "control_publish d w = w\<lparr>ew_published := d, ew_changed := True\<rparr>"

definition abort_request :: "eggpool_worker \<Rightarrow> eggpool_worker" where
  "abort_request w = w\<lparr>ew_request := None\<rparr>"

definition start_request :: "eggpool_worker \<Rightarrow> eggpool_worker" where
  "start_request w = w\<lparr>ew_request := Some (ds_generation (ew_desired w), ds_period (ew_desired w))\<rparr>"

definition converge :: "EggpoolDesiredState \<Rightarrow> eggpool_worker \<Rightarrow> bool \<times> eggpool_worker" where
  "converge desired w =
     (let supersedes = ds_active desired \<and>
            (\<not> ds_active (ew_desired w) \<or> ds_period (ew_desired w) \<noteq> ds_period desired \<or>
             ds_generation (ew_desired w) \<noteq> ds_generation desired);
          w = w\<lparr>ew_desired := desired\<rparr>
      in if \<not> ds_active desired then (False, abort_request (w\<lparr>ew_next_refresh_at := None\<rparr>))
         else if supersedes then (True, (abort_request w)\<lparr>ew_next_refresh_at := None\<rparr>)
         else (False, w))"

definition converge_start :: "EggpoolDesiredState \<Rightarrow> eggpool_worker \<Rightarrow> eggpool_worker" where
  "converge_start desired w = (case converge desired w of (start, w) \<Rightarrow> if start then start_request w else w)"

definition supersedes_result :: "EggpoolResult \<Rightarrow> EggpoolDesiredState \<Rightarrow> bool" where
  "supersedes_result result desired \<longleftrightarrow> \<not> ds_active desired \<or> ds_period desired \<noteq> er_period result \<or>
     ds_generation desired \<noteq> er_generation result"

text \<open>The branch of the passive deadline.\<close>

definition deadline_turn :: "eggpool_worker \<Rightarrow> eggpool_worker" where
  "deadline_turn w =
     (let w = w\<lparr>ew_next_refresh_at := None, ew_changed := False\<rparr>;
          desired = ew_published w;
          (superseded, w) = converge desired w
      in if superseded \<or> (ds_active desired \<and> ew_request w = None) then start_request w else w)"

text \<open>The result of a finished request: both routes read with one network, or a panicked task.\<close>

definition request_result :: "eggpool_client \<Rightarrow> EggpoolEntry \<Rightarrow> nat \<times> EggpoolPeriod \<Rightarrow> nat \<Rightarrow> nat \<Rightarrow> EggpoolResult" where
  "request_result cl endpoint request started completed =
     \<lparr>er_generation = fst request, er_period = snd request, er_started_at = started, er_completed_at = completed,
      er_summary = eggpool_fetch cl endpoint (snd request), er_health = fetch_health cl endpoint\<rparr>"

definition panicked_result :: "EggpoolDesiredState \<Rightarrow> nat \<Rightarrow> nat \<Rightarrow> EggpoolResult" where
  "panicked_result desired now completed =
     \<lparr>er_generation = ds_generation desired, er_period = ds_period desired, er_started_at = now, er_completed_at = completed,
      er_summary = EF_NetworkError, er_health = EH_NetworkError\<rparr>"

definition delivered_turn :: "EggpoolResult \<Rightarrow> nat \<Rightarrow> eggpool_worker \<Rightarrow> eggpool_worker" where
  "delivered_turn result tokio_now w =
     (let w = w\<lparr>ew_delivering := None, ew_results := ew_results w @ [result]\<rparr> in
      if ds_active (ew_desired w) then w\<lparr>ew_next_refresh_at := Some (tokio_now + REFRESH_INTERVAL)\<rparr> else w)"

definition worker_end :: "eggpool_worker \<Rightarrow> eggpool_worker" where
  "worker_end w = (abort_request w)\<lparr>ew_delivering := None, ew_ended := True\<rparr>"

text \<open>
  One branch of the worker's \<open>select!\<close>, or one of \<open>deliver_result_or_interrupt\<close> while a result waits.
  There \<open>biased\<close> puts a pending change before the free slot. The last rule is the daemon publishing.
\<close>

inductive worker_step :: "EggpoolEntry \<Rightarrow> eggpool_worker \<Rightarrow> eggpool_worker \<Rightarrow> bool" for endpoint where
  ends: "\<not> ew_ended w \<Longrightarrow> worker_step endpoint w (worker_end w)"
| changed: "\<not> ew_ended w \<Longrightarrow> ew_delivering w = None \<Longrightarrow> ew_changed w \<Longrightarrow>
    worker_step endpoint w (converge_start (ew_published w) (w\<lparr>ew_changed := False\<rparr>))"
| deadline: "\<not> ew_ended w \<Longrightarrow> ew_delivering w = None \<Longrightarrow> ew_next_refresh_at w = Some t \<Longrightarrow> t \<le> now \<Longrightarrow>
    worker_step endpoint w (deadline_turn w)"
| completed: "\<not> ew_ended w \<Longrightarrow> ew_delivering w = None \<Longrightarrow> ew_request w = Some request \<Longrightarrow>
    worker_step endpoint w (w\<lparr>ew_request := None,
      ew_delivering := Some (request_result cl endpoint request started finish)\<rparr>)"
| panicked: "\<not> ew_ended w \<Longrightarrow> ew_delivering w = None \<Longrightarrow> ew_request w = Some request \<Longrightarrow>
    worker_step endpoint w (w\<lparr>ew_request := None,
      ew_delivering := Some (panicked_result (ew_desired w) now finish)\<rparr>)"
| equivalent: "\<not> ew_ended w \<Longrightarrow> ew_delivering w = Some result \<Longrightarrow> ew_changed w \<Longrightarrow>
    \<not> supersedes_result result (ew_published w) \<Longrightarrow> worker_step endpoint w (w\<lparr>ew_changed := False\<rparr>)"
| superseded: "\<not> ew_ended w \<Longrightarrow> ew_delivering w = Some result \<Longrightarrow> ew_changed w \<Longrightarrow>
    supersedes_result result (ew_published w) \<Longrightarrow>
    worker_step endpoint w (converge_start (ew_published w) (w\<lparr>ew_changed := False, ew_delivering := None\<rparr>))"
| delivered: "\<not> ew_ended w \<Longrightarrow> ew_delivering w = Some result \<Longrightarrow> \<not> ew_changed w \<Longrightarrow>
    worker_step endpoint w (delivered_turn result tokio_now w)"
| published: "worker_step endpoint w (control_publish desired w)"

inductive worker_reach :: "EggpoolEntry \<Rightarrow> eggpool_worker \<Rightarrow> bool" for endpoint where
  start: "worker_reach endpoint worker_new"
| step: "worker_reach endpoint w \<Longrightarrow> worker_step endpoint w w' \<Longrightarrow> worker_reach endpoint w'"

inductive_cases worker_stepE: "worker_step endpoint w w'"

section \<open>The worker's invariant\<close>

definition answers_desired :: "EggpoolDesiredState \<Rightarrow> nat \<Rightarrow> EggpoolPeriod \<Rightarrow> bool" where
  "answers_desired d g p \<longleftrightarrow> ds_active d \<and> ds_generation d = g \<and> ds_period d = p"

text \<open>
  While the worker lives, exactly one of three things is pending when its desired state is active, and
  none when it is not: a request in flight for that state, a result of it waiting for a slot, or the
  deadline of the next refresh. Without an unseen change the desired state is the published one.
\<close>

definition worker_inv :: "eggpool_worker \<Rightarrow> bool" where
  "worker_inv w \<longleftrightarrow>
     (ew_ended w \<or>
       (case (ew_request w, ew_delivering w, ew_next_refresh_at w) of
          (Some (g, p), None, None) \<Rightarrow> answers_desired (ew_desired w) g p
        | (None, Some r, None) \<Rightarrow> answers_desired (ew_desired w) (er_generation r) (er_period r)
        | (None, None, Some t) \<Rightarrow> ds_active (ew_desired w)
        | (None, None, None) \<Rightarrow> \<not> ds_active (ew_desired w)
        | _ \<Rightarrow> False) \<and>
       (\<not> ew_changed w \<longrightarrow> ew_desired w = ew_published w))"

lemma desired_eqI:
  "answers_desired d g p \<Longrightarrow> answers_desired d' g p \<Longrightarrow> d = (d' :: EggpoolDesiredState)"
  by (cases d; cases d') (simp add: answers_desired_def)

lemma supersedes_iff: "supersedes_result r d \<longleftrightarrow> \<not> answers_desired d (er_generation r) (er_period r)"
  by (auto simp: supersedes_result_def answers_desired_def)

lemma converge_start_inv:
  assumes "worker_inv w" "ew_delivering w = None"
  shows "worker_inv ((converge_start (ew_published w) (w\<lparr>ew_changed := False\<rparr>)))"
  using assms
  by (cases "ew_request w"; cases "ew_next_refresh_at w")
    (auto simp: worker_inv_def converge_start_def converge_def abort_request_def start_request_def answers_desired_def Let_def
      split: if_splits)

lemma worker_step_inv: "worker_step endpoint w w' \<Longrightarrow> worker_inv w \<Longrightarrow> worker_inv w'"
proof (induction rule: worker_step.induct)
  case (changed w)
  then show ?case by (intro converge_start_inv)
next
  case (deadline w t now)
  then show ?case
    by (cases "ew_request w")
      (auto simp: worker_inv_def deadline_turn_def converge_def abort_request_def start_request_def answers_desired_def Let_def
        split: if_splits)
next
  case (completed w request cl started finish)
  then show ?case
    by (cases "ew_next_refresh_at w"; cases request) (auto simp: worker_inv_def request_result_def)
next
  case (panicked w request now finish)
  then show ?case
    by (cases "ew_next_refresh_at w"; cases request) (auto simp: worker_inv_def panicked_result_def answers_desired_def)
next
  case (equivalent w result)
  then show ?case
    by (cases "ew_request w"; cases "ew_next_refresh_at w")
      (auto simp: worker_inv_def supersedes_iff dest: desired_eqI)
next
  case (superseded w result)
  then show ?case
    by (cases "ew_request w"; cases "ew_next_refresh_at w")
      (auto simp: worker_inv_def supersedes_iff converge_start_def converge_def abort_request_def start_request_def
        answers_desired_def Let_def split: if_splits)
next
  case (delivered w result tokio_now)
  then show ?case
    by (cases "ew_request w"; cases "ew_next_refresh_at w") (auto simp: worker_inv_def delivered_turn_def answers_desired_def Let_def)
qed (auto simp: worker_inv_def worker_end_def control_publish_def abort_request_def split: option.splits)

lemma worker_reach_inv: "worker_reach endpoint w \<Longrightarrow> worker_inv w"
proof (induction rule: worker_reach.induct)
  case start
  show ?case by (simp add: worker_inv_def worker_new_def desired_inactive_def)
qed (blast intro: worker_step_inv)

lemma converge_start_desired [simp]:
  "ew_desired (converge_start d w) = d" "ew_published (converge_start d w) = ew_published w"
  "ew_changed (converge_start d w) = ew_changed w" "ew_results (converge_start d w) = ew_results w"
  "ew_ended (converge_start d w) = ew_ended w"
  by (simp_all add: converge_start_def converge_def abort_request_def start_request_def Let_def)

text \<open>A change that has not been seen is adopted by the next turn, also while a result waits.\<close>

lemma adopts_change:
  assumes "worker_inv w" "\<not> ew_ended w" "ew_changed w"
  shows "\<exists>w'. worker_step endpoint w w' \<and> ew_desired w' = ew_published w \<and> \<not> ew_changed w' \<and> \<not> ew_ended w'"
proof (cases "ew_delivering w")
  case None
  show ?thesis by (rule exI, rule conjI, rule worker_step.changed [OF assms(2) None assms(3)]) (simp add: assms)
next
  case (Some r)
  show ?thesis
  proof (cases "supersedes_result r (ew_published w)")
    case True
    show ?thesis by (rule exI, rule conjI, rule worker_step.superseded [OF assms(2) Some assms(3) True]) (simp add: assms)
  next
    case False
    have "answers_desired (ew_desired w) (er_generation r) (er_period r)"
      using assms Some by (auto simp: worker_inv_def split: option.splits)
    with False have "ew_desired w = ew_published w" by (auto simp: supersedes_iff dest: desired_eqI)
    with assms(2) show ?thesis
      by (intro exI [of _ "w\<lparr>ew_changed := False\<rparr>"] conjI worker_step.equivalent [OF assms(2) Some assms(3) False]) simp_all
  qed
qed

lemma converge_results [simp]: "ew_results (snd (converge d w)) = ew_results w"
  by (simp add: converge_def abort_request_def Let_def)

lemma turn_results [simp]:
  "ew_results (start_request w) = ew_results w" "ew_results (worker_end w) = ew_results w"
  "ew_results (control_publish d w) = ew_results w" "ew_results (deadline_turn w) = ew_results w"
  by (simp_all add: start_request_def worker_end_def abort_request_def control_publish_def deadline_turn_def Let_def case_prod_beta)

lemma step_delivers:
  assumes "worker_step endpoint w w'" "worker_inv w" "ew_results w' \<noteq> ew_results w"
  obtains r where "ew_results w' = ew_results w @ [r]" "ew_published w = ew_desired w"
    "answers_desired (ew_published w) (er_generation r) (er_period r)"
  using assms(1)
proof cases
  case (delivered r now)
  have "answers_desired (ew_desired w) (er_generation r) (er_period r)" "ew_desired w = ew_published w"
    using assms(2) delivered by (auto simp: worker_inv_def split: option.splits)
  moreover have "ew_results w' = ew_results w @ [r]" using delivered by (simp add: delivered_turn_def Let_def)
  ultimately show thesis by (intro that) simp_all
qed (use assms(3) in simp_all)

definition pending_count :: "eggpool_worker \<Rightarrow> nat" where
  "pending_count w = (if ew_request w = None then 0 else 1) + (if ew_delivering w = None then 0 else 1) +
     (if ew_next_refresh_at w = None then 0 else 1)"

lemma pending_one:
  assumes "worker_inv w" "\<not> ew_ended w"
  shows "pending_count w = (if ds_active (ew_desired w) then 1 else 0) \<and>
    (\<forall>g p. ew_request w = Some (g, p) \<longrightarrow> answers_desired (ew_desired w) g p)"
  using assms
  by (cases "ew_request w"; cases "ew_delivering w"; cases "ew_next_refresh_at w")
    (auto simp: worker_inv_def pending_count_def answers_desired_def)

section \<open>Checked values\<close>

definition summary_checked :: "EggpoolPeriod \<Rightarrow> EggpoolSummary \<Rightarrow> bool" where
  "summary_checked period s \<longleftrightarrow> eg_period s = period \<and> load_value_ok (eg_output_tokens_per_second s) \<and>
     opt_ok load_value_ok (eg_avg_ttft_ms s) \<and>
     opt_ok (\<lambda>v. case v of F32_Fin r \<Rightarrow> 0 \<le> r \<and> r \<le> 1 | _ \<Rightarrow> False) (eg_cache_read_ratio s)"

definition health_checked :: "EggpoolHealthSnapshot \<Rightarrow> bool" where
  "health_checked h \<longleftrightarrow> eh_schema_version h = 1 \<and> opt_ok load_value_ok (eh_uptime_seconds h) \<and>
     opt_ok (\<lambda>c. c \<noteq> [] \<and> str_len c \<le> 64) (eh_reason_code h) \<and> length (eh_providers h) \<le> 256 \<and>
     (\<forall>row \<in> set (eh_providers h). ep_row_id row \<noteq> [] \<and> str_len (ep_row_id row) \<le> 96)"

lemma nonneg_finite: "f32_is_finite v \<Longrightarrow> \<not> f32_lt v (F32_Fin 0) \<Longrightarrow> load_value_ok v"
  "f32_is_finite v \<Longrightarrow> f32_le (F32_Fin 0) v \<Longrightarrow> load_value_ok v"
  by (cases v; simp add: load_value_ok_def)+

lemma ratio_finite:
  "f32_is_finite v \<Longrightarrow> f32_le (F32_Fin 0) v \<Longrightarrow> f32_le v (F32_Fin 1) \<Longrightarrow>
     (case v of F32_Fin r \<Rightarrow> 0 \<le> r \<and> r \<le> 1 | _ \<Rightarrow> False)"
  by (cases v) simp_all

lemma normalize_summary_checked: "normalize_summary wire period = Ok s \<Longrightarrow> summary_checked period s"
  by (auto simp: normalize_summary_def summary_checked_def opt_ok_def nonneg_finite ratio_finite split: if_splits option.splits)

lemma normalize_provider_checked:
  "normalize_provider row = Ok r \<Longrightarrow> ep_row_id r \<noteq> [] \<and> str_len (ep_row_id r) \<le> 96"
  by (auto simp: normalize_provider_def bounded_optional_def MAX_PROVIDER_ID_BYTES_def split: if_splits)

lemma normalize_health_checked: "normalize_health wire = Ok h \<Longrightarrow> tw_schema_version wire = 1 \<Longrightarrow> health_checked h"
proof -
  assume n: "normalize_health wire = Ok h" and v: "tw_schema_version wire = 1"
  then obtain rows where rows: "traverse_result normalize_provider (tw_providers wire) = Ok rows" "eh_providers h = rows"
    "eh_uptime_seconds h = pw_uptime_seconds (tw_proxy wire)" "eh_reason_code h = pw_reason_code (tw_proxy wire)"
    "eh_schema_version h = 1" "length (tw_providers wire) \<le> 256"
    "bounded_optional (pw_reason_code (tw_proxy wire)) 64"
    "opt_ok (\<lambda>v. f32_is_finite v \<and> f32_le (F32_Fin 0) v) (pw_uptime_seconds (tw_proxy wire))"
    by (auto simp: normalize_health_def MAX_STATUS_PROVIDER_ROWS_def MAX_STATUS_REASON_BYTES_def opt_ok_def
        split: option.splits if_splits)
  have "\<forall>row \<in> set rows. ep_row_id row \<noteq> [] \<and> str_len (ep_row_id row) \<le> 96"
    using rows(1) by (fastforce simp: traverse_result_Ok_iff list_all2_conv_all_nth in_set_conv_nth dest: normalize_provider_checked)
  then show ?thesis
    using rows traverse_result_length [OF rows(1)]
    by (auto simp: health_checked_def bounded_optional_def opt_ok_def nonneg_finite split: option.splits)
qed

lemma eggpool_fetch_checked: "eggpool_fetch cl e p = EF_Online s \<Longrightarrow> summary_checked p s"
  by (auto simp: eggpool_fetch_def classify_request_error_def classify_body_error_def dest: normalize_summary_checked
      split: result.splits CredentialError.splits request_reply.splits option.splits if_splits NetworkFailureKind.splits body_error.splits)

lemma fetch_health_checked: "fetch_health cl e = EH_Online h \<Longrightarrow> health_checked h"
  by (auto simp: fetch_health_def Let_def classify_health_request_error_def classify_health_body_error_def STATUS_SCHEMA_VERSION_def
      dest: normalize_health_checked
      split: result.splits CredentialError.splits request_reply.splits option.splits if_splits NetworkFailureKind.splits body_error.splits)

section \<open>Properties\<close>

text \<open>
  C21. In every reachable state of a live EggPool worker exactly one thing is pending when its desired
  state is active and nothing when it is not: a request in flight for that very state, its result
  waiting for a slot, or the next refresh deadline. Without an unseen publication the desired state is
  the published one, an unseen publication is adopted in one turn even while a result waits, and a
  result is only ever delivered for the state that is published at that moment.
\<close>

theorem eggpool_worker_converges:
  assumes "worker_reach endpoint w" "\<not> ew_ended w"
  shows "pending_count w = (if ds_active (ew_desired w) then 1 else 0) \<and>
    (\<forall>g p. ew_request w = Some (g, p) \<longrightarrow> answers_desired (ew_desired w) g p) \<and>
    (if ew_changed w then
       \<exists>w'. worker_step endpoint w w' \<and> ew_desired w' = ew_published w \<and> \<not> ew_changed w' \<and> \<not> ew_ended w'
     else ew_desired w = ew_published w) \<and>
    (\<forall>w'. worker_step endpoint w w' \<longrightarrow> ew_results w' \<noteq> ew_results w \<longrightarrow>
      (\<exists>r. ew_results w' = ew_results w @ [r] \<and> answers_desired (ew_published w) (er_generation r) (er_period r)))"
proof -
  have inv: "worker_inv w" by (rule worker_reach_inv [OF assms(1)])
  have seen: "\<not> ew_changed w \<Longrightarrow> ew_desired w = ew_published w" using inv assms(2) by (simp add: worker_inv_def)
  have delivers: "\<exists>r. ew_results w' = ew_results w @ [r] \<and> answers_desired (ew_published w) (er_generation r) (er_period r)"
    if "worker_step endpoint w w'" "ew_results w' \<noteq> ew_results w" for w'
    using that step_delivers [OF that(1) inv that(2)] by metis
  show ?thesis
    using pending_one [OF inv assms(2)] adopts_change [OF inv assms(2), of endpoint] seen delivers by simp
qed

definition example_entry :: EggpoolEntry where
  "example_entry = \<lparr>ee_id = [], ee_host = ustr ''h'', ee_port = 1, ee_scheme = SchemeHttp, ee_name = None, ee_api_key_env = None\<rparr>"

definition example_desired :: EggpoolDesiredState where
  "example_desired = \<lparr>ds_active = True, ds_period = PeriodDay, ds_generation = 3\<rparr>"

definition example_worker :: eggpool_worker where
  "example_worker = converge_start example_desired ((control_publish example_desired worker_new)\<lparr>ew_changed := False\<rparr>)"

lemma example_worker_reached: "worker_reach example_entry example_worker"
proof -
  have "worker_reach example_entry (control_publish example_desired worker_new)"
    by (rule worker_reach.step [OF worker_reach.start worker_step.published])
  from worker_reach.step [OF this worker_step.changed] show ?thesis
    by (simp add: example_worker_def control_publish_def worker_new_def)
qed

theorem eggpool_worker_converges_witness:
  "ew_request example_worker = Some (3, PeriodDay) \<and> pending_count example_worker = 1 \<and>
   ew_desired example_worker = ew_published example_worker"
proof -
  have live: "\<not> ew_ended example_worker" "\<not> ew_changed example_worker" "ds_active (ew_desired example_worker)"
    "ew_request example_worker = Some (3, PeriodDay)"
    by (simp_all add: example_worker_def converge_start_def converge_def start_request_def abort_request_def control_publish_def
        worker_new_def desired_inactive_def example_desired_def Let_def)
  then show ?thesis using eggpool_worker_converges [OF example_worker_reached live(1)] by simp
qed

text \<open>
  A summary or a health snapshot that a fetch reports online passed every check: the summary is
  of the requested period with finite non-negative values and a ratio between 0 and 1; the health
  snapshot has schema version 1, at most 256 providers with bounded identifiers, a bounded reason and a
  finite non-negative uptime.
\<close>

theorem eggpool_values_checked:
  "(case eggpool_fetch cl e p of EF_Online s \<Rightarrow> summary_checked p s | _ \<Rightarrow> True) \<and>
   (case fetch_health cl e of EH_Online h \<Rightarrow> health_checked h | _ \<Rightarrow> True)"
  using eggpool_fetch_checked fetch_health_checked
  by (simp split: EggpoolFetchOutcome.split EggpoolHealthFetchOutcome.split)

end
