(* ===== verification/Cron_Worker.thy ===== *)
theory Cron_Worker
  imports Cron_Cache Client_Endpoint "HOL-Library.Multiset"
begin

text \<open>
  The client daemon's scheduler-polling plane (\<open>crates/gregg/src/clientd/cron.rs\<close>): reading the two
  scheduler routes, pairing a summary with its history, the worker's history gate, the bounded and
  preemptible round, the worker loop, and what the engine does with a delivered observation
  (\<open>clientd/daemon.rs\<close>, \<open>state.rs\<close>). The HTTP client, the JSON decoder, the clock and the order in
  which requests finish are parameters of the definitions.

  The lemmas show that the gate only records documents the engine was handed, that an observation the
  engine calls unchanged changes no row and no listed record, that a completed round
  observes every endpoint once with at most four reads in flight, and that the gate and the cache
  agree on what was fetched.
\<close>

section \<open>Reading the routes\<close>

text \<open>What the HTTP client reports of one request: it could not be built, it failed (with the two
  facts the code asks of the failure), or a response with its status and body.\<close>

datatype http_error = DecodedBodyTooLarge | OtherError rstr

record http_failure =
  hf_error :: http_error
  hf_is_timeout :: bool

datatype http_reply =
    BuildFailed rstr
  | SendFailed http_failure
  | Response nat "(byte list, http_error) result"

type_synonym http = "rstr \<Rightarrow> nat \<Rightarrow> http_reply"

definition classify_failure :: "http_failure \<Rightarrow> CronFetchError" where
  "classify_failure f =
     (case hf_error f of
        DecodedBodyTooLarge \<Rightarrow> BodyTooLarge
      | OtherError e \<Rightarrow>
          Transport (if hf_is_timeout f then ustr ''the scheduler request timed out''
                     else ustr ''could not reach the scheduler route: '' @ e))"

definition get_json :: "http \<Rightarrow> rstr \<Rightarrow> nat \<Rightarrow> (byte list option, CronFetchError) result" where
  "get_json http url cap =
     (case http url cap of
        BuildFailed e \<Rightarrow> Err (Transport e)
      | SendFailed f \<Rightarrow> Err (classify_failure f)
      | Response status body \<Rightarrow>
          if status = 404 then Ok None
          else if \<not> (200 \<le> status \<and> status < 300)
          then Err (Transport (ustr ''the scheduler route answered HTTP '' @ dec_nat status))
          else (case body of
                  Ok bytes \<Rightarrow> Ok (Some bytes)
                | Err DecodedBodyTooLarge \<Rightarrow> Err BodyTooLarge
                | Err (OtherError e) \<Rightarrow> Err (Transport e)))"

datatype SummaryOutcome =
    SummarySupported SchedulerSummaryV2
  | SummaryUnsupported
  | SummaryFailed CronFetchError

text \<open>The client with its decoders: \<open>CronClient\<close> and \<open>serde_json::from_slice\<close>.\<close>

record client =
  cl_http :: http
  cl_summary :: "byte list \<Rightarrow> (SchedulerSummaryV2, rstr) result"
  cl_history :: "byte list \<Rightarrow> (SchedulerHistoryV2, rstr) result"

definition client_summary :: "client \<Rightarrow> Endpoint \<Rightarrow> SummaryOutcome" where
  "client_summary cl e =
     (case scheduler_url (en_host e) (en_port e) of
        Err err \<Rightarrow> SummaryFailed (Transport (ustr ''could not build a scheduler URL: '' @ endpoint_error_text err))
      | Ok url \<Rightarrow>
          (case get_json (cl_http cl) url MAX_SCHEDULER_SUMMARY_BODY_BYTES of
             Ok (Some body) \<Rightarrow>
               (case cl_summary cl body of
                  Ok summary \<Rightarrow>
                    if \<not> is_ok (validate_summary summary)
                    then SummaryFailed (Invalid (ustr ''the scheduler summary failed its own wire validation''))
                    else SummarySupported summary
                | Err err \<Rightarrow> SummaryFailed (Invalid err))
           | Ok None \<Rightarrow> SummaryUnsupported
           | Err err \<Rightarrow> SummaryFailed err))"

definition client_history :: "client \<Rightarrow> Endpoint \<Rightarrow> (SchedulerHistoryV2 option, CronFetchError) result" where
  "client_history cl e =
     (case scheduler_history_url (en_host e) (en_port e) of
        Err err \<Rightarrow> Err (Transport (ustr ''could not build a scheduler URL: '' @ endpoint_error_text err))
      | Ok url \<Rightarrow>
          result_bind (get_json (cl_http cl) url MAX_SCHEDULER_HISTORY_BODY_BYTES) (\<lambda>reply.
            case reply of
              None \<Rightarrow> Ok None
            | Some body \<Rightarrow>
                (case cl_history cl body of
                   Err err \<Rightarrow> Err (Invalid err)
                 | Ok history \<Rightarrow>
                     if \<not> is_ok (validate_history history)
                     then Err (Invalid (ustr ''the scheduler history failed its own wire validation''))
                     else Ok (Some history))))"

section \<open>Observations\<close>

record CronObservation =
  ob_system_id :: rstr
  ob_host :: rstr
  ob_port :: nat
  ob_summary :: SummaryOutcome
  ob_history :: "SchedulerHistoryV2 option"
  ob_history_error :: "CronFetchError option"
  ob_now_unix_ms :: nat

text \<open>The job rows hold floats, so the comparison of rendered states is the derived one.\<close>

fun opt_jobs_eq :: "SchedulerJobV2 list option \<Rightarrow> SchedulerJobV2 list option \<Rightarrow> bool" where
  "opt_jobs_eq (Some a) (Some b) = jobs_eq a b"
| "opt_jobs_eq None None = True"
| "opt_jobs_eq _ _ = False"

definition rendered_eq :: "CronRenderedState \<Rightarrow> CronRenderedState \<Rightarrow> bool" where
  "rendered_eq a b \<longleftrightarrow> cd_capability a = cd_capability b \<and> cd_identity a = cd_identity b \<and>
     opt_jobs_eq (cd_jobs a) (cd_jobs b) \<and> cd_last_error a = cd_last_error b"

fun opt_rendered_eq :: "CronRenderedState option \<Rightarrow> CronRenderedState option \<Rightarrow> bool" where
  "opt_rendered_eq (Some a) (Some b) = rendered_eq a b"
| "opt_rendered_eq None None = True"
| "opt_rendered_eq _ _ = False"

definition rendered_of :: "CronCache \<Rightarrow> rstr \<Rightarrow> CronRenderedState option" where
  "rendered_of c sid = map_option rendered_state (bt_get (ca_systems c) sid)"

definition observation_apply :: "CronObservation \<Rightarrow> CronCache \<Rightarrow> bool \<times> CronCache" where
  "observation_apply ob c =
     (let sid = ob_system_id ob; now = ob_now_unix_ms ob;
          before = rendered_of c sid;
          changed = (\<lambda>c. \<not> opt_rendered_eq (rendered_of c sid) before)
      in case ob_summary ob of
           SummarySupported summary \<Rightarrow>
             let c = cache_apply_summary sid summary now c;
                 (merged, c) = (case ob_history ob of
                                  Some history \<Rightarrow> cache_apply_history sid history c
                                | None \<Rightarrow> (False, c));
                 c = (case ob_history_error ob of
                        Some err \<Rightarrow> system_update sid (mark_failed err now) c
                      | None \<Rightarrow> c)
             in if merged then (True, c) else (changed c, c)
         | SummaryUnsupported \<Rightarrow>
             let c = system_update sid (\<lambda>s. (mark_unsupported s)\<lparr>cs_last_attempt_at_unix_ms := Some now\<rparr>) c
             in (changed c, c)
         | SummaryFailed err \<Rightarrow>
             let c = system_update sid (mark_failed err now) c
             in (changed c, c))"

section \<open>The history gate\<close>

definition target_key :: "rstr \<Rightarrow> rstr \<Rightarrow> nat \<Rightarrow> rstr" where
  "target_key system_id host port =
     (let normalized = (case normalize_host host of Err _ \<Rightarrow> host | Ok h \<Rightarrow> to_ascii_lowercase h)
      in system_id @ [0x1F] @ normalized @ [0x1F] @ dec_nat port)"

type_synonym gate = "(rstr, SchedulerEpochV2 \<times> nat) btree"

definition gate_needs :: "gate \<Rightarrow> rstr \<Rightarrow> SchedulerSummaryV2 \<Rightarrow> bool" where
  "gate_needs g key summary =
     (case bt_get g key of
        None \<Rightarrow> True
      | Some (epoch, revision) \<Rightarrow> epoch \<noteq> sm_epoch summary \<or> revision \<noteq> sm_history_revision summary)"

record PendingGateCommit =
  pc_key :: rstr
  pc_epoch :: SchedulerEpochV2
  pc_revision :: nat

definition gate_commit :: "PendingGateCommit \<Rightarrow> gate \<Rightarrow> gate" where
  "gate_commit pc g = bt_insert (pc_key pc) (pc_epoch pc, pc_revision pc) g"

definition forget_absent :: "rstr list \<Rightarrow> gate \<Rightarrow> gate" where
  "forget_absent live g = bt_retain (\<lambda>key. list_ex (\<lambda>kept. kept = key) live) g"

datatype HistoryAttempt = Suppressed | Fetched "(SchedulerHistoryV2 option, CronFetchError) result"

record EndpointFetch =
  ef_endpoint :: Endpoint
  ef_summary :: SummaryOutcome
  ef_history :: HistoryAttempt

abbreviation endpoint_key :: "Endpoint \<Rightarrow> rstr" where
  "endpoint_key e \<equiv> target_key (en_id e) (en_host e) (en_port e)"

definition fetch :: "client \<Rightarrow> Endpoint \<Rightarrow> gate \<Rightarrow> EndpointFetch" where
  "fetch cl e g =
     (let summary = client_summary cl e;
          history = (case summary of
                       SummarySupported document \<Rightarrow>
                         if gate_needs g (endpoint_key e) document then Fetched (client_history cl e) else Suppressed
                     | _ \<Rightarrow> Suppressed)
      in \<lparr>ef_endpoint = e, ef_summary = summary, ef_history = history\<rparr>)"

definition incoherent_text :: "SchedulerSummaryV2 \<Rightarrow> SchedulerHistoryV2 \<Rightarrow> rstr" where
  "incoherent_text m h =
     (let pair = (\<lambda>e. ustr ''('' @ dec_nat (ep_started_at_unix_ms e) @ ustr '', '' @ dec_nat (unat (ep_nonce e)) @ ustr '')'')
      in ustr ''summary is epoch '' @ pair (sm_epoch m) @ ustr '' revision '' @ dec_nat (sm_history_revision m) @
         ustr '' but history is epoch '' @ pair (hi_epoch h) @ ustr '' revision '' @ dec_nat (hi_history_revision h))"

text \<open>The three locals \<open>(applied, commit, history_error)\<close> of \<open>settle\<close>.\<close>

definition settle_pair :: "rstr \<Rightarrow> SummaryOutcome \<Rightarrow> HistoryAttempt \<Rightarrow>
    SchedulerHistoryV2 option \<times> PendingGateCommit option \<times> CronFetchError option" where
  "settle_pair key summary history =
     (case summary of
        SummarySupported document \<Rightarrow>
          (case history of
             Suppressed \<Rightarrow> (None, None, None)
           | Fetched (Ok (Some found)) \<Rightarrow>
               if hi_epoch found = sm_epoch document \<and> hi_history_revision found = sm_history_revision document
               then (Some found,
                     Some \<lparr>pc_key = key, pc_epoch = hi_epoch found, pc_revision = hi_history_revision found\<rparr>, None)
               else (None, None, Some (Incoherent (incoherent_text document found)))
           | Fetched (Ok None) \<Rightarrow>
               (None, None, Some (Transport (ustr ''the scheduler summary is served but the history route is not'')))
           | Fetched (Err error) \<Rightarrow> (None, None, Some error))
      | _ \<Rightarrow> (None, None, None))"

definition settle :: "nat \<Rightarrow> EndpointFetch \<Rightarrow> CronObservation \<times> PendingGateCommit option" where
  "settle now fetched =
     (let e = ef_endpoint fetched in
      case settle_pair (endpoint_key e) (ef_summary fetched) (ef_history fetched) of
        (applied, commit, history_error) \<Rightarrow>
          (\<lparr>ob_system_id = en_id e, ob_host = en_host e, ob_port = en_port e, ob_summary = ef_summary fetched,
            ob_history = applied, ob_history_error = history_error, ob_now_unix_ms = now\<rparr>, commit))"

definition observe :: "client \<Rightarrow> nat \<Rightarrow> Endpoint \<Rightarrow> gate \<Rightarrow> CronObservation \<times> gate" where
  "observe cl now e g =
     (case settle now (fetch cl e g) of
        (ob, commit) \<Rightarrow> (ob, case commit of None \<Rightarrow> g | Some pc \<Rightarrow> gate_commit pc g))"

section \<open>The round\<close>

definition CRON_MAX_IN_FLIGHT :: nat where "CRON_MAX_IN_FLIGHT = 4"

datatype RoundOutcome = Completed | Reloaded | EngineGone | CancelledRound

text \<open>What is ready when the hand-off wakes: the signals and whether the channel accepted the
  observation or is closed; the \<open>select!\<close> is biased.\<close>

record handoff =
  ho_cancelled :: bool
  ho_reload :: bool
  ho_accepted :: bool

definition deliver_observation :: "handoff \<Rightarrow> (unit, RoundOutcome) result" where
  "deliver_observation h =
     (if ho_cancelled h then Err CancelledRound
      else if ho_reload h then Err Reloaded
      else if ho_accepted h then Ok () else Err EngineGone)"

text \<open>What wakes the round: a signal, or one of the reads in flight (any number names one of them), the client that
  answered it, the time it was settled and the hand-off of its observation.\<close>

datatype round_event =
    RoundCancel
  | RoundReload
  | RoundFinished nat client nat handoff

record round_state =
  rd_gate :: gate
  rd_pending :: "Endpoint list"
  rd_in_flight :: "Endpoint list"
  rd_sent :: "CronObservation list"

fun fill :: "nat \<Rightarrow> Endpoint list \<Rightarrow> Endpoint list \<Rightarrow> Endpoint list \<times> Endpoint list" where
  "fill k in_flight [] = (in_flight, [])"
| "fill k in_flight (e # pending) =
     (if length in_flight < k then fill k (in_flight @ [e]) pending else (in_flight, e # pending))"

definition round_start :: "gate \<Rightarrow> Endpoint list \<Rightarrow> round_state" where
  "round_start g endpoints =
     (case fill CRON_MAX_IN_FLIGHT [] endpoints of
        (in_flight, pending) \<Rightarrow> \<lparr>rd_gate = g, rd_pending = pending, rd_in_flight = in_flight, rd_sent = []\<rparr>)"

definition remove_nth :: "nat \<Rightarrow> 'a list \<Rightarrow> 'a list" where
  "remove_nth i xs = take i xs @ drop (Suc i) xs"

text \<open>One turn of the loop with the read at position \<open>i\<close> finished: \<open>Inl\<close> an outcome that ends the round.\<close>

definition round_turn :: "gate \<Rightarrow> nat \<Rightarrow> client \<Rightarrow> nat \<Rightarrow> handoff \<Rightarrow> round_state \<Rightarrow> RoundOutcome option \<times> round_state" where
  "round_turn snapshot i cl now h st =
     (case settle now (fetch cl (rd_in_flight st ! i) snapshot) of
        (observation, commit) \<Rightarrow>
          (case deliver_observation h of
             Err outcome \<Rightarrow> (Some outcome, st)
           | Ok _ \<Rightarrow>
               let st = st\<lparr>rd_sent := rd_sent st @ [observation], rd_in_flight := remove_nth i (rd_in_flight st)\<rparr>;
                   st = (case commit of None \<Rightarrow> st | Some pc \<Rightarrow> st\<lparr>rd_gate := gate_commit pc (rd_gate st)\<rparr>)
               in (None, case rd_pending st of
                           [] \<Rightarrow> st
                         | e # rest \<Rightarrow> st\<lparr>rd_in_flight := rd_in_flight st @ [e], rd_pending := rest\<rparr>)))"

text \<open>The loop of \<open>round\<close> over the events; \<open>None\<close> as the outcome while it waits for the next one.\<close>

fun round_loop :: "gate \<Rightarrow> round_event list \<Rightarrow> round_state \<Rightarrow> RoundOutcome option \<times> round_state" where
  "round_loop snapshot [] st = (if rd_in_flight st = [] then Some Completed else None, st)"
| "round_loop snapshot (ev # evs) st =
     (if rd_in_flight st = [] then (Some Completed, st)
      else (case ev of
              RoundCancel \<Rightarrow> (Some CancelledRound, st)
            | RoundReload \<Rightarrow> (Some Reloaded, st)
            | RoundFinished i cl now h \<Rightarrow>
                (case round_turn snapshot (i mod length (rd_in_flight st)) cl now h st of
                   (Some outcome, st) \<Rightarrow> (Some outcome, st)
                 | (None, st) \<Rightarrow> round_loop snapshot evs st)))"

definition worker_round :: "Endpoint list \<Rightarrow> round_event list \<Rightarrow> gate \<Rightarrow> RoundOutcome option \<times> round_state" where
  "worker_round endpoints evs g = round_loop g evs (round_start g endpoints)"

text \<open>The loop of \<open>run\<close>: every iteration reads the shared endpoint list, forgets absent targets and
  runs a round; \<open>stop\<close> is whether the wait after a completed round ended with the cancellation.\<close>

record iteration =
  it_endpoints :: "Endpoint list"
  it_events :: "round_event list"
  it_cancelled :: bool

fun worker_run :: "iteration list \<Rightarrow> gate \<Rightarrow> CronObservation list \<Rightarrow> gate \<times> CronObservation list" where
  "worker_run [] g sent = (g, sent)"
| "worker_run (it # its) g sent =
     (let g = forget_absent (map endpoint_key (it_endpoints it)) g in
      case worker_round (it_endpoints it) (it_events it) g of
        (outcome, st) \<Rightarrow>
          (case outcome of
             None \<Rightarrow> (rd_gate st, sent @ rd_sent st)
           | Some EngineGone \<Rightarrow> (rd_gate st, sent @ rd_sent st)
           | Some CancelledRound \<Rightarrow> (rd_gate st, sent @ rd_sent st)
           | Some Reloaded \<Rightarrow> worker_run its (rd_gate st) (sent @ rd_sent st)
           | Some Completed \<Rightarrow>
               if it_cancelled it then (rd_gate st, sent @ rd_sent st)
               else worker_run its (rd_gate st) (sent @ rd_sent st)))"


section \<open>Targets\<close>

abbreviation observed_key :: "CronObservation \<Rightarrow> rstr" where
  "observed_key ob \<equiv> target_key (ob_system_id ob) (ob_host ob) (ob_port ob)"

lemma ascii_lower_sep: "ascii_lower c = 0x1F \<longleftrightarrow> c = 0x1F"
  by (simp add: ascii_lower_def)

lemma target_key_iff:
  assumes "0x1F \<notin> set i" "0x1F \<notin> set i'" "normalize_host h = Ok n" "normalize_host h' = Ok n'"
  shows "target_key i h p = target_key i' h' p' \<longleftrightarrow> i = i' \<and> p = p' \<and> equivalent_endpoint_host h h'"
proof -
  let ?l = "to_ascii_lowercase n" and ?l' = "to_ascii_lowercase n'"
  have d: "0x1F \<notin> set (dec_nat q)" for q by (rule dec_nat_no_sep) (simp add: is_digit_def)
  have "target_key i h p = target_key i' h' p' \<longleftrightarrow>
      i @ 0x1F # (?l @ 0x1F # dec_nat p) = i' @ 0x1F # (?l' @ 0x1F # dec_nat p')"
    by (simp add: target_key_def Let_def assms)
  also have "\<dots> \<longleftrightarrow> i = i' \<and> ?l @ 0x1F # dec_nat p = ?l' @ 0x1F # dec_nat p'"
    using assms(1,2) by (rule split_sep_iff)
  also have "\<dots> \<longleftrightarrow> i = i' \<and> ?l = ?l' \<and> dec_nat p = dec_nat p'"
    using rsplit_sep_iff [OF d d, of ?l p ?l' p'] by blast
  finally show ?thesis
    by (auto simp: dec_nat_inj equivalent_endpoint_host_def assms eq_ignore_ascii_case_def)
qed

section \<open>The gate records what was delivered\<close>

definition commit_of :: "CronObservation \<Rightarrow> PendingGateCommit option" where
  "commit_of ob = map_option (\<lambda>h. \<lparr>pc_key = observed_key ob, pc_epoch = hi_epoch h, pc_revision = hi_history_revision h\<rparr>) (ob_history ob)"

definition gate_record :: "CronObservation \<Rightarrow> gate \<Rightarrow> gate" where
  "gate_record ob g = (case commit_of ob of None \<Rightarrow> g | Some pc \<Rightarrow> gate_commit pc g)"

definition observation_of :: "Endpoint \<Rightarrow> CronObservation \<Rightarrow> bool" where
  "observation_of e ob \<longleftrightarrow> ob_system_id ob = en_id e \<and> ob_host ob = en_host e \<and> ob_port ob = en_port e"

text \<open>A history that an observation carries belongs to its summary, and both passed validation.\<close>

definition coherent :: "CronObservation \<Rightarrow> bool" where
  "coherent ob \<longleftrightarrow> (\<forall>h. ob_history ob = Some h \<longrightarrow> ob_history_error ob = None \<and> history_valid h \<and>
     (\<exists>m. ob_summary ob = SummarySupported m \<and> summary_valid m \<and> hi_epoch h = sm_epoch m \<and>
        hi_history_revision h = sm_history_revision m))"

lemma client_summary_valid: "client_summary cl e = SummarySupported m \<Longrightarrow> summary_valid m"
  by (auto simp: client_summary_def is_ok_validate split: result.splits option.splits if_splits)

lemma result_bind_OkE: "result_bind x f = Ok y \<Longrightarrow> (\<And>z. x = Ok z \<Longrightarrow> f z = Ok y \<Longrightarrow> P) \<Longrightarrow> P"
  by (cases x) simp_all

lemma client_history_valid: "client_history cl e = Ok (Some h) \<Longrightarrow> history_valid h"
  by (auto simp: client_history_def is_ok_validate simp del: result_bind_Ok_iff
      split: result.split_asm option.split_asm if_split_asm elim!: result_bind_OkE)

lemma settle_fetch:
  assumes "settle now (fetch cl e g) = (ob, pc)"
  shows "pc = commit_of ob" and "observation_of e ob" and "coherent ob"
proof -
  show "pc = commit_of ob" "observation_of e ob"
    using assms
    by (auto simp: settle_def fetch_def settle_pair_def commit_of_def observation_of_def Let_def
        split: SummaryOutcome.splits HistoryAttempt.splits result.splits option.splits if_splits)
  show "coherent ob"
    using assms client_summary_valid [of cl e] client_history_valid [of cl e]
    by (auto simp: settle_def fetch_def settle_pair_def coherent_def Let_def
        split: SummaryOutcome.splits HistoryAttempt.splits result.splits option.splits if_splits)
qed

section \<open>Rounds\<close>

text \<open>The invariant of a round over the endpoints \<open>es\<close> that started with the gate \<open>g0\<close>.\<close>

definition round_inv :: "gate \<Rightarrow> Endpoint list \<Rightarrow> round_state \<Rightarrow> bool" where
  "round_inv g0 es st \<longleftrightarrow> rd_gate st = fold gate_record (rd_sent st) g0 \<and> list_all coherent (rd_sent st) \<and>
     (\<exists>ends. list_all2 observation_of ends (rd_sent st) \<and> mset es = mset ends + mset (rd_in_flight st) + mset (rd_pending st)) \<and>
     length (rd_in_flight st) \<le> CRON_MAX_IN_FLIGHT \<and> (rd_in_flight st = [] \<longrightarrow> rd_pending st = [])"

lemma fill_spec:
  "fill k a b = (x, y) \<Longrightarrow> length a \<le> k \<Longrightarrow> x @ y = a @ b \<and> length x \<le> k \<and> (length x < k \<longrightarrow> y = [])"
  by (induction k a b rule: fill.induct) (auto split: if_splits)

lemma round_start_inv: "round_inv g es (round_start g es)"
proof -
  obtain x y where f: "fill CRON_MAX_IN_FLIGHT [] es = (x, y)" by fastforce
  from fill_spec [OF f] have "es = x @ y" "length x \<le> CRON_MAX_IN_FLIGHT" "length x < CRON_MAX_IN_FLIGHT \<longrightarrow> y = []" by auto
  then show ?thesis unfolding round_inv_def round_start_def f by (auto simp: CRON_MAX_IN_FLIGHT_def)
qed

lemma mset_remove_nth: "i < length xs \<Longrightarrow> mset xs = add_mset (xs ! i) (mset (remove_nth i xs))"
  unfolding remove_nth_def by (metis add_mset_add_single id_take_nth_drop mset.simps(2) mset_append union_mset_add_mset_right)

lemma length_remove_nth: "i < length xs \<Longrightarrow> Suc (length (remove_nth i xs)) = length xs"
  by (simp add: remove_nth_def)

lemma round_turn_inv:
  assumes inv: "round_inv g0 es st" and i: "i < length (rd_in_flight st)"
    and turn: "round_turn snapshot i cl now h st = (out, st')"
  shows "round_inv g0 es st'" and "out = None \<Longrightarrow> length (rd_sent st') = Suc (length (rd_sent st))"
    and "out \<noteq> None \<Longrightarrow> st' = st"
    and "out \<noteq> None \<longleftrightarrow> deliver_observation h \<noteq> Ok ()" and "out \<noteq> Some Completed"
proof -
  let ?e = "rd_in_flight st ! i"
  obtain ob pc where s: "settle now (fetch cl ?e snapshot) = (ob, pc)" by fastforce
  note sf = settle_fetch [OF s]
  show o: "out \<noteq> None \<longleftrightarrow> deliver_observation h \<noteq> Ok ()" "out \<noteq> Some Completed" "out \<noteq> None \<Longrightarrow> st' = st"
    using turn by (auto simp: round_turn_def s Let_def deliver_observation_def split: if_splits)
  show "out = None \<Longrightarrow> length (rd_sent st') = Suc (length (rd_sent st))"
    using turn by (auto simp: round_turn_def s Let_def deliver_observation_def split: if_splits option.splits list.splits)
  show "round_inv g0 es st'"
  proof (cases "out = None")
    case False
    then show ?thesis using o(3) inv by simp
  next
    case True
    then have "deliver_observation h = Ok ()" using o(1) by simp
    then have st': "rd_gate st' = gate_record ob (rd_gate st)" "rd_sent st' = rd_sent st @ [ob]"
      "rd_in_flight st' = remove_nth i (rd_in_flight st) @ take 1 (rd_pending st)" "rd_pending st' = drop 1 (rd_pending st)"
      using turn by (auto simp: round_turn_def s Let_def sf(1) gate_record_def split: option.splits list.splits)
    obtain ends where e: "list_all2 observation_of ends (rd_sent st)"
      "mset es = mset ends + mset (rd_in_flight st) + mset (rd_pending st)"
      using inv by (auto simp: round_inv_def)
    have pend: "mset (rd_pending st) = mset (take 1 (rd_pending st)) + mset (drop 1 (rd_pending st))"
      by (metis append_take_drop_id mset_append)
    have "list_all2 observation_of (ends @ [?e]) (rd_sent st')" using e(1) sf(2) by (simp add: st' list_all2_appendI)
    moreover have "mset es = mset (ends @ [?e]) + mset (rd_in_flight st') + mset (rd_pending st')"
      using e(2) mset_remove_nth [OF i] pend by (simp add: st')
    moreover have "length (rd_in_flight st') \<le> CRON_MAX_IN_FLIGHT"
      using inv length_remove_nth [OF i] by (auto simp: st' round_inv_def)
    moreover have "rd_in_flight st' = [] \<longrightarrow> rd_pending st' = []" by (cases "rd_pending st") (simp_all add: st')
    ultimately show ?thesis using inv sf(3) by (auto simp: round_inv_def st')
  qed
qed

lemma round_loop_inv:
  "round_inv g0 es st \<Longrightarrow> round_inv g0 es (snd (round_loop snapshot evs st)) \<and>
   (fst (round_loop snapshot evs st) = Some Completed \<longrightarrow> rd_in_flight (snd (round_loop snapshot evs st)) = [])"
proof (induction evs arbitrary: st)
  case (Cons ev evs)
  show ?case
  proof (cases "rd_in_flight st = [] \<or> ev = RoundCancel \<or> ev = RoundReload")
    case True
    then show ?thesis using Cons.prems by auto
  next
    case False
    then obtain i cl now h where ev: "ev = RoundFinished i cl now h" by (cases ev) auto
    let ?i = "i mod length (rd_in_flight st)"
    have i: "?i < length (rd_in_flight st)" using False by simp
    obtain out st' where t: "round_turn snapshot ?i cl now h st = (out, st')" by fastforce
    note ti = round_turn_inv [OF Cons.prems i t]
    show ?thesis
    proof (cases out)
      case None
      then show ?thesis using Cons.IH [OF ti(1)] False by (simp add: ev t)
    next
      case (Some oc)
      then show ?thesis using ti False by (simp add: ev t)
    qed
  qed
qed simp


abbreviation endpoint_target :: "Endpoint \<Rightarrow> rstr \<times> rstr \<times> nat" where
  "endpoint_target e \<equiv> (en_id e, en_host e, en_port e)"

abbreviation observed_target :: "CronObservation \<Rightarrow> rstr \<times> rstr \<times> nat" where
  "observed_target ob \<equiv> (ob_system_id ob, ob_host ob, ob_port ob)"

lemma observation_of_targets: "list_all2 observation_of ends obs \<Longrightarrow> map observed_target obs = map endpoint_target ends"
  by (induction rule: list_all2_induct) (simp_all add: observation_of_def)

text \<open>What a round leaves behind, for every outcome.\<close>

lemma worker_round_facts:
  assumes "worker_round es evs g = (outcome, st)"
  shows "rd_gate st = fold gate_record (rd_sent st) g" and "list_all coherent (rd_sent st)"
    and "set (map observed_target (rd_sent st)) \<subseteq> set (map endpoint_target es)"
    and "length (rd_in_flight st) \<le> CRON_MAX_IN_FLIGHT"
    and "outcome = Some Completed \<Longrightarrow> mset (map observed_target (rd_sent st)) = mset (map endpoint_target es)"
proof -
  have st: "st = snd (round_loop g evs (round_start g es))" "outcome = fst (round_loop g evs (round_start g es))"
    using assms by (simp_all add: worker_round_def)
  note inv = round_loop_inv [OF round_start_inv [of g es], of g evs, folded st]
  show "rd_gate st = fold gate_record (rd_sent st) g" "list_all coherent (rd_sent st)"
    "length (rd_in_flight st) \<le> CRON_MAX_IN_FLIGHT"
    using inv by (simp_all add: round_inv_def)
  obtain ends where e: "list_all2 observation_of ends (rd_sent st)"
    "mset es = mset ends + mset (rd_in_flight st) + mset (rd_pending st)"
    using inv by (auto simp: round_inv_def)
  have t: "map observed_target (rd_sent st) = map endpoint_target ends" by (rule observation_of_targets [OF e(1)])
  have "set ends \<subseteq> set es" using e(2) by (metis Un_upper1 le_supI1 set_mset_mset set_mset_union)
  then show "set (map observed_target (rd_sent st)) \<subseteq> set (map endpoint_target es)" unfolding t by auto
  assume "outcome = Some Completed"
  then have "rd_in_flight st = []" "rd_pending st = []" using inv by (auto simp: round_inv_def)
  then have "mset es = mset ends" using e(2) by simp
  then show "mset (map observed_target (rd_sent st)) = mset (map endpoint_target es)" unfolding t by (simp only: mset_map)
qed

definition delivered :: "gate \<Rightarrow> CronObservation list \<Rightarrow> bool" where
  "delivered g sent \<longleftrightarrow> list_all coherent sent \<and>
     (\<forall>key v. bt_get g key = Some v \<longrightarrow> (\<exists>ob \<in> set sent. observed_key ob = key \<and>
        (\<exists>h. ob_history ob = Some h \<and> v = (hi_epoch h, hi_history_revision h))))"

lemma bt_get_gate_record:
  "bt_get (gate_record ob g) key =
     (case ob_history ob of
        Some h \<Rightarrow> if key = observed_key ob then Some (hi_epoch h, hi_history_revision h) else bt_get g key
      | None \<Rightarrow> bt_get g key)"
  by (simp add: gate_record_def commit_of_def gate_commit_def bt_get_insert split: option.splits)

lemma delivered_fold:
  "delivered g sent \<Longrightarrow> list_all coherent obs \<Longrightarrow> delivered (fold gate_record obs g) (sent @ obs)"
proof (induction obs arbitrary: g sent)
  case (Cons ob obs)
  have "delivered (gate_record ob g) (sent @ [ob])"
    using Cons.prems by (fastforce simp: delivered_def bt_get_gate_record split: option.splits if_splits)
  from Cons.IH [OF this] Cons.prems(2) show ?case by simp
qed simp

lemma delivered_forget: "delivered g sent \<Longrightarrow> delivered (forget_absent live g) sent"
  by (auto simp: delivered_def forget_absent_def bt_get_retain split: if_splits)

lemma worker_run_delivered: "delivered g sent \<Longrightarrow> worker_run its g sent = (g', sent') \<Longrightarrow> delivered g' sent'"
proof (induction its arbitrary: g sent)
  case (Cons it its)
  let ?g = "forget_absent (map endpoint_key (it_endpoints it)) g"
  obtain outcome st where r: "worker_round (it_endpoints it) (it_events it) ?g = (outcome, st)" by fastforce
  have "delivered (rd_gate st) (sent @ rd_sent st)"
    using delivered_fold [OF delivered_forget [OF Cons.prems(1)]] worker_round_facts [OF r] by simp
  then show ?case
    using Cons.prems(2) Cons.IH [of "rd_gate st" "sent @ rd_sent st"]
    by (auto simp: r Let_def split: option.splits RoundOutcome.splits if_splits)
qed simp

text \<open>Progress: while reads are accepted, every finished read is delivered.\<close>

fun accepting :: "round_event \<Rightarrow> bool" where
  "accepting (RoundFinished _ _ _ h) = (deliver_observation h = Ok ())"
| "accepting _ = False"

lemma round_inv_length:
  assumes "round_inv g0 es st"
  shows "length es = length (rd_sent st) + length (rd_in_flight st) + length (rd_pending st)"
proof -
  obtain ends where e: "list_all2 observation_of ends (rd_sent st)"
    "mset es = mset ends + mset (rd_in_flight st) + mset (rd_pending st)"
    using assms by (auto simp: round_inv_def)
  have "size (mset es) = size (mset ends) + size (mset (rd_in_flight st)) + size (mset (rd_pending st))"
    unfolding e(2) by simp
  then show ?thesis using list_all2_lengthD [OF e(1)] by simp
qed

lemma round_loop_completes:
  "round_inv g0 es st \<Longrightarrow> list_all accepting evs \<Longrightarrow>
   length (rd_in_flight st) + length (rd_pending st) \<le> length evs \<Longrightarrow> fst (round_loop snapshot evs st) = Some Completed"
proof (induction evs arbitrary: st)
  case (Cons ev evs)
  show ?case
  proof (cases "rd_in_flight st = []")
    case False
    obtain i cl now h where ev: "ev = RoundFinished i cl now h" "deliver_observation h = Ok ()"
      using Cons.prems(2) by (cases ev) auto
    let ?i = "i mod length (rd_in_flight st)"
    have i: "?i < length (rd_in_flight st)" using False by simp
    obtain out st' where t: "round_turn snapshot ?i cl now h st = (out, st')" by fastforce
    note ti = round_turn_inv [OF Cons.prems(1) i t]
    have out: "out = None" using ti(4) ev(2) by auto
    have "length (rd_in_flight st') + length (rd_pending st') \<le> length evs"
      using Cons.prems(3) round_inv_length [OF Cons.prems(1)] round_inv_length [OF ti(1)] ti(2) [OF out] by simp
    from Cons.IH [OF ti(1) _ this] Cons.prems(2) show ?thesis using False by (simp add: ev(1) t out)
  qed simp
qed simp


section \<open>Observations that are not reported\<close>

text \<open>What a scheduler row shows of a state, and the records it can list: those of the summary's jobs.\<close>

definition state_row :: "CronSystemState \<Rightarrow>
    CronCapability \<times> (SchedulerEpochV2 \<times> nat \<times> SchedulerJobV2 list) option \<times> CronFetchError option" where
  "state_row s = (cs_capability s, map_option (\<lambda>m. (sm_epoch m, sm_history_revision m, sm_jobs m)) (cs_summary s), cs_last_error s)"

definition listed_jobs :: "CronSystemState \<Rightarrow> rstr list" where
  "listed_jobs s = (case cs_summary s of None \<Rightarrow> [] | Some m \<Rightarrow> map jv_name (sm_jobs m))"

definition listed_records :: "CronSystemState \<Rightarrow> CronRecord list list" where
  "listed_records s =
     (if length (listed_jobs s) \<le> MAX_CRON_JOBS_PER_SYSTEM then map (job_records s) (listed_jobs s) else [])"

definition cron_view :: "CronCache \<Rightarrow> rstr \<Rightarrow>
    ((CronCapability \<times> (SchedulerEpochV2 \<times> nat \<times> SchedulerJobV2 list) option \<times> CronFetchError option) \<times> CronRecord list list) option" where
  "cron_view c sid = map_option (\<lambda>s. (state_row s, listed_records s)) (bt_get (ca_systems c) sid)"

definition kept_records :: "(rstr, CronJobCache) btree \<Rightarrow> rstr \<Rightarrow> CronRecord list" where
  "kept_records jobs name = (case bt_get jobs name of None \<Rightarrow> [] | Some job \<Rightarrow> cj_records job)"

definition kept_count :: "(rstr, CronJobCache) btree \<Rightarrow> nat" where
  "kept_count jobs = sum_list (map (\<lambda>e. length (cj_records (snd e))) jobs)"

text \<open>A merge that adds nothing leaves every job's records, and their number.\<close>

lemma merge_job_unmerged:
  assumes "merge_job epoch p h (jobs, b) = (jobs', False)"
    and "bt_wf jobs" "\<forall>e \<in> set jobs. job_inv p (fst e) (snd e)"
  shows "\<not> b \<and> kept_records jobs' = kept_records jobs \<and> kept_count jobs' = kept_count jobs"
proof (cases "jh_name h = [] \<or> str_len (jh_name h) > MAX_SCHEDULER_JOB_NAME_BYTES")
  case True
  then show ?thesis using assms(1) by (simp add: merge_job_def)
next
  case False
  let ?job = "bt_get_or job_cache_empty jobs (jh_name h)"
  have fresh: "\<not> b" "fresh_records epoch (jh_records h) (job_ids ?job) = []"
    and jobs': "jobs' = bt_insert (jh_name h) (depth_evict p ?job) jobs"
    using assms(1) False by (auto simp: merge_job_def merge_records_fresh Let_def)
  have short: "length (cj_records ?job) \<le> p"
  proof (cases "bt_get jobs (jh_name h)")
    case None
    then show ?thesis by (simp add: bt_get_or_def job_cache_empty_def)
  next
    case (Some j)
    then have "(jh_name h, j) \<in> set jobs" by (rule bt_get_SomeD)
    with assms(3) Some show ?thesis by (fastforce simp: bt_get_or_def job_inv_def)
  qed
  then have same: "depth_evict p ?job = ?job" by (simp add: depth_evict_def)
  have rec: "cj_records ?job = kept_records jobs (jh_name h)"
    by (simp add: bt_get_or_def kept_records_def job_cache_empty_def split: option.split)
  have "kept_records jobs' name = kept_records jobs name" for name
    by (simp add: jobs' same kept_records_def [of "bt_insert _ _ _"] bt_get_insert rec) (simp add: kept_records_def)
  moreover have "kept_count jobs' = kept_count jobs"
  proof -
    have j: "jobs' = bt_insert (jh_name h) ?job jobs" by (simp only: jobs' same)
    show ?thesis
      using bt_sum_insert [OF assms(2), of "\<lambda>j. length (cj_records j)" "jh_name h" ?job]
      unfolding j kept_count_def by (simp add: bt_get_or_def job_cache_empty_def split: option.splits)
  qed
  ultimately show ?thesis using fresh(1) by blast
qed

lemma fold_merge_unmerged:
  assumes "fold (merge_job epoch p) hs (jobs, b) = (jobs', False)"
    and "bt_wf jobs" "\<forall>e \<in> set jobs. job_inv p (fst e) (snd e)"
  shows "\<not> b \<and> kept_records jobs' = kept_records jobs \<and> kept_count jobs' = kept_count jobs"
  using assms
proof (induction hs arbitrary: jobs b)
  case (Cons h hs)
  obtain jobs1 b1 where m: "merge_job epoch p h (jobs, b) = (jobs1, b1)" by fastforce
  have inv: "bt_wf jobs1" "\<forall>e \<in> set jobs1. job_inv p (fst e) (snd e)"
    using merge_job_inv [OF Cons.prems(2,3), of epoch h b] m by simp_all
  have rest: "\<not> b1" "kept_records jobs' = kept_records jobs1" "kept_count jobs' = kept_count jobs1"
    using Cons.IH [of jobs1 b1] inv Cons.prems(1) m by simp_all
  with merge_job_unmerged [of epoch p h jobs b jobs1] m Cons.prems(2,3) show ?case by simp
qed simp

lemma evict_stale_count: "kept_count (cs_jobs (evict_stale_jobs s)) \<le> kept_count (cs_jobs s)"
proof -
  have retain: "kept_count (bt_retain P m) \<le> kept_count m" for P m
    by (induction m) (auto simp: kept_count_def bt_retain_def)
  have "kept_count (drop n m) \<le> kept_count m" for n m
    by (induction m arbitrary: n) (auto simp: kept_count_def drop_Cons' intro: trans_le_add2)
  then have last: "kept_count (take_last n m) \<le> kept_count m" for n m by (simp add: take_last_def)
  have "kept_count (take_last n (bt_retain P m)) \<le> kept_count m" for n P m
    using last [of n "bt_retain P m"] retain [of P m] by (rule le_trans)
  with last show ?thesis by (simp add: evict_stale_jobs_def Let_def pop_front_while_eq split: option.split)
qed

lemma history_unmerged:
  assumes "system_apply_history d p s = (False, s')" "system_inv p s"
  shows "state_row s' = state_row s" "listed_records s' = listed_records s" "system_records s' \<le> system_records s"
proof -
  obtain jobs where f: "fold (merge_job (hi_epoch d) p) (hi_jobs d) (cs_jobs s, False) = (jobs, False)"
    using assms(1) by (auto simp: system_apply_history_def Let_def split: prod.splits)
  let ?s = "s\<lparr>cs_epoch := Some (hi_epoch d), cs_history_revision := Some (hi_history_revision d), cs_jobs := jobs\<rparr>"
  have s': "s' = evict_stale_jobs ?s" using assms(1) f by (simp add: system_apply_history_def Let_def)
  note u = fold_merge_unmerged [OF f] assms(2)
  have kept: "kept_records jobs = kept_records (cs_jobs s)" "kept_count jobs = kept_count (cs_jobs s)"
    using u by (simp_all add: system_inv_def)
  have wf: "bt_wf jobs" using fold_merge_job_inv [of "cs_jobs s" p "hi_epoch d" "hi_jobs d" False] assms(2) f by (simp add: system_inv_def)
  have fields: "cs_capability s' = cs_capability s" "cs_summary s' = cs_summary s" "cs_last_error s' = cs_last_error s"
    by (simp_all add: s' evict_stale_jobs_def Let_def split: option.split)
  then show "state_row s' = state_row s" by (simp add: state_row_def)
  have "job_records s' name = job_records s name"
    if listed: "length (listed_jobs s) \<le> MAX_CRON_JOBS_PER_SYSTEM" "name \<in> set (listed_jobs s)" for name
  proof -
    obtain m where m: "cs_summary s = Some m" "length (sm_jobs m) \<le> MAX_CRON_JOBS_PER_SYSTEM" "name \<in> jv_name ` set (sm_jobs m)"
      using listed by (cases "cs_summary s") (simp_all add: listed_jobs_def)
    have "bt_get (cs_jobs s') name = bt_get jobs name"
      using evict_stale_jobs_get [of ?s m name] wf m by (simp add: s')
    then have "job_records s' name = kept_records jobs name" by (simp add: job_records_def kept_records_def)
    then show ?thesis by (simp add: kept(1)) (simp add: job_records_def kept_records_def)
  qed
  then show "listed_records s' = listed_records s" by (simp add: listed_records_def listed_jobs_def fields(2))
  show "system_records s' \<le> system_records s"
    using evict_stale_count [of ?s] kept(2) by (simp add: s' system_records_def kept_count_def)
qed

text \<open>Then nothing has to be evicted, and the other systems keep their records.\<close>

lemma cache_history_unmerged:
  assumes "cache_apply_history sid d c = (False, c')" "cache_inv c"
  shows "cron_view c' = (\<lambda>i. if i = sid
    then Some (state_row (bt_get_or system_unknown (ca_systems c) sid), listed_records (bt_get_or system_unknown (ca_systems c) sid))
    else cron_view c i)"
proof -
  let ?s = "bt_get_or system_unknown (ca_systems c) sid"
  obtain s' where s': "system_apply_history d (ca_per_job c) ?s = (False, s')"
    using assms(1) by (cases "system_apply_history d (ca_per_job c) ?s") (simp add: cache_apply_history_def)
  have shape: "cache_shape c" using assms(2) by (simp add: cache_inv_def)
  note u = history_unmerged [OF s' cache_shape_system [OF shape]]
  let ?c = "c\<lparr>ca_systems := bt_insert sid s' (ca_systems c)\<rparr>"
  have "cache_count ?c \<le> cache_count c" using cache_count_insert [OF shape, of sid s'] u(3) by linarith
  then have "enforce_total (recount ?c) = recount ?c"
    using assms(2) by (subst enforce_total.simps) (simp add: cache_inv_def)
  then have "c' = recount ?c" using assms(1) s' by (simp add: cache_apply_history_def)
  then show ?thesis by (auto simp: fun_eq_iff cron_view_def bt_get_insert u(1,2))
qed

lemma opt_jobs_eqD: "opt_jobs_eq a b \<Longrightarrow> a = b"
  by (induction a b rule: opt_jobs_eq.induct) (auto dest: jobs_eqD)

lemma rendered_row:
  assumes "rendered_eq (rendered_state a) (rendered_state b)"
  shows "state_row a = state_row b"
proof -
  have "cs_capability a = cs_capability b" "cs_last_error a = cs_last_error b"
    "map_option (\<lambda>m. (sm_epoch m, sm_history_revision m)) (cs_summary a) = map_option (\<lambda>m. (sm_epoch m, sm_history_revision m)) (cs_summary b)"
    "map_option sm_jobs (cs_summary a) = map_option sm_jobs (cs_summary b)"
    using assms opt_jobs_eqD by (auto simp: rendered_eq_def rendered_state_def)
  then show ?thesis by (cases "cs_summary a"; cases "cs_summary b") (simp_all add: state_row_def)
qed

lemma listed_row: "state_row a = state_row b \<Longrightarrow> listed_jobs a = listed_jobs b"
  by (auto simp: state_row_def listed_jobs_def split: option.splits)

lemma rendered_view:
  assumes "opt_rendered_eq (rendered_of c' sid) (rendered_of c sid)"
    and "\<And>i. i \<noteq> sid \<Longrightarrow> bt_get (ca_systems c') i = bt_get (ca_systems c) i"
    and "\<And>s s'. bt_get (ca_systems c) sid = Some s \<Longrightarrow> bt_get (ca_systems c') sid = Some s' \<Longrightarrow> cs_jobs s' = cs_jobs s"
  shows "cron_view c' = cron_view c"
proof
  fix i show "cron_view c' i = cron_view c i"
  proof (cases "i = sid")
    case True
    show ?thesis
    proof (cases "bt_get (ca_systems c) sid")
      case None
      with assms(1) have "bt_get (ca_systems c') sid = None" by (cases "bt_get (ca_systems c') sid") (simp_all add: rendered_of_def)
      with None True show ?thesis by (simp add: cron_view_def)
    next
      case (Some s)
      with assms(1) obtain s' where s': "bt_get (ca_systems c') sid = Some s'" "rendered_eq (rendered_state s') (rendered_state s)"
        by (cases "bt_get (ca_systems c') sid") (simp_all add: rendered_of_def)
      note row = rendered_row [OF s'(2)]
      have "job_records s' = job_records s" using assms(3) [OF Some s'(1)] by (simp add: job_records_def fun_eq_iff)
      then have "listed_records s' = listed_records s" using listed_row [OF row] by (simp add: listed_records_def)
      with row Some s'(1) True show ?thesis by (simp add: cron_view_def)
    qed
  qed (simp add: cron_view_def assms(2))
qed

lemma system_update_get:
  "bt_get (ca_systems (system_update sid f c)) i =
     (if i = sid then Some (f (bt_get_or system_unknown (ca_systems c) sid)) else bt_get (ca_systems c) i)"
  by (simp add: system_update_def bt_get_insert)

text \<open>An observation that is not reported changes no row of the cache and no record that a row lists.\<close>

lemma observation_unreported:
  assumes "observation_apply ob c = (False, c')" "cache_inv c"
  shows "cron_view c' = cron_view c"
proof (cases "ob_summary ob")
  case (SummarySupported m)
  let ?sid = "ob_system_id ob" and ?now = "ob_now_unix_ms ob"
  define c1 where "c1 = cache_apply_summary ?sid m ?now c"
  have inv: "cache_inv c1"
    unfolding c1_def cache_apply_summary_def by (rule cache_inv_system_update [OF assms(2)]) (simp add: apply_summary_def)
  define s1 where "s1 = apply_summary m ?now (bt_get_or system_unknown (ca_systems c) ?sid)"
  have get1: "bt_get (ca_systems c1) i = (if i = ?sid then Some s1 else bt_get (ca_systems c) i)" for i
    by (simp add: c1_def s1_def cache_apply_summary_def system_update_get)
  define failing where "failing = (\<lambda>c. case ob_history_error ob of Some err \<Rightarrow> system_update ?sid (mark_failed err ?now) c | None \<Rightarrow> c)"
  define c2 where "c2 = (case ob_history ob of Some h \<Rightarrow> snd (cache_apply_history ?sid h c1) | None \<Rightarrow> c1)"
  have c': "c' = failing c2" "opt_rendered_eq (rendered_of (failing c2) ?sid) (rendered_of c ?sid)"
    and um: "\<And>h. ob_history ob = Some h \<Longrightarrow> \<not> fst (cache_apply_history ?sid h c1)"
    using assms(1) SummarySupported
    by (auto simp: observation_apply_def Let_def c1_def [symmetric] c2_def failing_def split: option.splits prod.splits if_splits)
  have view2: "cron_view c2 = cron_view c1"
  proof (cases "ob_history ob")
    case (Some h)
    then have h: "cache_apply_history ?sid h c1 = (False, c2)" using um [OF Some] by (simp add: c2_def prod_eq_iff)
    have "bt_get_or system_unknown (ca_systems c1) ?sid = s1" by (simp add: bt_get_or_def get1)
    then show ?thesis
      using cache_history_unmerged [OF h inv] by (auto simp: fun_eq_iff cron_view_def get1)
  qed (simp add: c2_def)
  have get2: "\<exists>s2. bt_get (ca_systems c2) ?sid = Some s2 \<and> state_row s2 = state_row s1 \<and> listed_records s2 = listed_records s1"
    using fun_cong [OF view2, of ?sid] by (auto simp: cron_view_def get1)
  then obtain s2 where s2: "bt_get (ca_systems c2) ?sid = Some s2" "state_row s2 = state_row s1" "listed_records s2 = listed_records s1"
    by blast
  define s3 where "s3 = (case ob_history_error ob of Some err \<Rightarrow> mark_failed err ?now s2 | None \<Rightarrow> s2)"
  have get3: "bt_get (ca_systems c') i = (if i = ?sid then Some s3 else bt_get (ca_systems c2) i)" for i
    using s2(1) by (simp add: c'(1) failing_def s3_def system_update_get bt_get_or_def split: option.split)
  have listed3: "listed_records s3 = listed_records s1" "listed_jobs s3 = listed_jobs s1"
  proof -
    have "listed_jobs (mark_failed err t s) = listed_jobs s" "listed_records (mark_failed err t s) = listed_records s" for err t s
      by (simp_all add: listed_records_def listed_jobs_def mark_failed_def job_records_def [abs_def])
    then show "listed_records s3 = listed_records s1" "listed_jobs s3 = listed_jobs s1"
      using s2(3) listed_row [OF s2(2)] by (simp_all add: s3_def split: option.split)
  qed
  show ?thesis
  proof
    fix i show "cron_view c' i = cron_view c i"
    proof (cases "i = ?sid")
      case False
      then show ?thesis using fun_cong [OF view2, of i] by (simp add: cron_view_def get3 get1)
    next
      case True
      obtain s where s: "bt_get (ca_systems c) ?sid = Some s" "rendered_eq (rendered_state s3) (rendered_state s)"
        using c' get3 [of ?sid] by (cases "bt_get (ca_systems c) ?sid") (simp_all add: rendered_of_def)
      note row = rendered_row [OF s(2)]
      have "job_records s1 = job_records s" using s(1) by (simp add: s1_def bt_get_or_def apply_summary_def job_records_def fun_eq_iff)
      then have "listed_records s1 = listed_records s" using listed_row [OF row] listed3(2) by (simp add: listed_records_def)
      with row listed3(1) s(1) True show ?thesis by (simp add: cron_view_def get3)
    qed
  qed
next
  case SummaryUnsupported
  then have c': "c' = system_update (ob_system_id ob) (\<lambda>s. (mark_unsupported s)\<lparr>cs_last_attempt_at_unix_ms := Some (ob_now_unix_ms ob)\<rparr>) c"
    "opt_rendered_eq (rendered_of c' (ob_system_id ob)) (rendered_of c (ob_system_id ob))"
    using assms(1) by (auto simp: observation_apply_def Let_def)
  show ?thesis
    by (rule rendered_view [OF c'(2)]) (auto simp: c'(1) system_update_get bt_get_or_def mark_unsupported_def)
next
  case (SummaryFailed err)
  then have c': "c' = system_update (ob_system_id ob) (mark_failed err (ob_now_unix_ms ob)) c"
    "opt_rendered_eq (rendered_of c' (ob_system_id ob)) (rendered_of c (ob_system_id ob))"
    using assms(1) by (auto simp: observation_apply_def Let_def)
  show ?thesis
    by (rule rendered_view [OF c'(2)]) (auto simp: c'(1) system_update_get bt_get_or_def mark_failed_def)
qed

lemma observation_cache_inv:
  assumes "cache_inv c"
  shows "cache_inv (snd (observation_apply ob c))"
proof -
  have update: "cache_inv (system_update sid (mark_failed e t) d)"
    "cache_inv (system_update sid (\<lambda>s. (mark_unsupported s)\<lparr>cs_last_attempt_at_unix_ms := v\<rparr>) d)"
    "cache_inv (cache_apply_summary sid m t d)" if "cache_inv d" for sid e t d v m
    using that by (simp_all add: cache_inv_system_update mark_failed_def mark_unsupported_def cache_apply_summary_def apply_summary_def)
  show ?thesis
    using assms update
    by (cases "ob_summary ob"; cases "ob_history ob"; cases "ob_history_error ob")
      (simp_all add: observation_apply_def Let_def case_prod_beta cache_apply_history_inv)
qed

section \<open>Properties\<close>

text \<open>
  C11. The gate only says \<open>fetched\<close> of documents the engine was handed: whatever the remotes answer, in
  whatever order reads finish, and however rounds are reloaded, cancelled or cut off, every entry of
  the gate was committed by a delivered observation of that target, whose history passed validation
  and has the epoch and revision of the valid summary it was delivered with.
\<close>

theorem gate_records_delivered:
  assumes "worker_run its [] [] = (g, sent)" and "bt_get g key = Some (epoch, revision)"
  shows "\<exists>ob \<in> set sent. \<exists>m h. observed_key ob = key \<and> ob_summary ob = SummarySupported m \<and> ob_history ob = Some h \<and>
    summary_valid m \<and> history_valid h \<and> hi_epoch h = epoch \<and> hi_history_revision h = revision \<and>
    sm_epoch m = epoch \<and> sm_history_revision m = revision"
proof -
  have "delivered g sent" using worker_run_delivered [OF _ assms(1)] by (simp add: delivered_def bt_get_def)
  then obtain ob h where ob: "ob \<in> set sent" "observed_key ob = key" "ob_history ob = Some h"
    "hi_epoch h = epoch" "hi_history_revision h = revision" "coherent ob"
    using assms(2) by (fastforce simp: delivered_def list_all_iff)
  then obtain m where "ob_summary ob = SummarySupported m" "summary_valid m" "history_valid h" "sm_epoch m = epoch"
    "sm_history_revision m = revision" by (auto simp: coherent_def)
  with ob show ?thesis by blast
qed

text \<open>
  C34. A round observes the fleet fairly: at most four reads are in flight, every delivered
  observation belongs to an endpoint of the round, a completed round delivered exactly one
  observation per endpoint, and when every finished read is accepted the round completes after as
  many reads as there are endpoints, in whatever order they finish.
\<close>

theorem round_observes_each_endpoint:
  assumes "worker_round es evs g = (outcome, st)"
  shows "length (rd_in_flight st) \<le> CRON_MAX_IN_FLIGHT \<and>
    set (map observed_target (rd_sent st)) \<subseteq> set (map endpoint_target es) \<and>
    (outcome = Some Completed \<longrightarrow> mset (map observed_target (rd_sent st)) = mset (map endpoint_target es)) \<and>
    (list_all accepting evs \<and> length es \<le> length evs \<longrightarrow> outcome = Some Completed)"
proof -
  have "outcome = Some Completed" if "list_all accepting evs" "length es \<le> length evs"
  proof -
    have "length (rd_in_flight (round_start g es)) + length (rd_pending (round_start g es)) \<le> length evs"
      using round_inv_length [OF round_start_inv [of g es]] that(2) by simp
    from round_loop_completes [OF round_start_inv that(1) this, of g] show ?thesis
      using assms by (simp add: worker_round_def)
  qed
  then show ?thesis using worker_round_facts [OF assms] by blast
qed

text \<open>
  The key of the gate identifies the target the way the engine does: for systems whose identifier
  has no unit separator and whose hosts are well-formed, two keys are equal exactly when the
  identifiers and ports are and the hosts are equivalent spellings of one endpoint.
\<close>

theorem target_key_identifies:
  assumes "0x1F \<notin> set i" and "0x1F \<notin> set i'" and "normalize_host h = Ok n" and "normalize_host h' = Ok n'"
  shows "target_key i h p = target_key i' h' p' \<longleftrightarrow> i = i' \<and> p = p' \<and> equivalent_endpoint_host h h'"
  using assms by (rule target_key_iff)

theorem target_key_identifies_witness:
  "target_key (ustr ''x'') (ustr ''::1'') 80 \<noteq> target_key (ustr ''x'') (ustr ''::1'') 81"
  using target_key_identifies [of "ustr ''x''" "ustr ''x''" "show_ip (V6 [0, 0, 0, 0, 0, 0, 0, 1])" "ustr ''::1''"
      "show_ip (V6 [0, 0, 0, 0, 0, 0, 0, 1])" "ustr ''::1''" 80 81] example_ipv6_host example_ipv6_shown
  by (simp add: ustr_def)


definition example_endpoint :: Endpoint where
  "example_endpoint = \<lparr>en_id = ustr ''x'', en_host = ustr ''::1'', en_port = 80, en_name = None\<rparr>"

definition example_client :: client where
  "example_client = \<lparr>cl_http = (\<lambda>_ _. Response 200 (Ok [])), cl_summary = (\<lambda>_. Ok example_summary),
     cl_history = (\<lambda>_. Ok (example_history []))\<rparr>"

definition example_event :: round_event where
  "example_event = RoundFinished 0 example_client 9 \<lparr>ho_cancelled = False, ho_reload = False, ho_accepted = True\<rparr>"

definition example_observation :: CronObservation where
  "example_observation = \<lparr>ob_system_id = ustr ''x'', ob_host = ustr ''::1'', ob_port = 80,
     ob_summary = SummarySupported example_summary, ob_history = Some (example_history []),
     ob_history_error = None, ob_now_unix_ms = 9\<rparr>"

lemma example_history_valid: "history_valid (example_history [])"
  by (simp add: history_valid_def example_history_def example_epoch_def ts_ok_def MAX_TIMESTAMP_UNIX_MS_def
      MAX_SCHEDULER_JOBS_def job_history_valid_def name_ok_def ustr_def MAX_SCHEDULER_JOB_NAME_BYTES_def len_utf8_def)

lemma example_host: "normalize_host (ustr ''::1'') = Ok (ustr ''::1'')"
  using example_ipv6_host example_ipv6_shown by simp

lemma example_urls: "\<exists>u. scheduler_url (ustr ''::1'') p = Ok u" "\<exists>u. scheduler_history_url (ustr ''::1'') p = Ok u"
  by (simp_all add: scheduler_url_def scheduler_history_url_def url_host_def bracketed_host_def unbracketed_host_def
      strip_prefix_def ustr_def example_host [unfolded ustr_def, simplified])

lemma example_settled:
  "settle 9 (fetch example_client example_endpoint []) = (example_observation, commit_of example_observation)"
proof -
  obtain u u' where "scheduler_url (ustr ''::1'') 80 = Ok u" "scheduler_history_url (ustr ''::1'') 80 = Ok u'"
    using example_urls by blast
  then have "client_summary example_client example_endpoint = SummarySupported example_summary"
    "client_history example_client example_endpoint = Ok (Some (example_history []))"
    using example_summary_valid example_history_valid
    by (simp_all add: client_summary_def client_history_def example_endpoint_def example_client_def get_json_def is_ok_validate)
  then show ?thesis
    by (simp add: settle_def fetch_def Let_def gate_needs_def bt_get_def settle_pair_def commit_of_def
        example_observation_def example_endpoint_def example_history_def example_summary_def)
qed

lemma example_round:
  "worker_round [example_endpoint] [example_event] [] =
     (Some Completed, \<lparr>rd_gate = gate_record example_observation [], rd_pending = [], rd_in_flight = [],
       rd_sent = [example_observation]\<rparr>)"
proof -
  have "commit_of example_observation \<noteq> None" by (simp add: commit_of_def example_observation_def)
  then show ?thesis
    by (auto simp: worker_round_def round_start_def CRON_MAX_IN_FLIGHT_def example_event_def round_turn_def example_settled
        deliver_observation_def remove_nth_def gate_record_def Let_def)
qed

definition example_iteration :: iteration where
  "example_iteration = \<lparr>it_endpoints = [example_endpoint], it_events = [example_event], it_cancelled = True\<rparr>"

lemma example_run: "worker_run [example_iteration] [] [] = (gate_record example_observation [], [example_observation])"
  by (simp add: example_iteration_def forget_absent_def bt_retain_def example_round Let_def)

theorem gate_records_delivered_witness:
  "bt_get (gate_record example_observation []) (endpoint_key example_endpoint) = Some (example_epoch, 3) \<and>
   history_valid (example_history [])"
proof -
  have "bt_get (gate_record example_observation []) (endpoint_key example_endpoint) = Some (example_epoch, 3)"
    by (simp add: bt_get_gate_record example_observation_def example_endpoint_def example_history_def)
  with gate_records_delivered [OF example_run this] show ?thesis by (auto simp: example_observation_def)
qed

theorem round_observes_each_endpoint_witness:
  "mset (map observed_target [example_observation]) = mset (map endpoint_target [example_endpoint])"
  using round_observes_each_endpoint [OF example_round] by simp

end
