(* ===== verification/Fleet_State.thy ===== *)
theory Fleet_State
  imports Eggpool Cron_Worker
begin

text \<open>
  The fleet the client daemon owns (\<open>crates/gregg/src/state.rs\<close>, \<open>FleetState\<close>): per-system polling
  state, the reconciliation of a reloaded configuration, both ways of applying a poll batch, the
  EggPool pane, and the reduction of the intents of all frontends. The frontend's own render model
  is in \<open>Frontend_State\<close> and the projection into the local document in \<open>Client_Document\<close>.

  A \<open>HashMap\<close> is a partial function; \<open>HashMap\<close> iteration only feeds order-independent reductions. The
  derived equality of snapshots holds no NaN equal, so it is equality of values without NaN.

  The lemmas show that the two batch applications agree, what a batch does to each system, what a
  reload keeps and drops, and that the reductions depend only on the set of intents.
\<close>

section \<open>Systems\<close>

datatype Reachability = Pending | Online | Offline

datatype RefreshStatus = RefreshIdle | RefreshPolling nat

record SystemState =
  sy_id :: rstr
  sy_endpoint :: Endpoint
  sy_configured_name :: "rstr option"
  sy_reachability :: Reachability
  sy_latest :: "NormalizedSnapshot option"
  sy_last_success_at :: "nat option"
  sy_last_attempt_at :: "nat option"
  sy_latency :: "nat option"
  sy_offline_reason :: "OfflineReason option"

definition system_from_entry :: "SystemEntry \<Rightarrow> SystemState" where
  "system_from_entry entry =
     \<lparr>sy_id = se_id entry, sy_endpoint = to_endpoint entry, sy_configured_name = se_name entry,
      sy_reachability = Pending, sy_latest = None, sy_last_success_at = None, sy_last_attempt_at = None,
      sy_latency = None, sy_offline_reason = None\<rparr>"

definition display_order_of :: "SystemState list \<Rightarrow> nat list" where
  "display_order_of systems =
     filter (\<lambda>i. sy_reachability (systems ! i) = Online) [0..<length systems] @
     filter (\<lambda>i. sy_reachability (systems ! i) = Offline \<or> sy_reachability (systems ! i) = Pending) [0..<length systems]"

section \<open>The EggPool pane\<close>

datatype EggpoolWorkerState = WorkerIdle | WorkerRefreshing | WorkerUnavailable

record EggpoolState =
  es_endpoint :: EggpoolEntry
  es_period :: EggpoolPeriod
  es_request_generation :: nat
  es_worker_state :: EggpoolWorkerState
  es_summary :: "EggpoolSummary option"
  es_last_success_at :: "nat option"
  es_last_attempt_at :: "nat option"
  es_last_error :: "EggpoolFetchOutcome option"
  es_health :: "EggpoolHealthSnapshot option"
  es_last_health_success_at :: "nat option"
  es_last_health_attempt_at :: "nat option"
  es_last_health_error :: "EggpoolHealthFetchOutcome option"

definition eggpool_state_new :: "EggpoolEntry \<Rightarrow> EggpoolState" where
  "eggpool_state_new endpoint =
     \<lparr>es_endpoint = endpoint, es_period = PeriodHour, es_request_generation = 0, es_worker_state = WorkerIdle,
      es_summary = None, es_last_success_at = None, es_last_attempt_at = None, es_last_error = None,
      es_health = None, es_last_health_success_at = None, es_last_health_attempt_at = None, es_last_health_error = None\<rparr>"

section \<open>The fleet\<close>

record FleetState =
  fl_systems :: "SystemState list"
  fl_last_applied_generation :: nat
  fl_refresh_status :: RefreshStatus
  fl_config_reload_error :: "rstr option"
  fl_cron_display_history :: nat
  fl_eggpool :: "EggpoolState option"
  fl_cron :: CronCache

definition from_config :: "ClientConfig \<Rightarrow> FleetState" where
  "from_config config =
     \<lparr>fl_systems = map system_from_entry (cf_systems config), fl_last_applied_generation = 0,
      fl_refresh_status = RefreshIdle, fl_config_reload_error = None,
      fl_cron_display_history = display_history (cf_cron config),
      fl_eggpool = map_option eggpool_state_new (cf_eggpool config),
      fl_cron = cache_new (cache_history (cf_cron config)) MAX_TOTAL_CRON_RECORDS\<rparr>"

text \<open>\<open>collect\<close> into a \<open>HashMap\<close>: a later entry replaces an earlier one.\<close>

definition systems_by_id :: "SystemState list \<Rightarrow> (rstr \<rightharpoonup> SystemState)" where
  "systems_by_id systems = fold (\<lambda>s m. m(sy_id s \<mapsto> s)) systems Map.empty"

text \<open>The \<open>map\<close> over the configured entries: \<open>remove\<close> takes the old state out, repointed ids are pushed.\<close>

fun reconcile_entries :: "(rstr \<rightharpoonup> SystemState) \<Rightarrow> SystemEntry list \<Rightarrow> SystemState list \<times> rstr list" where
  "reconcile_entries old_by_id [] = ([], [])"
| "reconcile_entries old_by_id (entry # entries) =
     (let (systems, repointed) = reconcile_entries (old_by_id(se_id entry := None)) entries in
      case old_by_id (se_id entry) of
        None \<Rightarrow> (system_from_entry entry # systems, repointed)
      | Some old \<Rightarrow>
          let endpoint = to_endpoint entry in
          if equivalent_endpoint_host (en_host (sy_endpoint old)) (en_host endpoint) \<and>
             en_port (sy_endpoint old) = en_port endpoint
          then (old\<lparr>sy_endpoint := endpoint, sy_configured_name := se_name entry\<rparr> # systems, repointed)
          else (system_from_entry entry # systems, se_id entry # repointed))"

definition reconcile_systems :: "ClientConfig \<Rightarrow> FleetState \<Rightarrow> FleetState" where
  "reconcile_systems config f =
     (let (systems, repointed) = reconcile_entries (systems_by_id (fl_systems f)) (cf_systems config) in
      f\<lparr>fl_systems := systems, fl_cron := fold (\<lambda>sid c. snd (reset_system sid c)) repointed (fl_cron f)\<rparr>)"

definition accepts_cron_observation :: "FleetState \<Rightarrow> CronObservation \<Rightarrow> bool" where
  "accepts_cron_observation f ob \<longleftrightarrow>
     list_ex (\<lambda>s. sy_id s = ob_system_id ob \<and> en_port (sy_endpoint s) = ob_port ob \<and>
       equivalent_endpoint_host (en_host (sy_endpoint s)) (ob_host ob)) (fl_systems f)"

definition set_config_reload_error :: "rstr \<Rightarrow> FleetState \<Rightarrow> FleetState" where
  "set_config_reload_error e f = f\<lparr>fl_config_reload_error := Some e\<rparr>"

definition clear_config_reload_error :: "FleetState \<Rightarrow> FleetState" where
  "clear_config_reload_error f = f\<lparr>fl_config_reload_error := None\<rparr>"

section \<open>Poll batches\<close>

text \<open>The floats a snapshot holds; the derived \<open>==\<close> on snapshots.\<close>

definition normalized_floats :: "NormalizedSnapshot \<Rightarrow> f32 list" where
  "normalized_floats s =
     no_usage_pct s # (case no_iowait_pct s of None \<Rightarrow> [] | Some v \<Rightarrow> [v]) @
     (case no_load s of None \<Rightarrow> [] | Some l \<Rightarrow> [la_one l, la_five l, la_fifteen l]) @
     mm_usage_pct (no_memory s) #
     (case no_swap s of None \<Rightarrow> [] | Some w \<Rightarrow> [ns_usage_pct w]) @
     (case no_commit s of None \<Rightarrow> [] | Some c \<Rightarrow> [nc_usage_pct c])"

definition normalized_eq :: "NormalizedSnapshot \<Rightarrow> NormalizedSnapshot \<Rightarrow> bool" where
  "normalized_eq a b \<longleftrightarrow> a = b \<and> F32_NaN \<notin> set (normalized_floats a)"

definition latest_is :: "NormalizedSnapshot option \<Rightarrow> NormalizedSnapshot \<Rightarrow> bool" where
  "latest_is latest n = (case latest of None \<Rightarrow> False | Some l \<Rightarrow> normalized_eq l n)"

definition accept_batch_generation :: "nat \<Rightarrow> FleetState \<Rightarrow> bool" where
  "accept_batch_generation generation f =
     (let wrapped = fl_last_applied_generation f = u64_max \<and> generation = 1 in
      \<not> (generation \<le> fl_last_applied_generation f \<and> \<not> wrapped))"

fun position :: "('a \<Rightarrow> bool) \<Rightarrow> 'a list \<Rightarrow> nat option" where
  "position P [] = None"
| "position P (x # xs) = (if P x then Some 0 else map_option Suc (position P xs))"

definition resolve_result_index_with_map :: "SystemState list \<Rightarrow> nat \<Rightarrow> rstr \<Rightarrow> (rstr \<rightharpoonup> nat) option \<Rightarrow> nat option" where
  "resolve_result_index_with_map systems result_index system_id id_map =
     (if result_index < length systems \<and> sy_id (systems ! result_index) = system_id then Some result_index
      else case id_map of
             Some m \<Rightarrow> m system_id
           | None \<Rightarrow> position (\<lambda>s. sy_id s = system_id) systems)"

definition build_result_index_map :: "SystemState list \<Rightarrow> (rstr \<rightharpoonup> nat)" where
  "build_result_index_map systems = fold (\<lambda>i m. m(sy_id (systems ! i) \<mapsto> i)) [0..<length systems] Map.empty"

definition online_update :: "nat \<Rightarrow> nat \<Rightarrow> NormalizedSnapshot \<Rightarrow> SystemState \<Rightarrow> SystemState" where
  "online_update completed latency n s =
     s\<lparr>sy_reachability := Online, sy_latest := Some n, sy_last_success_at := Some completed,
       sy_last_attempt_at := Some completed, sy_latency := Some latency, sy_offline_reason := None\<rparr>"

definition offline_update :: "nat \<Rightarrow> OfflineReason option \<Rightarrow> SystemState \<Rightarrow> SystemState" where
  "offline_update completed reason s =
     s\<lparr>sy_reachability := Offline, sy_last_attempt_at := Some completed, sy_offline_reason := reason\<rparr>"

text \<open>The \<open>match\<close> of the borrowed path: whether the system changed visibly, and the system.\<close>

definition apply_outcome :: "nat \<Rightarrow> PollResult \<Rightarrow> SystemState \<Rightarrow> bool \<times> SystemState" where
  "apply_outcome completed result s =
     (let online = (\<lambda>n. (sy_reachability s \<noteq> Online \<or> \<not> latest_is (sy_latest s) n \<or> sy_offline_reason s \<noteq> None,
                         online_update completed (pr_latency result) n s))
      in case pr_outcome result of
           PO_Online snapshot \<Rightarrow> online (from_v1 snapshot)
         | PO_OnlineV2 payload \<Rightarrow> online (from_v2_payload payload)
         | outcome \<Rightarrow>
             let reason = offline_reason outcome in
             (sy_reachability s \<noteq> Offline \<or> sy_offline_reason s \<noteq> reason, offline_update completed reason s))"

definition apply_outcome_owned :: "nat \<Rightarrow> PollResult \<Rightarrow> SystemState \<Rightarrow> bool \<times> SystemState" where
  "apply_outcome_owned completed result s =
     (let before_reachability = sy_reachability s; before_reason = sy_offline_reason s;
          online = (\<lambda>n. let latest_same = latest_is (sy_latest s) n in
                        (before_reachability \<noteq> Online \<or> \<not> latest_same \<or> before_reason \<noteq> None,
                         online_update completed (pr_latency result) n s))
      in case pr_outcome result of
           PO_Online snapshot \<Rightarrow> online (from_v1_owned snapshot)
         | PO_OnlineV2 payload \<Rightarrow> online (from_v2_payload_owned payload)
         | outcome \<Rightarrow>
             let reason = offline_reason outcome in
             (before_reachability \<noteq> Offline \<or> before_reason \<noteq> reason, offline_update completed reason s))"

definition same_target :: "Endpoint \<Rightarrow> Endpoint \<Rightarrow> bool" where
  "same_target a b \<longleftrightarrow> equivalent_endpoint_host (en_host a) (en_host b) \<and> en_port a = en_port b"

definition positional_miss :: "SystemState list \<Rightarrow> nat \<Rightarrow> rstr \<Rightarrow> bool" where
  "positional_miss systems result_index system_id \<longleftrightarrow>
     \<not> (result_index < length systems \<and> sy_id (systems ! result_index) = system_id)"

text \<open>The loop of the borrowed path; the map is built after the first miss that resolved.\<close>

fun apply_results :: "nat \<Rightarrow> nat \<Rightarrow> PollResult list \<Rightarrow> SystemState list \<Rightarrow> (rstr \<rightharpoonup> nat) option \<Rightarrow> bool \<Rightarrow>
    SystemState list \<times> bool" where
  "apply_results completed i [] systems id_map changed = (systems, changed)"
| "apply_results completed i (result # results) systems id_map changed =
     (case resolve_result_index_with_map systems i (pr_system_id result) id_map of
        None \<Rightarrow> apply_results completed (Suc i) results systems id_map changed
      | Some j \<Rightarrow>
          let id_map = (if id_map = None \<and> positional_miss systems i (pr_system_id result)
                        then Some (build_result_index_map systems) else id_map);
              s = systems ! j in
          if \<not> same_target (sy_endpoint s) (pr_endpoint result)
          then apply_results completed (Suc i) results systems id_map changed
          else
            let (visible, s) = apply_outcome completed result s in
            apply_results completed (Suc i) results (systems[j := s]) id_map (changed \<or> visible))"

definition apply_batch_changed :: "PollBatch \<Rightarrow> FleetState \<Rightarrow> bool \<times> FleetState" where
  "apply_batch_changed batch f =
     (if \<not> accept_batch_generation (pb_generation batch) f then (False, f)
      else
        let (systems, changed) = apply_results (pb_completed_at batch) 0 (pb_results batch) (fl_systems f) None False in
        (changed, f\<lparr>fl_systems := systems, fl_last_applied_generation := pb_generation batch\<rparr>))"

text \<open>The loop of the owned path; the map is built before the first miss is resolved.\<close>

fun apply_results_owned :: "nat \<Rightarrow> nat \<Rightarrow> PollResult list \<Rightarrow> SystemState list \<Rightarrow> (rstr \<rightharpoonup> nat) option \<Rightarrow> bool \<Rightarrow>
    SystemState list \<times> bool" where
  "apply_results_owned completed i [] systems id_map changed = (systems, changed)"
| "apply_results_owned completed i (result # results) systems id_map changed =
     (let id_map = (if id_map = None \<and> positional_miss systems i (pr_system_id result)
                    then Some (build_result_index_map systems) else id_map) in
      case resolve_result_index_with_map systems i (pr_system_id result) id_map of
        None \<Rightarrow> apply_results_owned completed (Suc i) results systems id_map changed
      | Some j \<Rightarrow>
          let s = systems ! j in
          if \<not> same_target (sy_endpoint s) (pr_endpoint result)
          then apply_results_owned completed (Suc i) results systems id_map changed
          else
            let (visible, s) = apply_outcome_owned completed result s in
            apply_results_owned completed (Suc i) results (systems[j := s]) id_map (changed \<or> visible))"

definition apply_batch_owned_changed :: "PollBatch \<Rightarrow> FleetState \<Rightarrow> bool \<times> FleetState" where
  "apply_batch_owned_changed batch f =
     (if \<not> accept_batch_generation (pb_generation batch) f then (False, f)
      else
        let (systems, changed) = apply_results_owned (pb_completed_at batch) 0 (pb_results batch) (fl_systems f) None False in
        (changed, f\<lparr>fl_systems := systems, fl_last_applied_generation := pb_generation batch\<rparr>))"

section \<open>EggPool results and requests\<close>

text \<open>The derived equality of summaries and of health snapshots, on values without NaN.\<close>

definition summary_eq :: "EggpoolSummary \<Rightarrow> EggpoolSummary \<Rightarrow> bool" where
  "summary_eq a b \<longleftrightarrow> a = b \<and> eg_cache_read_ratio a \<noteq> Some F32_NaN \<and> eg_output_tokens_per_second a \<noteq> F32_NaN \<and>
     eg_avg_ttft_ms a \<noteq> Some F32_NaN"

definition health_eq :: "EggpoolHealthSnapshot \<Rightarrow> EggpoolHealthSnapshot \<Rightarrow> bool" where
  "health_eq a b \<longleftrightarrow> a = b \<and> eh_uptime_seconds a \<noteq> Some F32_NaN"

text \<open>The summary plane and the health plane of a result.\<close>

definition apply_summary_plane :: "EggpoolResult \<Rightarrow> EggpoolState \<Rightarrow> bool \<times> EggpoolState" where
  "apply_summary_plane result e =
     (let completed = Some (er_completed_at result);
          attempted = es_last_attempt_at e \<noteq> completed;
          e = e\<lparr>es_last_attempt_at := completed\<rparr>
      in case er_summary result of
           EF_Online summary \<Rightarrow>
             (attempted \<or> \<not> (case es_summary e of None \<Rightarrow> False | Some old \<Rightarrow> summary_eq old summary) \<or> es_last_error e \<noteq> None,
              e\<lparr>es_summary := Some summary, es_last_success_at := completed, es_last_error := None\<rparr>)
         | error \<Rightarrow> (attempted \<or> es_last_error e \<noteq> Some error, e\<lparr>es_last_error := Some error\<rparr>))"

definition apply_health_plane :: "EggpoolResult \<Rightarrow> EggpoolState \<Rightarrow> bool \<times> EggpoolState" where
  "apply_health_plane result e =
     (let completed = Some (er_completed_at result);
          attempted = es_last_health_attempt_at e \<noteq> completed;
          e = e\<lparr>es_last_health_attempt_at := completed\<rparr>
      in case er_health result of
           EH_Online snapshot \<Rightarrow>
             (attempted \<or> \<not> (case es_health e of None \<Rightarrow> False | Some old \<Rightarrow> health_eq old snapshot) \<or> es_last_health_error e \<noteq> None,
              e\<lparr>es_health := Some snapshot, es_last_health_success_at := completed, es_last_health_error := None\<rparr>)
         | error \<Rightarrow> (attempted \<or> es_last_health_error e \<noteq> Some error, e\<lparr>es_last_health_error := Some error\<rparr>))"

definition apply_eggpool_result_changed :: "EggpoolResult \<Rightarrow> FleetState \<Rightarrow> bool \<times> FleetState" where
  "apply_eggpool_result_changed result f =
     (case fl_eggpool f of
        None \<Rightarrow> (False, f)
      | Some e \<Rightarrow>
          if er_generation result \<noteq> es_request_generation e \<or> er_period result \<noteq> es_period e then (False, f)
          else if er_summary result = EF_Cancelled then
            (if es_worker_state e \<noteq> WorkerIdle
             then (True, f\<lparr>fl_eggpool := Some (e\<lparr>es_worker_state := WorkerIdle\<rparr>)\<rparr>)
             else (False, f))
          else
            let working = es_worker_state e \<noteq> WorkerIdle;
                (summary_changed, e) = apply_summary_plane result (e\<lparr>es_worker_state := WorkerIdle\<rparr>);
                (health_changed, e) = apply_health_plane result e
            in (working \<or> summary_changed \<or> health_changed, f\<lparr>fl_eggpool := Some e\<rparr>))"

definition adopt_eggpool_endpoint :: "EggpoolEntry \<Rightarrow> FleetState \<Rightarrow> FleetState" where
  "adopt_eggpool_endpoint entry f =
     f\<lparr>fl_eggpool := Some (case fl_eggpool f of
        Some e \<Rightarrow> e\<lparr>es_endpoint := entry\<rparr> | None \<Rightarrow> eggpool_state_new entry)\<rparr>"

definition clear_eggpool :: "FleetState \<Rightarrow> FleetState" where
  "clear_eggpool f = f\<lparr>fl_eggpool := None\<rparr>"

definition set_eggpool_period :: "EggpoolPeriod \<Rightarrow> FleetState \<Rightarrow> bool \<times> FleetState" where
  "set_eggpool_period period f =
     (case fl_eggpool f of
        None \<Rightarrow> (False, f)
      | Some e \<Rightarrow>
          if es_period e = period then (False, f)
          else (True, f\<lparr>fl_eggpool := Some (e\<lparr>es_period := period, es_summary := None, es_last_error := None\<rparr>)\<rparr>))"

definition begin_eggpool_request :: "bool \<Rightarrow> FleetState \<Rightarrow> (EggpoolPeriod \<times> nat) option \<times> FleetState" where
  "begin_eggpool_request active f =
     (case fl_eggpool f of
        None \<Rightarrow> (None, f)
      | Some e \<Rightarrow>
          let e = e\<lparr>es_request_generation := sat_add64 (es_request_generation e) 1,
            es_worker_state := (if active then WorkerRefreshing else WorkerIdle)\<rparr>
          in (Some (es_period e, es_request_generation e), f\<lparr>fl_eggpool := Some e\<rparr>))"

definition mark_eggpool_worker_unavailable :: "FleetState \<Rightarrow> FleetState" where
  "mark_eggpool_worker_unavailable f =
     f\<lparr>fl_eggpool := map_option (\<lambda>e. e\<lparr>es_worker_state := WorkerUnavailable\<rparr>) (fl_eggpool f)\<rparr>"

definition eggpool_request :: "FleetState \<Rightarrow> (EggpoolPeriod \<times> nat) option" where
  "eggpool_request f = map_option (\<lambda>e. (es_period e, es_request_generation e)) (fl_eggpool f)"

section \<open>Intents\<close>

record EggpoolIntent =
  in_active :: bool
  in_period :: EggpoolPeriod

text \<open>The entries of a \<open>HashMap<u64, _>\<close> in some order, with distinct keys.\<close>

type_synonym 'i intents = "(nat \<times> 'i) list"

definition intents_set :: "nat \<Rightarrow> 'i \<Rightarrow> 'i intents \<Rightarrow> 'i intents" where
  "intents_set sid i m = (sid, i) # filter (\<lambda>e. fst e \<noteq> sid) m"

definition intents_remove :: "nat \<Rightarrow> 'i intents \<Rightarrow> 'i intents" where
  "intents_remove sid m = filter (\<lambda>e. fst e \<noteq> sid) m"

definition any_active :: "EggpoolIntent intents \<Rightarrow> bool" where
  "any_active m \<longleftrightarrow> list_ex (\<lambda>e. in_active (snd e)) m"

definition converged_period :: "EggpoolPeriod \<Rightarrow> EggpoolIntent intents \<Rightarrow> EggpoolPeriod" where
  "converged_period fallback m =
     (case map (\<lambda>e. in_period (snd e)) (filter (\<lambda>e. in_active (snd e)) m) of
        [] \<Rightarrow> fallback
      | p # ps \<Rightarrow> fold min ps p)"

definition eggpool_desired_state :: "EggpoolIntent intents \<Rightarrow> FleetState \<Rightarrow> EggpoolDesiredState option" where
  "eggpool_desired_state m f =
     map_option (\<lambda>e. \<lparr>ds_active = any_active m, ds_period = converged_period (es_period e) m,
       ds_generation = es_request_generation e\<rparr>) (fl_eggpool f)"

record CronIntent =
  ci_system_id :: "rstr option"
  ci_job :: "rstr option"
  ci_display_history :: nat

record CronIntents =
  cis_entries :: "CronIntent intents"
  cis_revision :: nat

definition cron_intents_set :: "nat \<Rightarrow> CronIntent \<Rightarrow> CronIntents \<Rightarrow> CronIntents" where
  "cron_intents_set sid i m = \<lparr>cis_entries = intents_set sid i (cis_entries m), cis_revision = sat_add64 (cis_revision m) 1\<rparr>"

definition cron_intents_remove :: "nat \<Rightarrow> CronIntents \<Rightarrow> CronIntents" where
  "cron_intents_remove sid m = \<lparr>cis_entries = intents_remove sid (cis_entries m), cis_revision = sat_add64 (cis_revision m) 1\<rparr>"

text \<open>One turn of the loop of \<open>requests\<close>; a \<open>BTreeMap\<close> is the sorted association list of the cache.\<close>

definition request_turn :: "CronIntent \<Rightarrow> (rstr, (rstr, nat) btree) btree \<Rightarrow> (rstr, (rstr, nat) btree) btree" where
  "request_turn intent reduced =
     (case (ci_system_id intent, ci_job intent) of
        (Some system_id, Some job) \<Rightarrow>
          if job = [] then reduced
          else
            let depth = clamp 1 MAX_DISPLAY_HISTORY (ci_display_history intent);
                per_system = (case bt_get reduced system_id of None \<Rightarrow> [] | Some m \<Rightarrow> m);
                slot = (case bt_get per_system job of None \<Rightarrow> 0 | Some d \<Rightarrow> d)
            in bt_insert system_id (bt_insert job (max slot depth) per_system) reduced
      | _ \<Rightarrow> reduced)"

definition cron_any_active :: "CronIntents \<Rightarrow> bool" where
  "cron_any_active m \<longleftrightarrow> list_ex (\<lambda>e. ci_system_id (snd e) \<noteq> None \<and> ci_job (snd e) \<noteq> None) (cis_entries m)"

definition cron_requests :: "CronIntents \<Rightarrow> (rstr, (rstr, nat) btree) btree" where
  "cron_requests m = fold (\<lambda>e. request_turn (snd e)) (cis_entries m) []"

definition requests_for :: "CronIntents \<Rightarrow> rstr \<Rightarrow> (rstr \<times> nat) list" where
  "requests_for m system_id = (case bt_get (cron_requests m) system_id of None \<Rightarrow> [] | Some per_system \<Rightarrow> per_system)"


section \<open>Finding a system\<close>

lemma position_Some_iff:
  "position P xs = Some i \<longleftrightarrow> i < length xs \<and> P (xs ! i) \<and> (\<forall>j < i. \<not> P (xs ! j))"
proof (induction xs arbitrary: i)
  case (Cons x xs)
  show ?case by (cases i) (auto simp: Cons.IH nth_Cons split: nat.splits)
qed simp

lemma position_None_iff: "position P xs = None \<longleftrightarrow> (\<forall>x \<in> set xs. \<not> P x)"
  by (induction xs) auto

lemma position_distinct:
  assumes "distinct (map f xs)"
  shows "position (\<lambda>x. f x = k) xs = Some i \<longleftrightarrow> i < length xs \<and> f (xs ! i) = k"
proof
  assume "i < length xs \<and> f (xs ! i) = k"
  then show "position (\<lambda>x. f x = k) xs = Some i"
    using assms by (auto simp: position_Some_iff distinct_conv_nth)
qed (simp add: position_Some_iff)

lemma index_map_Some:
  assumes "distinct (map f [0..<n])"
  shows "fold (\<lambda>i m. m(f i \<mapsto> i)) [0..<n] Map.empty k = Some i \<longleftrightarrow> i < n \<and> f i = k"
  using assms
proof (induction n arbitrary: i)
  case (Suc n)
  have n: "j < n \<Longrightarrow> f j \<noteq> f n" for j using Suc.prems by (auto simp: image_iff dest!: bspec [of _ _ j])
  have "distinct (map f [0..<n])" using Suc.prems by simp
  note IH = Suc.IH [OF this, of i]
  show ?case using IH n [of i] n by (cases "f n = k") (auto simp: less_Suc_eq)
qed simp

lemma build_index_position:
  assumes "distinct (map sy_id systems)"
  shows "build_result_index_map systems k = position (\<lambda>s. sy_id s = k) systems"
proof -
  have eq: "map (\<lambda>i. sy_id (systems ! i)) [0..<length systems] = map sy_id systems"
    by (intro nth_equalityI) simp_all
  have "build_result_index_map systems k = Some i \<longleftrightarrow> position (\<lambda>s. sy_id s = k) systems = Some i" for i
    unfolding build_result_index_map_def position_distinct [OF assms]
    by (rule index_map_Some) (simp add: eq assms)
  then show ?thesis by (metis not_Some_eq)
qed

lemma position_cong_ids:
  "map sy_id systems = map sy_id systems' \<Longrightarrow>
     position (\<lambda>s. sy_id s = k) systems = position (\<lambda>s. sy_id s = k) systems'"
proof (induction systems arbitrary: systems')
  case (Cons s systems)
  then obtain t ts where "systems' = t # ts" "sy_id s = sy_id t" "map sy_id systems = map sy_id ts" by auto
  with Cons.IH show ?case by simp
qed simp

text \<open>The map, once built, is the one of the identifiers, which no result changes.\<close>

definition index_map_ok :: "SystemState list \<Rightarrow> (rstr \<rightharpoonup> nat) option \<Rightarrow> bool" where
  "index_map_ok systems id_map \<longleftrightarrow>
     (case id_map of None \<Rightarrow> True | Some m \<Rightarrow> \<forall>k. m k = position (\<lambda>s. sy_id s = k) systems)"

lemma resolve_position:
  assumes "distinct (map sy_id systems)" "index_map_ok systems id_map"
  shows "resolve_result_index_with_map systems i k id_map = position (\<lambda>s. sy_id s = k) systems"
proof (cases "i < length systems \<and> sy_id (systems ! i) = k")
  case True
  then have "position (\<lambda>s. sy_id s = k) systems = Some i" by (simp add: position_distinct [OF assms(1)])
  with True show ?thesis by (simp add: resolve_result_index_with_map_def)
next
  case False
  with assms(2) show ?thesis by (auto simp: resolve_result_index_with_map_def index_map_ok_def split: option.splits)
qed

lemma index_map_built:
  "distinct (map sy_id systems) \<Longrightarrow> index_map_ok systems id_map \<Longrightarrow>
     index_map_ok systems (if c then Some (build_result_index_map systems) else id_map)"
  by (simp add: index_map_ok_def build_index_position)

section \<open>Both batch applications\<close>

lemma apply_outcome_owned_eq: "apply_outcome_owned = apply_outcome"
  by (intro ext) (simp add: apply_outcome_owned_def apply_outcome_def Let_def from_v1_owned_eq from_v2_payload_owned_eq
      split: PollOutcome.splits)

lemma apply_outcome_keeps [simp]:
  "sy_id (snd (apply_outcome completed r s)) = sy_id s"
  "sy_endpoint (snd (apply_outcome completed r s)) = sy_endpoint s"
  by (simp_all add: apply_outcome_def Let_def online_update_def offline_update_def split: PollOutcome.splits)

text \<open>What both loops compute: each result finds its system by identifier.\<close>

fun apply_results_by_id :: "nat \<Rightarrow> PollResult list \<Rightarrow> SystemState list \<Rightarrow> bool \<Rightarrow> SystemState list \<times> bool" where
  "apply_results_by_id completed [] systems changed = (systems, changed)"
| "apply_results_by_id completed (result # results) systems changed =
     (case position (\<lambda>s. sy_id s = pr_system_id result) systems of
        None \<Rightarrow> apply_results_by_id completed results systems changed
      | Some j \<Rightarrow>
          if \<not> same_target (sy_endpoint (systems ! j)) (pr_endpoint result)
          then apply_results_by_id completed results systems changed
          else apply_results_by_id completed results (systems[j := snd (apply_outcome completed result (systems ! j))])
                 (changed \<or> fst (apply_outcome completed result (systems ! j))))"

lemma map_id_update [simp]:
  "j < length systems \<Longrightarrow> map sy_id (systems[j := snd (apply_outcome completed r (systems ! j))]) = map sy_id systems"
  by (metis apply_outcome_keeps(1) list_update_id map_update nth_map)

lemma index_map_update:
  "j < length systems \<Longrightarrow> index_map_ok systems m \<Longrightarrow>
     index_map_ok (systems[j := snd (apply_outcome completed r (systems ! j))]) m"
  by (simp add: index_map_ok_def position_cong_ids [OF map_id_update] split: option.splits)

lemma position_less: "position P xs = Some i \<Longrightarrow> i < length xs"
  by (simp add: position_Some_iff)

lemma apply_results_by_id_eq:
  assumes "distinct (map sy_id systems)" "index_map_ok systems m"
  shows "apply_results completed i results systems m changed = apply_results_by_id completed results systems changed"
  using assms
proof (induction results arbitrary: i systems m changed)
  case (Cons r rs)
  note res = resolve_position [OF Cons.prems, of i "pr_system_id r"] and built = index_map_built [OF Cons.prems]
  show ?case
  proof (cases "position (\<lambda>s. sy_id s = pr_system_id r) systems")
    case (Some j)
    note j = position_less [OF Some]
    show ?thesis
      using Cons.IH [OF Cons.prems(1) built] Cons.IH [OF _ index_map_update [OF j built]] Cons.prems(1) j
      by (simp add: res Some Let_def case_prod_beta)
  qed (simp add: res Cons.IH [OF Cons.prems])
qed simp

lemma apply_results_owned_by_id_eq:
  assumes "distinct (map sy_id systems)" "index_map_ok systems m"
  shows "apply_results_owned completed i results systems m changed = apply_results_by_id completed results systems changed"
  using assms
proof (induction results arbitrary: i systems m changed)
  case (Cons r rs)
  note built = index_map_built [OF Cons.prems]
  note res = resolve_position [OF Cons.prems(1) built, of i "pr_system_id r"]
  show ?case
  proof (cases "position (\<lambda>s. sy_id s = pr_system_id r) systems")
    case (Some j)
    note j = position_less [OF Some]
    show ?thesis
      using Cons.IH [OF Cons.prems(1) built] Cons.IH [OF _ index_map_update [OF j built]] Cons.prems(1) j
      by (simp add: res Some Let_def case_prod_beta apply_outcome_owned_eq)
  qed (simp add: res Let_def Cons.IH [OF Cons.prems(1) built])
qed simp

lemma index_map_none [simp]: "index_map_ok systems None"
  by (simp add: index_map_ok_def)

lemma apply_batch_both:
  assumes "distinct (map sy_id (fl_systems f))"
  shows "apply_batch_owned_changed batch f = apply_batch_changed batch f"
  by (simp add: apply_batch_changed_def apply_batch_owned_changed_def apply_results_by_id_eq [OF assms]
      apply_results_owned_by_id_eq [OF assms])

section \<open>What a batch does\<close>

lemma apply_by_id_ids [simp]:
  "map sy_id (fst (apply_results_by_id completed rs systems c)) = map sy_id systems"
  by (induction completed rs systems c rule: apply_results_by_id.induct) (auto split: option.splits dest: position_less)

lemma apply_by_id_length [simp]: "length (fst (apply_results_by_id completed rs systems c)) = length systems"
  by (metis apply_by_id_ids length_map)

lemma apply_by_id_other:
  assumes "distinct (map sy_id systems)" "j < length systems" "\<forall>r \<in> set rs. pr_system_id r \<noteq> sy_id (systems ! j)"
  shows "fst (apply_results_by_id completed rs systems c) ! j = systems ! j"
  using assms
proof (induction completed rs systems c rule: apply_results_by_id.induct)
  case (2 completed r rs systems c)
  show ?case
  proof (cases "position (\<lambda>s. sy_id s = pr_system_id r) systems")
    case (Some i)
    have "i \<noteq> j" using Some 2(5,6) by (auto simp: position_Some_iff)
    with 2 Some show ?thesis by (simp add: position_less)
  qed (use 2 in simp)
qed simp

lemma apply_by_id_nth:
  assumes "distinct (map sy_id systems)" "distinct (map pr_system_id rs)" "j < length systems" "r \<in> set rs"
    "pr_system_id r = sy_id (systems ! j)"
  shows "fst (apply_results_by_id completed rs systems c) ! j =
    (if same_target (sy_endpoint (systems ! j)) (pr_endpoint r) then snd (apply_outcome completed r (systems ! j)) else systems ! j)"
  using assms
proof (induction completed rs systems c rule: apply_results_by_id.induct)
  case (2 completed q rs systems c)
  show ?case
  proof (cases "r = q")
    case True
    then have p: "position (\<lambda>s. sy_id s = pr_system_id q) systems = Some j"
      using 2(4,6,8) by (simp add: position_distinct)
    have other: "\<forall>r' \<in> set rs. pr_system_id r' \<noteq> sy_id (systems ! j)" using 2(5,8) True by (force simp: image_iff)
    have "\<forall>r' \<in> set rs. pr_system_id r' \<noteq> sy_id (systems[j := snd (apply_outcome completed q (systems ! j))] ! j)"
      using other 2(6) by simp
    with other 2(4,6) True p show ?thesis
      using apply_by_id_other [of systems j rs] apply_by_id_other [of "systems[j := snd (apply_outcome completed q (systems ! j))]" j rs]
      by simp
  next
    case False
    then have r: "r \<in> set rs" using 2(7) by simp
    show ?thesis
    proof (cases "position (\<lambda>s. sy_id s = pr_system_id q) systems")
      case (Some i)
      have "pr_system_id q \<noteq> sy_id (systems ! j)" using 2(5,8) r False by force
      then have "i \<noteq> j" using Some by (auto simp: position_Some_iff)
      with 2 Some r show ?thesis by (simp add: position_less)
    qed (use 2 r in simp)
  qed
qed simp

text \<open>A system shows a result: online with the document the result carries, or offline with its reason.\<close>

definition shows_result :: "PollResult \<Rightarrow> SystemState \<Rightarrow> bool" where
  "shows_result r s \<longleftrightarrow>
     (case pr_outcome r of
        PO_Online d \<Rightarrow> sy_reachability s = Online \<and> sy_latest s = Some (from_v1 d) \<and> sy_offline_reason s = None
      | PO_OnlineV2 p \<Rightarrow> sy_reachability s = Online \<and> sy_latest s = Some (from_v2_payload p) \<and> sy_offline_reason s = None
      | outcome \<Rightarrow> sy_reachability s = Offline \<and> sy_offline_reason s = offline_reason outcome \<and> sy_offline_reason s \<noteq> None)"

lemma apply_outcome_shows: "shows_result r (snd (apply_outcome completed r s))"
  by (simp add: shows_result_def apply_outcome_def Let_def online_update_def offline_update_def split: PollOutcome.splits)

lemma apply_batch_systems:
  assumes "distinct (map sy_id (fl_systems f))" "accept_batch_generation (pb_generation b) f"
  shows "fl_systems (snd (apply_batch_changed b f)) =
      fst (apply_results_by_id (pb_completed_at b) (pb_results b) (fl_systems f) False)"
    "fl_last_applied_generation (snd (apply_batch_changed b f)) = pb_generation b"
  using assms(2) by (simp_all add: apply_batch_changed_def apply_results_by_id_eq [OF assms(1)] case_prod_beta)

lemma apply_batch_ids [simp]: "map sy_id (fl_systems (snd (apply_batch_owned_changed b f))) = map sy_id (fl_systems f)"
  if "distinct (map sy_id (fl_systems f))"
  using that by (simp add: apply_batch_both apply_batch_changed_def apply_results_by_id_eq case_prod_beta)

section \<open>Following the scheduler\<close>

lemma nth_generation_le: "nth_generation n \<le> u64_max"
  by (induction n) (auto simp: advance_generation_def u64_max_def)

lemma next_generation_accepted:
  "fl_last_applied_generation f = nth_generation n \<Longrightarrow> accept_batch_generation (nth_generation (Suc n)) f"
  using nth_generation_le [of n] by (auto simp: accept_batch_generation_def advance_generation_def)

definition apply_all :: "PollBatch list \<Rightarrow> FleetState \<Rightarrow> FleetState" where
  "apply_all batches f = fold (\<lambda>b f. snd (apply_batch_owned_changed b f)) batches f"

lemma apply_all_simps [simp]:
  "apply_all [] f = f" "apply_all (bs @ [b]) f = snd (apply_batch_owned_changed b (apply_all bs f))"
  by (simp_all add: apply_all_def)

lemma apply_all_ids: "distinct (map sy_id (fl_systems f)) \<Longrightarrow> map sy_id (fl_systems (apply_all bs f)) = map sy_id (fl_systems f)"
  by (induction bs rule: rev_induct) (metis apply_all_simps(1), metis apply_all_simps(2) apply_batch_ids)

lemma apply_by_id_endpoints [simp]:
  "map sy_endpoint (fst (apply_results_by_id completed rs systems c)) = map sy_endpoint systems"
  by (induction completed rs systems c rule: apply_results_by_id.induct)
    (auto split: option.splits dest: position_less simp: map_update list_update_same_conv)

lemma apply_batch_endpoints:
  "distinct (map sy_id (fl_systems f)) \<Longrightarrow>
     map sy_endpoint (fl_systems (snd (apply_batch_owned_changed b f))) = map sy_endpoint (fl_systems f)"
  by (simp add: apply_batch_both apply_batch_changed_def apply_results_by_id_eq case_prod_beta)

lemma apply_all_endpoints:
  "distinct (map sy_id (fl_systems f)) \<Longrightarrow> map sy_endpoint (fl_systems (apply_all bs f)) = map sy_endpoint (fl_systems f)"
  by (induction bs rule: rev_induct)
    (metis apply_all_simps(1), metis apply_all_simps(2) apply_batch_endpoints apply_all_ids)

lemma apply_all_generation:
  assumes "distinct (map sy_id (fl_systems f))" "fl_last_applied_generation f = 0"
    "map pb_generation bs = map nth_generation [1..<Suc (length bs)]"
  shows "fl_last_applied_generation (apply_all bs f) = nth_generation (length bs)"
  using assms(3)
proof (induction bs rule: rev_induct)
  case (snoc b bs)
  have gen: "pb_generation b = nth_generation (Suc (length bs))" and pre: "map pb_generation bs = map nth_generation [1..<Suc (length bs)]"
    using snoc.prems by simp_all
  have "accept_batch_generation (pb_generation b) (apply_all bs f)"
    using next_generation_accepted [OF snoc.IH [OF pre]] gen by simp
  moreover have "distinct (map sy_id (fl_systems (apply_all bs f)))" using assms(1) by (simp add: apply_all_ids)
  ultimately show ?case using gen by (simp add: apply_batch_both apply_batch_systems(2))
qed (simp add: assms(2))

lemma last_batch_shown:
  assumes "distinct (map sy_id (fl_systems f))" "accept_batch_generation (pb_generation b) f"
    "distinct (map pr_system_id (pb_results b))" "s \<in> set (fl_systems f)" "r \<in> set (pb_results b)"
    "pr_system_id r = sy_id s" "same_target (sy_endpoint s) (pr_endpoint r)"
  shows "\<exists>s' \<in> set (fl_systems (snd (apply_batch_owned_changed b f))). sy_id s' = sy_id s \<and> shows_result r s'"
proof -
  obtain j where j: "j < length (fl_systems f)" "fl_systems f ! j = s" using assms(4) by (auto simp: in_set_conv_nth)
  let ?s' = "fl_systems (snd (apply_batch_owned_changed b f)) ! j"
  have "?s' = snd (apply_outcome (pb_completed_at b) r s)"
    using apply_by_id_nth [OF assms(1,3) j(1) assms(5)] assms(6,7) j(2)
    by (simp add: apply_batch_both [OF assms(1)] apply_batch_systems(1) [OF assms(1,2)])
  moreover have "?s' \<in> set (fl_systems (snd (apply_batch_owned_changed b f)))"
    using j(1) by (simp add: apply_batch_both [OF assms(1)] apply_batch_systems(1) [OF assms(1,2)])
  ultimately show ?thesis by (metis apply_outcome_keeps(1) apply_outcome_shows)
qed

section \<open>Reloads\<close>

lemma systems_by_id_Some:
  assumes "distinct (map sy_id systems)"
  shows "systems_by_id systems k = Some s \<longleftrightarrow> s \<in> set systems \<and> sy_id s = k"
  using assms unfolding systems_by_id_def
proof (induction systems rule: rev_induct)
  case (snoc t systems)
  then show ?case by (cases "sy_id t = k") (auto simp: image_iff)
qed simp

lemma systems_by_id_None: "systems_by_id systems k = None \<longleftrightarrow> (\<forall>s \<in> set systems. sy_id s \<noteq> k)"
  unfolding systems_by_id_def by (induction systems rule: rev_induct) auto

text \<open>What becomes of an entry, given the old states.\<close>

definition kept_system :: "SystemEntry \<Rightarrow> SystemState \<Rightarrow> SystemState" where
  "kept_system e old = old\<lparr>sy_endpoint := to_endpoint e, sy_configured_name := se_name e\<rparr>"

definition reconciled :: "(rstr \<rightharpoonup> SystemState) \<Rightarrow> SystemEntry \<Rightarrow> SystemState" where
  "reconciled m e = (case m (se_id e) of
     None \<Rightarrow> system_from_entry e
   | Some old \<Rightarrow> if same_target (sy_endpoint old) (to_endpoint e) then kept_system e old else system_from_entry e)"

definition is_repointed :: "(rstr \<rightharpoonup> SystemState) \<Rightarrow> SystemEntry \<Rightarrow> bool" where
  "is_repointed m e \<longleftrightarrow> (case m (se_id e) of None \<Rightarrow> False | Some old \<Rightarrow> \<not> same_target (sy_endpoint old) (to_endpoint e))"

lemma reconcile_entries_distinct:
  assumes "distinct (map se_id es)" "\<forall>e \<in> set es. m' (se_id e) = m (se_id e)"
  shows "reconcile_entries m' es = (map (reconciled m) es, map se_id (filter (is_repointed m) es))"
  using assms
proof (induction es arbitrary: m')
  case (Cons e es)
  have "\<forall>e' \<in> set es. (m'(se_id e := None)) (se_id e') = m (se_id e')" using Cons.prems by (force simp: image_iff)
  then have "reconcile_entries (m'(se_id e := None)) es = (map (reconciled m) es, map se_id (filter (is_repointed m) es))"
    using Cons.IH Cons.prems(1) by simp
  then show ?case
    using Cons.prems(2)
    by (simp add: reconciled_def [of m e] is_repointed_def [of m e] same_target_def kept_system_def Let_def split: option.split)
qed simp

lemma bt_get_reset_fold:
  "bt_get (ca_systems (fold (\<lambda>sid c. snd (reset_system sid c)) ids c)) k = (if k \<in> set ids then None else bt_get (ca_systems c) k)"
  by (induction ids arbitrary: c) (auto simp: reset_system_def recount_def Let_def bt_get_remove)

lemma kept_system_simps [simp]:
  "sy_id (kept_system e s) = sy_id s" "sy_endpoint (kept_system e s) = to_endpoint e"
  "sy_id (system_from_entry e) = se_id e" "sy_endpoint (system_from_entry e) = to_endpoint e"
  by (simp_all add: kept_system_def system_from_entry_def)

lemma reconciled_id: "distinct (map sy_id systems) \<Longrightarrow> sy_id (reconciled (systems_by_id systems) e) = se_id e"
  by (auto simp: reconciled_def systems_by_id_Some split: option.splits)

lemma reconciled_endpoint: "sy_endpoint (reconciled m e) = to_endpoint e"
  by (simp add: reconciled_def split: option.split)

lemma reconcile_facts:
  assumes "distinct (map se_id (cf_systems config))" "distinct (map sy_id (fl_systems f))"
  defines "m \<equiv> systems_by_id (fl_systems f)"
  shows "fl_systems (reconcile_systems config f) = map (reconciled m) (cf_systems config)"
    "map sy_id (fl_systems (reconcile_systems config f)) = map se_id (cf_systems config)"
    "map sy_endpoint (fl_systems (reconcile_systems config f)) = map to_endpoint (cf_systems config)"
    "bt_get (ca_systems (fl_cron (reconcile_systems config f))) k =
      (if \<exists>e \<in> set (cf_systems config). se_id e = k \<and> is_repointed m e then None else bt_get (ca_systems (fl_cron f)) k)"
  using reconcile_entries_distinct [OF assms(1), of m m] reconciled_id [OF assms(2)]
  by (auto simp: reconcile_systems_def m_def reconciled_endpoint bt_get_reset_fold)

section \<open>Reductions over the frontends\<close>

definition active_periods :: "EggpoolIntent intents \<Rightarrow> EggpoolPeriod set" where
  "active_periods m = (\<lambda>e. in_period (snd e)) ` {e \<in> set m. in_active (snd e)}"

definition asks :: "CronIntent \<Rightarrow> rstr \<Rightarrow> rstr \<Rightarrow> bool" where
  "asks i sid job \<longleftrightarrow> ci_system_id i = Some sid \<and> ci_job i = Some job \<and> job \<noteq> []"

definition asked_depths :: "CronIntent intents \<Rightarrow> rstr \<Rightarrow> rstr \<Rightarrow> nat set" where
  "asked_depths m sid job = (\<lambda>e. clamp 1 MAX_DISPLAY_HISTORY (ci_display_history (snd e))) ` {e \<in> set m. asks (snd e) sid job}"

definition published_depth :: "(rstr, (rstr, nat) btree) btree \<Rightarrow> rstr \<Rightarrow> rstr \<Rightarrow> nat option" where
  "published_depth r sid job = bt_get (case bt_get r sid of None \<Rightarrow> [] | Some per_system \<Rightarrow> per_system) job"

lemma fold_min_Min: "fold min ps p = Min (set (p # ps))" for p :: "'a :: linorder"
  by (rule Min.set_eq_fold [symmetric])

lemma converged_period_Min:
  "converged_period fallback m = (if active_periods m = {} then fallback else Min (active_periods m))"
proof -
  let ?ps = "map (\<lambda>e. in_period (snd e)) (filter (\<lambda>e. in_active (snd e)) m)"
  have "set ?ps = active_periods m" by (auto simp: active_periods_def)
  then show ?thesis
    unfolding converged_period_def by (cases ?ps) (auto simp: fold_min_Min simp del: list.set(2))
qed

lemma any_active_iff: "any_active m \<longleftrightarrow> active_periods m \<noteq> {}"
  by (force simp: any_active_def active_periods_def list_ex_iff)

lemma request_turn_depth:
  "published_depth (request_turn i r) sid job =
    (if asks i sid job
     then Some (max (case published_depth r sid job of None \<Rightarrow> 0 | Some d \<Rightarrow> d) (clamp 1 MAX_DISPLAY_HISTORY (ci_display_history i)))
     else published_depth r sid job)"
  by (auto simp: request_turn_def asks_def published_depth_def Let_def bt_get_insert simp del: bt_insert.simps
      split: option.splits)

lemma published_depth_Max:
  "published_depth (fold (\<lambda>e. request_turn (snd e)) m []) sid job =
    (if asked_depths m sid job = {} then None else Some (Max (asked_depths m sid job)))"
proof (induction m rule: rev_induct)
  case Nil
  show ?case by (simp add: published_depth_def asked_depths_def bt_get_def)
next
  case (snoc e m)
  let ?d = "clamp 1 MAX_DISPLAY_HISTORY (ci_display_history (snd e))"
  have "asked_depths (m @ [e]) sid job = (if asks (snd e) sid job then insert ?d (asked_depths m sid job) else asked_depths m sid job)"
    by (auto simp: asked_depths_def)
  moreover have "finite (asked_depths m sid job)" by (simp add: asked_depths_def)
  ultimately show ?case using snoc by (simp add: request_turn_depth max.commute)
qed

section \<open>EggPool results\<close>

text \<open>The part of the pane that a plane of a result may touch.\<close>

definition summary_plane :: "EggpoolState \<Rightarrow> EggpoolSummary option \<times> nat option \<times> EggpoolFetchOutcome option" where
  "summary_plane e = (es_summary e, es_last_success_at e, es_last_error e)"

definition health_plane :: "EggpoolState \<Rightarrow> EggpoolHealthSnapshot option \<times> nat option \<times> EggpoolHealthFetchOutcome option" where
  "health_plane e = (es_health e, es_last_health_success_at e, es_last_health_error e)"

definition summary_after :: "EggpoolResult \<Rightarrow> EggpoolState \<Rightarrow> EggpoolSummary option \<times> nat option \<times> EggpoolFetchOutcome option" where
  "summary_after r e = (case er_summary r of
     EF_Online s \<Rightarrow> (Some s, Some (er_completed_at r), None)
   | error \<Rightarrow> (es_summary e, es_last_success_at e, Some error))"

definition health_after :: "EggpoolResult \<Rightarrow> EggpoolState \<Rightarrow> EggpoolHealthSnapshot option \<times> nat option \<times> EggpoolHealthFetchOutcome option" where
  "health_after r e = (case er_health r of
     EH_Online h \<Rightarrow> (Some h, Some (er_completed_at r), None)
   | error \<Rightarrow> (es_health e, es_last_health_success_at e, Some error))"

lemma summary_plane_facts:
  "es_worker_state (snd (apply_summary_plane r e)) = es_worker_state e"
  "es_request_generation (snd (apply_summary_plane r e)) = es_request_generation e"
  "es_period (snd (apply_summary_plane r e)) = es_period e"
  "summary_plane (snd (apply_summary_plane r e)) = summary_after r e"
  "health_plane (snd (apply_summary_plane r e)) = health_plane e"
  by (cases "er_summary r"; simp add: apply_summary_plane_def summary_plane_def health_plane_def summary_after_def Let_def)+

lemma health_plane_facts:
  "es_worker_state (snd (apply_health_plane r e)) = es_worker_state e"
  "es_request_generation (snd (apply_health_plane r e)) = es_request_generation e"
  "es_period (snd (apply_health_plane r e)) = es_period e"
  "summary_plane (snd (apply_health_plane r e)) = summary_plane e"
  "health_plane (snd (apply_health_plane r e)) = health_after r e"
  by (cases "er_health r"; simp add: apply_health_plane_def summary_plane_def health_plane_def health_after_def Let_def)+

lemma health_after_cong: "health_plane e' = health_plane e \<Longrightarrow> health_after r e' = health_after r e"
  by (simp add: health_after_def health_plane_def split: EggpoolHealthFetchOutcome.split)

lemma plane_worker_state:
  "summary_after r (e\<lparr>es_worker_state := w\<rparr>) = summary_after r e"
  "health_plane (e\<lparr>es_worker_state := w\<rparr>) = health_plane e"
  by (simp_all add: summary_after_def health_plane_def split: EggpoolFetchOutcome.split)

text \<open>An accepted result resolves the request and moves each plane on its own.\<close>

lemma eggpool_result_applied:
  assumes "fl_eggpool f = Some e" "er_generation r = es_request_generation e" "er_period r = es_period e"
    "er_summary r \<noteq> EF_Cancelled"
  shows "\<exists>e'. fl_eggpool (snd (apply_eggpool_result_changed r f)) = Some e' \<and> es_worker_state e' = WorkerIdle \<and>
    es_request_generation e' = es_request_generation e \<and> es_period e' = es_period e \<and>
    summary_plane e' = summary_after r e \<and> health_plane e' = health_after r e"
proof -
  let ?e0 = "e\<lparr>es_worker_state := WorkerIdle\<rparr>"
  let ?e1 = "snd (apply_summary_plane r ?e0)"
  have "fl_eggpool (snd (apply_eggpool_result_changed r f)) = Some (snd (apply_health_plane r ?e1))"
    using assms by (simp add: apply_eggpool_result_changed_def Let_def case_prod_beta)
  then show ?thesis
    by (simp add: summary_plane_facts health_plane_facts plane_worker_state health_after_cong [of ?e1 ?e0]
        health_after_cong [of ?e0 e])
qed

lemma eggpool_result_stale:
  assumes "fl_eggpool f = Some e" "er_generation r \<noteq> es_request_generation e \<or> er_period r \<noteq> es_period e"
  shows "apply_eggpool_result_changed r f = (False, f)"
  using assms by (simp add: apply_eggpool_result_changed_def)

section \<open>Properties\<close>

text \<open>
  C36. Applying a poll batch by moving its documents gives the same fleet and the same report of a
  visible change as applying it by reference, for every batch, in any order and with any mixture of
  unknown or repeated identifiers, as long as the fleet's own identifiers are distinct.
\<close>

theorem batch_paths_agree:
  assumes "distinct (map sy_id (fl_systems f))"
  shows "apply_batch_owned_changed batch f = apply_batch_changed batch f"
  using assms by (rule apply_batch_both)

definition example_fleet :: FleetState where
  "example_fleet = from_config example_config"

lemma example_fleet_systems [simp]:
  "fl_systems example_fleet = [system_from_entry \<lparr>se_id = ustr ''x'', se_host = ustr ''::1'', se_port = 80, se_name = None\<rparr>]"
  by (simp add: example_fleet_def from_config_def example_config_def)

theorem batch_paths_agree_witness:
  "apply_batch_owned_changed \<lparr>pb_generation = 1, pb_started_at = 0, pb_completed_at = 1, pb_results = []\<rparr> example_fleet =
   apply_batch_changed \<lparr>pb_generation = 1, pb_started_at = 0, pb_completed_at = 1, pb_results = []\<rparr> example_fleet"
  by (rule batch_paths_agree) simp

text \<open>
  C22. A fleet that receives the batches of a scheduler run in order accepts every one of them, also
  across the wrap of the generation counter, and afterwards a system that the last batch polled at its
  current target shows exactly that result: online with the validated document, or offline with the
  reason of the failure.
\<close>

theorem fleet_follows_scheduler:
  assumes "distinct (map sy_id (fl_systems f))" "fl_last_applied_generation f = 0"
    "lp_sent (fst (poll_run es ge turns)) = sent @ [b]" "distinct (map pr_system_id (pb_results b))"
    "s \<in> set (fl_systems f)" "r \<in> set (pb_results b)" "pr_system_id r = sy_id s"
    "same_target (sy_endpoint s) (pr_endpoint r)"
  shows "fl_last_applied_generation (apply_all (sent @ [b]) f) = pb_generation b \<and> outcome_valid (pr_outcome r) \<and>
    (\<exists>s' \<in> set (fl_systems (apply_all (sent @ [b]) f)). sy_id s' = sy_id s \<and> shows_result r s')"
proof -
  let ?g = "apply_all sent f"
  have gens: "map pb_generation (sent @ [b]) = map nth_generation [1..<Suc (length (sent @ [b]))]"
    and valid: "\<exists>es. batch_answers es b"
    using poll_run_inv [of es ge turns] assms(3) by (auto simp: loop_inv_def case_prod_beta)
  then have pre: "map pb_generation sent = map nth_generation [1..<Suc (length sent)]"
    and b: "pb_generation b = nth_generation (Suc (length sent))" by simp_all
  have ids: "distinct (map sy_id (fl_systems ?g))" using assms(1) by (simp add: apply_all_ids)
  have accepted: "accept_batch_generation (pb_generation b) ?g"
    using next_generation_accepted [OF apply_all_generation [OF assms(1,2) pre]] b by simp
  obtain j where j: "j < length (fl_systems f)" "fl_systems f ! j = s" using assms(5) by (auto simp: in_set_conv_nth)
  have len: "length (fl_systems ?g) = length (fl_systems f)"
    using arg_cong [OF apply_all_ids [OF assms(1), of sent], of length] by simp
  have same: "sy_id (fl_systems ?g ! j) = sy_id s" "sy_endpoint (fl_systems ?g ! j) = sy_endpoint s"
    using arg_cong [OF apply_all_ids [OF assms(1), of sent], of "\<lambda>xs. xs ! j"]
      arg_cong [OF apply_all_endpoints [OF assms(1), of sent], of "\<lambda>xs. xs ! j"] j len by simp_all
  have "fl_systems ?g ! j \<in> set (fl_systems ?g)" using j(1) len by simp
  from last_batch_shown [OF ids accepted assms(4) this assms(6)] same assms(7,8)
  have "\<exists>s' \<in> set (fl_systems (snd (apply_batch_owned_changed b ?g))). sy_id s' = sy_id s \<and> shows_result r s'"
    by simp
  then show ?thesis
    using valid assms(6) apply_batch_systems(2) [OF ids accepted] apply_batch_both [OF ids]
    by (auto simp: batch_answers_def)
qed

definition example_turn :: generation_env where
  "example_turn = \<lparr>ge_started_at = 0, ge_completed_at = 1, ge_fates = (\<lambda>_. TaskRan example_v1_peer 0 1 2), ge_send = SendOk\<rparr>"

definition example_poll :: PollResult where
  "example_poll = poll example_v1_peer example_endpoint 0 1 2"

lemma example_sent: "lp_sent (fst (poll_run [example_endpoint] example_turn [])) =
    [] @ [\<lparr>pb_generation = 1, pb_started_at = 0, pb_completed_at = 1, pb_results = [example_poll]\<rparr>]"
  by (simp add: poll_run_def poll_loop_start_def run_generation_def example_turn_def prepare_targets_def poll_generation_def
      poll_task_def poll_prepared_eq_poll example_poll_def advance_generation_def u64_max_def)

lemma same_target_refl: "same_target e e"
  by (simp add: same_target_def equivalent_endpoint_host_def eq_ignore_ascii_case_def split: result.splits)

theorem fleet_follows_scheduler_witness:
  "\<exists>s' \<in> set (fl_systems (apply_all
      [\<lparr>pb_generation = 1, pb_started_at = 0, pb_completed_at = 1, pb_results = [example_poll]\<rparr>] example_fleet)).
     sy_id s' = ustr ''x'' \<and> shows_result example_poll s'"
proof -
  have e: "to_endpoint \<lparr>se_id = ustr ''x'', se_host = ustr ''::1'', se_port = 80, se_name = None\<rparr> = example_endpoint"
    by (simp add: to_endpoint_def example_endpoint_def)
  have p: "pr_system_id example_poll = ustr ''x''" "pr_endpoint example_poll = example_endpoint"
    by (simp_all add: example_poll_def polled) (simp add: example_endpoint_def)
  have zero: "fl_last_applied_generation example_fleet = 0" by (simp add: example_fleet_def from_config_def)
  show ?thesis
    using fleet_follows_scheduler [OF _ zero example_sent, of "system_from_entry \<lparr>se_id = ustr ''x'', se_host = ustr ''::1'',
        se_port = 80, se_name = None\<rparr>" example_poll] p
    by (simp add: e same_target_refl)
qed

text \<open>
  C24. A reload gives the fleet exactly the configured identifiers and endpoints, in order. A system
  whose target is unchanged up to spelling keeps its polling state and its cron data; one whose target
  changed, and a new one, starts from scratch, and the cron data of a repointed identifier is dropped.
\<close>

theorem reload_reconciles:
  assumes "client_config_wf config" "distinct (map sy_id (fl_systems f))" "e \<in> set (cf_systems config)"
  shows "map sy_id (fl_systems (reconcile_systems config f)) = map se_id (cf_systems config) \<and>
    map sy_endpoint (fl_systems (reconcile_systems config f)) = map to_endpoint (cf_systems config) \<and>
    (\<forall>s \<in> set (fl_systems f). sy_id s = se_id e \<longrightarrow>
      (if same_target (sy_endpoint s) (to_endpoint e)
       then kept_system e s \<in> set (fl_systems (reconcile_systems config f)) \<and>
         bt_get (ca_systems (fl_cron (reconcile_systems config f))) (se_id e) = bt_get (ca_systems (fl_cron f)) (se_id e)
       else system_from_entry e \<in> set (fl_systems (reconcile_systems config f)) \<and>
         bt_get (ca_systems (fl_cron (reconcile_systems config f))) (se_id e) = None)) \<and>
    ((\<forall>s \<in> set (fl_systems f). sy_id s \<noteq> se_id e) \<longrightarrow> system_from_entry e \<in> set (fl_systems (reconcile_systems config f)))"
proof -
  let ?m = "systems_by_id (fl_systems f)"
  have ids: "distinct (map se_id (cf_systems config))" using assms(1) by (simp add: client_config_wf_def)
  note facts = reconcile_facts [OF ids assms(2)]
  have unique: "e' = e" if "e' \<in> set (cf_systems config)" "se_id e' = se_id e" for e'
    using ids assms(3) that by (metis inj_on_def distinct_map)
  have mem: "reconciled ?m e \<in> set (fl_systems (reconcile_systems config f))" using assms(3) by (simp add: facts(1))
  have cron: "bt_get (ca_systems (fl_cron (reconcile_systems config f))) (se_id e) =
      (if is_repointed ?m e then None else bt_get (ca_systems (fl_cron f)) (se_id e))"
    using assms(3) unique by (auto simp: facts(4))
  have old: "?m (se_id e) = Some s" if "s \<in> set (fl_systems f)" "sy_id s = se_id e" for s
    using that by (simp add: systems_by_id_Some [OF assms(2)])
  have kept: "if same_target (sy_endpoint s) (to_endpoint e)
       then kept_system e s \<in> set (fl_systems (reconcile_systems config f)) \<and>
         bt_get (ca_systems (fl_cron (reconcile_systems config f))) (se_id e) = bt_get (ca_systems (fl_cron f)) (se_id e)
       else system_from_entry e \<in> set (fl_systems (reconcile_systems config f)) \<and>
         bt_get (ca_systems (fl_cron (reconcile_systems config f))) (se_id e) = None"
    if "s \<in> set (fl_systems f)" "sy_id s = se_id e" for s
    using mem cron old [OF that] by (simp add: reconciled_def is_repointed_def split: if_splits)
  have new: "system_from_entry e \<in> set (fl_systems (reconcile_systems config f))" if "\<forall>s \<in> set (fl_systems f). sy_id s \<noteq> se_id e"
    using mem that by (simp add: reconciled_def systems_by_id_None [THEN iffD2])
  show ?thesis using facts(2,3) kept new by blast
qed

theorem reload_reconciles_witness:
  "kept_system \<lparr>se_id = ustr ''x'', se_host = ustr ''::1'', se_port = 80, se_name = None\<rparr> (hd (fl_systems example_fleet))
     \<in> set (fl_systems (reconcile_systems example_config example_fleet))"
proof -
  have wf: "client_config_wf example_config" by (rule client_parse_wf [OF example_config_parses])
  have "\<lparr>se_id = ustr ''x'', se_host = ustr ''::1'', se_port = 80, se_name = None\<rparr> \<in> set (cf_systems example_config)"
    by (simp add: example_config_def)
  from reload_reconciles [OF wf _ this, of example_fleet] show ?thesis by (simp add: same_target_refl)
qed

text \<open>
  What the daemon does for its frontends is a reduction of their latest intents alone: EggPool is
  active when some frontend has its pane open, at the shortest of their periods; and a job's history is
  published at the largest depth any frontend asked for, and only when one asked.
\<close>

theorem intents_reduced:
  "any_active m = (active_periods m \<noteq> {}) \<and>
   converged_period fallback m = (if active_periods m = {} then fallback else Min (active_periods m)) \<and>
   published_depth (cron_requests c) sid job =
     (if asked_depths (cis_entries c) sid job = {} then None else Some (Max (asked_depths (cis_entries c) sid job)))"
  by (simp add: any_active_iff converged_period_Min cron_requests_def published_depth_Max)

end
