(* ===== verification/Text_Sanitize.thy ===== *)
theory Text_Sanitize
  imports Net_Addr
begin

text \<open>
  Remote text made inert for a terminal (\<open>crates/gregg/src/sanitize.rs\<close>): the streaming pass, its
  two newline modes and the escape notation. \<open>cells\<close> needs the character widths of an external crate
  and is not modelled.

  The lemmas show that nothing a terminal interprets survives, that the line bound holds, that text
  which is already safe is unchanged, and where a second pass still changes something.
\<close>

section \<open>The sanitizer\<close>

record Sanitized =
  sz_text :: rstr
  sz_escaped :: bool
  sz_dropped_lines :: bool

definition TAB_CELLS :: rstr where
  "TAB_CELLS = ustr ''    ''"

definition caret :: "nat \<Rightarrow> rstr" where
  "caret c = (if c < 0xD800 \<or> 0xDFFF < c \<and> c \<le> 0x10FFFF then ustr ''^'' @ [c] else ustr ''^'' @ dec_nat c)"

definition unicode_escape :: "uchar \<Rightarrow> rstr" where
  "unicode_escape c = ustr [CHR 0x5C, CHR ''u''] @ map digit_char [c div 4096 mod 16, c div 256 mod 16, c div 16 mod 16, c mod 16]"

definition escape :: "uchar \<Rightarrow> rstr option" where
  "escape c =
     (if c = 10 \<or> c = 9 then None
      else if c \<le> 0x1F then Some (caret (c + 0x40))
      else if c = 0x7F then Some (ustr ''^?'')
      else if 0x80 \<le> c \<and> c \<le> 0x9F then Some (ustr ''M-'' @ caret (c - 0x40))
      else if 0x202A \<le> c \<and> c \<le> 0x202E \<or> 0x2066 \<le> c \<and> c \<le> 0x2069 \<or> c = 0x200E \<or> c = 0x200F then Some (unicode_escape c)
      else if c = 0x2028 \<or> c = 0x2029 then Some (unicode_escape c)
      else None)"

definition is_inert :: "uchar \<Rightarrow> bool" where
  "is_inert c \<longleftrightarrow> escape c = None"

text \<open>The end of a line: the line is appended, after a separator when it is not the first.\<close>

definition close_line :: "nat \<Rightarrow> rstr \<Rightarrow> bool \<Rightarrow> Sanitized \<Rightarrow> Sanitized" where
  "close_line emitted current current_escaped out =
     out\<lparr>sz_text := sz_text out @ (if emitted > 0 then [10] else []) @ current,
         sz_escaped := sz_escaped out \<or> current_escaped\<rparr>"

fun sanitize_loop :: "bool \<Rightarrow> nat \<Rightarrow> rstr \<Rightarrow> rstr \<Rightarrow> bool \<Rightarrow> nat \<Rightarrow> Sanitized \<Rightarrow> Sanitized" where
  "sanitize_loop brk mx [] current esc emitted out =
     (if current = [] then out
      else if brk \<and> emitted = mx then out\<lparr>sz_dropped_lines := True\<rparr>
      else close_line emitted current esc out)"
| "sanitize_loop brk mx (c # cs) current esc emitted out =
     (if c = 10 \<and> brk then
        (if emitted = mx then out\<lparr>sz_dropped_lines := True\<rparr>
         else sanitize_loop brk mx cs [] False (Suc emitted) (close_line emitted current esc out))
      else if c = 10 then sanitize_loop brk mx cs (current @ ustr ''^J'') True emitted out
      else if c = 13 then
        (if brk \<and> cs \<noteq> [] \<and> hd cs = 10 then sanitize_loop brk mx cs current esc emitted out
         else sanitize_loop brk mx cs (current @ ustr ''^M'') True emitted out)
      else if c = 9 then sanitize_loop brk mx cs (current @ TAB_CELLS) esc emitted out
      else case escape c of
             Some replacement \<Rightarrow> sanitize_loop brk mx cs (current @ replacement) True emitted out
           | None \<Rightarrow> sanitize_loop brk mx cs (current @ [c]) esc emitted out)"

definition sanitize_inner :: "rstr \<Rightarrow> nat \<Rightarrow> bool \<Rightarrow> Sanitized" where
  "sanitize_inner text max_lines newline_breaks_line =
     sanitize_loop newline_breaks_line max_lines text [] False 0
       \<lparr>sz_text = [], sz_escaped = False, sz_dropped_lines = False\<rparr>"

definition sanitize :: "rstr \<Rightarrow> nat \<Rightarrow> Sanitized" where
  "sanitize text max_lines = sanitize_inner text max_lines True"

definition sanitize_single_line :: "rstr \<Rightarrow> Sanitized" where
  "sanitize_single_line text = sanitize_inner text u64_max False"

definition sanitized_lines :: "Sanitized \<Rightarrow> rstr list" where
  "sanitized_lines s = (if sz_text s = [] then [] else str_split 10 (sz_text s))"

definition is_altered :: "Sanitized \<Rightarrow> bool" where
  "is_altered s \<longleftrightarrow> sz_escaped s \<or> sz_dropped_lines s"

section \<open>What survives\<close>

text \<open>
  The characters that must not reach a terminal cell, by their code points: the C0 controls (tab and
  newline included) with delete, the C1 controls, the line and the paragraph separator, the
  bidirectional embeddings and overrides, the isolates, and the two directional marks.
\<close>

definition controls :: "uchar set" where
  "controls = {0x00..0x1F} \<union> {0x7F} \<union> {0x80..0x9F}"

definition separators :: "uchar set" where
  "separators = {0x2028, 0x2029}"

definition bidi_controls :: "uchar set" where
  "bidi_controls = {0x202A..0x202E} \<union> {0x2066..0x2069} \<union> {0x200E, 0x200F}"

text \<open>A character that a terminal shows and does not interpret.\<close>

definition shown_as_is :: "uchar \<Rightarrow> bool" where
  "shown_as_is c \<longleftrightarrow> c \<notin> controls \<and> c \<notin> separators \<and> c \<notin> bidi_controls"

lemma shown_as_is_iff:
  "shown_as_is c \<longleftrightarrow> 0x20 \<le> c \<and> c \<noteq> 0x7F \<and> \<not> (0x80 \<le> c \<and> c \<le> 0x9F) \<and> \<not> (0x2028 \<le> c \<and> c \<le> 0x202E) \<and>
     \<not> (0x2066 \<le> c \<and> c \<le> 0x2069) \<and> c \<noteq> 0x200E \<and> c \<noteq> 0x200F"
  by (auto simp: shown_as_is_def controls_def separators_def bidi_controls_def)

text \<open>The escapes are exactly the forbidden characters, tab and newline apart, which are layout.\<close>

lemma is_inert_iff: "is_inert c \<longleftrightarrow> shown_as_is c \<or> c = 9 \<or> c = 10"
  by (auto simp: shown_as_is_iff is_inert_def escape_def)

lemma escape_None_shown: "escape c = None \<Longrightarrow> c \<noteq> 9 \<Longrightarrow> c \<noteq> 10 \<Longrightarrow> shown_as_is c"
  using is_inert_iff [of c] by (simp add: is_inert_def)

lemma shown_as_is_ascii: "0x20 \<le> c \<Longrightarrow> c < 0x7F \<Longrightarrow> shown_as_is c"
  by (simp add: shown_as_is_iff)

lemma digit_char_printable: "d < 16 \<Longrightarrow> 0x20 \<le> digit_char d \<and> digit_char d < 0x7F"
  by (auto simp: digit_char_def)

lemma escape_shown: "escape c = Some r \<Longrightarrow> d \<in> set r \<Longrightarrow> shown_as_is d"
  by (rule shown_as_is_ascii; auto simp: escape_def caret_def unicode_escape_def ustr_def digit_char_printable split: if_splits)

lemma fixed_shown: "list_all shown_as_is (ustr ''^J'')" "list_all shown_as_is (ustr ''^M'')" "list_all shown_as_is TAB_CELLS"
  by (simp_all add: ustr_def TAB_CELLS_def shown_as_is_iff)

lemma emitted_shown:
  assumes "c \<noteq> 9" "c \<noteq> 10"
  shows "escape c = Some r \<Longrightarrow> list_all shown_as_is r" "escape c = None \<Longrightarrow> shown_as_is c"
  using assms escape_shown [of c r] escape_None_shown [of c] by (simp_all add: list_all_iff)

text \<open>What the text of the result consists of.\<close>

definition kept :: "bool \<Rightarrow> uchar \<Rightarrow> bool" where
  "kept brk c \<longleftrightarrow> shown_as_is c \<or> brk \<and> c = 10"

lemma kept_newline [simp]: "kept True 10"
  by (simp add: kept_def)

lemma shown_kept: "list_all shown_as_is s \<Longrightarrow> list_all (kept brk) s"
  by (auto simp: list_all_iff kept_def)

lemma sanitize_loop_shown:
  assumes "list_all shown_as_is current" "list_all (kept brk) (sz_text out)" "\<not> brk \<longrightarrow> emitted = 0"
  shows "list_all (kept brk) (sz_text (sanitize_loop brk mx cs current esc emitted out))"
  using assms
proof (induction cs arbitrary: current esc emitted out)
  case Nil
  then show ?case by (auto simp: close_line_def shown_kept)
next
  case (Cons c cs)
  have closed: "list_all (kept brk) (sz_text (close_line emitted current esc out))"
    using Cons.prems by (cases brk) (simp_all add: close_line_def shown_kept)
  show ?case
  proof (cases "c = 10 \<or> c = 13 \<or> c = 9")
    case True
    then show ?thesis using Cons.prems closed Cons.IH by (cases brk; elim disjE; simp add: fixed_shown)
  next
    case False
    then show ?thesis
      using Cons.prems emitted_shown [of c] by (simp add: Cons.IH split: option.split)
  qed
qed

section \<open>Lines\<close>

lemma length_str_split: "length (str_split k s) = Suc (count_list s k)"
  unfolding str_split_def by (induction s) (auto split: list.splits)

lemma shown_no_newline: "list_all shown_as_is s \<Longrightarrow> count_list s 10 = 0"
  by (induction s) (auto simp: shown_as_is_iff)

lemma sanitize_loop_lines:
  assumes "emitted \<le> mx" "emitted = 0 \<longrightarrow> sz_text out = []" "0 < emitted \<longrightarrow> count_list (sz_text out) 10 < emitted"
    "list_all shown_as_is current"
  shows "let t = sz_text (sanitize_loop True mx cs current esc emitted out) in t = [] \<or> count_list t 10 < mx"
  using assms
proof (induction cs arbitrary: current esc emitted out)
  case Nil
  then show ?case by (auto simp: close_line_def Let_def shown_no_newline)
next
  case (Cons c cs)
  have closed: "count_list (sz_text (close_line emitted current esc out)) 10 < Suc emitted"
    using Cons.prems by (auto simp: close_line_def shown_no_newline)
  show ?case
  proof (cases "c = 10 \<or> c = 13 \<or> c = 9")
    case True
    then show ?thesis
    proof (elim disjE)
      assume "c = 10"
      then show ?thesis
        using Cons.prems closed Cons.IH [of "Suc emitted" "close_line emitted current esc out" "[]" False]
        by (cases "emitted = mx") (auto simp: Let_def)
    qed (use Cons.prems Cons.IH in \<open>simp_all add: fixed_shown\<close>)
  next
    case False
    then show ?thesis
      using Cons.prems emitted_shown [of c] Cons.IH by (simp split: option.split)
  qed
qed

section \<open>The line bound\<close>

text \<open>
  The lines of a text, each with its characters replaced, and the text they are joined to; the bounded
  pass keeps the first lines and says whether there were more.
\<close>

definition replaced :: "uchar \<Rightarrow> rstr \<Rightarrow> rstr" where
  "replaced c rest =
     (if c = 13 then (if rest \<noteq> [] \<and> hd rest = 10 then [] else ustr ''^M'')
      else if c = 9 then TAB_CELLS
      else case escape c of Some r \<Rightarrow> r | None \<Rightarrow> [c])"

fun broken_lines :: "rstr \<Rightarrow> rstr \<Rightarrow> rstr list" where
  "broken_lines [] current = (if current = [] then [] else [current])"
| "broken_lines (c # cs) current =
     (if c = 10 then current # broken_lines cs [] else broken_lines cs (current @ replaced c cs))"

lemma join_snoc: "str_join k (ls @ [l]) = str_join k ls @ (if ls = [] then [] else [k]) @ l"
  by (induction k ls rule: str_join.induct) simp_all

lemma replaced_shown: "c \<noteq> 10 \<Longrightarrow> list_all shown_as_is (replaced c rest)"
  by (cases "c = 9"; cases "c = 13"; cases "escape c") (simp_all add: replaced_def fixed_shown emitted_shown)

lemma broken_shown: "list_all shown_as_is current \<Longrightarrow> \<forall>l \<in> set (broken_lines cs current). list_all shown_as_is l"
proof (induction cs current rule: broken_lines.induct)
  case (2 c cs current)
  show ?case
  proof (cases "c = 10")
    case True
    then show ?thesis using 2(1) [OF True] 2(3) by auto
  next
    case False
    then show ?thesis using 2(2) [OF False] 2(3) replaced_shown [OF False, of cs] by auto
  qed
qed simp

lemma sanitize_loop_broken:
  assumes "sz_text out = str_join 10 ls" "length ls \<le> mx" "\<not> sz_dropped_lines out"
  shows "sz_text (sanitize_loop True mx cs current esc (length ls) out) = str_join 10 (take mx (ls @ broken_lines cs current)) \<and>
    (sz_dropped_lines (sanitize_loop True mx cs current esc (length ls) out) \<longleftrightarrow> mx < length (ls @ broken_lines cs current))"
  using assms
proof (induction cs arbitrary: current esc ls out)
  case Nil
  then show ?case by (auto simp: close_line_def join_snoc)
next
  case (Cons c cs)
  show ?case
  proof (cases "c = 10")
    case newline: True
    show ?thesis
    proof (cases "length ls = mx")
      case False
      then show ?thesis
        using Cons.prems newline Cons.IH [of "close_line (length ls) current esc out" "ls @ [current]" "[]" False]
        by (cases "ls = []") (simp_all add: close_line_def join_snoc)
    qed (use Cons.prems newline in simp)
  next
    case False
    have "\<exists>esc'. sanitize_loop True mx (c # cs) current esc (length ls) out =
        sanitize_loop True mx cs (current @ replaced c cs) esc' (length ls) out"
      using False by (cases "escape c"; cases "c = 13"; cases "c = 9"; cases "cs \<noteq> [] \<and> hd cs = 10") (auto simp: replaced_def)
    then obtain esc' where "sanitize_loop True mx (c # cs) current esc (length ls) out =
        sanitize_loop True mx cs (current @ replaced c cs) esc' (length ls) out" by blast
    then show ?thesis using Cons.IH [OF Cons.prems, of "current @ replaced c cs" esc'] False by simp
  qed
qed

lemma sanitize_broken:
  "sz_text (sanitize t n) = str_join 10 (take n (broken_lines t []))"
  "sz_dropped_lines (sanitize t n) \<longleftrightarrow> n < length (broken_lines t [])"
  using sanitize_loop_broken [of "\<lparr>sz_text = [], sz_escaped = False, sz_dropped_lines = False\<rparr>" "[]" n t "[]" False]
  by (simp_all add: sanitize_def sanitize_inner_def)

lemma length_broken: "length (broken_lines cs current) \<le> Suc (length cs)"
  by (induction cs current rule: broken_lines.induct) auto

lemma split_join:
  "ls \<noteq> [] \<Longrightarrow> \<forall>l \<in> set ls. list_all shown_as_is l \<Longrightarrow> str_split 10 (str_join 10 ls) = ls"
  by (rule str_split_join) (fastforce simp: list_all_iff shown_as_is_iff)+

lemma sanitized_broken:
  "sanitized_lines (sanitize t n) =
     (let ls = take n (broken_lines t []) in if ls = [[]] then [] else ls)"
proof (cases "take n (broken_lines t []) = []")
  case False
  have shown: "\<forall>l \<in> set (take n (broken_lines t [])). list_all shown_as_is l"
    using broken_shown [of "[]" t] by (auto dest: in_set_takeD)
  have "str_join 10 ls = [] \<longleftrightarrow> ls = [[]]" if "ls \<noteq> []" for ls :: "rstr list"
    using that by (cases "(10 :: uchar, ls)" rule: str_join.cases) auto
  with split_join [OF False shown] False show ?thesis
    by (simp add: sanitized_lines_def sanitize_broken Let_def)
qed (simp only: sanitized_lines_def sanitize_broken Let_def str_join.simps simp_thms if_True list.distinct if_False)

text \<open>The lines of a text with no bound: there are at most one more than it has characters.\<close>

definition all_lines :: "rstr \<Rightarrow> rstr list" where
  "all_lines t = sanitized_lines (sanitize t (Suc (length t)))"

lemma all_lines_broken: "all_lines t = (if broken_lines t [] = [[]] then [] else broken_lines t [])"
  using length_broken [of t "[]"] by (simp add: all_lines_def sanitized_broken Let_def)

text \<open>
  Bounding the lines keeps the first of them and reports the rest. A first line that is empty and alone is
  no line.
\<close>

lemma bounded_lines:
  assumes "0 < n"
  shows "filter (\<lambda>l. str_trim l \<noteq> []) (sanitized_lines (sanitize t n)) = filter (\<lambda>l. str_trim l \<noteq> []) (take n (all_lines t))"
    and "sz_dropped_lines (sanitize t n) \<longleftrightarrow> n < length (all_lines t)"
proof -
  have blank: "str_trim [] = []" by (simp add: str_trim_def)
  show "filter (\<lambda>l. str_trim l \<noteq> []) (sanitized_lines (sanitize t n)) = filter (\<lambda>l. str_trim l \<noteq> []) (take n (all_lines t))"
    using assms by (auto simp: sanitized_broken all_lines_broken Let_def blank)
  show "sz_dropped_lines (sanitize t n) \<longleftrightarrow> n < length (all_lines t)"
    using assms by (auto simp: sanitize_broken all_lines_broken)
qed

section \<open>Text that is already safe\<close>

lemma sanitize_loop_unchanged:
  assumes "list_all (kept True) cs" "cs \<noteq> [] \<longrightarrow> last cs \<noteq> 10" "cs \<noteq> [] \<or> current \<noteq> []"
    "emitted + count_list cs 10 < mx"
  shows "sanitize_loop True mx cs current esc emitted out = close_line emitted (current @ cs) esc out"
  using assms
proof (induction cs arbitrary: current esc emitted out)
  case (Cons c cs)
  show ?case
  proof (cases "c = 10")
    case True
    then have "cs \<noteq> []" using Cons.prems(2) by auto
    then show ?thesis
      using Cons.IH [of "[]" "Suc emitted" False "close_line emitted current esc out"] Cons.prems True
      by (auto simp: close_line_def)
  next
    case False
    then have "shown_as_is c" using Cons.prems(1) by (simp add: kept_def)
    then have c: "escape c = None" "c \<noteq> 9" "c \<noteq> 13" by (auto simp: shown_as_is_iff escape_def)
    show ?thesis
    proof (cases "cs = []")
      case True
      then show ?thesis using False c Cons.prems by simp
    next
      case nonempty: False
      then show ?thesis
        using Cons.IH [of "current @ [c]" emitted esc out] Cons.prems False c by simp
    qed
  qed
qed simp

section \<open>Properties\<close>

lemma sanitize_shown: "list_all (kept brk) (sz_text (sanitize_inner t n brk))"
  unfolding sanitize_inner_def by (rule sanitize_loop_shown) simp_all

lemma sanitize_lines: "length (sanitized_lines (sanitize t n)) \<le> n"
  using sanitize_loop_lines [of 0 n "\<lparr>sz_text = [], sz_escaped = False, sz_dropped_lines = False\<rparr>" "[]" t False]
  by (auto simp add: Let_def sanitized_lines_def sanitize_def sanitize_inner_def length_str_split Suc_le_eq)

lemma sanitize_unchanged:
  assumes "list_all (kept True) t" "t \<noteq> []" "last t \<noteq> 10" "count_list t 10 < n"
  shows "sanitize t n = \<lparr>sz_text = t, sz_escaped = False, sz_dropped_lines = False\<rparr>"
  using assms sanitize_loop_unchanged [of t "[]" 0 n False "\<lparr>sz_text = [], sz_escaped = False, sz_dropped_lines = False\<rparr>"]
  by (simp add: sanitize_def sanitize_inner_def close_line_def)

text \<open>
  C30. Whatever a remote sends, nothing a terminal interprets reaches a cell: in the sanitized text
  there is no C0 control, delete or C1 control, no line or paragraph separator, and none of the
  bidirectional embeddings, overrides, isolates and directional marks U+202A to U+202E, U+2066 to
  U+2069, U+200E and U+200F; the multi-line mode keeps newlines as the one exception. It has at most
  the requested number of lines, and the single-line mode has no newline at all.
\<close>

theorem sanitized_text_inert:
  "list_all (\<lambda>c. shown_as_is c \<or> c = 10) (sz_text (sanitize t n)) \<and> length (sanitized_lines (sanitize t n)) \<le> n \<and>
   list_all shown_as_is (sz_text (sanitize_single_line t))"
  using sanitize_shown [of True t n] sanitize_shown [of False t u64_max]
  using sanitize_lines [of t n] by (simp add: sanitize_def sanitize_single_line_def kept_def [abs_def])

text \<open>
  The one bidirectional control of Unicode outside the list above, the Arabic letter mark U+061C, is
  passed through.
\<close>

lemma letter_mark_kept: "sz_text (sanitize_single_line [0x61C]) = [0x61C]"
  by (simp add: sanitize_single_line_def sanitize_inner_def close_line_def escape_def u64_max_def)

text \<open>
  A sanitized text is not changed by a second pass unless it ends with a newline; one that ends with
  a newline loses it, so the pass is not idempotent on text with trailing blank lines.
\<close>

theorem second_pass:
  "sz_text (sanitize t n) \<noteq> [] \<and> last (sz_text (sanitize t n)) \<noteq> 10 \<longrightarrow>
     sanitize (sz_text (sanitize t n)) n = \<lparr>sz_text = sz_text (sanitize t n), sz_escaped = False, sz_dropped_lines = False\<rparr>"
proof (intro impI, elim conjE)
  let ?u = "sz_text (sanitize t n)"
  assume u: "?u \<noteq> []" "last ?u \<noteq> 10"
  have "count_list ?u 10 < n"
    using sanitize_lines [of t n] u(1)
    by (simp add: sanitized_lines_def length_str_split)
  with u show "sanitize ?u n = \<lparr>sz_text = ?u, sz_escaped = False, sz_dropped_lines = False\<rparr>"
    using sanitize_shown [of True t n] sanitize_unchanged [of ?u n] by (simp add: sanitize_def)
qed

theorem sanitize_not_idempotent:
  "sz_text (sanitize (ustr ''a'' @ [10, 10]) u64_max) = ustr ''a'' @ [10]"
  "sz_text (sanitize (ustr ''a'' @ [10]) u64_max) = ustr ''a''"
  by (simp_all add: sanitize_def sanitize_inner_def ustr_def close_line_def escape_def u64_max_def)

end
