(* ===== verification/Client_Document.thy ===== *)
theory Client_Document
  imports Fleet_State Text_Sanitize
begin

text \<open>
  The document the client daemon publishes to its frontends: the records of
  \<open>crates/gregg/src/clientd/snapshot.rs\<close>, the projection of the fleet into it, the cleaning of remote
  text on the way into a frontend, and the comparisons that decide whether a redraw is due
  (\<open>crates/gregg/src/state.rs\<close>).

  An \<open>Instant\<close> is a number of nanoseconds since an epoch of the process, before which no instant can
  be formed; a \<open>Duration\<close> is a number of nanoseconds. Clock readings are arguments.

  The lemmas characterise the published times, the records a document carries, and what a cleaned
  document consists of.
\<close>

section \<open>The document\<close>

record SystemSnapshotDto =
  sd_id :: rstr
  sd_endpoint :: Endpoint
  sd_configured_name :: "rstr option"
  sd_reachability :: Reachability
  sd_latest :: "NormalizedSnapshot option"
  sd_last_success_at_unix_ms :: "nat option"
  sd_last_attempt_at_unix_ms :: "nat option"
  sd_latency_ms :: "nat option"
  sd_offline_reason :: "OfflineReason option"

record EggpoolSnapshotDto =
  ed_endpoint :: EggpoolEntry
  ed_period :: EggpoolPeriod
  ed_request_generation :: nat
  ed_worker_state :: EggpoolWorkerState
  ed_summary :: "EggpoolSummary option"
  ed_last_success_at_unix_ms :: "nat option"
  ed_last_attempt_at_unix_ms :: "nat option"
  ed_last_error :: "EggpoolFetchOutcome option"
  ed_health :: "EggpoolHealthSnapshot option"
  ed_last_health_success_at_unix_ms :: "nat option"
  ed_last_health_attempt_at_unix_ms :: "nat option"
  ed_last_health_error :: "EggpoolHealthFetchOutcome option"

record CronJobHistoryDto =
  hd_job :: rstr
  hd_records :: "CronRecord list"

record SystemCronDto =
  cd_system_id :: rstr
  cd_capability :: CronCapability
  cd_summary :: "SchedulerSummaryV2 option"
  cd_epoch :: "SchedulerEpochV2 option"
  cd_history_revision :: "nat option"
  cd_last_attempt_at_unix_ms :: "nat option"
  cd_last_success_at_unix_ms :: "nat option"
  cd_last_fetch_error :: "CronFetchError option"
  cd_history :: "CronJobHistoryDto list"

record FrontendSnapshot =
  fs_generation :: nat
  fs_produced_at_unix_ms :: nat
  fs_refresh_status :: RefreshStatus
  fs_poll_initialized :: bool
  fs_systems :: "SystemSnapshotDto list"
  fs_cron_display_history :: nat
  fs_cron :: "SystemCronDto list"
  fs_eggpool :: "EggpoolSnapshotDto option"
  fs_config_reload_error :: "rstr option"

text \<open>\<open>from_state\<close>: the records of the requested jobs, jobs without records left out.\<close>

definition history_dto :: "CronSystemState \<Rightarrow> (rstr \<times> nat) list \<Rightarrow> CronJobHistoryDto list" where
  "history_dto state requested =
     filter (\<lambda>entry. hd_records entry \<noteq> [])
       (map (\<lambda>(job, depth). \<lparr>hd_job = job, hd_records = recent state job depth\<rparr>) requested)"

definition cron_dto_from_state :: "rstr \<Rightarrow> CronSystemState \<Rightarrow> (rstr \<times> nat) list \<Rightarrow> SystemCronDto" where
  "cron_dto_from_state system_id state requested =
     \<lparr>cd_system_id = system_id, cd_capability = cs_capability state, cd_summary = cs_summary state,
      cd_epoch = cs_epoch state, cd_history_revision = cs_history_revision state,
      cd_last_attempt_at_unix_ms = cs_last_attempt_at_unix_ms state,
      cd_last_success_at_unix_ms = cs_last_success_at_unix_ms state,
      cd_last_fetch_error = cs_last_error state, cd_history = history_dto state requested\<rparr>"

definition dto_job_records :: "SystemCronDto \<Rightarrow> rstr \<Rightarrow> CronRecord list" where
  "dto_job_records c job =
     (case find (\<lambda>entry. hd_job entry = job) (cd_history c) of None \<Rightarrow> [] | Some entry \<Rightarrow> hd_records entry)"

definition cron_dto_unknown :: "rstr \<Rightarrow> SystemCronDto" where
  "cron_dto_unknown system_id =
     \<lparr>cd_system_id = system_id, cd_capability = Unknown, cd_summary = None, cd_epoch = None,
      cd_history_revision = None, cd_last_attempt_at_unix_ms = None, cd_last_success_at_unix_ms = None,
      cd_last_fetch_error = None, cd_history = []\<rparr>"

definition snapshot_empty :: "SystemSnapshotDto list \<Rightarrow> FrontendSnapshot" where
  "snapshot_empty systems =
     \<lparr>fs_generation = 0, fs_produced_at_unix_ms = 0, fs_refresh_status = RefreshIdle, fs_poll_initialized = False,
      fs_systems = systems, fs_cron_display_history = DEFAULT_DISPLAY_HISTORY,
      fs_cron = map (\<lambda>s. cron_dto_unknown (sd_id s)) systems, fs_eggpool = None, fs_config_reload_error = None\<rparr>"

definition snapshot_system :: "FrontendSnapshot \<Rightarrow> rstr \<Rightarrow> SystemSnapshotDto option" where
  "snapshot_system d sid = find (\<lambda>s. sd_id s = sid) (fs_systems d)"

definition snapshot_cron_for :: "FrontendSnapshot \<Rightarrow> rstr \<Rightarrow> SystemCronDto option" where
  "snapshot_cron_for d sid = find (\<lambda>c. cd_system_id c = sid) (fs_cron d)"

definition is_newer_than :: "FrontendSnapshot \<Rightarrow> nat \<Rightarrow> bool" where
  "is_newer_than d last_applied \<longleftrightarrow> last_applied = 0 \<or> fs_generation d > last_applied"

section \<open>Projection of the fleet\<close>

definition elapsed_to_unix_ms :: "nat option \<Rightarrow> nat \<Rightarrow> nat \<Rightarrow> nat option" where
  "elapsed_to_unix_ms value now now_unix_ms =
     (case value of
        None \<Rightarrow> None
      | Some value \<Rightarrow> let elapsed_ms = (now - value) div 10 ^ 6 in Some (sat_add64 (min elapsed_ms u64_max) now_unix_ms))"

definition instant_from_unix_ms :: "nat option \<Rightarrow> nat \<Rightarrow> nat \<Rightarrow> nat option" where
  "instant_from_unix_ms value now now_unix_ms =
     (case value of
        None \<Rightarrow> None
      | Some value \<Rightarrow>
          let age_ms = now_unix_ms - value; age = age_ms * 10 ^ 6 in
          Some (if age \<le> now then now - age else now))"

definition system_to_dto :: "nat \<Rightarrow> nat \<Rightarrow> SystemState \<Rightarrow> SystemSnapshotDto" where
  "system_to_dto now now_unix_ms system =
     \<lparr>sd_id = sy_id system, sd_endpoint = sy_endpoint system, sd_configured_name = sy_configured_name system,
      sd_reachability = sy_reachability system, sd_latest = sy_latest system,
      sd_last_success_at_unix_ms = elapsed_to_unix_ms (sy_last_success_at system) now now_unix_ms,
      sd_last_attempt_at_unix_ms = elapsed_to_unix_ms (sy_last_attempt_at system) now now_unix_ms,
      sd_latency_ms = map_option (\<lambda>latency. min (latency div 10 ^ 6) u64_max) (sy_latency system),
      sd_offline_reason = sy_offline_reason system\<rparr>"

definition eggpool_to_dto :: "nat \<Rightarrow> nat \<Rightarrow> EggpoolState \<Rightarrow> EggpoolSnapshotDto" where
  "eggpool_to_dto now now_unix_ms e =
     \<lparr>ed_endpoint = es_endpoint e, ed_period = es_period e, ed_request_generation = es_request_generation e,
      ed_worker_state = es_worker_state e, ed_summary = es_summary e,
      ed_last_success_at_unix_ms = elapsed_to_unix_ms (es_last_success_at e) now now_unix_ms,
      ed_last_attempt_at_unix_ms = elapsed_to_unix_ms (es_last_attempt_at e) now now_unix_ms,
      ed_last_error = es_last_error e, ed_health = es_health e,
      ed_last_health_success_at_unix_ms = elapsed_to_unix_ms (es_last_health_success_at e) now now_unix_ms,
      ed_last_health_attempt_at_unix_ms = elapsed_to_unix_ms (es_last_health_attempt_at e) now now_unix_ms,
      ed_last_health_error = es_last_health_error e\<rparr>"

text \<open>The closure over the systems; an absent cron state gives every field its default.\<close>

definition cron_to_dto :: "CronCache \<Rightarrow> CronIntents \<Rightarrow> rstr \<Rightarrow> SystemCronDto" where
  "cron_to_dto cron intents system_id =
     (let state = bt_get (ca_systems cron) system_id;
          field = (\<lambda>f. case state of None \<Rightarrow> None | Some s \<Rightarrow> f s)
      in \<lparr>cd_system_id = system_id,
          cd_capability = (case state of None \<Rightarrow> Unknown | Some s \<Rightarrow> cs_capability s),
          cd_summary = (case state of None \<Rightarrow> None | Some s \<Rightarrow> cs_summary s),
          cd_epoch = (case state of None \<Rightarrow> None | Some s \<Rightarrow> cs_epoch s),
          cd_history_revision = field cs_history_revision,
          cd_last_attempt_at_unix_ms = field cs_last_attempt_at_unix_ms,
          cd_last_success_at_unix_ms = field cs_last_success_at_unix_ms,
          cd_last_fetch_error = (case state of None \<Rightarrow> None | Some s \<Rightarrow> cs_last_error s),
          cd_history = (case state of None \<Rightarrow> []
            | Some s \<Rightarrow> filter (\<lambda>entry. hd_records entry \<noteq> [])
                (map (\<lambda>(job, depth). \<lparr>hd_job = job, hd_records = recent s job depth\<rparr>) (requests_for intents system_id)))\<rparr>)"

definition to_dto_for :: "nat \<Rightarrow> nat \<Rightarrow> nat \<Rightarrow> CronIntents \<Rightarrow> FleetState \<Rightarrow> FrontendSnapshot" where
  "to_dto_for now now_unix_ms generation intents f =
     \<lparr>fs_generation = generation, fs_produced_at_unix_ms = now_unix_ms, fs_refresh_status = fl_refresh_status f,
      fs_poll_initialized = (fl_last_applied_generation f \<noteq> 0),
      fs_systems = map (system_to_dto now now_unix_ms) (fl_systems f),
      fs_cron_display_history = fl_cron_display_history f,
      fs_cron = map (\<lambda>s. cron_to_dto (fl_cron f) intents (sy_id s)) (fl_systems f),
      fs_eggpool = map_option (eggpool_to_dto now now_unix_ms) (fl_eggpool f),
      fs_config_reload_error = fl_config_reload_error f\<rparr>"

definition cron_intents_default :: CronIntents where
  "cron_intents_default = \<lparr>cis_entries = [], cis_revision = 0\<rparr>"

definition to_dto :: "nat \<Rightarrow> nat \<Rightarrow> nat \<Rightarrow> FleetState \<Rightarrow> FrontendSnapshot" where
  "to_dto now now_unix_ms generation f = to_dto_for now now_unix_ms generation cron_intents_default f"

section \<open>Cleaning\<close>

definition clean :: "rstr \<Rightarrow> rstr" where
  "clean t = sz_text (sanitize t u64_max)"

definition clean_identity :: "SystemIdentity \<Rightarrow> SystemIdentity" where
  "clean_identity i =
     i\<lparr>si_name := clean (si_name i), si_hostname := clean (si_hostname i), si_os_name := clean (si_os_name i),
       si_os_version := clean (si_os_version i), si_kernel_name := clean (si_kernel_name i),
       si_kernel_release := clean (si_kernel_release i), si_architecture := clean (si_architecture i)\<rparr>"

definition clean_device :: "NormalizedDiskIoDevice \<Rightarrow> NormalizedDiskIoDevice" where
  "clean_device d =
     d\<lparr>ndd_id := clean (ndd_id d), ndd_name := clean (ndd_name d), ndd_drive_name := map_option clean (ndd_drive_name d)\<rparr>"

definition clean_interface :: "NormalizedNetworkInterface \<Rightarrow> NormalizedNetworkInterface" where
  "clean_interface i = i\<lparr>nni_id := clean (nni_id i), nni_name := clean (nni_name i)\<rparr>"

definition clean_snapshot :: "NormalizedSnapshot \<Rightarrow> NormalizedSnapshot" where
  "clean_snapshot s =
     s\<lparr>no_system := clean_identity (no_system s),
       no_drives := map_option (map (\<lambda>d. d\<lparr>nd_name := clean (nd_name d)\<rparr>)) (no_drives s),
       no_disk_io := map_option (\<lambda>io. io\<lparr>nio_devices := map clean_device (nio_devices io)\<rparr>) (no_disk_io s),
       no_network := map_option (\<lambda>n. n\<lparr>nn_interfaces := map clean_interface (nn_interfaces n)\<rparr>) (no_network s)\<rparr>"

definition clean_output :: "SchedulerOutputV2 \<Rightarrow> SchedulerOutputV2" where
  "clean_output o' = o'\<lparr>so_text := clean (so_text o')\<rparr>"

definition clean_record :: "CronRecord \<Rightarrow> CronRecord" where
  "clean_record r =
     r\<lparr>cr_record := (cr_record r)\<lparr>rr_stdout := clean_output (rr_stdout (cr_record r)),
       rr_stderr := clean_output (rr_stderr (cr_record r))\<rparr>\<rparr>"

definition clean_cron :: "SystemCronDto \<Rightarrow> SystemCronDto" where
  "clean_cron entry =
     entry\<lparr>cd_summary := map_option (\<lambda>m. m\<lparr>sm_jobs :=
             map (\<lambda>j. j\<lparr>jv_name := clean (jv_name j), jv_schedule := clean (jv_schedule j)\<rparr>) (sm_jobs m)\<rparr>) (cd_summary entry),
       cd_history := map (\<lambda>h. \<lparr>hd_job = clean (hd_job h), hd_records = map clean_record (hd_records h)\<rparr>) (cd_history entry)\<rparr>"

definition clean_eggpool_dto :: "EggpoolSnapshotDto \<Rightarrow> EggpoolSnapshotDto" where
  "clean_eggpool_dto e =
     e\<lparr>ed_endpoint := (ed_endpoint e)\<lparr>ee_host := clean (ee_host (ed_endpoint e)),
       ee_name := map_option clean (ee_name (ed_endpoint e))\<rparr>\<rparr>"

definition clean_system_dto :: "SystemSnapshotDto \<Rightarrow> SystemSnapshotDto" where
  "clean_system_dto s =
     s\<lparr>sd_endpoint := (sd_endpoint s)\<lparr>en_host := clean (en_host (sd_endpoint s)),
         en_name := map_option clean (en_name (sd_endpoint s))\<rparr>,
       sd_configured_name := map_option clean (sd_configured_name s),
       sd_latest := map_option clean_snapshot (sd_latest s)\<rparr>"

section \<open>Visible differences\<close>

definition opt_eq_by :: "('a \<Rightarrow> 'a \<Rightarrow> bool) \<Rightarrow> 'a option \<Rightarrow> 'a option \<Rightarrow> bool" where
  "opt_eq_by eq a b = (case (a, b) of (None, None) \<Rightarrow> True | (Some x, Some y) \<Rightarrow> eq x y | _ \<Rightarrow> False)"

definition summary_doc_eq :: "SchedulerSummaryV2 \<Rightarrow> SchedulerSummaryV2 \<Rightarrow> bool" where
  "summary_doc_eq a b \<longleftrightarrow>
     a\<lparr>sm_jobs := []\<rparr> = b\<lparr>sm_jobs := []\<rparr> \<and> jobs_eq (sm_jobs a) (sm_jobs b)"

definition cron_visibly_differ :: "SystemCronDto list \<Rightarrow> SystemCronDto list \<Rightarrow> bool" where
  "cron_visibly_differ before after =
     (if length before \<noteq> length after then True
      else list_ex (\<lambda>(a, b). cd_system_id a \<noteq> cd_system_id b \<or> cd_capability a \<noteq> cd_capability b \<or>
        \<not> opt_eq_by summary_doc_eq (cd_summary a) (cd_summary b) \<or> cd_epoch a \<noteq> cd_epoch b \<or>
        cd_history_revision a \<noteq> cd_history_revision b \<or> cd_last_fetch_error a \<noteq> cd_last_fetch_error b \<or>
        cd_history a \<noteq> cd_history b) (zip before after))"

definition systems_visibly_differ :: "SystemState list \<Rightarrow> SystemSnapshotDto list \<Rightarrow> bool" where
  "systems_visibly_differ old nw \<longleftrightarrow>
     length old \<noteq> length nw \<or>
     list_ex (\<lambda>(o', n). sy_id o' \<noteq> sd_id n \<or> sy_endpoint o' \<noteq> sd_endpoint n \<or>
       sy_configured_name o' \<noteq> sd_configured_name n \<or> sy_reachability o' \<noteq> sd_reachability n \<or>
       \<not> opt_eq_by normalized_eq (sy_latest o') (sd_latest n) \<or> sy_offline_reason o' \<noteq> sd_offline_reason n) (zip old nw)"

definition eggpool_visibly_differ :: "EggpoolState option \<Rightarrow> EggpoolSnapshotDto option \<Rightarrow> nat \<Rightarrow> nat \<Rightarrow> bool" where
  "eggpool_visibly_differ old nw now now_unix_ms =
     (case (old, nw) of
        (None, None) \<Rightarrow> False
      | (Some o', Some n) \<Rightarrow>
          let old_success = elapsed_to_unix_ms (es_last_success_at o') now now_unix_ms in
          es_endpoint o' \<noteq> ed_endpoint n \<or> es_period o' \<noteq> ed_period n \<or> es_worker_state o' \<noteq> ed_worker_state n \<or>
          \<not> opt_eq_by summary_eq (es_summary o') (ed_summary n) \<or> \<not> opt_eq_by health_eq (es_health o') (ed_health n) \<or>
          es_last_error o' \<noteq> ed_last_error n \<or> es_last_health_error o' \<noteq> ed_last_health_error n \<or>
          old_success \<noteq> ed_last_success_at_unix_ms n
      | _ \<Rightarrow> True)"


section \<open>What the document carries\<close>

lemma recent_take_last: "recent s job depth = take_last depth (job_records s job)"
  by (simp add: recent_def take_last_def Let_def)

definition requests_wf :: "(rstr, (rstr, nat) btree) btree \<Rightarrow> bool" where
  "requests_wf r \<longleftrightarrow> bt_wf r \<and> (\<forall>e \<in> set r. bt_wf (snd e))"

lemma request_turn_wf: "requests_wf r \<Longrightarrow> requests_wf (request_turn i r)"
  by (auto simp: requests_wf_def request_turn_def Let_def set_bt_insert bt_wf_insert [of "[]"] bt_wf_Nil dest!: bt_get_SomeD
      simp del: bt_insert.simps split: option.splits)

lemma cron_requests_wf: "requests_wf (cron_requests c)"
proof -
  have "requests_wf (fold (\<lambda>e. request_turn (snd e)) es r)" if "requests_wf r" for es r
    using that by (induction es arbitrary: r) (simp_all add: request_turn_wf)
  from this [of "[]"] show ?thesis by (simp add: cron_requests_def requests_wf_def)
qed

lemma requests_for_iff: "(job, d) \<in> set (requests_for c sid) \<longleftrightarrow> published_depth (cron_requests c) sid job = Some d"
proof (cases "bt_get (cron_requests c) sid")
  case None
  then show ?thesis by (simp add: requests_for_def published_depth_def bt_get_def)
next
  case (Some m)
  with cron_requests_wf [of c] have "bt_wf m" by (force simp: requests_wf_def dest: bt_get_SomeD)
  then show ?thesis using Some by (simp add: requests_for_def published_depth_def bt_get_iff)
qed

lemma cron_to_dto_known:
  "bt_get (ca_systems cron) sid = Some s \<Longrightarrow> cron_to_dto cron c sid = cron_dto_from_state sid s (requests_for c sid)"
  by (simp add: cron_to_dto_def cron_dto_from_state_def history_dto_def Let_def)

lemma cron_to_dto_unknown:
  "bt_get (ca_systems cron) sid = None \<Longrightarrow> cron_to_dto cron c sid = cron_dto_unknown sid"
  by (simp add: cron_to_dto_def cron_dto_unknown_def Let_def)

lemma history_dto_iff:
  "h \<in> set (history_dto s req) \<longleftrightarrow>
     (\<exists>d. (hd_job h, d) \<in> set req \<and> hd_records h = take_last d (job_records s (hd_job h)) \<and> hd_records h \<noteq> [])"
  by (cases h) (force simp: history_dto_def recent_take_last)

section \<open>Published times\<close>

lemma elapsed_to_unix_ms_Some:
  "elapsed_to_unix_ms (Some t) now w = Some (min (min ((now - t) div 10 ^ 6) u64_max + w) u64_max)"
  by (simp add: elapsed_to_unix_ms_def sat_add64_def)

text \<open>The age a frontend derives from a published time, in milliseconds.\<close>

lemma adopted_age:
  assumes "(now - t) div 10 ^ 6 + w \<le> u64_max"
  shows "instant_from_unix_ms (elapsed_to_unix_ms (Some t) now w) now' w' =
    Some (let age = (w' - ((now - t) div 10 ^ 6 + w)) * 10 ^ 6 in if age \<le> now' then now' - age else now')"
  using assms by (simp add: elapsed_to_unix_ms_Some instant_from_unix_ms_def Let_def)

section \<open>Properties\<close>

lemma requests_for_distinct: "distinct (map fst (requests_for c sid))"
proof (cases "bt_get (cron_requests c) sid")
  case (Some m)
  with cron_requests_wf [of c] have "bt_wf m" by (force simp: requests_wf_def dest: bt_get_SomeD)
  then show ?thesis using Some by (simp add: requests_for_def bt_wf_distinct)
qed (simp add: requests_for_def)

lemma history_dto_distinct: "distinct (map fst req) \<Longrightarrow> distinct (map hd_job (history_dto s req))"
proof (induction req)
  case (Cons e req)
  have "hd_job ` set (history_dto s req) \<subseteq> fst ` set req" by (force simp: history_dto_def)
  then have "fst e \<notin> hd_job ` set (history_dto s req)" using Cons.prems by auto
  with Cons show ?case by (auto simp: history_dto_def split_beta)
qed (simp add: history_dto_def)

text \<open>
  C28. The document carries one scheduler entry for every system, in the order of the systems. The entry of
  a system with a cached state has that state's capability, summary, epoch, revision and error, whatever is
  open. It has history exactly for the jobs some frontend has open, each once: the records published for a
  job are the newest ones retained, as many as the deepest request of any frontend, and a job with no
  records is left out. A system with no cached state has an empty entry.
\<close>

theorem document_history_requested:
  "map sd_id (fs_systems (to_dto_for now w g c f)) = map sy_id (fl_systems f) \<and>
   list_all2 (\<lambda>system entry.
     cd_system_id entry = sy_id system \<and> distinct (map hd_job (cd_history entry)) \<and>
     (case bt_get (ca_systems (fl_cron f)) (sy_id system) of
        None \<Rightarrow> entry = cron_dto_unknown (sy_id system)
      | Some s \<Rightarrow>
          cd_capability entry = cs_capability s \<and> cd_summary entry = cs_summary s \<and> cd_epoch entry = cs_epoch s \<and>
          cd_history_revision entry = cs_history_revision s \<and> cd_last_fetch_error entry = cs_last_error s \<and>
          (\<forall>h. h \<in> set (cd_history entry) \<longleftrightarrow>
             hd_records h \<noteq> [] \<and> asked_depths (cis_entries c) (sy_id system) (hd_job h) \<noteq> {} \<and>
             hd_records h = take_last (Max (asked_depths (cis_entries c) (sy_id system) (hd_job h))) (job_records s (hd_job h)))))
   (fl_systems f) (fs_cron (to_dto_for now w g c f))"
proof -
  have entry: "cd_system_id (cron_to_dto (fl_cron f) c sid) = sid \<and>
      distinct (map hd_job (cd_history (cron_to_dto (fl_cron f) c sid))) \<and>
      (case bt_get (ca_systems (fl_cron f)) sid of
        None \<Rightarrow> cron_to_dto (fl_cron f) c sid = cron_dto_unknown sid
      | Some s \<Rightarrow>
          cd_capability (cron_to_dto (fl_cron f) c sid) = cs_capability s \<and>
          cd_summary (cron_to_dto (fl_cron f) c sid) = cs_summary s \<and> cd_epoch (cron_to_dto (fl_cron f) c sid) = cs_epoch s \<and>
          cd_history_revision (cron_to_dto (fl_cron f) c sid) = cs_history_revision s \<and>
          cd_last_fetch_error (cron_to_dto (fl_cron f) c sid) = cs_last_error s \<and>
          (\<forall>h. h \<in> set (cd_history (cron_to_dto (fl_cron f) c sid)) \<longleftrightarrow>
             hd_records h \<noteq> [] \<and> asked_depths (cis_entries c) sid (hd_job h) \<noteq> {} \<and>
             hd_records h = take_last (Max (asked_depths (cis_entries c) sid (hd_job h))) (job_records s (hd_job h))))" for sid
  proof (cases "bt_get (ca_systems (fl_cron f)) sid")
    case None
    then show ?thesis by (simp add: cron_to_dto_unknown cron_dto_unknown_def)
  next
    case (Some s)
    have "published_depth (cron_requests c) sid job =
        (if asked_depths (cis_entries c) sid job = {} then None else Some (Max (asked_depths (cis_entries c) sid job)))" for job
      by (simp add: cron_requests_def published_depth_Max)
    then show ?thesis
      using Some history_dto_distinct [OF requests_for_distinct [of c sid], of s]
      by (auto simp: cron_to_dto_known cron_dto_from_state_def history_dto_iff requests_for_iff)
  qed
  have cron: "fs_cron (to_dto_for now w g c f) = map (\<lambda>s. cron_to_dto (fl_cron f) c (sy_id s)) (fl_systems f)"
    by (simp add: to_dto_for_def)
  have "map sd_id (fs_systems (to_dto_for now w g c f)) = map sy_id (fl_systems f)"
    by (simp add: to_dto_for_def system_to_dto_def comp_def)
  then show ?thesis
    unfolding cron list_all2_map2 by (intro conjI list.rel_refl_strong entry)
qed

text \<open>
  A published time is never before the document's own: the age of the event is added to the wall
  clock instead of being taken from it. A frontend that adopts the document at once therefore takes
  every event for one that happens now, and the older the event was, the longer it goes on doing so.
\<close>

theorem published_time_ahead:
  assumes "w \<le> u64_max" "(now - t) div 10 ^ 6 + w \<le> u64_max" "w' \<le> w + (now - t) div 10 ^ 6"
  shows "\<exists>v. elapsed_to_unix_ms (Some t) now w = Some v \<and> w \<le> v"
    and "instant_from_unix_ms (elapsed_to_unix_ms (Some t) now w) now' w' = Some now'"
  using assms adopted_age [of now t w now' w'] by (simp_all add: elapsed_to_unix_ms_Some add.commute)

end
