(* ===== verification/Local_Ipc.thy ===== *)
theory Local_Ipc
  imports Client_Document "HOL-Library.Sublist"
begin

text \<open>
  The local channel between a frontend and the client daemon: frames and requests
  (\<open>crates/gregg/src/clientd/protocol.rs\<close>), the buffers of a connection
  (\<open>crates/gregg/src/clientd/ipc.rs\<close>, \<open>Connection\<close>) and the frontend's reading loop
  (\<open>crates/gregg/src/clientd/frontend.rs\<close>, \<open>FrameStream\<close>). Sockets and pipes, their creation and the
  Windows wait machinery are not modelled: what a socket read or write did is an argument.

  \<open>serde_json\<close> is a parameter, a pair of an encoder and a decoder. A message text that comes from the
  standard library is replaced by the case it stands for.

  The lemmas show that frames survive any chunking of the stream, that whatever the peer accepts, the
  outbound bytes are whole frames in order, and which frames can be superseded.
\<close>

section \<open>Frames and requests\<close>

definition PROTOCOL_VERSION :: nat where "PROTOCOL_VERSION = 1"

definition MAX_FRAME_BYTES :: nat where "MAX_FRAME_BYTES = 8 * 1024 * 1024"

definition LEN_PREFIX_BYTES :: nat where "LEN_PREFIX_BYTES = 9"

definition MAX_BUFFERED_BYTES :: nat where "MAX_BUFFERED_BYTES = MAX_FRAME_BYTES + 64 * 1024"

record HelloPayload =
  hp_protocol_version :: nat
  hp_version :: rstr
  hp_daemon_id :: rstr
  hp_current_generation :: nat

record VersionMismatchPayload =
  vm_frontend :: nat
  vm_daemon :: nat
  vm_daemon_id :: rstr

datatype FrontendFrame =
    FF_Snapshot FrontendSnapshot
  | FF_Hello HelloPayload
  | FF_VersionMismatch VersionMismatchPayload
  | FF_ProtocolError rstr
  | FF_ControlAck (ack_generation: nat) (ack_accepted: bool) (ack_detail: "rstr option")
  | FF_ShuttingDown

datatype DaemonRequest =
    DR_Handshake (hs_protocol_version: nat) (hs_version: rstr) (hs_daemon_id: rstr)
  | DR_ReloadConfig nat
  | DR_Shutdown nat
  | DR_SetEggpoolIntent bool EggpoolPeriod bool nat
  | DR_SetCronIntent "rstr option" "rstr option" nat nat

definition request_generation :: "DaemonRequest \<Rightarrow> nat option" where
  "request_generation r =
     (case r of
        DR_ReloadConfig g \<Rightarrow> Some g
      | DR_Shutdown g \<Rightarrow> Some g
      | DR_SetEggpoolIntent _ _ _ g \<Rightarrow> Some g
      | DR_SetCronIntent _ _ _ g \<Rightarrow> Some g
      | DR_Handshake _ _ _ \<Rightarrow> None)"

text \<open>\<open>serde_json\<close> on one type of values.\<close>

record 'f codec =
  jc_encode :: "'f \<Rightarrow> (byte list, rstr) result"
  jc_decode :: "byte list \<Rightarrow> ('f, rstr) result"

datatype EncodeError = EncodeSerialize rstr | EncodeTooLarge nat nat

text \<open>\<open>format!("{:08x}\n", n)\<close> as bytes.\<close>

definition length_prefix :: "nat \<Rightarrow> byte list" where
  "length_prefix n = (let ds = fmt_radix 16 n in map of_nat (replicate (8 - length ds) 48 @ ds @ [10]))"

definition encode_frame :: "'f codec \<Rightarrow> 'f \<Rightarrow> (byte list, EncodeError) result" where
  "encode_frame js v =
     (case jc_encode js v of
        Err e \<Rightarrow> Err (EncodeSerialize e)
      | Ok body \<Rightarrow>
          if length body > MAX_FRAME_BYTES then Err (EncodeTooLarge (length body) MAX_FRAME_BYTES)
          else Ok (length_prefix (length body) @ body))"

datatype length_problem = WrongByteCount nat | PrefixNotText | NoNewline | NotHexadecimal

datatype DecodeError =
    DE_Closed
  | DE_Io rstr
  | DE_MalformedLength length_problem
  | DE_TooLarge nat nat
  | DE_NotUtf8
  | DE_MalformedBody rstr

definition take_exact :: "byte list \<Rightarrow> nat \<Rightarrow> byte list option" where
  "take_exact buf len = (if length buf < len then None else Some (take len buf))"

text \<open>\<open>str::from_utf8\<close>: the bytes are the encoding of a text. \<open>usize::from_str_radix\<close> takes a plus sign.\<close>

definition str_from_utf8 :: "byte list \<Rightarrow> rstr option" where
  "str_from_utf8 bs = (let t = from_utf8_lossy bs in if utf8_encode t = map unat bs then Some t else None)"

definition usize_from_hex :: "rstr \<Rightarrow> nat option" where
  "usize_from_hex s =
     (let ds = (if s \<noteq> [] \<and> hd s = uc CHR ''+'' then tl s else s) in
      if ds = [] \<or> \<not> list_all (\<lambda>c. to_digit 16 c \<noteq> None) ds then None
      else let v = digits_value 16 0 (map (\<lambda>c. the (to_digit 16 c)) ds) in if v > u64_max then None else Some v)"

definition parse_length :: "byte list \<Rightarrow> (nat, DecodeError) result" where
  "parse_length pre =
     (if length pre \<noteq> LEN_PREFIX_BYTES then Err (DE_MalformedLength (WrongByteCount (length pre)))
      else case str_from_utf8 pre of
             None \<Rightarrow> Err (DE_MalformedLength PrefixNotText)
           | Some text \<Rightarrow>
               (case strip_suffix [10] text of
                  None \<Rightarrow> Err (DE_MalformedLength NoNewline)
                | Some trimmed \<Rightarrow>
                    (case usize_from_hex trimmed of
                       None \<Rightarrow> Err (DE_MalformedLength NotHexadecimal)
                     | Some len \<Rightarrow> if len > MAX_FRAME_BYTES then Err (DE_TooLarge len MAX_FRAME_BYTES) else Ok len)))"

datatype FrameDisposition = Continue | ExitIncompatible | ExitDaemonStopped | ExitProtocolError

definition classify :: "FrontendFrame \<Rightarrow> FrameDisposition" where
  "classify frame =
     (case frame of
        FF_VersionMismatch _ \<Rightarrow> ExitIncompatible
      | FF_ShuttingDown \<Rightarrow> ExitDaemonStopped
      | FF_ProtocolError _ \<Rightarrow> ExitProtocolError
      | _ \<Rightarrow> Continue)"

section \<open>Connections\<close>

text \<open>An I/O error: the two kinds that later code tells apart, or any other with its text.\<close>

datatype io_error = IoNotFound | IoConnectionRefused | IoOther rstr

datatype TransportError =
    TE_Disconnected
  | TE_WouldBlock
  | TE_Decode DecodeError
  | TE_Io io_error
  | TE_Protocol rstr
  | TE_HandshakeExpected DaemonRequest
  | TE_VersionMismatch (te_daemon: nat) (te_frontend: nat)
  | TE_ConfigMismatch (te_actual: rstr) (te_expected: rstr)

definition from_decode :: "DecodeError \<Rightarrow> TransportError" where
  "from_decode e = (if e = DE_Closed then TE_Disconnected else TE_Decode e)"

record Connection =
  cn_buffer :: "byte list"
  cn_handshaken :: bool
  cn_claimed_daemon_id :: "rstr option"
  cn_inflight :: "byte list"
  cn_queued :: "byte list option"

definition connection_new :: Connection where
  "connection_new = \<lparr>cn_buffer = [], cn_handshaken = False, cn_claimed_daemon_id = None, cn_inflight = [], cn_queued = None\<rparr>"

definition verify_daemon_id :: "rstr \<Rightarrow> Connection \<Rightarrow> (unit, TransportError) result" where
  "verify_daemon_id expected c =
     (case cn_claimed_daemon_id c of
        None \<Rightarrow> Err (TE_Protocol (ustr ''no handshake identity was presented''))
      | Some claimed \<Rightarrow> if claimed = expected then Ok () else Err (TE_ConfigMismatch claimed expected))"

text \<open>The framing half that both readers share; the body is decoded after the frame is taken out.\<close>

definition take_frame :: "Connection \<Rightarrow> (byte list option, TransportError) result \<times> Connection" where
  "take_frame c =
     (if length (cn_buffer c) < LEN_PREFIX_BYTES then (Ok None, c)
      else case parse_length (take LEN_PREFIX_BYTES (cn_buffer c)) of
             Err e \<Rightarrow> (Err (from_decode e), c)
           | Ok len \<Rightarrow>
               let finish = LEN_PREFIX_BYTES + len in
               if length (cn_buffer c) < finish then (Ok None, c)
               else (Ok (Some (drop LEN_PREFIX_BYTES (take finish (cn_buffer c)))), c\<lparr>cn_buffer := drop finish (cn_buffer c)\<rparr>))"

definition try_read_frame :: "'f codec \<Rightarrow> Connection \<Rightarrow> ('f option, TransportError) result \<times> Connection" where
  "try_read_frame js c =
     (case take_frame c of
        (Err e, c) \<Rightarrow> (Err e, c)
      | (Ok None, c) \<Rightarrow> (Ok None, c)
      | (Ok (Some body), c) \<Rightarrow>
          (case jc_decode js body of Err e \<Rightarrow> (Err (TE_Protocol e), c) | Ok v \<Rightarrow> (Ok (Some v), c)))"

definition try_read_request :: "DaemonRequest codec \<Rightarrow> Connection \<Rightarrow> (DaemonRequest option, TransportError) result \<times> Connection" where
  "try_read_request js c =
     (case take_frame c of
        (Err e, c) \<Rightarrow> (Err e, c)
      | (Ok None, c) \<Rightarrow> (Ok None, c)
      | (Ok (Some body), c) \<Rightarrow>
          (case jc_decode js body of
             Err e \<Rightarrow> (Err (TE_Protocol e), c)
           | Ok request \<Rightarrow>
               if cn_handshaken c then (Ok (Some request), c)
               else (case request of
                       DR_Handshake protocol_version _ daemon_id \<Rightarrow>
                         if protocol_version = PROTOCOL_VERSION
                         then (Ok (Some request), c\<lparr>cn_claimed_daemon_id := Some daemon_id, cn_handshaken := True\<rparr>)
                         else (Err (TE_VersionMismatch PROTOCOL_VERSION protocol_version), c)
                     | other \<Rightarrow> (Err (TE_HandshakeExpected other), c))))"

definition push_bytes :: "byte list \<Rightarrow> Connection \<Rightarrow> (unit, TransportError) result \<times> Connection" where
  "push_bytes bytes c =
     (if length (cn_buffer c) + length bytes > MAX_BUFFERED_BYTES
      then (Err (TE_Protocol (ustr ''peer buffered too many bytes without draining'')), c)
      else (Ok (), c\<lparr>cn_buffer := cn_buffer c @ bytes\<rparr>))"

definition take_buffer :: "Connection \<Rightarrow> byte list \<times> Connection" where
  "take_buffer c = (cn_buffer c, c\<lparr>cn_buffer := []\<rparr>)"

text \<open>
  What the stream does with a write: it takes some bytes, and the flush after a drained frame works
  or fails; it takes none now; or it fails. The outcomes of the writes of one flush are a list, and
  past its end the peer takes nothing more.
\<close>

datatype write_outcome = Wrote nat | WroteFlushFailed nat io_error | WriteWouldBlock | WriteFailed io_error

definition next_inflight :: "Connection \<Rightarrow> Connection option" where
  "next_inflight c =
     (if cn_inflight c = [] then map_option (\<lambda>queued. c\<lparr>cn_inflight := queued, cn_queued := None\<rparr>) (cn_queued c) else Some c)"

fun flush_outbound :: "write_outcome list \<Rightarrow> Connection \<Rightarrow> (bool, TransportError) result \<times> Connection \<times> byte list" where
  "flush_outbound [] c = (case next_inflight c of None \<Rightarrow> (Ok True, c, []) | Some c \<Rightarrow> (Ok False, c, []))"
| "flush_outbound (out # outs) c =
     (case next_inflight c of
        None \<Rightarrow> (Ok True, c, [])
      | Some c \<Rightarrow>
          (case out of
             WriteWouldBlock \<Rightarrow> (Ok False, c, [])
           | WriteFailed e \<Rightarrow> (Err (TE_Io e), c, [])
           | Wrote n \<Rightarrow>
               if n = 0 then (Err (TE_Io (IoOther (ustr ''the peer accepted none of a non-empty frame''))), c, [])
               else (case flush_outbound outs (c\<lparr>cn_inflight := drop n (cn_inflight c)\<rparr>) of
                       (r, c', sent) \<Rightarrow> (r, c', take n (cn_inflight c) @ sent))
           | WroteFlushFailed n e \<Rightarrow>
               if n = 0 then (Err (TE_Io (IoOther (ustr ''the peer accepted none of a non-empty frame''))), c, [])
               else if length (cn_inflight c) \<le> n
               then (Err (TE_Io e), c\<lparr>cn_inflight := []\<rparr>, cn_inflight c)
               else (case flush_outbound outs (c\<lparr>cn_inflight := drop n (cn_inflight c)\<rparr>) of
                       (r, c', sent) \<Rightarrow> (r, c', take n (cn_inflight c) @ sent))))"

definition write_encoded :: "byte list \<Rightarrow> write_outcome list \<Rightarrow> Connection \<Rightarrow> (unit, TransportError) result \<times> Connection \<times> byte list" where
  "write_encoded encoded outs c =
     (let c = (if cn_inflight c = [] then c\<lparr>cn_inflight := encoded\<rparr> else c\<lparr>cn_queued := Some encoded\<rparr>) in
      case flush_outbound outs c of
        (Err e, c, sent) \<Rightarrow> (Err e, c, sent)
      | (Ok _, c, sent) \<Rightarrow> (Ok (), c, sent))"

definition encode_error_text :: "EncodeError \<Rightarrow> rstr" where
  "encode_error_text e =
     (case e of
        EncodeSerialize message \<Rightarrow> ustr ''could not encode frame: '' @ message
      | EncodeTooLarge len mx \<Rightarrow>
          ustr ''encoded frame of '' @ dec_nat len @ ustr '' bytes exceeds the '' @ dec_nat mx @ ustr ''-byte cap'')"

definition write_frame :: "'f codec \<Rightarrow> 'f \<Rightarrow> write_outcome list \<Rightarrow> Connection \<Rightarrow> (unit, TransportError) result \<times> Connection \<times> byte list" where
  "write_frame js v outs c =
     (case encode_frame js v of
        Err e \<Rightarrow> (Err (TE_Protocol (encode_error_text e)), c, [])
      | Ok encoded \<Rightarrow> write_encoded encoded outs c)"

text \<open>A read: bytes, end of file, nothing yet, or a failure.\<close>

datatype read_outcome = ReadBytes "byte list" | ReadWouldBlock | ReadFailed io_error

definition read_available :: "read_outcome \<Rightarrow> (byte list, TransportError) result" where
  "read_available r =
     (case r of
        ReadBytes bytes \<Rightarrow> if bytes = [] then Err TE_Disconnected else Ok bytes
      | ReadWouldBlock \<Rightarrow> Err TE_WouldBlock
      | ReadFailed e \<Rightarrow> Err (TE_Io e))"

section \<open>The frontend's loop\<close>

datatype FrontError =
    FE_Transport TransportError
  | FE_Decode DecodeError
  | FE_Malformed rstr
  | FE_Disconnected
  | FE_Timeout
  | FE_ChannelFull

definition is_disconnect :: "FrontError \<Rightarrow> bool" where
  "is_disconnect e \<longleftrightarrow> e = FE_Disconnected"

fun write_requests :: "DaemonRequest codec \<Rightarrow> (DaemonRequest \<times> write_outcome list) list \<Rightarrow> Connection \<Rightarrow>
    (unit, FrontError) result \<times> Connection \<times> byte list" where
  "write_requests js [] c = (Ok (), c, [])"
| "write_requests js ((request, outs) # rest) c =
     (case write_frame js request outs c of
        (Err e, c, sent) \<Rightarrow> (Err (FE_Transport e), c, sent)
      | (Ok _, c, sent) \<Rightarrow> (case write_requests js rest c of (r, c, rest_sent) \<Rightarrow> (r, c, sent @ rest_sent)))"

text \<open>One turn of the loop of \<open>next\<close>: the pending requests, a buffered frame, then a read.\<close>

definition stream_turn :: "DaemonRequest codec \<Rightarrow> FrontendFrame codec \<Rightarrow> (DaemonRequest \<times> write_outcome list) list \<Rightarrow> read_outcome \<Rightarrow>
    Connection \<Rightarrow> (FrontendFrame option, FrontError) result \<times> Connection \<times> byte list" where
  "stream_turn jr jf requests read c =
     (case write_requests jr requests c of
        (Err e, c, sent) \<Rightarrow> (Err e, c, sent)
      | (Ok _, c, sent) \<Rightarrow>
          (case try_read_frame jf c of
             (Err e, c) \<Rightarrow> (Err (FE_Transport e), c, sent)
           | (Ok (Some frame), c) \<Rightarrow> (Ok (Some frame), c, sent)
           | (Ok None, c) \<Rightarrow>
               (case read_available read of
                  Ok bytes \<Rightarrow>
                    (case push_bytes bytes c of
                       (Err e, c) \<Rightarrow> (Err (FE_Transport e), c, sent)
                     | (Ok _, c) \<Rightarrow> (Ok None, c, sent))
                | Err TE_WouldBlock \<Rightarrow> (Ok None, c, sent)
                | Err TE_Disconnected \<Rightarrow> (Err FE_Disconnected, c, sent)
                | Err e \<Rightarrow> (Err (FE_Transport e), c, sent))))"


section \<open>Framing\<close>

lemma utf8_encode_ascii: "list_all (\<lambda>c. c < 0x80) s \<Longrightarrow> utf8_encode s = s"
  by (induction s) (simp_all add: utf8_encode_def utf8_char_def)

lemma str_from_utf8_ascii:
  assumes "list_all (\<lambda>c. c < 0x80) s"
  shows "str_from_utf8 (map of_nat s) = Some s"
proof -
  have "map unat (map (of_nat :: nat \<Rightarrow> byte) s) = s"
    using assms by (induction s) (simp_all add: unat_of_nat)
  moreover have "list_all scalar_value s" using assms by (auto simp: list_all_iff scalar_value_def)
  ultimately show ?thesis
    using utf8_lossy_encode [of s] by (simp add: str_from_utf8_def from_utf8_lossy_def utf8_encode_ascii [OF assms])
qed

lemma digits_value_zeros: "digits_value 16 0 (replicate k 0 @ ds) = digits_value 16 0 ds"
proof -
  have "foldl (\<lambda>a d. a * 16 + d) 0 (replicate k 0) = (0 :: nat)" by (induction k) simp_all
  then show ?thesis by (simp add: digits_value_def)
qed

lemma length_prefix_parses:
  assumes "n \<le> MAX_FRAME_BYTES"
  shows "length (length_prefix n) = LEN_PREFIX_BYTES" "parse_length (length_prefix n) = Ok n"
proof -
  define ds where "ds = radix_digits 16 n"
  have len: "length ds \<le> 8"
    using radix_digits_length [of 16 n 7] assms by (simp add: ds_def MAX_FRAME_BYTES_def)
  have lt: "\<forall>d \<in> set ds. d < 16" and val: "digits_value 16 0 ds = n"
    using radix_digits_lt [of 16 n] radix_digits_value [of 16 n] by (simp_all add: ds_def)
  define es where "es = replicate (8 - length ds) 0 @ ds"
  have es: "replicate (8 - length ds) 48 @ map digit_char ds = map digit_char es"
    by (simp add: es_def digit_char_def map_replicate)
  have es_lt: "\<forall>d \<in> set es. d < 16" using lt by (auto simp: es_def)
  have es_ne: "es \<noteq> []" using len by (cases "length ds") (auto simp: es_def)
  have p: "length_prefix n = map of_nat (map digit_char es @ [10])"
    by (simp add: length_prefix_def Let_def fmt_radix_digits ds_def [symmetric] es [symmetric])
  show l: "length (length_prefix n) = LEN_PREFIX_BYTES"
    using len by (simp add: p es_def LEN_PREFIX_BYTES_def)
  have ascii: "list_all (\<lambda>c. c < 0x80) (map digit_char es @ [10])"
    using es_lt by (auto simp: list_all_iff digit_char_def)
  have digits: "map (\<lambda>c. the (to_digit 16 c)) (map digit_char es) = es"
    using es_lt by (simp add: map_idI)
  have "hd (map digit_char es) \<noteq> uc CHR ''+''" using es_ne by (cases es) (auto simp: digit_char_def)
  moreover have "list_all (\<lambda>c. to_digit 16 c \<noteq> None) (map digit_char es)" using es_lt by (auto simp: list_all_iff)
  moreover have "digits_value 16 0 es = n" using val by (simp add: es_def digits_value_zeros)
  ultimately have "usize_from_hex (map digit_char es) = Some n"
    using es_ne assms unfolding usize_from_hex_def digits Let_def by (simp add: digits [simplified] MAX_FRAME_BYTES_def u64_max_def)
  then show "parse_length (length_prefix n) = Ok n"
    using l assms unfolding parse_length_def p str_from_utf8_ascii [OF ascii]
    by (simp add: strip_suffix_def strip_prefix_def)
qed

text \<open>The bytes of a frame with a given body.\<close>

definition frame_bytes :: "byte list \<Rightarrow> byte list" where
  "frame_bytes body = length_prefix (length body) @ body"

lemma encode_frame_Ok: "encode_frame js v = Ok e \<longleftrightarrow> (\<exists>b. jc_encode js v = Ok b \<and> length b \<le> MAX_FRAME_BYTES \<and> e = frame_bytes b)"
  by (auto simp: encode_frame_def frame_bytes_def not_less split: result.splits)

lemma take_frame_complete:
  assumes "length body \<le> MAX_FRAME_BYTES" "cn_buffer c = frame_bytes body @ rest"
  shows "take_frame c = (Ok (Some body), c\<lparr>cn_buffer := rest\<rparr>)"
  using assms length_prefix_parses [OF assms(1)] by (simp add: take_frame_def frame_bytes_def Let_def)

lemma take_frame_partial:
  assumes "length body \<le> MAX_FRAME_BYTES" "frame_bytes body = cn_buffer c @ missing" "missing \<noteq> []"
  shows "take_frame c = (Ok None, c)"
proof (cases "length (cn_buffer c) < LEN_PREFIX_BYTES")
  case False
  note prefix = length_prefix_parses [OF assms(1)]
  have "take LEN_PREFIX_BYTES (frame_bytes body) = length_prefix (length body)"
    using prefix(1) by (simp add: frame_bytes_def)
  with assms(2) False have "take LEN_PREFIX_BYTES (cn_buffer c) = length_prefix (length body)" by simp
  moreover have "length (cn_buffer c) < LEN_PREFIX_BYTES + length body"
    using arg_cong [OF assms(2), of length] assms(3) prefix(1) by (simp add: frame_bytes_def)
  ultimately show ?thesis using False prefix(2) by (simp add: take_frame_def Let_def)
qed (simp add: take_frame_def)

section \<open>A reader of the stream\<close>

lemma take_frame_shorter:
  assumes "take_frame c = (Ok (Some body), c')"
  shows "length (cn_buffer c') < length (cn_buffer c)"
  using assms by (auto simp: take_frame_def Let_def LEN_PREFIX_BYTES_def split: if_splits result.splits)

text \<open>The frames a reader takes out until it needs missing bytes or fails.\<close>

function drain_frames :: "'f codec \<Rightarrow> Connection \<Rightarrow> 'f list \<times> TransportError option \<times> Connection" where
  "drain_frames js c =
     (case try_read_frame js c of
        (Err e, c') \<Rightarrow> ([], Some e, c')
      | (Ok None, c') \<Rightarrow> ([], None, c')
      | (Ok (Some v), c') \<Rightarrow> (case drain_frames js c' of (vs, e, c'') \<Rightarrow> (v # vs, e, c'')))"
  by pat_completeness auto
termination
  by (relation "measure (\<lambda>(js, c). length (cn_buffer c))")
    (auto simp: try_read_frame_def dest: take_frame_shorter split: result.splits option.splits prod.splits)

declare drain_frames.simps [simp del]

fun receive_chunks :: "'f codec \<Rightarrow> byte list list \<Rightarrow> Connection \<Rightarrow> 'f list \<times> TransportError option \<times> Connection" where
  "receive_chunks js [] c = ([], None, c)"
| "receive_chunks js (chunk # chunks) c =
     (case push_bytes chunk c of
        (Err e, c) \<Rightarrow> ([], Some e, c)
      | (Ok _, c) \<Rightarrow>
          (case drain_frames js c of
             (vs, Some e, c) \<Rightarrow> (vs, Some e, c)
           | (vs, None, c) \<Rightarrow> (case receive_chunks js chunks c of (ws, e, c) \<Rightarrow> (vs @ ws, e, c))))"

text \<open>A body the reader can decode to a value.\<close>

definition body_of :: "'f codec \<Rightarrow> 'f \<Rightarrow> byte list \<Rightarrow> bool" where
  "body_of js v body \<longleftrightarrow> length body \<le> MAX_FRAME_BYTES \<and> jc_decode js body = Ok v"

definition cut_short :: "byte list \<Rightarrow> byte list list \<Rightarrow> bool" where
  "cut_short p bodies \<longleftrightarrow>
     (case bodies of [] \<Rightarrow> p = []
      | body # _ \<Rightarrow> length body \<le> MAX_FRAME_BYTES \<and> (\<exists>missing. missing \<noteq> [] \<and> frame_bytes body = p @ missing))"

lemma cut_short_waits:
  assumes "cut_short (cn_buffer c) bodies"
  shows "drain_frames js c = ([], None, c)" "length (cn_buffer c) < LEN_PREFIX_BYTES + MAX_FRAME_BYTES"
proof -
  have "take_frame c = (Ok None, c) \<and> length (cn_buffer c) < LEN_PREFIX_BYTES + MAX_FRAME_BYTES"
  proof (cases bodies)
    case Nil
    then show ?thesis using assms by (simp add: cut_short_def take_frame_def LEN_PREFIX_BYTES_def)
  next
    case (Cons body bodies')
    then obtain missing where m: "length body \<le> MAX_FRAME_BYTES" "missing \<noteq> []" "frame_bytes body = cn_buffer c @ missing"
      using assms by (auto simp: cut_short_def)
    have "length (cn_buffer c) < LEN_PREFIX_BYTES + MAX_FRAME_BYTES"
      using arg_cong [OF m(3), of length] m(1,2) length_prefix_parses(1) [OF m(1)] by (cases missing) (simp_all add: frame_bytes_def)
    then show ?thesis using take_frame_partial [OF m(1,3,2)] by simp
  qed
  then show "drain_frames js c = ([], None, c)" "length (cn_buffer c) < LEN_PREFIX_BYTES + MAX_FRAME_BYTES"
    by (simp_all add: drain_frames.simps [of js c] try_read_frame_def)
qed

lemma drain_frames_complete:
  assumes "list_all2 (body_of js) vs bodies" "cn_buffer c = concat (map frame_bytes bodies) @ p" "cut_short p rest"
  shows "drain_frames js c = (vs, None, c\<lparr>cn_buffer := p\<rparr>)"
  using assms
proof (induction vs bodies arbitrary: c rule: list_all2_induct)
  case Nil
  then show ?case using cut_short_waits(1) [of c rest js] by simp
next
  case (Cons v vs body bodies)
  let ?c = "c\<lparr>cn_buffer := concat (map frame_bytes bodies) @ p\<rparr>"
  have "try_read_frame js c = (Ok (Some v), ?c)"
    using take_frame_complete [of body c "concat (map frame_bytes bodies) @ p"] Cons.hyps(1) Cons.prems(1)
    by (simp add: try_read_frame_def body_of_def)
  with Cons.IH [of ?c] Cons.prems(2) show ?case by (simp add: drain_frames.simps [of js c])
qed

lemma split_stream:
  assumes "xs @ ys = concat (map frame_bytes bodies)" "list_all (\<lambda>b. length b \<le> MAX_FRAME_BYTES) bodies"
  shows "\<exists>taken rest p. bodies = taken @ rest \<and> xs = concat (map frame_bytes taken) @ p \<and> p @ ys = concat (map frame_bytes rest) \<and>
    cut_short p rest"
  using assms
proof (induction bodies arbitrary: xs)
  case Nil
  then show ?case by (simp add: cut_short_def)
next
  case (Cons body bodies)
  show ?case
  proof (cases "length (frame_bytes body) \<le> length xs")
    case True
    then obtain zs where zs: "xs = frame_bytes body @ zs"
      using Cons.prems(1) by (metis append_eq_append_conv_if append_take_drop_id concat.simps(2) list.simps(9))
    then obtain taken rest p where "bodies = taken @ rest" "zs = concat (map frame_bytes taken) @ p"
      "p @ ys = concat (map frame_bytes rest)" "cut_short p rest"
      using Cons.IH [of zs] Cons.prems by auto
    with zs show ?thesis by (intro exI [of _ "body # taken"] exI [of _ rest] exI [of _ p]) simp
  next
    case False
    then have "take (length xs) (frame_bytes body) = xs"
      using arg_cong [OF Cons.prems(1), of "take (length xs)"] by simp
    then have "frame_bytes body = xs @ drop (length xs) (frame_bytes body)" by (metis append_take_drop_id)
    moreover have "drop (length xs) (frame_bytes body) \<noteq> []" using False by simp
    ultimately obtain missing where "frame_bytes body = xs @ missing" "missing \<noteq> []" by (rule that)
    then show ?thesis
      using Cons.prems by (intro exI [of _ "[]"] exI [of _ "body # bodies"] exI [of _ xs]) (auto simp: cut_short_def)
  qed
qed

lemma receive_chunks_complete:
  assumes "list_all2 (body_of js) vs bodies" "cn_buffer c @ concat chunks = concat (map frame_bytes bodies)"
    "cut_short (cn_buffer c) bodies" "list_all (\<lambda>ch. length ch \<le> 32768) chunks"
  shows "receive_chunks js chunks c = (vs, None, c\<lparr>cn_buffer := []\<rparr>)"
  using assms
proof (induction chunks arbitrary: vs bodies c)
  case Nil
  have "bodies = []"
  proof (cases bodies)
    case (Cons b bs)
    then obtain missing where "frame_bytes b = cn_buffer c @ missing" "missing \<noteq> []" using Nil.prems(3) by (auto simp: cut_short_def)
    with Nil.prems(2) Cons show ?thesis by simp
  qed
  with Nil show ?case by simp
next
  case (Cons chunk chunks)
  let ?c = "c\<lparr>cn_buffer := cn_buffer c @ chunk\<rparr>"
  have push: "push_bytes chunk c = (Ok (), ?c)"
    using cut_short_waits(2) [OF Cons.prems(3)] Cons.prems(4)
    by (simp add: push_bytes_def MAX_BUFFERED_BYTES_def LEN_PREFIX_BYTES_def)
  have "list_all (\<lambda>b. length b \<le> MAX_FRAME_BYTES) bodies"
    using Cons.prems(1) by (auto simp: list_all2_conv_all_nth list_all_length body_of_def)
  then obtain taken rest p where s: "bodies = taken @ rest" "cn_buffer c @ chunk = concat (map frame_bytes taken) @ p"
    "p @ concat chunks = concat (map frame_bytes rest)" "cut_short p rest"
    using split_stream [of "cn_buffer c @ chunk" "concat chunks" bodies] Cons.prems(2) by auto
  obtain us ws where v: "vs = us @ ws" "list_all2 (body_of js) us taken" "list_all2 (body_of js) ws rest"
    using Cons.prems(1) s(1) by (auto simp: list_all2_append2)
  have "drain_frames js ?c = (us, None, ?c\<lparr>cn_buffer := p\<rparr>)"
    using drain_frames_complete [OF v(2) _ s(4), of ?c] s(2) by simp
  moreover have "receive_chunks js chunks (?c\<lparr>cn_buffer := p\<rparr>) = (ws, None, c\<lparr>cn_buffer := []\<rparr>)"
    using Cons.IH [OF v(3), of "?c\<lparr>cn_buffer := p\<rparr>"] s(3,4) Cons.prems(4) by simp
  ultimately show ?case using push v(1) by simp
qed

section \<open>Outbound bytes\<close>

definition opt_list :: "'a option \<Rightarrow> 'a list" where
  "opt_list x = (case x of None \<Rightarrow> [] | Some y \<Rightarrow> [y])"

lemma opt_list_simps [simp]: "opt_list None = []" "opt_list (Some y) = [y]"
  by (simp_all add: opt_list_def)

lemma next_inflight_cases:
  "next_inflight c = None \<longleftrightarrow> cn_inflight c = [] \<and> cn_queued c = None"
  "next_inflight c = Some c' \<longleftrightarrow>
     cn_inflight c \<noteq> [] \<and> c' = c \<or> cn_inflight c = [] \<and> (\<exists>q. cn_queued c = Some q \<and> c' = c\<lparr>cn_inflight := q, cn_queued := None\<rparr>)"
  by (auto simp: next_inflight_def)

text \<open>What a flush does with the frame in flight and the queued one: bytes leave in order, and the queued frame moves as a whole.\<close>

definition flushed :: "Connection \<Rightarrow> Connection \<Rightarrow> byte list \<Rightarrow> bool" where
  "flushed c c' sent \<longleftrightarrow>
     cn_queued c' = cn_queued c \<and> cn_inflight c = sent @ cn_inflight c' \<or>
     (\<exists>q. cn_queued c = Some q \<and> cn_queued c' = None \<and> cn_inflight c @ q = sent @ cn_inflight c')"

lemma flushed_after:
  assumes "next_inflight c = Some d" "flushed (d\<lparr>cn_inflight := drop n (cn_inflight d)\<rparr>) c' sent"
  shows "flushed c c' (take n (cn_inflight d) @ sent)"
proof -
  have split: "xs = take n (cn_inflight d) @ ys \<longleftrightarrow> xs = cn_inflight d \<and> ys = drop n (cn_inflight d)"
    if "ys = drop n (cn_inflight d)" for xs ys
    using that by auto
  show ?thesis
    using assms unfolding next_inflight_cases(2) flushed_def
    by (elim disjE exE conjE) (auto, (metis append.assoc append_take_drop_id)+)
qed

lemma flushed_refl: "next_inflight c = Some d \<Longrightarrow> flushed c d []"
  by (auto simp: next_inflight_cases flushed_def)

lemma flush_outbound_step:
  assumes "flush_outbound (out # outs) c = (r, c', sent)" "next_inflight c = Some d"
  shows "r = Ok False \<and> c' = d \<and> sent = [] \<or> (\<exists>e. r = Err e \<and> (c' = d \<and> sent = [] \<or> c' = d\<lparr>cn_inflight := []\<rparr> \<and> sent = cn_inflight d)) \<or>
    (\<exists>n sent'. flush_outbound outs (d\<lparr>cn_inflight := drop n (cn_inflight d)\<rparr>) = (r, c', sent') \<and> sent = take n (cn_inflight d) @ sent')"
  using assms by (cases out) (auto split: if_splits prod.splits)

lemma flush_outbound_flushed: "flush_outbound outs c = (r, c', sent) \<Longrightarrow> flushed c c' sent"
proof (induction outs arbitrary: c r c' sent)
  case Nil
  show ?case
  proof (cases "next_inflight c")
    case None
    then show ?thesis using Nil by (simp add: flushed_def)
  next
    case (Some d)
    then show ?thesis using Nil flushed_refl [OF Some] by simp
  qed
next
  case (Cons out outs)
  show ?case
  proof (cases "next_inflight c")
    case None
    then show ?thesis using Cons.prems by (simp add: flushed_def)
  next
    case (Some d)
    have drained: "flushed c (d\<lparr>cn_inflight := []\<rparr>) (cn_inflight d)"
      using flushed_after [OF Some, of "length (cn_inflight d)" "d\<lparr>cn_inflight := []\<rparr>" "[]"] by (simp add: flushed_def)
    show ?thesis
      using flush_outbound_step [OF Cons.prems Some] drained flushed_refl [OF Some] flushed_after [OF Some] Cons.IH by blast
  qed
qed

text \<open>A writer: frames handed to the connection, and the flushes of its ticks.\<close>

datatype 'f link_op = Send 'f "write_outcome list" | Flush "write_outcome list"

fun run_link :: "'f codec \<Rightarrow> 'f link_op list \<Rightarrow> Connection \<Rightarrow> TransportError option \<times> Connection \<times> byte list" where
  "run_link js [] c = (None, c, [])"
| "run_link js (Send v outs # ops) c =
     (case write_frame js v outs c of
        (Err e, c, sent) \<Rightarrow> (Some e, c, sent)
      | (Ok _, c, sent) \<Rightarrow> (case run_link js ops c of (e, c, rest_sent) \<Rightarrow> (e, c, sent @ rest_sent)))"
| "run_link js (Flush outs # ops) c =
     (case flush_outbound outs c of
        (Err e, c, sent) \<Rightarrow> (Some e, c, sent)
      | (Ok _, c, sent) \<Rightarrow> (case run_link js ops c of (e, c, rest_sent) \<Rightarrow> (e, c, sent @ rest_sent)))"

fun sent_values :: "'f link_op list \<Rightarrow> 'f list" where
  "sent_values [] = []"
| "sent_values (Send v outs # ops) = v # sent_values ops"
| "sent_values (Flush outs # ops) = sent_values ops"

text \<open>
  The frames put on the stream so far, as a list \<open>ws\<close>: whole frames, those handed over in order with
  some left out, and the newest one is among them or queued.
\<close>

definition link_inv :: "byte list list \<Rightarrow> byte list \<Rightarrow> Connection \<Rightarrow> bool" where
  "link_inv fs sent c \<longleftrightarrow>
     (\<exists>ws. sent @ cn_inflight c = concat ws \<and> subseq (ws @ opt_list (cn_queued c)) fs \<and>
       (fs \<noteq> [] \<longrightarrow> ws @ opt_list (cn_queued c) \<noteq> [] \<and> last (ws @ opt_list (cn_queued c)) = last fs))"

definition link_ready :: "Connection \<Rightarrow> bool" where
  "link_ready c \<longleftrightarrow> (cn_inflight c = [] \<longrightarrow> cn_queued c = None) \<and> cn_queued c \<noteq> Some []"

lemma next_inflight_ready: "next_inflight c = Some d \<Longrightarrow> cn_queued c \<noteq> Some [] \<Longrightarrow> link_ready d \<and> cn_queued d \<noteq> Some []"
  by (auto simp: next_inflight_cases link_ready_def)

lemma flush_outbound_ready:
  "flush_outbound outs c = (Ok b, c', sent) \<Longrightarrow> cn_queued c \<noteq> Some [] \<Longrightarrow> link_ready c'"
proof (induction outs arbitrary: c b c' sent)
  case Nil
  then show ?case
    by (cases "next_inflight c") (auto simp: next_inflight_ready, simp add: link_ready_def next_inflight_cases)
next
  case (Cons out outs)
  show ?case
  proof (cases "next_inflight c")
    case None
    then have "c' = c" using Cons.prems(1) by simp
    with None show ?thesis by (simp add: link_ready_def next_inflight_cases)
  next
    case (Some d)
    then show ?thesis
      using flush_outbound_step [OF Cons.prems(1) Some] next_inflight_ready [OF Some Cons.prems(2)] Cons.IH by fastforce
  qed
qed

lemma link_inv_flush:
  assumes "link_inv fs sent c" "flushed c c' bytes"
  shows "link_inv fs (sent @ bytes) c'"
proof -
  obtain ws where ws: "sent @ cn_inflight c = concat ws" "subseq (ws @ opt_list (cn_queued c)) fs"
    "fs \<noteq> [] \<longrightarrow> ws @ opt_list (cn_queued c) \<noteq> [] \<and> last (ws @ opt_list (cn_queued c)) = last fs"
    using assms(1) by (auto simp: link_inv_def)
  from assms(2) show ?thesis unfolding flushed_def
  proof (elim disjE exE conjE)
    assume "cn_queued c' = cn_queued c" "cn_inflight c = bytes @ cn_inflight c'"
    with ws show ?thesis unfolding link_inv_def by (intro exI [of _ ws]) simp
  next
    fix q assume "cn_queued c = Some q" "cn_queued c' = None" "cn_inflight c @ q = bytes @ cn_inflight c'"
    moreover have "sent @ cn_inflight c @ q = concat (ws @ [q])" using ws(1) by simp
    ultimately show ?thesis using ws(2,3) unfolding link_inv_def by (intro exI [of _ "ws @ [q]"]) simp
  qed
qed

lemma link_inv_hand_over:
  assumes "link_inv fs sent c" "link_ready c"
  shows "link_inv (fs @ [f]) sent (if cn_inflight c = [] then c\<lparr>cn_inflight := f\<rparr> else c\<lparr>cn_queued := Some f\<rparr>)"
proof -
  obtain ws where ws: "sent @ cn_inflight c = concat ws" "subseq (ws @ opt_list (cn_queued c)) fs"
    using assms(1) by (auto simp: link_inv_def)
  have "subseq ws fs" using ws(2) by (metis subseq_order.trans subseq_rev_drop_many subseq_order.order_refl)
  then have "subseq (ws @ [f]) (fs @ [f])" by simp
  then show ?thesis
    using ws(1) assms(2) unfolding link_inv_def link_ready_def
    by (cases "cn_inflight c = []") (auto intro: exI [of _ "ws @ [f]"] exI [of _ ws])
qed

lemma write_encoded_link:
  assumes "link_inv fs sent c" "link_ready c" "f \<noteq> []" "write_encoded f outs c = (Ok (), c', bytes)"
  shows "link_inv (fs @ [f]) (sent @ bytes) c' \<and> link_ready c'"
proof -
  let ?d = "if cn_inflight c = [] then c\<lparr>cn_inflight := f\<rparr> else c\<lparr>cn_queued := Some f\<rparr>"
  obtain b where b: "flush_outbound outs ?d = (Ok b, c', bytes)"
    using assms(4) by (auto simp: write_encoded_def Let_def split: prod.splits result.splits)
  have "cn_queued ?d \<noteq> Some []" using assms(2,3) by (auto simp: link_ready_def)
  from flush_outbound_ready [OF b this] link_inv_flush [OF link_inv_hand_over [OF assms(1,2)] flush_outbound_flushed [OF b]]
  show ?thesis by simp
qed

lemma frame_bytes_nonempty: "length body \<le> MAX_FRAME_BYTES \<Longrightarrow> frame_bytes body \<noteq> []"
  using length_prefix_parses(1) [of "length body"] by (auto simp: frame_bytes_def LEN_PREFIX_BYTES_def)

lemma write_frame_Ok:
  "write_frame js v outs c = (Ok u, c', bytes) \<Longrightarrow>
    \<exists>b. jc_encode js v = Ok b \<and> length b \<le> MAX_FRAME_BYTES \<and> write_encoded (frame_bytes b) outs c = (Ok (), c', bytes)"
  by (auto simp: write_frame_def encode_frame_Ok split: result.splits)

lemma run_link_inv:
  assumes "run_link js ops c = (None, c', bytes)" "link_inv fs sent c" "link_ready c"
  shows "\<exists>bodies. list_all2 (\<lambda>v b. jc_encode js v = Ok b \<and> length b \<le> MAX_FRAME_BYTES) (sent_values ops) bodies \<and>
    link_inv (fs @ map frame_bytes bodies) (sent @ bytes) c' \<and> link_ready c'"
  using assms
proof (induction js ops c arbitrary: c' bytes fs sent rule: run_link.induct)
  case (1 js c)
  then show ?case by simp
next
  case (2 js v outs ops c)
  obtain c1 b1 b2 where w: "write_frame js v outs c = (Ok (), c1, b1)" "run_link js ops c1 = (None, c', b2)" "bytes = b1 @ b2"
    using 2(2) by (auto split: prod.splits result.splits)
  obtain b where b: "jc_encode js v = Ok b" "length b \<le> MAX_FRAME_BYTES" "write_encoded (frame_bytes b) outs c = (Ok (), c1, b1)"
    using write_frame_Ok [OF w(1)] by blast
  have inv: "link_inv (fs @ [frame_bytes b]) (sent @ b1) c1" "link_ready c1"
    using write_encoded_link [OF 2(3,4) frame_bytes_nonempty [OF b(2)] b(3)] by simp_all
  obtain bodies where "list_all2 (\<lambda>v b. jc_encode js v = Ok b \<and> length b \<le> MAX_FRAME_BYTES) (sent_values ops) bodies"
    "link_inv ((fs @ [frame_bytes b]) @ map frame_bytes bodies) ((sent @ b1) @ b2) c'" "link_ready c'"
    using 2(1) [OF w(1) [symmetric] refl refl w(2) inv] by auto
  with b w(3) show ?case by (intro exI [of _ "b # bodies"]) simp
next
  case (3 js outs ops c)
  obtain c1 r b1 b2 where w: "flush_outbound outs c = (Ok r, c1, b1)" "run_link js ops c1 = (None, c', b2)" "bytes = b1 @ b2"
    using 3(2) by (auto split: prod.splits result.splits)
  have "cn_queued c \<noteq> Some []" using 3(4) by (simp add: link_ready_def)
  from 3(1) [OF w(1) [symmetric] refl refl w(2) link_inv_flush [OF 3(3) flush_outbound_flushed [OF w(1)]] flush_outbound_ready [OF w(1) this]]
  show ?case using w(3) by simp
qed

lemma frame_bytes_inject:
  assumes "length b \<le> MAX_FRAME_BYTES" "length b' \<le> MAX_FRAME_BYTES" "frame_bytes b = frame_bytes b'"
  shows "b = b'"
  using assms(3) length_prefix_parses(1) [OF assms(1)] length_prefix_parses(1) [OF assms(2)] by (simp add: frame_bytes_def)

lemma list_all2_last: "list_all2 P xs ys \<Longrightarrow> ys \<noteq> [] \<Longrightarrow> P (last xs) (last ys)"
  by (induction xs ys rule: list_all2_induct) auto

lemma subseq_of_frames:
  assumes "list_all2 P vs bodies" "subseq ws (map f bodies)"
  shows "\<exists>us bs. ws = map f bs \<and> list_all2 P us bs \<and> subseq us vs"
  using assms
proof (induction vs bodies arbitrary: ws rule: list_all2_induct)
  case Nil
  then show ?case by (intro exI [of _ "[]"]) simp
next
  case (Cons v vs b bodies)
  show ?case
  proof (cases "subseq ws (map f bodies)")
    case True
    then obtain us bs where "ws = map f bs" "list_all2 P us bs" "subseq us vs" using Cons.IH by blast
    then show ?thesis by (intro exI [of _ us] exI [of _ bs]) (auto intro: list_emb_Cons)
  next
    case False
    then obtain ws' where "ws = f b # ws'" "subseq ws' (map f bodies)"
      using Cons.prems by (cases ws) (auto split: if_splits)
    moreover from this Cons.IH obtain us bs where "ws' = map f bs" "list_all2 P us bs" "subseq us vs" by blast
    ultimately show ?thesis using Cons.hyps(1) by (intro exI [of _ "v # us"] exI [of _ "b # bs"]) simp
  qed
qed

section \<open>Properties\<close>

text \<open>
  C13. The channel never loses its framing and always gets to the newest frame: whatever the peer
  accepts of each write and however the stream is cut into reads, once the writer has drained its
  buffers the reader has decoded whole frames only, a subsequence of the values written in their order,
  and the last of them is the last value written.
\<close>

theorem link_delivers_newest:
  assumes "\<forall>v \<in> set (sent_values ops). \<forall>b. jc_encode js v = Ok b \<longrightarrow> jc_decode js b = Ok v"
    and "run_link js ops connection_new = (None, c, concat chunks)" "cn_inflight c = []" "cn_queued c = None"
    and "\<forall>chunk \<in> set chunks. length chunk \<le> 32768"
  shows "\<exists>us. receive_chunks js chunks connection_new = (us, None, connection_new) \<and> subseq us (sent_values ops) \<and>
    (sent_values ops \<noteq> [] \<longrightarrow> us \<noteq> [] \<and> last us = last (sent_values ops))"
proof -
  have "link_inv [] [] connection_new" "link_ready connection_new"
    by (auto simp: link_inv_def link_ready_def connection_new_def intro: exI [of _ "[]"])
  from run_link_inv [OF assms(2) this] obtain bodies where
    b: "list_all2 (\<lambda>v b. jc_encode js v = Ok b \<and> length b \<le> MAX_FRAME_BYTES) (sent_values ops) bodies"
    and inv: "link_inv (map frame_bytes bodies) (concat chunks) c" by auto
  then obtain ws where ws: "concat chunks = concat ws" "subseq ws (map frame_bytes bodies)"
    "bodies \<noteq> [] \<longrightarrow> ws \<noteq> [] \<and> last ws = last (map frame_bytes bodies)"
    using assms(3,4) by (auto simp: link_inv_def)
  have good: "list_all2 (body_of js) (sent_values ops) bodies"
    using b assms(1) by (auto simp: list_all2_conv_all_nth body_of_def)
  obtain us bs where us: "ws = map frame_bytes bs" "list_all2 (body_of js) us bs" "subseq us (sent_values ops)"
    using subseq_of_frames [OF good ws(2)] by blast
  have "list_all (\<lambda>b. length b \<le> MAX_FRAME_BYTES) bs"
    using us(2) by (auto simp: list_all2_conv_all_nth list_all_length body_of_def)
  then have "cut_short [] bs"
    using frame_bytes_nonempty by (auto simp: cut_short_def split: list.split)
  then have "receive_chunks js chunks connection_new = (us, None, connection_new)"
    using receive_chunks_complete [OF us(2), of connection_new chunks] ws(1) us(1) assms(5)
    by (simp add: connection_new_def list_all_iff)
  moreover have "us \<noteq> [] \<and> last us = last (sent_values ops)" if "sent_values ops \<noteq> []"
  proof -
    have ne: "bodies \<noteq> []" using good that by auto
    then have bs: "bs \<noteq> []" "frame_bytes (last bs) = frame_bytes (last bodies)"
      using ws(3) us(1) by (auto simp: last_map)
    have lasts: "body_of js (last us) (last bs)" "body_of js (last (sent_values ops)) (last bodies)"
      using list_all2_last [OF us(2)] list_all2_last [OF good] us(2) bs(1) ne by auto
    then have "last bs = last bodies" using frame_bytes_inject [OF _ _ bs(2)] by (simp add: body_of_def)
    with lasts bs(1) us(2) show ?thesis by (auto simp: body_of_def)
  qed
  ultimately show ?thesis using us(3) by blast
qed

definition example_codec :: "byte list codec" where
  "example_codec = \<lparr>jc_encode = Ok, jc_decode = Ok\<rparr>"

lemma example_prefix: "length_prefix (Suc 0) = [48, 48, 48, 48, 48, 48, 48, 49, 10]"
  by (simp add: length_prefix_def fmt_radix.simps digit_char_def eval_nat_numeral)

lemma example_frame: "frame_bytes [b] = [48, 48, 48, 48, 48, 48, 48, 49, 10, b]"
  by (simp add: frame_bytes_def example_prefix)

lemma example_encode: "encode_frame example_codec [b] = Ok [48, 48, 48, 48, 48, 48, 48, 49, 10, b]"
  by (simp add: encode_frame_def example_codec_def MAX_FRAME_BYTES_def example_prefix)

theorem link_delivers_newest_witness:
  "\<exists>us. receive_chunks example_codec [frame_bytes [7], frame_bytes [9]] connection_new = (us, None, connection_new) \<and>
     subseq us [[7], [8], [9]] \<and> us \<noteq> [] \<and> last us = [9]"
proof -
  let ?ops = "[Send [7] [Wrote 4, WriteWouldBlock], Send [8] [], Send [9] [], Flush [Wrote 6, Wrote 10]]"
  have "run_link example_codec ?ops connection_new = (None, connection_new, concat [frame_bytes [7], frame_bytes [9]])"
    by (simp add: connection_new_def write_frame_def example_encode write_encoded_def next_inflight_def example_frame)
  from link_delivers_newest [OF _ this] show ?thesis
    by (simp add: example_codec_def connection_new_def example_frame)
qed

text \<open>
  The one queued slot holds whatever was written last, so a document that waits behind a frame in flight
  is lost when an acknowledgement, or any other frame, is written after it: once the peer takes
  everything again it has got the frame in flight and the acknowledgement, and no document.
\<close>

theorem acknowledgement_drops_document:
  assumes "cn_inflight c \<noteq> []" "ack \<noteq> []"
  shows "\<exists>c1 c2 c3. write_encoded doc [] c = (Ok (), c1, []) \<and> write_encoded ack [] c1 = (Ok (), c2, []) \<and>
    flush_outbound [Wrote (length (cn_inflight c)), Wrote (length ack)] c2 = (Ok True, c3, cn_inflight c @ ack)"
  using assms by (simp add: write_encoded_def next_inflight_def Let_def)

text \<open>
  The frontend's loop pushes the rest of a request only when it writes another one: a turn without a
  new request sends nothing, whatever is still in flight.
\<close>

theorem stream_turn_never_flushes: "snd (snd (stream_turn jr jf [] read c)) = []"
proof -
  obtain t d where t: "try_read_frame jf c = (t, d)" by (cases "try_read_frame jf c")
  show ?thesis
  proof (cases t)
    case (Ok frame)
    show ?thesis
    proof (cases frame)
      case None
      show ?thesis
      proof (cases "read_available read")
        case (Ok bytes)
        obtain r e where "push_bytes bytes d = (r, e)" by (cases "push_bytes bytes d")
        with t \<open>t = Ok frame\<close> None Ok show ?thesis by (cases r) (simp_all add: stream_turn_def)
      next
        case (Err e)
        with t \<open>t = Ok frame\<close> None show ?thesis by (cases e) (simp_all add: stream_turn_def)
      qed
    qed (use t Ok in \<open>simp add: stream_turn_def\<close>)
  qed (use t in \<open>simp add: stream_turn_def\<close>)
qed

text \<open>A length prefix with a sign and seven digits is accepted, though eight digits are documented.\<close>

theorem signed_prefix_accepted: "parse_length (map of_nat (ustr ''+0000001'' @ [10])) = Ok 1"
proof -
  have "list_all (\<lambda>c. c < 0x80) (ustr ''+0000001'' @ [10])" by (simp add: ustr_def)
  then show ?thesis
    unfolding parse_length_def str_from_utf8_ascii [OF \<open>list_all _ _\<close>]
    by (simp add: LEN_PREFIX_BYTES_def ustr_def strip_suffix_def strip_prefix_def usize_from_hex_def to_digit_def digits_value_def
        u64_max_def MAX_FRAME_BYTES_def)
qed

end
