(* ===== verification/Client_Engine.thy ===== *)
theory Client_Engine
  imports Local_Ipc
begin

text \<open>
  The engine of the client daemon (\<open>crates/gregg/src/clientd/daemon.rs\<close>): the turns of its main loop,
  the reduction of the frontends' intents, the wiring of the EggPool worker, the requests of the
  frontends and the reload of the configuration, with the tasks around it as steps of their own: the
  poll scheduler taking a command, the EggPool worker, and connections coming and going.

  The configuration file, the clocks, \<open>serde_json\<close> and the choice of \<open>select!\<close> are arguments. Socket
  accept, process start and shutdown of the tasks are not modelled.

  The lemmas show that the published document is current, which results the fleet accepts, and which
  endpoints the two polling planes use.
\<close>

section \<open>State\<close>

definition ACK_CHANNEL_CAPACITY :: nat where "ACK_CHANNEL_CAPACITY = 8"

definition SCHEDULER_COMMAND_CAPACITY :: nat where "SCHEDULER_COMMAND_CAPACITY = 4"

record Document =
  do_generation :: nat
  do_encoded :: "byte list"

datatype Control = ControlContinue | ControlStop

datatype DaemonError =
    DaemonBind TransportError
  | DaemonConfig rstr
  | DaemonEncode rstr
  | SchedulerStopped
  | EggpoolWorkerStopped

definition is_fatal :: "DaemonError \<Rightarrow> bool" where
  "is_fatal e = (case e of DaemonConfig _ \<Rightarrow> False | _ \<Rightarrow> True)"

definition task_ended :: "bool \<Rightarrow> DaemonError \<Rightarrow> (Control, DaemonError) result" where
  "task_ended shutting_down dead = (if shutting_down then Ok ControlStop else Err dead)"

text \<open>The handle of the live worker: the entry it was started for, and the worker behind its channels.\<close>

record EggpoolWorkerHandle =
  wh_endpoint :: EggpoolEntry
  wh_worker :: eggpool_worker

text \<open>
  The engine's bookkeeping, the fleet it owns, the hub it shares with the connections, and both ends of
  the command channel: the commands under way and the endpoints the poll task holds. \<open>ce_received\<close> counts
  the results taken from the worker's channel; it is \<open>None\<close> when the receiver is retired.
\<close>

record Engine =
  ce_fleet :: FleetState
  ce_generation :: nat
  ce_converged :: "EggpoolDesiredState option"
  ce_worker :: "EggpoolWorkerHandle option"
  ce_received :: "nat option"
  ce_cron_dirty :: bool
  ce_cron_revision :: nat
  ce_snapshot :: Document
  ce_intents :: "EggpoolIntent intents"
  ce_cron_intents :: CronIntents
  ce_cron_endpoints :: "Endpoint list"
  ce_cron_notified :: bool
  ce_commands :: "SchedulerCommand list"
  ce_poller_endpoints :: "Endpoint list"
  ce_batch_open :: bool

definition encode_document :: "FrontendFrame codec \<Rightarrow> nat \<Rightarrow> nat \<Rightarrow> FleetState \<Rightarrow> nat \<Rightarrow> CronIntents \<Rightarrow> (Document, DaemonError) result" where
  "encode_document js now now_unix_ms fleet generation intents =
     (case encode_frame js (FF_Snapshot (to_dto_for now now_unix_ms generation intents fleet)) of
        Err e \<Rightarrow> Err (DaemonEncode (encode_error_text e))
      | Ok encoded \<Rightarrow> Ok \<lparr>do_generation = generation, do_encoded = encoded\<rparr>)"

section \<open>Intents and the worker\<close>

text \<open>\<open>publish\<close> fails when the worker has ended and dropped its receiver.\<close>

definition reduce_intents :: "Engine \<Rightarrow> bool \<times> Engine" where
  "reduce_intents en =
     (case ce_worker en of
        None \<Rightarrow> (False, en)
      | Some handle \<Rightarrow>
          (case eggpool_desired_state (ce_intents en) (ce_fleet en) of
             None \<Rightarrow> (False, en)
           | Some desired \<Rightarrow>
               if ce_converged en = Some desired then (False, en)
               else
                 let (changed, fleet) = set_eggpool_period (ds_period desired) (ce_fleet en);
                     fleet = (if changed then snd (begin_eggpool_request (ds_active desired) fleet) else fleet);
                     desired = (case eggpool_desired_state (ce_intents en) fleet of None \<Rightarrow> desired | Some d \<Rightarrow> d)
                 in if ew_ended (wh_worker handle)
                    then (True, en\<lparr>ce_fleet := mark_eggpool_worker_unavailable fleet, ce_converged := Some desired\<rparr>)
                    else (changed, en\<lparr>ce_fleet := fleet, ce_converged := Some desired,
                      ce_worker := Some (handle\<lparr>wh_worker := control_publish desired (wh_worker handle)\<rparr>)\<rparr>)))"

definition note_cron_intent_revision :: "Engine \<Rightarrow> bool \<times> Engine" where
  "note_cron_intent_revision en =
     (let revision = cis_revision (ce_cron_intents en) in
      if revision = ce_cron_revision en then (False, en)
      else (True, en\<lparr>ce_cron_revision := revision, ce_cron_dirty := True\<rparr>))"

definition sync_eggpool_worker :: "Engine \<Rightarrow> Engine" where
  "sync_eggpool_worker en =
     (let wanted = map_option es_endpoint (fl_eggpool (ce_fleet en)) in
      if map_option wh_endpoint (ce_worker en) = wanted then en
      else
        let en = en\<lparr>ce_worker := None, ce_received := None, ce_converged := None\<rparr> in
        case wanted of
          None \<Rightarrow> en
        | Some entry \<Rightarrow> en\<lparr>ce_received := Some 0, ce_worker := Some \<lparr>wh_endpoint = entry, wh_worker = worker_new\<rparr>\<rparr>)"

section \<open>Requests\<close>

definition request_scheduler_poll :: "SchedulerCommand \<Rightarrow> Engine \<Rightarrow> Engine" where
  "request_scheduler_poll command en =
     (if length (ce_commands en) < SCHEDULER_COMMAND_CAPACITY then en\<lparr>ce_commands := ce_commands en @ [command]\<rparr> else en)"

definition reload_config :: "(ClientConfig, rstr) result \<Rightarrow> Engine \<Rightarrow> (bool \<times> rstr option) \<times> Engine" where
  "reload_config loaded en =
     (case loaded of
        Ok config \<Rightarrow>
          let endpoints = map to_endpoint (cf_systems config);
              fleet = reconcile_systems config (ce_fleet en);
              fleet = (case cf_eggpool config of Some entry \<Rightarrow> adopt_eggpool_endpoint entry fleet | None \<Rightarrow> clear_eggpool fleet);
              fleet = clear_config_reload_error fleet;
              live = map sy_id (fl_systems fleet);
              fleet = fleet\<lparr>fl_cron := retain_systems live (fl_cron fleet)\<rparr>;
              en = en\<lparr>ce_fleet := fleet, ce_cron_endpoints := endpoints, ce_cron_notified := True\<rparr>
          in ((True, None), request_scheduler_poll (CmdReplaceEndpoints endpoints) en)
      | Err error \<Rightarrow>
          let message = ustr ''config reload failed: '' @ error;
              en = en\<lparr>ce_fleet := set_config_reload_error message (ce_fleet en)\<rparr>
          in ((False, Some message), request_scheduler_poll CmdRefresh en))"

definition set_eggpool_intent :: "nat \<Rightarrow> bool \<Rightarrow> EggpoolPeriod \<Rightarrow> bool \<Rightarrow> Engine \<Rightarrow> Engine" where
  "set_eggpool_intent subscriber active period refresh en =
     (let previous = map_of (ce_intents en) subscriber;
          intent = \<lparr>in_active = active, in_period = period\<rparr>;
          en = en\<lparr>ce_intents := intents_set subscriber intent (ce_intents en)\<rparr>;
          changed = (previous \<noteq> Some intent);
          converged = eggpool_desired_state (ce_intents en) (ce_fleet en);
          (window_changed, fleet) = (case converged of None \<Rightarrow> (False, ce_fleet en)
            | Some desired \<Rightarrow> set_eggpool_period (ds_period desired) (ce_fleet en));
          fleet = (if window_changed \<or> changed \<or> refresh
            then snd (begin_eggpool_request (case converged of None \<Rightarrow> False | Some d \<Rightarrow> ds_active d) fleet) else fleet)
      in en\<lparr>ce_fleet := fleet\<rparr>)"

definition set_cron_intent :: "nat \<Rightarrow> CronIntent \<Rightarrow> Engine \<Rightarrow> Engine" where
  "set_cron_intent subscriber intent en =
     (let previous = map_of (cis_entries (ce_cron_intents en)) subscriber;
          intents = cron_intents_set subscriber intent (ce_cron_intents en);
          en = en\<lparr>ce_cron_intents := intents\<rparr>;
          en = (if previous \<noteq> Some intent then en\<lparr>ce_cron_dirty := True\<rparr> else en)
      in en\<lparr>ce_cron_revision := cis_revision intents\<rparr>)"

text \<open>What the engine does with a request, and the acknowledgement it tries to send.\<close>

definition handle_request :: "(ClientConfig, rstr) result \<Rightarrow> nat \<Rightarrow> DaemonRequest \<Rightarrow> Engine \<Rightarrow> Control \<times> FrontendFrame option \<times> Engine" where
  "handle_request loaded subscriber request en =
     (case request of
        DR_Handshake _ _ _ \<Rightarrow> (ControlContinue, None, en)
      | DR_ReloadConfig generation \<Rightarrow>
          (case reload_config loaded en of
             ((accepted, detail), en) \<Rightarrow> (ControlContinue, Some (FF_ControlAck generation accepted detail), en))
      | DR_SetEggpoolIntent active period refresh generation \<Rightarrow>
          (ControlContinue, Some (FF_ControlAck generation True None), set_eggpool_intent subscriber active period refresh en)
      | DR_SetCronIntent system_id job depth generation \<Rightarrow>
          (ControlContinue, Some (FF_ControlAck generation True None),
           set_cron_intent subscriber \<lparr>ci_system_id = system_id, ci_job = job, ci_display_history = depth\<rparr> en)
      | DR_Shutdown generation \<Rightarrow> (ControlStop, Some (FF_ControlAck generation True None), en))"

section \<open>The main loop\<close>

text \<open>One branch of the \<open>select!\<close>, with what it receives and reads.\<close>

datatype engine_event =
    EvCancelled
  | EvShutdown
  | EvBatch PollBatch
  | EvBatchClosed bool
  | EvEggpool
  | EvEggpoolClosed bool
  | EvObservation CronObservation
  | EvRequest nat DaemonRequest "(ClientConfig, rstr) result"
  | EvTick

text \<open>A configuration file that loads is well formed: \<open>Client_Config\<close> shows it of the parser.\<close>

fun event_ok :: "engine_event \<Rightarrow> bool" where
  "event_ok (EvRequest _ _ (Ok config)) \<longleftrightarrow> client_config_wf config"
| "event_ok _ \<longleftrightarrow> True"

text \<open>What a branch leaves: whether to go on, and whether the fleet changed visibly.\<close>

fun engine_branch :: "engine_event \<Rightarrow> Engine \<Rightarrow> (Control \<times> bool, DaemonError) result \<times> Engine" where
  "engine_branch EvCancelled en = (Ok (ControlStop, False), en)"
| "engine_branch EvShutdown en = (Ok (ControlStop, False), en)"
| "engine_branch (EvBatch batch) en =
     (let was_initialized = fl_last_applied_generation (ce_fleet en) \<noteq> 0;
          (dirty, fleet) = apply_batch_owned_changed batch (ce_fleet en)
      in (Ok (ControlContinue, dirty \<or> was_initialized \<noteq> (fl_last_applied_generation fleet \<noteq> 0)), en\<lparr>ce_fleet := fleet\<rparr>))"
| "engine_branch (EvBatchClosed cancelled) en =
     (let en = en\<lparr>ce_batch_open := False\<rparr> in
      case task_ended cancelled SchedulerStopped of Ok control \<Rightarrow> (Ok (control, False), en) | Err fatal \<Rightarrow> (Err fatal, en))"
| "engine_branch EvEggpool en =
     (case (ce_worker en, ce_received en) of
        (Some handle, Some n) \<Rightarrow>
          if n < length (ew_results (wh_worker handle)) then
            let (dirty, fleet) = apply_eggpool_result_changed (ew_results (wh_worker handle) ! n) (ce_fleet en)
            in (Ok (ControlContinue, dirty), en\<lparr>ce_fleet := fleet, ce_received := Some (Suc n)\<rparr>)
          else (Ok (ControlContinue, False), en)
      | _ \<Rightarrow> (Ok (ControlContinue, False), en))"
| "engine_branch (EvEggpoolClosed cancelled) en =
     (let en = en\<lparr>ce_received := None\<rparr> in
      case task_ended cancelled EggpoolWorkerStopped of Ok control \<Rightarrow> (Ok (control, False), en) | Err fatal \<Rightarrow> (Err fatal, en))"
| "engine_branch (EvObservation ob) en =
     (if accepts_cron_observation (ce_fleet en) ob then
        let (dirty, cron) = observation_apply ob (fl_cron (ce_fleet en))
        in (Ok (ControlContinue, dirty), en\<lparr>ce_fleet := (ce_fleet en)\<lparr>fl_cron := cron\<rparr>\<rparr>)
      else (Ok (ControlContinue, False), en))"
| "engine_branch (EvRequest subscriber request loaded) en =
     (case handle_request loaded subscriber request en of
        (stop, _, en) \<Rightarrow> (Ok (stop, True), sync_eggpool_worker en))"
| "engine_branch EvTick en =
     (let (reduced, en) = reduce_intents en; (noted, en) = note_cron_intent_revision en
      in (Ok (ControlContinue, reduced \<or> noted), en))"

text \<open>The publication at the end of a turn.\<close>

definition publish_turn :: "FrontendFrame codec \<Rightarrow> nat \<Rightarrow> nat \<Rightarrow> Control \<Rightarrow> bool \<Rightarrow> Engine \<Rightarrow> (Control, DaemonError) result \<times> Engine" where
  "publish_turn js now now_unix_ms stop dirty en =
     (let dirty = (dirty \<or> ce_cron_dirty en); en = en\<lparr>ce_cron_dirty := False\<rparr> in
      if dirty \<and> stop = ControlContinue then
        let en = en\<lparr>ce_generation := sat_add64 (ce_generation en) 1\<rparr> in
        case encode_document js now now_unix_ms (ce_fleet en) (ce_generation en) (ce_cron_intents en) of
          Err e \<Rightarrow> (Err e, en)
        | Ok document \<Rightarrow> (Ok stop, en\<lparr>ce_snapshot := document\<rparr>)
      else (Ok stop, en))"

definition engine_turn :: "FrontendFrame codec \<Rightarrow> nat \<Rightarrow> nat \<Rightarrow> engine_event \<Rightarrow> Engine \<Rightarrow> (Control, DaemonError) result \<times> Engine" where
  "engine_turn js now now_unix_ms event en =
     (case engine_branch event en of
        (Err e, en) \<Rightarrow> (Err e, en)
      | (Ok (stop, dirty), en) \<Rightarrow> publish_turn js now now_unix_ms stop dirty en)"

text \<open>The state before the loop: the first document has generation 1, and a configured worker is wired.\<close>

definition engine_start :: "FrontendFrame codec \<Rightarrow> nat \<Rightarrow> nat \<Rightarrow> ClientConfig \<Rightarrow> (Engine, DaemonError) result" where
  "engine_start js now now_unix_ms config =
     (let fleet = from_config config; endpoints = map to_endpoint (cf_systems config) in
      case encode_document js now now_unix_ms fleet 1 cron_intents_default of
        Err e \<Rightarrow> Err e
      | Ok document \<Rightarrow> Ok (sync_eggpool_worker
          \<lparr>ce_fleet = fleet, ce_generation = 1, ce_converged = eggpool_desired_state [] fleet, ce_worker = None, ce_received = None,
           ce_cron_dirty = False, ce_cron_revision = 0, ce_snapshot = document, ce_intents = [],
           ce_cron_intents = cron_intents_default, ce_cron_endpoints = endpoints, ce_cron_notified = False,
           ce_commands = [], ce_poller_endpoints = endpoints, ce_batch_open = True\<rparr>))"

section \<open>The daemon as a transition system\<close>

definition attach_subscriber :: "nat \<Rightarrow> Engine \<Rightarrow> Engine" where
  "attach_subscriber sid en =
     en\<lparr>ce_intents := intents_set sid \<lparr>in_active = False, in_period = PeriodHour\<rparr> (ce_intents en),
        ce_cron_intents := cron_intents_set sid \<lparr>ci_system_id = None, ci_job = None, ci_display_history = 0\<rparr> (ce_cron_intents en)\<rparr>"

definition detach_subscriber :: "nat \<Rightarrow> Engine \<Rightarrow> Engine" where
  "detach_subscriber sid en =
     en\<lparr>ce_intents := intents_remove sid (ce_intents en), ce_cron_intents := cron_intents_remove sid (ce_cron_intents en)\<rparr>"

definition poller_takes :: "Engine \<Rightarrow> Engine" where
  "poller_takes en =
     (case ce_commands en of
        [] \<Rightarrow> en
      | CmdRefresh # rest \<Rightarrow> en\<lparr>ce_commands := rest\<rparr>
      | CmdReplaceEndpoints endpoints # rest \<Rightarrow> en\<lparr>ce_commands := rest, ce_poller_endpoints := endpoints\<rparr>)"

inductive daemon_step :: "FrontendFrame codec \<Rightarrow> Engine \<Rightarrow> Engine \<Rightarrow> bool" for js where
  turn: "event_ok event \<Longrightarrow> engine_turn js now now_unix_ms event en = (Ok ControlContinue, en') \<Longrightarrow> daemon_step js en en'"
| attached: "daemon_step js en (attach_subscriber sid en)"
| detached: "daemon_step js en (detach_subscriber sid en)"
| poller: "daemon_step js en (poller_takes en)"
| worker: "ce_worker en = Some handle \<Longrightarrow> worker_step (wh_endpoint handle) (wh_worker handle) w \<Longrightarrow>
    ew_published w = ew_published (wh_worker handle) \<Longrightarrow>
    daemon_step js en (en\<lparr>ce_worker := Some (handle\<lparr>wh_worker := w\<rparr>)\<rparr>)"

inductive daemon_reach :: "FrontendFrame codec \<Rightarrow> Engine \<Rightarrow> bool" for js where
  start: "client_config_wf config \<Longrightarrow> engine_start js now now_unix_ms config = Ok en \<Longrightarrow> daemon_reach js en"
| step: "daemon_reach js en \<Longrightarrow> daemon_step js en en' \<Longrightarrow> daemon_reach js en'"


section \<open>What a document shows\<close>

text \<open>The parts of the fleet that a row of a frontend shows, times and latency left out.\<close>

definition system_face :: "SystemState \<Rightarrow> rstr \<times> Endpoint \<times> rstr option \<times> Reachability \<times> NormalizedSnapshot option \<times> OfflineReason option" where
  "system_face s = (sy_id s, sy_endpoint s, sy_configured_name s, sy_reachability s, sy_latest s, sy_offline_reason s)"

definition dto_face :: "SystemSnapshotDto \<Rightarrow> rstr \<times> Endpoint \<times> rstr option \<times> Reachability \<times> NormalizedSnapshot option \<times> OfflineReason option" where
  "dto_face s = (sd_id s, sd_endpoint s, sd_configured_name s, sd_reachability s, sd_latest s, sd_offline_reason s)"

definition eggpool_face where
  "eggpool_face e = (es_endpoint e, es_period e, es_request_generation e, es_worker_state e, es_summary e, es_last_error e,
     es_health e, es_last_health_error e)"

definition eggpool_dto_face where
  "eggpool_dto_face e = (ed_endpoint e, ed_period e, ed_request_generation e, ed_worker_state e, ed_summary e, ed_last_error e,
     ed_health e, ed_last_health_error e)"

definition fleet_face where
  "fleet_face f = (map system_face (fl_systems f), map_option eggpool_face (fl_eggpool f), fl_refresh_status f,
     fl_last_applied_generation f \<noteq> 0, fl_cron_display_history f, fl_config_reload_error f)"

definition document_face where
  "document_face d = (map dto_face (fs_systems d), map_option eggpool_dto_face (fs_eggpool d), fs_refresh_status d,
     fs_poll_initialized d, fs_cron_display_history d, fs_config_reload_error d)"

lemma to_dto_face: "document_face (to_dto_for now w g c f) = fleet_face f"
  by (simp add: document_face_def fleet_face_def to_dto_for_def system_face_def dto_face_def system_to_dto_def
      eggpool_face_def [abs_def] eggpool_dto_face_def eggpool_to_dto_def comp_def option.map_comp)

section \<open>Changes that are not reported\<close>

lemma normalized_eqD: "normalized_eq a b \<Longrightarrow> a = b"
  by (simp add: normalized_eq_def)

lemma latest_isD: "latest_is l n \<Longrightarrow> l = Some n"
  by (auto simp: latest_is_def dest: normalized_eqD split: option.splits)

lemma apply_outcome_unreported:
  assumes "apply_outcome completed r s = (False, s')"
  shows "system_face s' = system_face s"
  using assms
  by (auto simp: apply_outcome_def Let_def system_face_def online_update_def offline_update_def dest!: latest_isD
      split: PollOutcome.splits)

lemma apply_by_id_reported: "snd (apply_results_by_id completed rs systems True)"
  by (induction rs arbitrary: systems) (auto simp: case_prod_beta split: option.split)

lemma apply_by_id_unreported:
  "\<not> snd (apply_results_by_id completed rs systems changed) \<Longrightarrow>
     map system_face (fst (apply_results_by_id completed rs systems changed)) = map system_face systems"
proof (induction rs arbitrary: systems changed)
  case (Cons r rs)
  show ?case
  proof (cases "position (\<lambda>s. sy_id s = pr_system_id r) systems")
    case None
    then show ?thesis using Cons by simp
  next
    case (Some j)
    let ?o = "apply_outcome completed r (systems ! j)"
    have j: "j < length systems" using Some by (rule position_less)
    show ?thesis
    proof (cases "same_target (sy_endpoint (systems ! j)) (pr_endpoint r)")
      case False
      then show ?thesis using Cons Some by simp
    next
      case True
      have rest: "apply_results_by_id completed (r # rs) systems changed =
          apply_results_by_id completed rs (systems[j := snd ?o]) (changed \<or> fst ?o)"
        using Some True by simp
      have v: "\<not> fst ?o"
      proof
        assume "fst ?o"
        with Cons.prems rest apply_by_id_reported [of completed rs "systems[j := snd ?o]"] show False by simp
      qed
      then have "system_face (snd ?o) = system_face (systems ! j)"
        by (intro apply_outcome_unreported [of completed r "systems ! j"]) (simp add: prod_eq_iff)
      then have "map system_face (systems[j := snd ?o]) = map system_face systems"
        using j by (metis list_update_id map_update)
      with Cons.IH [of "systems[j := snd ?o]" "changed \<or> fst ?o"] Cons.prems rest show ?thesis by simp
    qed
  qed
qed simp

lemma batch_unreported:
  assumes "distinct (map sy_id (fl_systems f))" "apply_batch_owned_changed b f = (False, f')"
    "(fl_last_applied_generation f \<noteq> 0) = (fl_last_applied_generation f' \<noteq> 0)"
  shows "fleet_face f' = fleet_face f"
proof -
  obtain systems changed where r: "apply_results_by_id (pb_completed_at b) (pb_results b) (fl_systems f) False = (systems, changed)"
    by fastforce
  then show ?thesis
    using assms apply_by_id_unreported [of "pb_completed_at b" "pb_results b" "fl_systems f" False]
    by (auto simp: apply_batch_both apply_batch_changed_def apply_results_by_id_eq fleet_face_def split: if_splits)
qed

lemma summary_eqD: "summary_eq a b \<Longrightarrow> a = b"
  by (simp add: summary_eq_def)

lemma health_eqD: "health_eq a b \<Longrightarrow> a = b"
  by (simp add: health_eq_def)

lemma summary_plane_unreported:
  "\<not> fst (apply_summary_plane r e) \<Longrightarrow> eggpool_face (snd (apply_summary_plane r e)) = eggpool_face e"
  by (cases "er_summary r")
    (auto simp: apply_summary_plane_def Let_def eggpool_face_def dest!: summary_eqD split: option.splits)

lemma health_plane_unreported:
  "\<not> fst (apply_health_plane r e) \<Longrightarrow> eggpool_face (snd (apply_health_plane r e)) = eggpool_face e"
  by (cases "er_health r")
    (auto simp: apply_health_plane_def Let_def eggpool_face_def dest!: health_eqD split: option.splits)

lemma eggpool_result_unreported:
  assumes "apply_eggpool_result_changed r f = (False, f')"
  shows "fleet_face f' = fleet_face f"
proof (cases "fl_eggpool f")
  case None
  then show ?thesis using assms by (simp add: apply_eggpool_result_changed_def)
next
  case (Some e)
  show ?thesis
  proof (cases "er_generation r \<noteq> es_request_generation e \<or> er_period r \<noteq> es_period e \<or> er_summary r = EF_Cancelled")
    case True
    then show ?thesis using assms Some by (auto simp: apply_eggpool_result_changed_def split: if_splits)
  next
    case False
    let ?e0 = "e\<lparr>es_worker_state := WorkerIdle\<rparr>"
    have idle: "es_worker_state e = WorkerIdle" and s: "\<not> fst (apply_summary_plane r ?e0)"
      and h: "\<not> fst (apply_health_plane r (snd (apply_summary_plane r ?e0)))"
      and f': "f' = f\<lparr>fl_eggpool := Some (snd (apply_health_plane r (snd (apply_summary_plane r ?e0))))\<rparr>"
      using assms Some False by (auto simp: apply_eggpool_result_changed_def Let_def case_prod_beta)
    have "?e0 = e" using idle by simp
    with summary_plane_unreported [OF s] health_plane_unreported [OF h] f' Some show ?thesis
      by (simp add: fleet_face_def)
  qed
qed

section \<open>The daemon's invariant\<close>

text \<open>The worker is the one of the configured entry; the memo is what the live worker last heard.\<close>

definition worker_wired :: "Engine \<Rightarrow> bool" where
  "worker_wired en \<longleftrightarrow>
     map_option wh_endpoint (ce_worker en) = map_option es_endpoint (fl_eggpool (ce_fleet en)) \<and>
     (\<forall>h. ce_worker en = Some h \<longrightarrow> worker_reach (wh_endpoint h) (wh_worker h) \<and>
        (\<forall>d. ce_converged en = Some d \<longrightarrow> ew_ended (wh_worker h) \<or> ew_published (wh_worker h) = d))"

text \<open>Until the request counter saturates, the memo of the current generation has the current period.\<close>

definition memo_current :: "Engine \<Rightarrow> bool" where
  "memo_current en \<longleftrightarrow>
     (\<forall>d e. ce_converged en = Some d \<and> fl_eggpool (ce_fleet en) = Some e \<longrightarrow>
        ds_generation d \<le> es_request_generation e \<and>
        (ds_generation d = es_request_generation e \<longrightarrow> es_request_generation e = u64_max \<or> ds_period d = es_period e)) \<and>
     (ce_worker en = None \<longrightarrow> ce_converged en = None) \<and>
     (\<forall>e. fl_eggpool (ce_fleet en) = Some e \<longrightarrow> es_request_generation e \<le> u64_max)"

definition document_current :: "FrontendFrame codec \<Rightarrow> Engine \<Rightarrow> bool" where
  "document_current js en \<longleftrightarrow>
     (\<exists>snap. encode_frame js (FF_Snapshot snap) = Ok (do_encoded (ce_snapshot en)) \<and>
        fs_generation snap = ce_generation en \<and> do_generation (ce_snapshot en) = ce_generation en \<and>
        document_face snap = fleet_face (ce_fleet en))"

definition engine_inv :: "FrontendFrame codec \<Rightarrow> Engine \<Rightarrow> bool" where
  "engine_inv js en \<longleftrightarrow>
     document_current js en \<and> worker_wired en \<and> memo_current en \<and> \<not> ce_cron_dirty en \<and>
     distinct (map sy_id (fl_systems (ce_fleet en))) \<and> ce_cron_endpoints en = map sy_endpoint (fl_systems (ce_fleet en))"

text \<open>What a branch must keep for the rest of the turn to restore the invariant.\<close>

definition branch_inv :: "FrontendFrame codec \<Rightarrow> bool \<Rightarrow> Engine \<Rightarrow> bool" where
  "branch_inv js dirty en \<longleftrightarrow>
     (dirty \<or> ce_cron_dirty en \<or> document_current js en) \<and> worker_wired en \<and> memo_current en \<and>
     distinct (map sy_id (fl_systems (ce_fleet en))) \<and> ce_cron_endpoints en = map sy_endpoint (fl_systems (ce_fleet en))"

lemma publish_turn_inv:
  assumes "publish_turn js now w ControlContinue dirty en = (Ok ControlContinue, en')" "branch_inv js dirty en"
  shows "engine_inv js en'"
proof (cases "dirty \<or> ce_cron_dirty en")
  case True
  obtain document where d: "encode_document js now w (ce_fleet en) (sat_add64 (ce_generation en) 1) (ce_cron_intents en) = Ok document"
    "en' = en\<lparr>ce_cron_dirty := False, ce_generation := sat_add64 (ce_generation en) 1, ce_snapshot := document\<rparr>"
    using assms(1) True by (auto simp: publish_turn_def Let_def split: result.splits)
  have "document_current js en'"
    using d to_dto_face [of now w "sat_add64 (ce_generation en) 1" "ce_cron_intents en" "ce_fleet en"]
    unfolding document_current_def
    by (intro exI [of _ "to_dto_for now w (sat_add64 (ce_generation en) 1) (ce_cron_intents en) (ce_fleet en)"])
      (auto simp: encode_document_def to_dto_for_def split: result.splits)
  then show ?thesis
    using assms(2) d(2) by (simp add: engine_inv_def branch_inv_def worker_wired_def memo_current_def)
next
  case False
  then have "en' = en" using assms(1) by (auto simp: publish_turn_def Let_def)
  with False assms(2) show ?thesis by (simp add: engine_inv_def branch_inv_def)
qed

lemma document_current_cong:
  assumes "document_current js en" "ce_snapshot en' = ce_snapshot en" "ce_generation en' = ce_generation en"
    "fleet_face (ce_fleet en') = fleet_face (ce_fleet en)"
  shows "document_current js en'"
  using assms by (simp add: document_current_def)

section \<open>Each branch\<close>

lemma batch_keeps:
  "fl_eggpool (snd (apply_batch_owned_changed b f)) = fl_eggpool f"
  by (simp add: apply_batch_owned_changed_def case_prod_beta)

lemma branch_batch:
  assumes "engine_inv js en" "engine_branch (EvBatch b) en = (Ok (c, dirty), en')"
  shows "branch_inv js dirty en'"
proof -
  obtain d fleet where r: "apply_batch_owned_changed b (ce_fleet en) = (d, fleet)" by fastforce
  have ids: "distinct (map sy_id (fl_systems (ce_fleet en)))" using assms(1) by (simp add: engine_inv_def)
  have e: "en' = en\<lparr>ce_fleet := fleet\<rparr>"
    "dirty = (d \<or> (fl_last_applied_generation (ce_fleet en) \<noteq> 0) \<noteq> (fl_last_applied_generation fleet \<noteq> 0))"
    using assms(2) r by (simp_all add: Let_def)
  have "fleet_face fleet = fleet_face (ce_fleet en)" if "\<not> dirty"
    using batch_unreported [OF ids, of b fleet] that e(2) r by auto
  then have "dirty \<or> document_current js en'"
    using assms(1) e(1) by (auto simp: engine_inv_def intro: document_current_cong)
  moreover have "fl_eggpool fleet = fl_eggpool (ce_fleet en)" "map sy_id (fl_systems fleet) = map sy_id (fl_systems (ce_fleet en))"
    "map sy_endpoint (fl_systems fleet) = map sy_endpoint (fl_systems (ce_fleet en))"
    using batch_keeps [of b "ce_fleet en"] apply_batch_ids [OF ids, of b] apply_batch_endpoints [OF ids, of b] r by simp_all
  ultimately show ?thesis
    using assms(1) e(1) ids by (simp add: branch_inv_def engine_inv_def worker_wired_def memo_current_def)
qed

lemma eggpool_result_keeps:
  assumes "apply_eggpool_result_changed r f = (d, f')"
  shows "fl_systems f' = fl_systems f"
    "map_option es_endpoint (fl_eggpool f') = map_option es_endpoint (fl_eggpool f)"
    "map_option es_request_generation (fl_eggpool f') = map_option es_request_generation (fl_eggpool f)"
    "map_option es_period (fl_eggpool f') = map_option es_period (fl_eggpool f)"
proof -
  have ep: "es_endpoint (snd (apply_summary_plane r e)) = es_endpoint e" "es_endpoint (snd (apply_health_plane r e)) = es_endpoint e" for e
    by (simp_all add: apply_summary_plane_def apply_health_plane_def Let_def split: EggpoolFetchOutcome.split EggpoolHealthFetchOutcome.split)
  show "fl_systems f' = fl_systems f"
    "map_option es_endpoint (fl_eggpool f') = map_option es_endpoint (fl_eggpool f)"
    "map_option es_request_generation (fl_eggpool f') = map_option es_request_generation (fl_eggpool f)"
    "map_option es_period (fl_eggpool f') = map_option es_period (fl_eggpool f)"
    using assms by (auto simp: apply_eggpool_result_changed_def Let_def case_prod_beta ep summary_plane_facts health_plane_facts
        split: option.splits if_splits)
qed

lemma memo_current_cong:
  assumes "memo_current en" "ce_converged en' = ce_converged en" "ce_worker en' = None \<longleftrightarrow> ce_worker en = None"
    "map_option es_request_generation (fl_eggpool (ce_fleet en')) = map_option es_request_generation (fl_eggpool (ce_fleet en))"
    "map_option es_period (fl_eggpool (ce_fleet en')) = map_option es_period (fl_eggpool (ce_fleet en))"
  shows "memo_current en'"
  using assms by (cases "fl_eggpool (ce_fleet en)"; cases "fl_eggpool (ce_fleet en')") (auto simp: memo_current_def)

lemma branch_eggpool:
  assumes "engine_inv js en" "engine_branch EvEggpool en = (Ok (c, dirty), en')"
  shows "branch_inv js dirty en'"
proof (cases "\<exists>h n. ce_worker en = Some h \<and> ce_received en = Some n \<and> n < length (ew_results (wh_worker h))")
  case False
  then have "en' = en" using assms(2) by (auto split: option.splits if_splits)
  then show ?thesis using assms(1) by (simp add: engine_inv_def branch_inv_def)
next
  case True
  then obtain h n where h: "ce_worker en = Some h" "ce_received en = Some n" "n < length (ew_results (wh_worker h))" by blast
  obtain d fleet where r: "apply_eggpool_result_changed (ew_results (wh_worker h) ! n) (ce_fleet en) = (d, fleet)" by fastforce
  have e: "en' = en\<lparr>ce_fleet := fleet, ce_received := Some (Suc n)\<rparr>" "dirty = d"
    using assms(2) h r by simp_all
  note keeps = eggpool_result_keeps [OF r]
  have "dirty \<or> document_current js en'"
    using assms(1) e r eggpool_result_unreported [of _ "ce_fleet en" fleet]
    by (cases d) (auto simp: engine_inv_def intro: document_current_cong)
  moreover have "memo_current en'"
    using assms(1) e(1) keeps by (auto simp: engine_inv_def intro: memo_current_cong)
  ultimately show ?thesis
    using assms(1) e(1) keeps by (simp add: branch_inv_def engine_inv_def worker_wired_def)
qed

lemma branch_observation:
  assumes "engine_inv js en" "engine_branch (EvObservation ob) en = (Ok (c, dirty), en')"
  shows "branch_inv js dirty en'"
proof -
  obtain cron where e: "en' = en\<lparr>ce_fleet := (ce_fleet en)\<lparr>fl_cron := cron\<rparr>\<rparr>"
  proof (cases "accepts_cron_observation (ce_fleet en) ob")
    case True
    then show ?thesis using assms(2) that by (auto simp: case_prod_beta)
  next
    case False
    then show ?thesis using assms(2) that [of "fl_cron (ce_fleet en)"] by simp
  qed
  have "document_current js en'"
    using assms(1) e by (auto simp: engine_inv_def fleet_face_def intro: document_current_cong)
  then show ?thesis
    using assms(1) e by (simp add: branch_inv_def engine_inv_def worker_wired_def memo_current_def)
qed

lemma set_eggpool_period_facts:
  assumes "set_eggpool_period p f = (c, f')"
  shows "fl_systems f' = fl_systems f" "\<not> c \<Longrightarrow> f' = f"
    "map_option es_endpoint (fl_eggpool f') = map_option es_endpoint (fl_eggpool f)"
    "map_option es_request_generation (fl_eggpool f') = map_option es_request_generation (fl_eggpool f)"
    "fl_eggpool f = Some e \<Longrightarrow> \<exists>e'. fl_eggpool f' = Some e' \<and> es_period e' = p \<and> es_worker_state e' = es_worker_state e"
    "\<not> c \<Longrightarrow> fl_eggpool f = Some e \<Longrightarrow> es_period e = p"
  using assms by (auto simp: set_eggpool_period_def split: option.splits if_splits)

lemma begin_eggpool_request_facts:
  "fl_systems (snd (begin_eggpool_request a f)) = fl_systems f"
  "map_option es_endpoint (fl_eggpool (snd (begin_eggpool_request a f))) = map_option es_endpoint (fl_eggpool f)"
  "map_option es_period (fl_eggpool (snd (begin_eggpool_request a f))) = map_option es_period (fl_eggpool f)"
  "map_option es_request_generation (fl_eggpool (snd (begin_eggpool_request a f))) =
     map_option (\<lambda>e. sat_add64 (es_request_generation e) 1) (fl_eggpool f)"
  "map_option es_worker_state (fl_eggpool (snd (begin_eggpool_request a f))) =
     map_option (\<lambda>_. if a then WorkerRefreshing else WorkerIdle) (fl_eggpool f)"
  by (simp_all add: begin_eggpool_request_def Let_def split: option.split)

lemma converged_period_stable: "converged_period (converged_period p m) m = converged_period p m"
  by (simp add: converged_period_Min)

text \<open>The reduction, case by case.\<close>

lemma reduce_intents_cases:
  assumes "ce_worker en = Some h" "fl_eggpool (ce_fleet en) = Some e"
  defines "d \<equiv> \<lparr>ds_active = any_active (ce_intents en), ds_period = converged_period (es_period e) (ce_intents en),
    ds_generation = es_request_generation e\<rparr>"
  assumes "ce_converged en \<noteq> Some d"
  shows "\<exists>e' fleet d'. fl_eggpool fleet = Some e' \<and> fl_systems fleet = fl_systems (ce_fleet en) \<and> es_endpoint e' = es_endpoint e \<and>
    es_period e' = ds_period d \<and>
    es_request_generation e' = (if es_period e = ds_period d then es_request_generation e else sat_add64 (es_request_generation e) 1) \<and>
    es_worker_state e' = (if es_period e = ds_period d then es_worker_state e else if ds_active d then WorkerRefreshing else WorkerIdle) \<and>
    (es_period e = ds_period d \<longrightarrow> fleet = ce_fleet en) \<and>
    d' = \<lparr>ds_active = ds_active d, ds_period = es_period e', ds_generation = es_request_generation e'\<rparr> \<and>
    reduce_intents en =
      (if ew_ended (wh_worker h)
       then (True, en\<lparr>ce_fleet := mark_eggpool_worker_unavailable fleet, ce_converged := Some d'\<rparr>)
       else (es_period e \<noteq> ds_period d, en\<lparr>ce_fleet := fleet, ce_converged := Some d',
         ce_worker := Some (h\<lparr>wh_worker := control_publish d' (wh_worker h)\<rparr>)\<rparr>))"
proof -
  obtain c f1 where p: "set_eggpool_period (ds_period d) (ce_fleet en) = (c, f1)" by fastforce
  have c: "c = (es_period e \<noteq> ds_period d)" and f1: "\<exists>e1. fl_eggpool f1 = Some e1 \<and> es_period e1 = ds_period d \<and>
      es_endpoint e1 = es_endpoint e \<and> es_request_generation e1 = es_request_generation e \<and> es_worker_state e1 = es_worker_state e"
    and sys: "fl_systems f1 = fl_systems (ce_fleet en)" and same: "\<not> c \<longrightarrow> f1 = ce_fleet en"
    using p assms(2) by (auto simp: set_eggpool_period_def split: if_splits)
  define fleet where "fleet = (if c then snd (begin_eggpool_request (ds_active d) f1) else f1)"
  obtain e' where e': "fl_eggpool fleet = Some e'" "es_endpoint e' = es_endpoint e" "es_period e' = ds_period d"
    "es_request_generation e' = (if c then sat_add64 (es_request_generation e) 1 else es_request_generation e)"
    "es_worker_state e' = (if c then if ds_active d then WorkerRefreshing else WorkerIdle else es_worker_state e)"
  proof -
    obtain e1 where "fl_eggpool f1 = Some e1" "es_period e1 = ds_period d" "es_endpoint e1 = es_endpoint e"
      "es_request_generation e1 = es_request_generation e" "es_worker_state e1 = es_worker_state e"
      using f1 by blast
    then have "\<exists>e'. fl_eggpool fleet = Some e' \<and> es_endpoint e' = es_endpoint e \<and> es_period e' = ds_period d \<and>
      es_request_generation e' = (if c then sat_add64 (es_request_generation e) 1 else es_request_generation e) \<and>
      es_worker_state e' = (if c then if ds_active d then WorkerRefreshing else WorkerIdle else es_worker_state e)"
      by (simp add: fleet_def begin_eggpool_request_def Let_def)
    then show thesis using that by blast
  qed
  have sys': "fl_systems fleet = fl_systems (ce_fleet en)" using sys by (simp add: fleet_def begin_eggpool_request_facts)
  have desired: "eggpool_desired_state (ce_intents en) (ce_fleet en) = Some d"
    "eggpool_desired_state (ce_intents en) fleet =
      Some \<lparr>ds_active = ds_active d, ds_period = es_period e', ds_generation = es_request_generation e'\<rparr>"
    using assms(2) e' by (simp_all add: eggpool_desired_state_def d_def converged_period_stable)
  have "reduce_intents en =
      (if ew_ended (wh_worker h)
       then (True, en\<lparr>ce_fleet := mark_eggpool_worker_unavailable fleet, ce_converged :=
           Some \<lparr>ds_active = ds_active d, ds_period = es_period e', ds_generation = es_request_generation e'\<rparr>\<rparr>)
       else (c, en\<lparr>ce_fleet := fleet, ce_converged :=
           Some \<lparr>ds_active = ds_active d, ds_period = es_period e', ds_generation = es_request_generation e'\<rparr>,
         ce_worker := Some (h\<lparr>wh_worker := control_publish
           \<lparr>ds_active = ds_active d, ds_period = es_period e', ds_generation = es_request_generation e'\<rparr> (wh_worker h)\<rparr>)\<rparr>))"
    using assms(1,4) desired p by (simp add: reduce_intents_def Let_def fleet_def [symmetric])
  then show ?thesis
    using e' sys' c same by (intro exI [of _ e'] exI [of _ fleet]) (auto simp: fleet_def)
qed

lemma reduce_intents_idle:
  "ce_worker en = None \<or> eggpool_desired_state (ce_intents en) (ce_fleet en) = None \<or>
     eggpool_desired_state (ce_intents en) (ce_fleet en) = ce_converged en \<Longrightarrow> reduce_intents en = (False, en)"
  by (auto simp: reduce_intents_def split: option.split)

lemma reduce_intents_inv:
  assumes "engine_inv js en" "reduce_intents en = (dirty, en')"
  shows "branch_inv js dirty en'"
proof (cases "ce_worker en = None \<or> eggpool_desired_state (ce_intents en) (ce_fleet en) = None \<or>
     eggpool_desired_state (ce_intents en) (ce_fleet en) = ce_converged en")
  case True
  then show ?thesis using assms reduce_intents_idle [OF True] by (simp add: engine_inv_def branch_inv_def)
next
  case False
  then obtain h e where h: "ce_worker en = Some h" "fl_eggpool (ce_fleet en) = Some e"
    by (auto simp: eggpool_desired_state_def)
  with False have "ce_converged en \<noteq> Some \<lparr>ds_active = any_active (ce_intents en),
      ds_period = converged_period (es_period e) (ce_intents en), ds_generation = es_request_generation e\<rparr>"
    by (auto simp: eggpool_desired_state_def)
  from reduce_intents_cases [OF h this] obtain e' fleet d' p where r: "fl_eggpool fleet = Some e'"
    "fl_systems fleet = fl_systems (ce_fleet en)" "es_endpoint e' = es_endpoint e" "es_period e' = p"
    "es_request_generation e' = (if es_period e = p then es_request_generation e else sat_add64 (es_request_generation e) 1)"
    "es_period e = p \<longrightarrow> fleet = ce_fleet en"
    "ds_period d' = es_period e' \<and> ds_generation d' = es_request_generation e'"
    "reduce_intents en = (if ew_ended (wh_worker h)
       then (True, en\<lparr>ce_fleet := mark_eggpool_worker_unavailable fleet, ce_converged := Some d'\<rparr>)
       else (es_period e \<noteq> p, en\<lparr>ce_fleet := fleet, ce_converged := Some d',
         ce_worker := Some (h\<lparr>wh_worker := control_publish d' (wh_worker h)\<rparr>)\<rparr>))"
    by (metis EggpoolDesiredState.select_convs(2,3))
  have inv: "document_current js en" "worker_wired en" "memo_current en" "distinct (map sy_id (fl_systems (ce_fleet en)))"
    "ce_cron_endpoints en = map sy_endpoint (fl_systems (ce_fleet en))"
    using assms(1) by (simp_all add: engine_inv_def)
  have reach: "worker_reach (wh_endpoint h) (wh_worker h)" "wh_endpoint h = es_endpoint e"
    using inv(2) h by (auto simp: worker_wired_def)
  have gen: "es_request_generation e' \<le> u64_max"
    using r(5) inv(3) h(2) by (simp add: memo_current_def sat_add64_def)
  show ?thesis
  proof (cases "ew_ended (wh_worker h)")
    case True
    then have en': "en' = en\<lparr>ce_fleet := mark_eggpool_worker_unavailable fleet, ce_converged := Some d'\<rparr>" "dirty"
      using r(8) assms(2) by simp_all
    show ?thesis
      using inv h reach r gen True unfolding en'(1)
      by (simp add: branch_inv_def en'(2) worker_wired_def memo_current_def mark_eggpool_worker_unavailable_def)
  next
    case False
    then have en': "en' = en\<lparr>ce_fleet := fleet, ce_converged := Some d',
         ce_worker := Some (h\<lparr>wh_worker := control_publish d' (wh_worker h)\<rparr>)\<rparr>" "dirty = (es_period e \<noteq> p)"
      using r(8) assms(2) by simp_all
    have "dirty \<or> document_current js en'"
      using en' r(6) inv(1) by (auto intro: document_current_cong)
    moreover have "worker_reach (wh_endpoint h) (control_publish d' (wh_worker h))"
      using reach(1) by (rule worker_reach.step) (rule worker_step.published)
    ultimately show ?thesis
      using inv h reach r gen unfolding en'(1)
      by (auto simp: branch_inv_def worker_wired_def memo_current_def control_publish_def)
  qed
qed

lemma branch_tick:
  assumes "engine_inv js en" "engine_branch EvTick en = (Ok (c, dirty), en')"
  shows "branch_inv js dirty en'"
proof -
  obtain r en1 where r: "reduce_intents en = (r, en1)" by fastforce
  obtain n en2 where n: "note_cron_intent_revision en1 = (n, en2)" by fastforce
  have e: "en' = en2" "dirty = (r \<or> n)" using assms(2) r n by simp_all
  have "en2 = en1 \<and> \<not> n \<or> n \<and> (\<exists>v. en2 = en1\<lparr>ce_cron_revision := v, ce_cron_dirty := True\<rparr>)"
    using n by (auto simp: note_cron_intent_revision_def Let_def split: if_splits)
  with reduce_intents_inv [OF assms(1) r] e show ?thesis
    by (auto simp: branch_inv_def worker_wired_def memo_current_def)
qed

section \<open>Requests and reload\<close>

lemma sync_inv:
  assumes "map_option wh_endpoint (ce_worker en) = map_option es_endpoint (fl_eggpool (ce_fleet en)) \<Longrightarrow>
      worker_wired en \<and> memo_current en"
    "\<And>e. fl_eggpool (ce_fleet en) = Some e \<Longrightarrow> es_request_generation e \<le> u64_max"
  shows "worker_wired (sync_eggpool_worker en) \<and> memo_current (sync_eggpool_worker en)"
  using assms worker_reach.start
  by (auto simp: sync_eggpool_worker_def Let_def worker_wired_def memo_current_def split: option.split)

lemma sync_keeps [simp]:
  "ce_fleet (sync_eggpool_worker en) = ce_fleet en" "ce_cron_endpoints (sync_eggpool_worker en) = ce_cron_endpoints en"
  "ce_commands (sync_eggpool_worker en) = ce_commands en" "ce_poller_endpoints (sync_eggpool_worker en) = ce_poller_endpoints en"
  "ce_cron_dirty (sync_eggpool_worker en) = ce_cron_dirty en"
  "ce_snapshot (sync_eggpool_worker en) = ce_snapshot en" "ce_generation (sync_eggpool_worker en) = ce_generation en"
  by (simp_all add: sync_eggpool_worker_def Let_def split: option.split)

lemma request_poll_keeps [simp]:
  "ce_fleet (request_scheduler_poll c en) = ce_fleet en" "ce_worker (request_scheduler_poll c en) = ce_worker en"
  "ce_converged (request_scheduler_poll c en) = ce_converged en"
  "ce_cron_endpoints (request_scheduler_poll c en) = ce_cron_endpoints en"
  "ce_poller_endpoints (request_scheduler_poll c en) = ce_poller_endpoints en"
  "ce_cron_dirty (request_scheduler_poll c en) = ce_cron_dirty en"
  by (simp_all add: request_scheduler_poll_def)

lemma request_poll_frame: "worker_wired (request_scheduler_poll c en) = worker_wired en" "memo_current (request_scheduler_poll c en) = memo_current en"
  by (simp_all add: worker_wired_def memo_current_def)

text \<open>The fleet that a reload leaves.\<close>

lemma reload_fleet:
  assumes "client_config_wf config" "distinct (map sy_id (fl_systems (ce_fleet en)))"
  defines "en' \<equiv> snd (reload_config (Ok config) en)"
  shows "map sy_id (fl_systems (ce_fleet en')) = map se_id (cf_systems config)"
    "map sy_endpoint (fl_systems (ce_fleet en')) = map to_endpoint (cf_systems config)"
    "ce_cron_endpoints en' = map to_endpoint (cf_systems config)"
    "fl_eggpool (ce_fleet en') = map_option (\<lambda>entry.
       case fl_eggpool (ce_fleet en) of Some e \<Rightarrow> e\<lparr>es_endpoint := entry\<rparr> | None \<Rightarrow> eggpool_state_new entry) (cf_eggpool config)"
    "ce_worker en' = ce_worker en" "ce_converged en' = ce_converged en" "ce_poller_endpoints en' = ce_poller_endpoints en"
    "ce_cron_dirty en' = ce_cron_dirty en"
proof -
  have ids: "distinct (map se_id (cf_systems config))" using assms(1) by (simp add: client_config_wf_def)
  note facts = reconcile_facts(2,3) [OF ids assms(2)]
  have egg: "fl_eggpool (reconcile_systems config f) = fl_eggpool f" for f
    by (simp add: reconcile_systems_def case_prod_beta)
  show "map sy_id (fl_systems (ce_fleet en')) = map se_id (cf_systems config)"
    "map sy_endpoint (fl_systems (ce_fleet en')) = map to_endpoint (cf_systems config)"
    "ce_cron_endpoints en' = map to_endpoint (cf_systems config)"
    "fl_eggpool (ce_fleet en') = map_option (\<lambda>entry.
       case fl_eggpool (ce_fleet en) of Some e \<Rightarrow> e\<lparr>es_endpoint := entry\<rparr> | None \<Rightarrow> eggpool_state_new entry) (cf_eggpool config)"
    "ce_worker en' = ce_worker en" "ce_converged en' = ce_converged en" "ce_poller_endpoints en' = ce_poller_endpoints en"
    "ce_cron_dirty en' = ce_cron_dirty en"
    using facts egg
    by (simp_all add: en'_def reload_config_def Let_def adopt_eggpool_endpoint_def clear_eggpool_def clear_config_reload_error_def
        split: option.split)
qed

lemma reload_inv:
  assumes "client_config_wf config" "engine_inv js en"
  shows "branch_inv js True (sync_eggpool_worker (snd (reload_config (Ok config) en)))"
proof -
  let ?en = "snd (reload_config (Ok config) en)"
  have inv: "worker_wired en" "memo_current en" "distinct (map sy_id (fl_systems (ce_fleet en)))" using assms(2) by (simp_all add: engine_inv_def)
  note f = reload_fleet [OF assms(1) inv(3)]
  have "worker_wired (sync_eggpool_worker ?en) \<and> memo_current (sync_eggpool_worker ?en)"
  proof (rule sync_inv)
    assume same: "map_option wh_endpoint (ce_worker ?en) = map_option es_endpoint (fl_eggpool (ce_fleet ?en))"
    show "worker_wired ?en \<and> memo_current ?en"
    proof (cases "ce_worker en")
      case None
      then show ?thesis using same inv by (simp add: worker_wired_def memo_current_def f)
    next
      case (Some h)
      then obtain e where e: "fl_eggpool (ce_fleet en) = Some e" using inv(1) by (cases "fl_eggpool (ce_fleet en)") (simp_all add: worker_wired_def)
      obtain entry where entry: "cf_eggpool config = Some entry" "entry = wh_endpoint h"
        using same Some e by (cases "cf_eggpool config") (simp_all add: f)
      have "fl_eggpool (ce_fleet ?en) = Some (e\<lparr>es_endpoint := entry\<rparr>)" by (simp add: f(4) e entry(1))
      then show ?thesis using Some e entry inv(1,2) by (auto simp: worker_wired_def memo_current_def f(5,6))
    qed
  next
    fix e assume "fl_eggpool (ce_fleet ?en) = Some e"
    then show "es_request_generation e \<le> u64_max"
      using inv(2) by (auto simp: f(4) memo_current_def eggpool_state_new_def split: option.splits)
  qed
  then show ?thesis using assms(1) f by (simp add: branch_inv_def client_config_wf_def)
qed

lemma intent_window:
  assumes "(c, f1) = (case desired of None \<Rightarrow> (False, f) | Some d \<Rightarrow> set_eggpool_period (ds_period d) f)"
  shows "fl_systems f1 = fl_systems f" "map_option es_endpoint (fl_eggpool f1) = map_option es_endpoint (fl_eggpool f)"
    "map_option es_request_generation (fl_eggpool f1) = map_option es_request_generation (fl_eggpool f)" "\<not> c \<longrightarrow> f1 = f"
proof -
  have "f1 = f \<and> \<not> c \<or> (\<exists>p. set_eggpool_period p f = (c, f1))" using assms by (cases desired) auto
  then show "fl_systems f1 = fl_systems f" "map_option es_endpoint (fl_eggpool f1) = map_option es_endpoint (fl_eggpool f)"
    "map_option es_request_generation (fl_eggpool f1) = map_option es_request_generation (fl_eggpool f)" "\<not> c \<longrightarrow> f1 = f"
    using set_eggpool_period_facts(1-4) [of _ f c f1] by blast+
qed

lemma intent_inv:
  assumes "engine_inv js en"
  shows "branch_inv js True (set_eggpool_intent sub active period refresh en)"
proof -
  let ?en = "set_eggpool_intent sub active period refresh en"
  have inv: "worker_wired en" "memo_current en" "distinct (map sy_id (fl_systems (ce_fleet en)))"
    "ce_cron_endpoints en = map sy_endpoint (fl_systems (ce_fleet en))" using assms by (simp_all add: engine_inv_def)
  obtain c f1 where p: "(c, f1) = (case eggpool_desired_state (intents_set sub \<lparr>in_active = active, in_period = period\<rparr> (ce_intents en)) (ce_fleet en) of
      None \<Rightarrow> (False, ce_fleet en) | Some desired \<Rightarrow> set_eggpool_period (ds_period desired) (ce_fleet en))"
    by (metis surj_pair)
  define begins where "begins = (c \<or> map_of (ce_intents en) sub \<noteq> Some \<lparr>in_active = active, in_period = period\<rparr> \<or> refresh)"
  define a where "a = (case eggpool_desired_state (intents_set sub \<lparr>in_active = active, in_period = period\<rparr> (ce_intents en)) (ce_fleet en)
    of None \<Rightarrow> False | Some d \<Rightarrow> ds_active d)"
  have b: "c \<longrightarrow> begins" "ce_fleet ?en = (if begins then snd (begin_eggpool_request a f1) else f1)"
    using p [symmetric]
    by (cases "eggpool_desired_state (intents_set sub \<lparr>in_active = active, in_period = period\<rparr> (ce_intents en)) (ce_fleet en)";
        simp add: set_eggpool_intent_def Let_def begins_def a_def)+
  have rest: "ce_worker ?en = ce_worker en" "ce_converged ?en = ce_converged en" "ce_cron_endpoints ?en = ce_cron_endpoints en"
    by (simp_all add: set_eggpool_intent_def Let_def case_prod_beta)
  note f1 = intent_window [OF p]
  have fleet: "fl_systems (ce_fleet ?en) = fl_systems (ce_fleet en)"
    "map_option es_endpoint (fl_eggpool (ce_fleet ?en)) = map_option es_endpoint (fl_eggpool (ce_fleet en))"
    using f1 by (simp_all add: b(2) begin_eggpool_request_facts)
  have gen: "ce_fleet ?en = ce_fleet en \<or> map_option es_request_generation (fl_eggpool (ce_fleet ?en)) =
      map_option (\<lambda>g. sat_add64 g 1) (map_option es_request_generation (fl_eggpool (ce_fleet en)))"
  proof (cases begins)
    case True
    have "map_option es_request_generation (fl_eggpool (ce_fleet ?en)) =
        map_option (\<lambda>g. sat_add64 g 1) (map_option es_request_generation (fl_eggpool f1))"
      unfolding b(2) using True by (simp add: begin_eggpool_request_facts option.map_comp comp_def)
    then show ?thesis unfolding f1(3) by (rule disjI2)
  next
    case False
    then show ?thesis using b f1(4) by simp
  qed
  have "memo_current ?en"
  proof (cases "ce_fleet ?en = ce_fleet en")
    case True
    then show ?thesis using inv(2) rest(1,2) by (simp add: memo_current_def)
  next
    case False
    then have gen': "map_option es_request_generation (fl_eggpool (ce_fleet ?en)) =
        map_option (\<lambda>g. sat_add64 g 1) (map_option es_request_generation (fl_eggpool (ce_fleet en)))" using gen by blast
    show ?thesis
      unfolding memo_current_def rest
    proof (intro conjI allI impI)
      fix e' assume e': "fl_eggpool (ce_fleet ?en) = Some e'"
      then obtain e where "fl_eggpool (ce_fleet en) = Some e" "es_request_generation e' = sat_add64 (es_request_generation e) 1"
        using gen' by (cases "fl_eggpool (ce_fleet en)") simp_all
      then show "es_request_generation e' \<le> u64_max" by (simp add: sat_add64_def)
    next
      fix d e' assume "ce_converged en = Some d \<and> fl_eggpool (ce_fleet ?en) = Some e'"
      then have d: "ce_converged en = Some d" and e': "fl_eggpool (ce_fleet ?en) = Some e'" by simp_all
      then obtain e where e: "fl_eggpool (ce_fleet en) = Some e" "es_request_generation e' = sat_add64 (es_request_generation e) 1"
        using gen' by (cases "fl_eggpool (ce_fleet en)") simp_all
      have "ds_generation d \<le> es_request_generation e" "es_request_generation e \<le> u64_max"
        using inv(2) d e(1) by (simp_all add: memo_current_def)
      then show "ds_generation d \<le> es_request_generation e'"
        "ds_generation d = es_request_generation e' \<Longrightarrow> es_request_generation e' = u64_max \<or> ds_period d = es_period e'"
        using e(2) by (auto simp: sat_add64_def min_def split: if_splits)
    next
      show "ce_worker en = None \<Longrightarrow> ce_converged en = None" using inv(2) by (simp add: memo_current_def)
    qed
  qed
  moreover have "worker_wired ?en" using inv(1) fleet rest by (simp add: worker_wired_def)
  ultimately show ?thesis using inv fleet rest by (simp add: branch_inv_def)
qed

lemma branch_inv_sync:
  assumes "branch_inv js dirty en" shows "branch_inv js True (sync_eggpool_worker en)"
  using assms by (auto simp: branch_inv_def sync_eggpool_worker_def worker_wired_def)

lemma inv_branch: "engine_inv js en \<Longrightarrow> branch_inv js dirty en"
  by (simp add: engine_inv_def branch_inv_def)

lemma branch_inv_cong:
  assumes "branch_inv js dirty en" "ce_fleet en' = ce_fleet en" "ce_worker en' = ce_worker en" "ce_converged en' = ce_converged en"
    "ce_cron_endpoints en' = ce_cron_endpoints en"
  shows "branch_inv js True en'"
  using assms by (simp add: branch_inv_def worker_wired_def memo_current_def)

lemma branch_request:
  assumes "engine_inv js en" "event_ok (EvRequest sub request loaded)" "engine_branch (EvRequest sub request loaded) en = (Ok (c, dirty), en')"
  shows "branch_inv js dirty en'"
proof -
  obtain ack en1 where h: "handle_request loaded sub request en = (c, ack, en1)" and e: "en' = sync_eggpool_worker en1" "dirty = True"
    using assms(3) by (cases "handle_request loaded sub request en") auto
  note keep = branch_inv_sync [OF inv_branch [OF assms(1)]]
  show ?thesis
  proof (cases request)
    case (DR_ReloadConfig g)
    then have en1: "en1 = snd (reload_config loaded en)" using h by (auto simp: handle_request_def split: prod.splits)
    show ?thesis
    proof (cases loaded)
      case (Ok config)
      then show ?thesis using reload_inv [of config, OF _ assms(1)] assms(2) e en1 by simp
    next
      case (Err error)
      have "branch_inv js True en1"
      proof -
        have en1': "en1 = request_scheduler_poll CmdRefresh (en\<lparr>ce_fleet := set_config_reload_error (ustr ''config reload failed: '' @ error) (ce_fleet en)\<rparr>)"
          using en1 Err by (simp add: reload_config_def Let_def)
        show ?thesis
          using assms(1) unfolding en1'
          by (simp add: branch_inv_def request_poll_frame engine_inv_def set_config_reload_error_def worker_wired_def memo_current_def)
      qed
      then show ?thesis using e branch_inv_sync by blast
    qed
  next
    case (DR_SetEggpoolIntent active period refresh g)
    then have "en1 = set_eggpool_intent sub active period refresh en" using h by (simp add: handle_request_def)
    then show ?thesis using e branch_inv_sync [OF intent_inv [OF assms(1)]] by simp
  next
    case (DR_SetCronIntent sid job depth g)
    then have "en1 = set_cron_intent sub \<lparr>ci_system_id = sid, ci_job = job, ci_display_history = depth\<rparr> en" using h by (simp add: handle_request_def)
    then have "branch_inv js True en1"
      by (intro branch_inv_cong [OF inv_branch [OF assms(1)]]) (simp_all add: set_cron_intent_def Let_def)
    then show ?thesis using e branch_inv_sync by blast
  qed (use h e keep in \<open>simp_all add: handle_request_def\<close>)
qed

lemma turn_inv:
  assumes "engine_inv js en" "event_ok event" "engine_turn js now w event en = (Ok ControlContinue, en')"
  shows "engine_inv js en'"
proof -
  obtain c dirty en1 where b: "engine_branch event en = (Ok (c, dirty), en1)" and p: "publish_turn js now w c dirty en1 = (Ok ControlContinue, en')"
    using assms(3) by (auto simp: engine_turn_def split: prod.splits result.splits)
  have c: "c = ControlContinue" using p by (auto simp: publish_turn_def Let_def split: if_splits result.splits)
  have "branch_inv js dirty en1"
  proof (cases event)
    case (EvBatch x)
    then show ?thesis using branch_batch [OF assms(1)] b by blast
  next
    case (EvRequest x y z)
    then show ?thesis using branch_request [OF assms(1)] assms(2) b by blast
  next
    case (EvObservation x)
    then show ?thesis using branch_observation [OF assms(1)] b by blast
  next
    case EvEggpool
    then show ?thesis using branch_eggpool [OF assms(1)] b by blast
  next
    case EvTick
    then show ?thesis using branch_tick [OF assms(1)] b by blast
  next
    case (EvBatchClosed x)
    then have "\<exists>v. en1 = en\<lparr>ce_batch_open := v\<rparr>" using b by (auto simp: Let_def split: result.splits)
    then show ?thesis using assms(1)
      by (auto simp: engine_inv_def branch_inv_def worker_wired_def memo_current_def document_current_def)
  next
    case (EvEggpoolClosed x)
    then have "\<exists>v. en1 = en\<lparr>ce_received := v\<rparr>" using b by (auto simp: Let_def split: result.splits)
    then show ?thesis using assms(1)
      by (auto simp: engine_inv_def branch_inv_def worker_wired_def memo_current_def document_current_def)
  qed (use assms(1) b in \<open>simp_all add: inv_branch\<close>)
  with p c show ?thesis by (auto intro: publish_turn_inv)
qed

lemma engine_inv_cong:
  assumes "engine_inv js en" "ce_fleet en' = ce_fleet en" "ce_worker en' = ce_worker en" "ce_converged en' = ce_converged en"
    "ce_cron_endpoints en' = ce_cron_endpoints en" "ce_snapshot en' = ce_snapshot en" "ce_generation en' = ce_generation en"
    "ce_cron_dirty en' = ce_cron_dirty en"
  shows "engine_inv js en'"
  using assms by (simp add: engine_inv_def worker_wired_def memo_current_def document_current_def)

lemma engine_start_inv:
  assumes "client_config_wf config" "engine_start js now w config = Ok en"
  shows "engine_inv js en"
proof -
  let ?fleet = "from_config config"
  obtain document where d: "encode_document js now w ?fleet 1 cron_intents_default = Ok document"
    and en: "en = sync_eggpool_worker
          \<lparr>ce_fleet = ?fleet, ce_generation = 1, ce_converged = eggpool_desired_state [] ?fleet, ce_worker = None, ce_received = None,
           ce_cron_dirty = False, ce_cron_revision = 0, ce_snapshot = document, ce_intents = [],
           ce_cron_intents = cron_intents_default, ce_cron_endpoints = map to_endpoint (cf_systems config), ce_cron_notified = False,
           ce_commands = [], ce_poller_endpoints = map to_endpoint (cf_systems config), ce_batch_open = True\<rparr>"
    using assms(2) by (auto simp: engine_start_def Let_def split: result.splits)
  have "document_current js en"
    using d to_dto_face [of now w 1 cron_intents_default ?fleet] unfolding document_current_def en
    by (intro exI [of _ "to_dto_for now w 1 cron_intents_default ?fleet"])
      (auto simp: encode_document_def to_dto_for_def split: result.splits)
  moreover have "worker_wired en \<and> memo_current en"
    unfolding en
    by (rule sync_inv) (auto simp: from_config_def eggpool_state_new_def eggpool_desired_state_def worker_wired_def memo_current_def split: option.splits)
  moreover have "distinct (map sy_id (fl_systems ?fleet))" "map to_endpoint (cf_systems config) = map sy_endpoint (fl_systems ?fleet)"
    using assms(1) by (auto simp: from_config_def client_config_wf_def comp_def system_from_entry_def Let_def)
  ultimately show ?thesis by (simp add: engine_inv_def en)
qed

lemma worker_step_ended: "worker_step endpoint w w' \<Longrightarrow> ew_ended w \<Longrightarrow> ew_ended w'"
  by (erule worker_step.cases) (auto simp: control_publish_def)

lemma daemon_inv: "daemon_reach js en \<Longrightarrow> engine_inv js en"
proof (induction rule: daemon_reach.induct)
  case (start config now w en)
  then show ?case by (rule engine_start_inv)
next
  case (step en en')
  from step.hyps(2) show ?case
  proof cases
    case turn
    then show ?thesis using step.IH by (blast intro: turn_inv)
  next
    case (worker handle w)
    then show ?thesis
      using step.IH by (auto simp: engine_inv_def worker_wired_def memo_current_def document_current_def
          intro: worker_reach.step worker_step_ended)
  qed (auto intro: engine_inv_cong [OF step.IH] simp: attach_subscriber_def detach_subscriber_def poller_takes_def
      split: list.splits SchedulerCommand.splits)
qed


text \<open>The polling task takes the queued commands in order, so the last endpoints it is sent are the ones it keeps.\<close>

definition command_endpoints :: "SchedulerCommand \<Rightarrow> Endpoint list \<Rightarrow> Endpoint list" where
  "command_endpoints command old = (case command of CmdRefresh \<Rightarrow> old | CmdReplaceEndpoints endpoints \<Rightarrow> endpoints)"

lemma poller_drains:
  "ce_poller_endpoints ((poller_takes ^^ length (ce_commands en)) en) = fold command_endpoints (ce_commands en) (ce_poller_endpoints en)"
proof (induction "ce_commands en" arbitrary: en)
  case Nil
  then show ?case by (simp flip: Nil)
next
  case (Cons command rest)
  have step: "ce_commands (poller_takes en) = rest" "ce_poller_endpoints (poller_takes en) = command_endpoints command (ce_poller_endpoints en)"
    using Cons.hyps(2) [symmetric] by (simp_all add: poller_takes_def command_endpoints_def split: SchedulerCommand.split)
  have "(poller_takes ^^ length (ce_commands en)) en = (poller_takes ^^ length (ce_commands (poller_takes en))) (poller_takes en)"
    by (simp add: step(1) Cons.hyps(2) [symmetric] funpow_swap1)
  then show ?case using Cons.hyps(1) [OF step(1) [symmetric]] step by (simp flip: Cons.hyps(2))
qed

section \<open>Properties\<close>


definition example_frames :: "FrontendFrame codec" where
  "example_frames = \<lparr>jc_encode = \<lambda>_. Ok [], jc_decode = \<lambda>_. Err []\<rparr>"

definition example_pool :: ClientConfig where
  "example_pool = example_config\<lparr>cf_eggpool := Some example_entry\<rparr>"

lemma example_pool_wf: "client_config_wf example_pool"
  using client_parse_wf [OF example_config_parses] by (simp add: example_pool_def client_config_wf_def)

lemma example_frames_encode: "encode_frame example_frames f = Ok (length_prefix 0)"
  by (simp add: encode_frame_def example_frames_def MAX_FRAME_BYTES_def)

definition example_engine :: Engine where
  "example_engine = sync_eggpool_worker
     \<lparr>ce_fleet = from_config example_pool, ce_generation = 1, ce_converged = eggpool_desired_state [] (from_config example_pool),
      ce_worker = None, ce_received = None, ce_cron_dirty = False, ce_cron_revision = 0,
      ce_snapshot = \<lparr>do_generation = 1, do_encoded = length_prefix 0\<rparr>, ce_intents = [],
      ce_cron_intents = cron_intents_default, ce_cron_endpoints = map to_endpoint (cf_systems example_pool), ce_cron_notified = False,
      ce_commands = [], ce_poller_endpoints = map to_endpoint (cf_systems example_pool), ce_batch_open = True\<rparr>"

lemma example_engine_reached: "daemon_reach example_frames example_engine"
  by (rule daemon_reach.start [OF example_pool_wf, of _ 0 0])
    (simp add: engine_start_def encode_document_def example_frames_encode example_engine_def Let_def)

lemma example_engine_simps [simp]:
  "ce_fleet example_engine = from_config example_pool" "ce_generation example_engine = 1" "ce_intents example_engine = []"
  "ce_worker example_engine = Some \<lparr>wh_endpoint = example_entry, wh_worker = worker_new\<rparr>" "ce_converged example_engine = None"
  "ce_cron_dirty example_engine = False" "ce_commands example_engine = []"
  "ce_poller_endpoints example_engine = map to_endpoint (cf_systems example_pool)"
  "fl_eggpool (from_config example_pool) = Some (eggpool_state_new example_entry)"
  by (simp_all add: example_engine_def sync_eggpool_worker_def Let_def from_config_def example_pool_def eggpool_state_new_def)


text \<open>What a tick leaves, with a live worker.\<close>

lemma tick_facts:
  assumes "daemon_reach js en" "ce_worker en = Some h" "\<not> ew_ended (wh_worker h)"
    "fl_eggpool (ce_fleet en) = Some e" "es_request_generation e < u64_max"
    "engine_branch EvTick en = (Ok (c, dirty), en')"
  shows "\<exists>h' e'. ce_worker en' = Some h' \<and> fl_eggpool (ce_fleet en') = Some e' \<and>
    es_period e' = converged_period (es_period e) (ce_intents en) \<and>
    ew_published (wh_worker h') = \<lparr>ds_active = any_active (ce_intents en), ds_period = es_period e', ds_generation = es_request_generation e'\<rparr> \<and>
    ce_converged en' = Some (ew_published (wh_worker h')) \<and>
    (\<forall>r. er_generation r = es_request_generation e' \<and> er_period r = es_period e' \<and> er_summary r \<noteq> EF_Cancelled \<longrightarrow>
      map_option es_worker_state (fl_eggpool (snd (apply_eggpool_result_changed r (ce_fleet en')))) = Some WorkerIdle)"
proof -
  let ?p = "converged_period (es_period e) (ce_intents en)"
  let ?d = "\<lparr>ds_active = any_active (ce_intents en), ds_period = ?p, ds_generation = es_request_generation e\<rparr>"
  have inv: "worker_wired en" "memo_current en" using daemon_inv [OF assms(1)] by (simp_all add: engine_inv_def)
  obtain dirty1 en1 where r: "reduce_intents en = (dirty1, en1)" by fastforce
  have en': "ce_worker en' = ce_worker en1" "ce_fleet en' = ce_fleet en1" "ce_converged en' = ce_converged en1"
    using assms(6) r by (auto simp: note_cron_intent_revision_def Let_def split: if_splits)
  have accepts: "\<forall>r. er_generation r = es_request_generation e' \<and> er_period r = es_period e' \<and> er_summary r \<noteq> EF_Cancelled \<longrightarrow>
      map_option es_worker_state (fl_eggpool (snd (apply_eggpool_result_changed r f))) = Some WorkerIdle"
    if "fl_eggpool f = Some e'" for f e'
    using eggpool_result_applied [OF that] by fastforce
  show ?thesis
  proof (cases "ce_converged en = Some ?d")
    case True
    then have "reduce_intents en = (False, en)"
      by (intro reduce_intents_idle) (simp add: eggpool_desired_state_def assms(4))
    then have "en1 = en" using r by simp
    moreover have "es_period e = ?p" "ew_published (wh_worker h) = ?d"
      using inv True assms(2-5) by (auto simp: memo_current_def worker_wired_def)
    ultimately show ?thesis
      using assms(2,4) True en' accepts [OF assms(4)] by (intro exI [of _ h] exI [of _ e]) auto
  next
    case False
    from reduce_intents_cases [OF assms(2,4) False] obtain e' fleet d' where f: "fl_eggpool fleet = Some e'" "es_period e' = ?p"
      "d' = \<lparr>ds_active = any_active (ce_intents en), ds_period = es_period e', ds_generation = es_request_generation e'\<rparr>"
      "snd (reduce_intents en) = en\<lparr>ce_fleet := fleet, ce_converged := Some d',
         ce_worker := Some (h\<lparr>wh_worker := control_publish d' (wh_worker h)\<rparr>)\<rparr>"
      using assms(3) by auto
    then have en1: "en1 = en\<lparr>ce_fleet := fleet, ce_converged := Some d',
         ce_worker := Some (h\<lparr>wh_worker := control_publish d' (wh_worker h)\<rparr>)\<rparr>" using r by simp
    show ?thesis
      using f(1-3) accepts [OF f(1)] unfolding en' en1
      by (intro exI [of _ "h\<lparr>wh_worker := control_publish d' (wh_worker h)\<rparr>"] exI [of _ e']) (auto simp: control_publish_def)
  qed
qed

text \<open>
  C14. A tick arms the live worker: afterwards the state published to the worker, the daemon's memo and the
  fleet agree on activity, period and generation, the period is the reduction of the frontends' intents,
  and whatever the worker answers for that state is accepted and ends the pane's \<open>Refreshing\<close>.
\<close>

theorem tick_arms_worker:
  assumes "daemon_reach js en" "ce_worker en = Some h" "\<not> ew_ended (wh_worker h)"
    "fl_eggpool (ce_fleet en) = Some e" "es_request_generation e < u64_max"
    "engine_branch EvTick en = (Ok (c, dirty), en')"
  shows "\<exists>h' e'. ce_worker en' = Some h' \<and> fl_eggpool (ce_fleet en') = Some e' \<and>
    es_period e' = converged_period (es_period e) (ce_intents en) \<and>
    ew_published (wh_worker h') = \<lparr>ds_active = any_active (ce_intents en), ds_period = es_period e', ds_generation = es_request_generation e'\<rparr> \<and>
    ce_converged en' = Some (ew_published (wh_worker h')) \<and>
    (\<forall>r. er_generation r = es_request_generation e' \<and> er_period r = es_period e' \<and> er_summary r \<noteq> EF_Cancelled \<longrightarrow>
      map_option es_worker_state (fl_eggpool (snd (apply_eggpool_result_changed r (ce_fleet en')))) = Some WorkerIdle)"
  using assms by (rule tick_facts)

definition asked_engine :: Engine where
  "asked_engine = snd (engine_turn example_frames 0 0 (EvRequest 7 (DR_SetEggpoolIntent True PeriodDay False 1) (Err [])) example_engine)"

lemma asked_engine_reached: "daemon_reach example_frames asked_engine"
proof (rule daemon_reach.step [OF example_engine_reached], rule daemon_step.turn)
  show "engine_turn example_frames 0 0 (EvRequest 7 (DR_SetEggpoolIntent True PeriodDay False 1) (Err [])) example_engine =
      (Ok ControlContinue, asked_engine)"
    by (auto simp: asked_engine_def engine_turn_def handle_request_def publish_turn_def Let_def encode_document_def
        example_frames_encode prod_eq_iff)
qed simp

lemma asked_engine_facts:
  "ce_worker asked_engine = Some \<lparr>wh_endpoint = example_entry, wh_worker = worker_new\<rparr>"
  "fl_eggpool (ce_fleet asked_engine) = Some ((eggpool_state_new example_entry)
     \<lparr>es_period := PeriodDay, es_request_generation := 1, es_worker_state := WorkerRefreshing\<rparr>)"
  "ce_intents asked_engine = [(7, \<lparr>in_active = True, in_period = PeriodDay\<rparr>)]"
  by (simp_all add: asked_engine_def engine_turn_def handle_request_def publish_turn_def Let_def encode_document_def
      example_frames_encode set_eggpool_intent_def intents_set_def eggpool_desired_state_def any_active_def converged_period_def
      set_eggpool_period_def begin_eggpool_request_def eggpool_state_new_def sync_eggpool_worker_def sat_add64_def u64_max_def)

theorem tick_arms_worker_witness:
  "map_option (\<lambda>h. ew_published (wh_worker h)) (ce_worker (snd (engine_branch EvTick asked_engine))) =
     Some \<lparr>ds_active = True, ds_period = PeriodDay, ds_generation = es_request_generation
       (the (fl_eggpool (ce_fleet (snd (engine_branch EvTick asked_engine)))))\<rparr>"
proof -
  obtain c dirty en' where t: "engine_branch EvTick asked_engine = (Ok (c, dirty), en')"
    by (cases "engine_branch EvTick asked_engine") (auto simp: case_prod_beta Let_def)
  have "any_active (ce_intents asked_engine)" "converged_period PeriodDay (ce_intents asked_engine) = PeriodDay"
    by (simp_all add: asked_engine_facts any_active_def converged_period_def)
  moreover have "es_request_generation ((eggpool_state_new example_entry)
      \<lparr>es_period := PeriodDay, es_request_generation := 1, es_worker_state := WorkerRefreshing\<rparr>) < u64_max" by (simp add: u64_max_def)
  moreover have "\<not> ew_ended (wh_worker \<lparr>wh_endpoint = example_entry, wh_worker = worker_new\<rparr>)" by (simp add: worker_new_def)
  ultimately obtain h' e' where "ce_worker en' = Some h'" "fl_eggpool (ce_fleet en') = Some e'" "es_period e' = PeriodDay"
    "ew_published (wh_worker h') = \<lparr>ds_active = True, ds_period = es_period e', ds_generation = es_request_generation e'\<rparr>"
    using tick_arms_worker [OF asked_engine_reached asked_engine_facts(1) _ asked_engine_facts(2) _ t] by auto
  then show ?thesis unfolding t by simp
qed

text \<open>
  C17. A reload that loads reaches everything it must: the fleet, the cron worker's targets and the EggPool
  worker are those of the file at once. The polling task has them once it has read its queue, but only when
  the queue had a free slot: with four commands waiting it is left with the endpoints queued before.
\<close>

theorem reload_reaches_planes:
  assumes "daemon_reach js en" "client_config_wf config"
    "engine_branch (EvRequest sub (DR_ReloadConfig g) (Ok config)) en = (Ok (c, dirty), en')"
  shows "map sy_id (fl_systems (ce_fleet en')) = map se_id (cf_systems config) \<and>
    map sy_endpoint (fl_systems (ce_fleet en')) = map to_endpoint (cf_systems config) \<and>
    ce_cron_endpoints en' = map to_endpoint (cf_systems config) \<and>
    map_option wh_endpoint (ce_worker en') = cf_eggpool config \<and>
    ce_poller_endpoints ((poller_takes ^^ length (ce_commands en')) en') =
      (if length (ce_commands en) < SCHEDULER_COMMAND_CAPACITY then map to_endpoint (cf_systems config)
       else ce_poller_endpoints ((poller_takes ^^ length (ce_commands en)) en))"
proof -
  let ?en = "snd (reload_config (Ok config) en)"
  have inv: "engine_inv js en" by (rule daemon_inv [OF assms(1)])
  then have ids: "distinct (map sy_id (fl_systems (ce_fleet en)))" by (simp add: engine_inv_def)
  note f = reload_fleet [OF assms(2) ids]
  have en': "en' = sync_eggpool_worker ?en"
    using assms(3) by (auto simp: handle_request_def case_prod_beta)
  have wired: "worker_wired en'" using reload_inv [OF assms(2) inv] en' by (simp add: branch_inv_def)
  have pool: "map_option es_endpoint (fl_eggpool (ce_fleet en')) = cf_eggpool config"
    by (cases "cf_eggpool config"; cases "fl_eggpool (ce_fleet en)") (simp_all add: en' f eggpool_state_new_def)
  have cmds: "ce_commands en' = (if length (ce_commands en) < SCHEDULER_COMMAND_CAPACITY
      then ce_commands en @ [CmdReplaceEndpoints (map to_endpoint (cf_systems config))] else ce_commands en)"
    by (simp add: en' reload_config_def Let_def request_scheduler_poll_def)
  have "ce_poller_endpoints ((poller_takes ^^ length (ce_commands en')) en') =
      (if length (ce_commands en) < SCHEDULER_COMMAND_CAPACITY then map to_endpoint (cf_systems config)
       else ce_poller_endpoints ((poller_takes ^^ length (ce_commands en)) en))"
    unfolding poller_drains unfolding cmds by (simp add: en' f command_endpoints_def)
  then show ?thesis using wired pool f(1-3) by (simp add: worker_wired_def) (simp add: en')
qed

theorem reload_reaches_planes_witness:
  "ce_worker (snd (engine_branch (EvRequest 7 (DR_ReloadConfig 2) (Ok example_config)) example_engine)) = None \<and>
   ce_poller_endpoints ((poller_takes ^^ 1) (snd (engine_branch (EvRequest 7 (DR_ReloadConfig 2) (Ok example_config)) example_engine))) =
     map to_endpoint (cf_systems example_config)"
proof -
  obtain c dirty en' where b: "engine_branch (EvRequest 7 (DR_ReloadConfig 2) (Ok example_config)) example_engine = (Ok (c, dirty), en')"
    by (cases "handle_request (Ok example_config) 7 (DR_ReloadConfig 2) example_engine") auto
  have "ce_commands en' = [CmdReplaceEndpoints (map to_endpoint (cf_systems example_config))]"
    using b by (auto simp: handle_request_def reload_config_def Let_def request_scheduler_poll_def SCHEDULER_COMMAND_CAPACITY_def)
  then show ?thesis
    using reload_reaches_planes [OF example_engine_reached client_parse_wf [OF example_config_parses] b]
    unfolding b by (simp add: SCHEDULER_COMMAND_CAPACITY_def) (simp add: example_config_def client_config_default_def)
qed

text \<open>
  When the frontends that had the pane open are gone, the tick tells the worker to stop, and an inactive
  worker answers nothing; but the period need not move then, and a request state of \<open>Refreshing\<close> is kept.
\<close>

theorem departure_strands_refreshing:
  assumes "daemon_reach js en" "ce_worker en = Some h" "\<not> ew_ended (wh_worker h)"
    "fl_eggpool (ce_fleet en) = Some e" "es_request_generation e < u64_max" "es_worker_state e = WorkerRefreshing"
    "\<not> any_active (ce_intents en)" "engine_branch EvTick en = (Ok (c, dirty), en')"
  shows "map_option es_worker_state (fl_eggpool (ce_fleet en')) = Some WorkerRefreshing \<and>
    map_option (\<lambda>h. ds_active (ew_published (wh_worker h))) (ce_worker en') = Some False"
proof -
  have idle: "converged_period (es_period e) (ce_intents en) = es_period e"
    using assms(7) by (simp add: converged_period_Min any_active_iff)
  obtain dirty1 en1 where r: "reduce_intents en = (dirty1, en1)" by fastforce
  have en': "ce_fleet en' = ce_fleet en1"
    using assms(8) r by (auto simp: note_cron_intent_revision_def Let_def split: if_splits)
  have "ce_fleet en1 = ce_fleet en"
  proof (cases "ce_converged en = Some \<lparr>ds_active = any_active (ce_intents en),
      ds_period = converged_period (es_period e) (ce_intents en), ds_generation = es_request_generation e\<rparr>")
    case True
    then show ?thesis using r reduce_intents_idle [of en] by (simp add: eggpool_desired_state_def assms(4))
  next
    case False
    from reduce_intents_cases [OF assms(2,4) False] idle r assms(3) show ?thesis by auto
  qed
  with tick_facts [OF assms(1-5,8)] show ?thesis using en' assms(4,6,7) by auto
qed

end
