(* ===== verification/Client_Serve.thy ===== *)
theory Client_Serve
  imports Client_Engine
begin

text \<open>
  A connection of the client daemon and how a frontend attaches to it
  (\<open>crates/gregg/src/clientd/daemon.rs\<close>: \<open>serve\<close>, \<open>serve_inner\<close>, \<open>attach\<close>; the error texts of
  \<open>clientd/ipc.rs\<close> and \<open>clientd/protocol.rs\<close>).

  The socket, the choice of \<open>select!\<close>, \<open>serde_json\<close> and the derived \<open>Debug\<close> texts are arguments: an event of
  a turn says which branch was taken and what it received, and every write has the outcomes of its own.

  The lemmas show that nothing precedes the \<open>Hello\<close> frame, that requests reach the engine only from
  a frontend of this configuration, and what a frontend of another protocol version is told.
\<close>

section \<open>Error texts\<close>

definition length_problem_text :: "(length_problem \<Rightarrow> rstr) \<Rightarrow> length_problem \<Rightarrow> rstr" where
  "length_problem_text std p =
     (case p of
        WrongByteCount n \<Rightarrow> ustr ''expected '' @ dec_nat LEN_PREFIX_BYTES @ ustr '' bytes, got '' @ dec_nat n
      | NoNewline \<Rightarrow> ustr ''missing newline terminator''
      | other \<Rightarrow> std other)"

definition decode_error_text :: "(length_problem \<Rightarrow> rstr) \<Rightarrow> DecodeError \<Rightarrow> rstr" where
  "decode_error_text std e =
     (case e of
        DE_Closed \<Rightarrow> ustr ''connection closed''
      | DE_Io message \<Rightarrow> ustr ''transport error: '' @ message
      | DE_MalformedLength p \<Rightarrow> ustr ''malformed length prefix: '' @ length_problem_text std p
      | DE_TooLarge len mx \<Rightarrow> ustr ''announced frame of '' @ dec_nat len @ ustr '' bytes exceeds the '' @ dec_nat mx @ ustr ''-byte cap''
      | DE_NotUtf8 \<Rightarrow> ustr ''frame body was not valid UTF-8''
      | DE_MalformedBody message \<Rightarrow> ustr ''malformed frame body: '' @ message)"

record std_texts =
  st_parse :: "length_problem \<Rightarrow> rstr"
  st_io :: "io_error \<Rightarrow> rstr"
  st_request :: "DaemonRequest \<Rightarrow> rstr"

definition transport_error_text :: "std_texts \<Rightarrow> TransportError \<Rightarrow> rstr" where
  "transport_error_text std e =
     (case e of
        TE_Disconnected \<Rightarrow> ustr ''peer disconnected''
      | TE_WouldBlock \<Rightarrow> ustr ''no data available''
      | TE_Decode error \<Rightarrow> decode_error_text (st_parse std) error
      | TE_Io error \<Rightarrow> ustr ''io error: '' @ st_io std error
      | TE_Protocol message \<Rightarrow> ustr ''protocol error: '' @ message
      | TE_HandshakeExpected request \<Rightarrow> ustr ''protocol error: expected a handshake before '' @ st_request std request
      | TE_VersionMismatch daemon frontend \<Rightarrow>
          ustr ''client daemon speaks protocol '' @ dec_nat daemon @ ustr '', this frontend speaks '' @ dec_nat frontend
      | TE_ConfigMismatch actual expected \<Rightarrow>
          ustr ''endpoint is serving client daemon '' @ actual @ ustr '', not the requested '' @ expected)"

section \<open>One connection\<close>

text \<open>
  What a turn meets: the published document when the handshake reads it and when the state is written,
  whether the engine's request queue has room, the branch taken, and the outcomes of each write.
\<close>

datatype serve_event = SvPublished | SvEngineGone | SvAck FrontendFrame | SvPoll read_outcome

record serve_env =
  se_current :: Document
  se_latest :: Document
  se_accepting :: bool
  se_event :: serve_event
  se_hello_io :: "write_outcome list"
  se_current_io :: "write_outcome list"
  se_event_io :: "write_outcome list"
  se_state_io :: "write_outcome list"

text \<open>What a connection does to the daemon: register its subscriber, or forward a request.\<close>

datatype serve_effect = Registered | Forwarded DaemonRequest

record serve_state =
  ss_connection :: Connection
  ss_handshake_done :: bool
  ss_effects :: "serve_effect list"
  ss_sent :: "byte list"

record serve_config =
  sc_requests :: "DaemonRequest codec"
  sc_frames :: "FrontendFrame codec"
  sc_version :: rstr
  sc_daemon_id :: rstr

definition send_encoded :: "byte list \<Rightarrow> write_outcome list \<Rightarrow> serve_state \<Rightarrow> (unit, TransportError) result \<times> serve_state" where
  "send_encoded encoded outs s =
     (case write_encoded encoded outs (ss_connection s) of
        (r, c, sent) \<Rightarrow> (r, s\<lparr>ss_connection := c, ss_sent := ss_sent s @ sent\<rparr>))"

definition send_frame :: "serve_config \<Rightarrow> FrontendFrame \<Rightarrow> write_outcome list \<Rightarrow> serve_state \<Rightarrow> (unit, TransportError) result \<times> serve_state" where
  "send_frame cfg frame outs s =
     (case write_frame (sc_frames cfg) frame outs (ss_connection s) of
        (r, c, sent) \<Rightarrow> (r, s\<lparr>ss_connection := c, ss_sent := ss_sent s @ sent\<rparr>))"

definition hello_frame :: "serve_config \<Rightarrow> nat \<Rightarrow> FrontendFrame" where
  "hello_frame cfg generation = FF_Hello \<lparr>hp_protocol_version = PROTOCOL_VERSION, hp_version = sc_version cfg,
     hp_daemon_id = sc_daemon_id cfg, hp_current_generation = generation\<rparr>"

definition complete_handshake :: "serve_config \<Rightarrow> serve_env \<Rightarrow> serve_state \<Rightarrow> (unit, TransportError) result \<times> serve_state" where
  "complete_handshake cfg env s =
     (case verify_daemon_id (sc_daemon_id cfg) (ss_connection s) of
        Err e \<Rightarrow> (Err e, s)
      | Ok _ \<Rightarrow>
          (case send_frame cfg (hello_frame cfg (do_generation (se_current env))) (se_hello_io env) (s\<lparr>ss_handshake_done := True\<rparr>) of
             (Err e, s) \<Rightarrow> (Err e, s)
           | (Ok _, s) \<Rightarrow>
               (case send_encoded (do_encoded (se_current env)) (se_current_io env) s of
                  (Err e, s) \<Rightarrow> (Err e, s)
                | (Ok _, s) \<Rightarrow> (Ok (), s\<lparr>ss_effects := ss_effects s @ [Registered]\<rparr>))))"

definition serve_request :: "serve_config \<Rightarrow> serve_env \<Rightarrow> serve_state \<Rightarrow> (unit, TransportError) result \<times> serve_state" where
  "serve_request cfg env s =
     (case try_read_request (sc_requests cfg) (ss_connection s) of
        (Err e, c) \<Rightarrow> (Err e, s\<lparr>ss_connection := c\<rparr>)
      | (Ok None, c) \<Rightarrow> (Ok (), s\<lparr>ss_connection := c\<rparr>)
      | (Ok (Some request), c) \<Rightarrow>
          let s = s\<lparr>ss_connection := c\<rparr> in
          if \<not> ss_handshake_done s
          then (case request of
                  DR_Handshake _ _ _ \<Rightarrow> complete_handshake cfg env s
                | other \<Rightarrow> (Err (TE_HandshakeExpected other), s))
          else if se_accepting env then (Ok (), s\<lparr>ss_effects := ss_effects s @ [Forwarded request]\<rparr>)
          else (Err (TE_Protocol (ustr ''the client daemon is not accepting requests'')), s))"

text \<open>The branch: \<open>None\<close> ends the connection in order, otherwise whether to write the state.\<close>

definition serve_branch :: "serve_config \<Rightarrow> serve_env \<Rightarrow> serve_state \<Rightarrow> (bool option, TransportError) result \<times> serve_state" where
  "serve_branch cfg env s =
     (case se_event env of
        SvEngineGone \<Rightarrow> (Ok None, snd (send_frame cfg FF_ShuttingDown (se_event_io env) s))
      | SvPublished \<Rightarrow> (Ok (Some (ss_handshake_done s)), s)
      | SvAck frame \<Rightarrow>
          (case send_frame cfg frame (se_event_io env) s of (Err e, s) \<Rightarrow> (Err e, s) | (Ok _, s) \<Rightarrow> (Ok (Some False), s))
      | SvPoll r \<Rightarrow>
          (case flush_outbound (se_event_io env) (ss_connection s) of
             (pushed, c, sent) \<Rightarrow>
               let s = s\<lparr>ss_connection := c, ss_sent := ss_sent s @ sent\<rparr> in
               (case pushed of
                  Err e \<Rightarrow> (Err e, s)
                | Ok _ \<Rightarrow>
                    (case read_available r of
                       Ok bytes \<Rightarrow>
                         (case push_bytes bytes (ss_connection s) of
                            (Err e, c) \<Rightarrow> (Err e, s\<lparr>ss_connection := c\<rparr>)
                          | (Ok _, c) \<Rightarrow> (Ok (Some False), s\<lparr>ss_connection := c\<rparr>))
                     | Err TE_WouldBlock \<Rightarrow> (Ok (Some False), s)
                     | Err TE_Disconnected \<Rightarrow> (Ok None, s)
                     | Err e \<Rightarrow> (Err e, s)))))"

definition serve_turn :: "serve_config \<Rightarrow> serve_env \<Rightarrow> serve_state \<Rightarrow> (bool, TransportError) result \<times> serve_state" where
  "serve_turn cfg env s =
     (case serve_request cfg env s of
        (Err e, s) \<Rightarrow> (Err e, s)
      | (Ok _, s) \<Rightarrow>
          (case serve_branch cfg env s of
             (Err e, s) \<Rightarrow> (Err e, s)
           | (Ok None, s) \<Rightarrow> (Ok False, s)
           | (Ok (Some False), s) \<Rightarrow> (Ok True, s)
           | (Ok (Some True), s) \<Rightarrow>
               (case send_encoded (do_encoded (se_latest env)) (se_state_io env) s of
                  (Err e, s) \<Rightarrow> (Err e, s) | (Ok _, s) \<Rightarrow> (Ok True, s))))"

text \<open>The turns of one connection; \<open>Ok True\<close> means that the turns given did not end it.\<close>

fun serve_inner :: "serve_config \<Rightarrow> serve_env list \<Rightarrow> serve_state \<Rightarrow> (bool, TransportError) result \<times> serve_state" where
  "serve_inner cfg [] s = (Ok True, s)"
| "serve_inner cfg (env # envs) s =
     (case serve_turn cfg env s of
        (Err e, s) \<Rightarrow> (Err e, s)
      | (Ok False, s) \<Rightarrow> (Ok False, s)
      | (Ok True, s) \<Rightarrow> serve_inner cfg envs s)"

definition serve_start :: serve_state where
  "serve_start = \<lparr>ss_connection = connection_new, ss_handshake_done = False, ss_effects = [], ss_sent = []\<rparr>"

text \<open>The whole connection: a failure is written to the peer, as far as it takes it.\<close>

definition serve :: "serve_config \<Rightarrow> std_texts \<Rightarrow> write_outcome list \<Rightarrow> serve_env list \<Rightarrow> (bool, TransportError) result \<times> serve_state" where
  "serve cfg std outs envs =
     (case serve_inner cfg envs serve_start of
        (Ok live, s) \<Rightarrow> (Ok live, s)
      | (Err e, s) \<Rightarrow> (Err e, snd (send_frame cfg (FF_ProtocolError (transport_error_text std e)) outs s)))"

section \<open>Attaching\<close>

datatype AttachError =
    AE_Transport TransportError
  | AE_HandshakeTimeout
  | AE_Disconnected
  | AE_VersionMismatch (ae_daemon: nat) (ae_frontend: nat)
  | AE_Refused rstr

definition is_absent :: "AttachError \<Rightarrow> bool" where
  "is_absent e = (case e of AE_Transport _ \<Rightarrow> True | _ \<Rightarrow> False)"

definition front_error_text :: "std_texts \<Rightarrow> FrontError \<Rightarrow> rstr" where
  "front_error_text std e =
     (case e of
        FE_Transport error \<Rightarrow> ustr ''the client daemon connection failed: '' @ transport_error_text std error
      | FE_Decode error \<Rightarrow> ustr ''the client daemon sent an invalid frame: '' @ decode_error_text (st_parse std) error
      | FE_Malformed message \<Rightarrow> ustr ''the client daemon sent a malformed frame: '' @ message
      | FE_Disconnected \<Rightarrow> ustr ''the client daemon closed the connection''
      | FE_Timeout \<Rightarrow> ustr ''the client daemon did not answer in time''
      | FE_ChannelFull \<Rightarrow> ustr ''the client daemon has not acknowledged recent requests'')"

text \<open>
  \<open>dialed\<close> is the result of dialing the candidates, \<open>shaken\<close> of writing the handshake, \<open>first\<close> of waiting
  for the first frame; \<open>dbg\<close> is the derived text of a frame.
\<close>

definition attach :: "std_texts \<Rightarrow> (FrontendFrame \<Rightarrow> rstr) \<Rightarrow> (unit, TransportError) result \<Rightarrow> (unit, TransportError) result \<Rightarrow>
    (FrontendFrame, FrontError) result \<Rightarrow> (HelloPayload, AttachError) result" where
  "attach std dbg dialed shaken first_frame =
     (case dialed of
        Err e \<Rightarrow> Err (AE_Transport e)
      | Ok _ \<Rightarrow>
          (case shaken of
             Err e \<Rightarrow> Err (AE_Transport e)
           | Ok _ \<Rightarrow>
               (case first_frame of
                  Err FE_Timeout \<Rightarrow> Err AE_HandshakeTimeout
                | Err FE_Disconnected \<Rightarrow> Err AE_Disconnected
                | Err other \<Rightarrow> Err (AE_Refused (front_error_text std other))
                | Ok (FF_Hello hello) \<Rightarrow> Ok hello
                | Ok (FF_VersionMismatch payload) \<Rightarrow> Err (AE_VersionMismatch (vm_daemon payload) (vm_frontend payload))
                | Ok (FF_ProtocolError message) \<Rightarrow> Err (AE_Refused message)
                | Ok other \<Rightarrow> Err (AE_Refused (ustr ''expected a hello frame, got '' @ dbg other)))))"

section \<open>What a connection keeps\<close>

lemma flush_outbound_keeps:
  "flush_outbound outs c = (r, c', sent) \<Longrightarrow> cn_claimed_daemon_id c' = cn_claimed_daemon_id c \<and> cn_handshaken c' = cn_handshaken c"
proof (induction outs arbitrary: c r c' sent)
  case Nil
  then show ?case by (auto simp: next_inflight_cases split: option.splits)
next
  case (Cons out outs)
  show ?case
  proof (cases "next_inflight c")
    case None
    then show ?thesis using Cons.prems by simp
  next
    case (Some d)
    have d: "cn_claimed_daemon_id d = cn_claimed_daemon_id c" "cn_handshaken d = cn_handshaken c"
      using Some by (auto simp: next_inflight_cases)
    from flush_outbound_step [OF Cons.prems Some] show ?thesis
    proof (elim disjE exE conjE)
      fix n sent' assume "flush_outbound outs (d\<lparr>cn_inflight := drop n (cn_inflight d)\<rparr>) = (r, c', sent')"
      from Cons.IH [OF this] d show ?thesis by simp
    qed (use d in simp_all)
  qed
qed

lemma flush_outbound_stream:
  assumes "flush_outbound outs c = (r, c', sent)"
  shows "\<exists>q. sent @ cn_inflight c' = cn_inflight c @ q"
    "cn_inflight c = [] \<Longrightarrow> cn_queued c = None \<Longrightarrow> c' = c \<and> sent = [] \<and> r = Ok True"
proof -
  show "\<exists>q. sent @ cn_inflight c' = cn_inflight c @ q"
    using flush_outbound_flushed [OF assms] unfolding flushed_def by (metis append_Nil2)
  show "cn_inflight c = [] \<Longrightarrow> cn_queued c = None \<Longrightarrow> c' = c \<and> sent = [] \<and> r = Ok True"
    using assms by (cases outs) (auto simp: next_inflight_def)
qed

lemma write_encoded_stream:
  assumes "write_encoded enc outs c = (r, c', sent)"
  shows "\<exists>q. sent @ cn_inflight c' = cn_inflight c @ q" "cn_inflight c = [] \<Longrightarrow> \<exists>q. sent @ cn_inflight c' = enc @ q"
    "cn_claimed_daemon_id c' = cn_claimed_daemon_id c \<and> cn_handshaken c' = cn_handshaken c"
proof -
  let ?d = "if cn_inflight c = [] then c\<lparr>cn_inflight := enc\<rparr> else c\<lparr>cn_queued := Some enc\<rparr>"
  obtain r' where f: "flush_outbound outs ?d = (r', c', sent)"
    using assms by (auto simp: write_encoded_def Let_def split: prod.splits result.splits)
  show "\<exists>q. sent @ cn_inflight c' = cn_inflight c @ q" "cn_inflight c = [] \<Longrightarrow> \<exists>q. sent @ cn_inflight c' = enc @ q"
    using flush_outbound_stream(1) [OF f] by (auto split: if_splits)
  show "cn_claimed_daemon_id c' = cn_claimed_daemon_id c \<and> cn_handshaken c' = cn_handshaken c"
    using flush_outbound_keeps [OF f] by (auto split: if_splits)
qed

text \<open>All bytes that the connection has begun to put on the wire.\<close>

definition stream_of :: "serve_state \<Rightarrow> byte list" where
  "stream_of s = ss_sent s @ cn_inflight (ss_connection s)"

definition greeted :: "serve_config \<Rightarrow> byte list \<Rightarrow> bool" where
  "greeted cfg bytes \<longleftrightarrow> (\<exists>g hello rest. encode_frame (sc_frames cfg) (hello_frame cfg g) = Ok hello \<and> bytes = hello @ rest)"

lemma greeted_append: "greeted cfg bytes \<Longrightarrow> greeted cfg (bytes @ xs)"
  unfolding greeted_def by (metis append.assoc)

text \<open>Whether the handshake has been verified, registered and answered.\<close>

definition verified :: "serve_config \<Rightarrow> serve_state \<Rightarrow> bool" where
  "verified cfg s \<longleftrightarrow> cn_claimed_daemon_id (ss_connection s) = Some (sc_daemon_id cfg) \<and> cn_handshaken (ss_connection s)"

definition serve_inv :: "serve_config \<Rightarrow> serve_state \<Rightarrow> bool" where
  "serve_inv cfg s \<longleftrightarrow>
     (if ss_handshake_done s
      then verified cfg s \<and> greeted cfg (stream_of s) \<and> (\<exists>rs. ss_effects s = Registered # map Forwarded rs)
      else stream_of s = [] \<and> cn_queued (ss_connection s) = None \<and> ss_effects s = [] \<and>
        (cn_claimed_daemon_id (ss_connection s) \<noteq> None \<longrightarrow> cn_handshaken (ss_connection s)))"

definition serve_stop :: "serve_config \<Rightarrow> serve_state \<Rightarrow> bool" where
  "serve_stop cfg s \<longleftrightarrow>
     (stream_of s = [] \<or> greeted cfg (stream_of s)) \<and>
     (ss_effects s = [] \<or> verified cfg s \<and> (\<exists>rs. ss_effects s = Registered # map Forwarded rs))"

lemma serve_inv_stop: "serve_inv cfg s \<Longrightarrow> serve_stop cfg s"
  by (auto simp: serve_inv_def serve_stop_def split: if_splits)

lemma send_encoded_facts:
  assumes "send_encoded enc outs s = (r, s')"
  shows "\<exists>q. stream_of s' = stream_of s @ q" "stream_of s = [] \<Longrightarrow> \<exists>q. stream_of s' = enc @ q"
    "ss_handshake_done s' = ss_handshake_done s" "ss_effects s' = ss_effects s" "verified cfg s' = verified cfg s"
proof -
  obtain c sent where w: "write_encoded enc outs (ss_connection s) = (r, c, sent)"
    "s' = s\<lparr>ss_connection := c, ss_sent := ss_sent s @ sent\<rparr>"
    using assms by (auto simp: send_encoded_def split: prod.splits)
  note f = write_encoded_stream [OF w(1)]
  show "\<exists>q. stream_of s' = stream_of s @ q" "stream_of s = [] \<Longrightarrow> \<exists>q. stream_of s' = enc @ q"
    using f(1,2) by (auto simp: stream_of_def w(2))
  show "ss_handshake_done s' = ss_handshake_done s" "ss_effects s' = ss_effects s" "verified cfg s' = verified cfg s"
    using f(3) by (simp_all add: w(2) verified_def)
qed

lemma send_frame_encoded:
  "send_frame cfg frame outs s =
     (case encode_frame (sc_frames cfg) frame of
        Err e \<Rightarrow> (Err (TE_Protocol (encode_error_text e)), s)
      | Ok enc \<Rightarrow> send_encoded enc outs s)"
  by (cases s) (simp add: send_frame_def send_encoded_def write_frame_def split: result.split)

lemma send_frame_facts:
  assumes "send_frame cfg frame outs s = (r, s')"
  shows "\<exists>q. stream_of s' = stream_of s @ q" "ss_handshake_done s' = ss_handshake_done s" "ss_effects s' = ss_effects s"
    "verified cfg s' = verified cfg s"
  using assms send_encoded_facts(1,3,4) [of _ outs s r s'] send_encoded_facts(5) [of _ outs s r s' cfg]
  by (auto simp: send_frame_encoded split: result.splits)

lemma try_read_keeps:
  assumes "try_read_request js c = (r, c')"
  shows "cn_inflight c' = cn_inflight c" "cn_queued c' = cn_queued c"
    "cn_handshaken c \<Longrightarrow> cn_claimed_daemon_id c' = cn_claimed_daemon_id c \<and> cn_handshaken c'"
    "\<not> cn_handshaken c \<Longrightarrow> cn_claimed_daemon_id c = None \<Longrightarrow> cn_claimed_daemon_id c' \<noteq> None \<Longrightarrow> cn_handshaken c'"
proof -
  have "\<exists>b. snd (take_frame c) = c\<lparr>cn_buffer := b\<rparr>"
    by (auto simp: take_frame_def Let_def split: result.split intro: exI [of _ "cn_buffer c"])
  then obtain b where b: "snd (take_frame c) = c\<lparr>cn_buffer := b\<rparr>" by blast
  have "c' = c\<lparr>cn_buffer := b\<rparr> \<or> \<not> cn_handshaken c \<and>
      (\<exists>d. c' = c\<lparr>cn_buffer := b, cn_claimed_daemon_id := Some d, cn_handshaken := True\<rparr>)"
    using assms b by (auto simp: try_read_request_def split: prod.splits result.splits option.splits if_splits DaemonRequest.splits)
  then show "cn_inflight c' = cn_inflight c" "cn_queued c' = cn_queued c"
    "cn_handshaken c \<Longrightarrow> cn_claimed_daemon_id c' = cn_claimed_daemon_id c \<and> cn_handshaken c'"
    "\<not> cn_handshaken c \<Longrightarrow> cn_claimed_daemon_id c = None \<Longrightarrow> cn_claimed_daemon_id c' \<noteq> None \<Longrightarrow> cn_handshaken c'"
    by auto
qed

lemma complete_handshake_inv:
  assumes "complete_handshake cfg env s = (r, s')" "stream_of s = []" "ss_effects s = []"
    "cn_claimed_daemon_id (ss_connection s) \<noteq> None \<longrightarrow> cn_handshaken (ss_connection s)"
  shows "serve_stop cfg s' \<and> (r = Ok () \<longrightarrow> ss_handshake_done s' \<and> serve_inv cfg s')"
proof (cases "verify_daemon_id (sc_daemon_id cfg) (ss_connection s)")
  case (Err e)
  then show ?thesis using assms by (auto simp: complete_handshake_def serve_stop_def)
next
  case (Ok u)
  let ?s = "s\<lparr>ss_handshake_done := True\<rparr>" and ?g = "do_generation (se_current env)"
  have v: "verified cfg ?s" using Ok assms(4) by (auto simp: verify_daemon_id_def verified_def split: option.splits if_splits)
  have st: "stream_of ?s = []" using assms(2) by (simp add: stream_of_def)
  show ?thesis
  proof (cases "encode_frame (sc_frames cfg) (hello_frame cfg ?g)")
    case (Err e)
    then show ?thesis using assms Ok st by (auto simp: complete_handshake_def send_frame_encoded serve_stop_def)
  next
    case enc: (Ok hello)
    obtain r1 s1 where s1: "send_encoded hello (se_hello_io env) ?s = (r1, s1)" by fastforce
    note f1 = send_encoded_facts [OF s1]
    have g1: "greeted cfg (stream_of s1)" using f1(2) [OF st] enc unfolding greeted_def by blast
    obtain r2 s2 where s2: "send_encoded (do_encoded (se_current env)) (se_current_io env) s1 = (r2, s2)" by fastforce
    note f2 = send_encoded_facts [OF s2]
    have g2: "greeted cfg (stream_of s2)" using f2(1) g1 greeted_append by fastforce
    have eff: "stream_of (s2\<lparr>ss_effects := x\<rparr>) = stream_of s2" "verified cfg (s2\<lparr>ss_effects := x\<rparr>) = verified cfg s2" for x
      by (simp_all add: stream_of_def verified_def)
    show ?thesis
    proof (cases r1)
      case (Err e)
      then show ?thesis using assms Ok enc s1 g1 f1 by (auto simp: complete_handshake_def send_frame_encoded serve_stop_def)
    next
      case r1: (Ok u1)
      show ?thesis
      proof (cases r2)
        case (Err e)
        then show ?thesis using assms Ok enc s1 s2 r1 g2 f1 f2 by (auto simp: complete_handshake_def send_frame_encoded serve_stop_def)
      next
        case (Ok u2)
        then have "s' = s2\<lparr>ss_effects := ss_effects s2 @ [Registered]\<rparr>"
          using assms(1) \<open>verify_daemon_id (sc_daemon_id cfg) (ss_connection s) = Ok u\<close> enc s1 s2 r1
          by (simp add: complete_handshake_def send_frame_encoded)
        then show ?thesis
          using assms(3) g2 v f1 f2 eff by (simp add: serve_inv_def serve_stop_def)
      qed
    qed
  qed
qed

lemma serve_request_inv:
  assumes "serve_inv cfg s" "serve_request cfg env s = (r, s')"
  shows "serve_stop cfg s' \<and> (r = Ok () \<longrightarrow> serve_inv cfg s')"
proof -
  obtain q c where t: "try_read_request (sc_requests cfg) (ss_connection s) = (q, c)" by fastforce
  note k = try_read_keeps [OF t]
  let ?s = "s\<lparr>ss_connection := c\<rparr>"
  have inv: "serve_inv cfg ?s"
    using assms(1) k by (cases "cn_handshaken (ss_connection s)") (auto simp: serve_inv_def verified_def stream_of_def split: if_splits)
  show ?thesis
  proof (cases "\<exists>request. q = Ok (Some request)")
    case False
    then have "s' = ?s" using assms(2) t by (cases q; cases "case q of Ok x \<Rightarrow> x | Err _ \<Rightarrow> None") (auto simp: serve_request_def split: option.splits)
    then show ?thesis using inv serve_inv_stop by blast
  next
    case True
    then obtain request where q: "q = Ok (Some request)" by blast
    show ?thesis
    proof (cases "ss_handshake_done s")
      case True
      show ?thesis
      proof (cases "se_accepting env")
        case acc: True
        have s': "s' = ?s\<lparr>ss_effects := ss_effects s @ [Forwarded request]\<rparr>" using assms(2) t q True acc by (simp add: serve_request_def)
        obtain rs where "ss_effects s = Registered # map Forwarded rs" using inv True by (auto simp: serve_inv_def)
        then have "ss_effects s' = Registered # map Forwarded (rs @ [request])" by (simp add: s')
        moreover have "verified cfg s' = verified cfg ?s" "stream_of s' = stream_of ?s" "ss_handshake_done s'"
          using True by (simp_all add: s' verified_def stream_of_def)
        moreover have "verified cfg ?s \<and> greeted cfg (stream_of ?s)" using inv True by (simp add: serve_inv_def)
        ultimately have "serve_inv cfg s'" unfolding serve_inv_def by (auto simp del: map_append)
        then show ?thesis using serve_inv_stop by blast
      next
        case False
        then have "s' = ?s" using assms(2) t q True by (simp add: serve_request_def)
        then show ?thesis using inv serve_inv_stop by blast
      qed
    next
      case False
      show ?thesis
      proof (cases "\<exists>p v d. request = DR_Handshake p v d")
        case True
        then have "complete_handshake cfg env ?s = (r, s')" using assms(2) t q False by (auto simp: serve_request_def)
        moreover have "stream_of ?s = []" "ss_effects ?s = []"
          "cn_claimed_daemon_id (ss_connection ?s) \<noteq> None \<longrightarrow> cn_handshaken (ss_connection ?s)"
          using inv False by (simp_all add: serve_inv_def)
        ultimately show ?thesis using complete_handshake_inv by blast
      next
        case nh: False
        then have "s' = ?s" using assms(2) t q False by (cases request) (auto simp: serve_request_def)
        then show ?thesis using inv serve_inv_stop by blast
      qed
    qed
  qed
qed

lemma serve_inv_extend:
  assumes "serve_inv cfg s" "ss_handshake_done s" "\<exists>q. stream_of s' = stream_of s @ q" "ss_handshake_done s' = ss_handshake_done s"
    "ss_effects s' = ss_effects s" "verified cfg s' = verified cfg s"
  shows "serve_inv cfg s'"
  using assms greeted_append by (auto simp: serve_inv_def)

lemma serve_branch_inv:
  assumes "serve_inv cfg s" "serve_branch cfg env s = (r, s')" "\<forall>frame. se_event env = SvAck frame \<longrightarrow> ss_handshake_done s"
  shows "(se_event env \<noteq> SvEngineGone \<or> ss_handshake_done s \<longrightarrow> serve_inv cfg s') \<and> (\<forall>b. r = Ok (Some b) \<longrightarrow> se_event env \<noteq> SvEngineGone) \<and>
    (r = Ok (Some True) \<longrightarrow> ss_handshake_done s')"
proof (cases "se_event env")
  case SvPublished
  then show ?thesis using assms by (auto simp: serve_branch_def)
next
  case SvEngineGone
  obtain r' s1 where f: "send_frame cfg FF_ShuttingDown (se_event_io env) s = (r', s1)" by fastforce
  have s1: "s' = s1" "r = Ok None" using SvEngineGone assms(2) f by (simp_all add: serve_branch_def)
  show ?thesis using serve_inv_extend [OF assms(1) _ send_frame_facts [OF f]] s1 SvEngineGone by simp
next
  case (SvAck frame)
  obtain r' s1 where f: "send_frame cfg frame (se_event_io env) s = (r', s1)" by fastforce
  have "s' = s1" "r \<noteq> Ok (Some True)" using SvAck assms(2) f by (auto simp: serve_branch_def split: result.splits)
  moreover have "serve_inv cfg s1"
    using serve_inv_extend [OF assms(1) _ send_frame_facts [OF f]] assms(3) SvAck by simp
  ultimately show ?thesis using SvAck by simp
next
  case (SvPoll rd)
  obtain q c sent where f: "flush_outbound (se_event_io env) (ss_connection s) = (q, c, sent)" by (metis prod_cases3)
  let ?s = "s\<lparr>ss_connection := c, ss_sent := ss_sent s @ sent\<rparr>"
  have st: "\<exists>x. stream_of ?s = stream_of s @ x" using flush_outbound_stream(1) [OF f] by (auto simp: stream_of_def)
  have v: "verified cfg ?s = verified cfg s" using flush_outbound_keeps [OF f] by (simp add: verified_def)
  have inv: "serve_inv cfg ?s"
  proof (cases "ss_handshake_done s")
    case True
    then show ?thesis using serve_inv_extend [OF assms(1) True st] v by simp
  next
    case False
    then have "cn_inflight (ss_connection s) = []" "cn_queued (ss_connection s) = None" using assms(1) by (simp_all add: serve_inv_def stream_of_def)
    then have "c = ss_connection s" "sent = []" using flush_outbound_stream(2) [OF f] by simp_all
    then show ?thesis using assms(1) by simp
  qed
  have "(s' = ?s \<or> (\<exists>b. s' = s\<lparr>ss_sent := ss_sent s @ sent, ss_connection := c\<lparr>cn_buffer := b\<rparr>\<rparr>)) \<and> r \<noteq> Ok (Some True)"
    using SvPoll assms(2) f
    by (auto simp: serve_branch_def Let_def push_bytes_def split: result.splits TransportError.splits if_splits)
  moreover have "serve_inv cfg (s\<lparr>ss_sent := ss_sent s @ sent, ss_connection := c\<lparr>cn_buffer := b\<rparr>\<rparr>)" for b
    using inv by (cases "ss_handshake_done s") (simp_all add: serve_inv_def verified_def stream_of_def)
  ultimately have "serve_inv cfg s'" and r: "r \<noteq> Ok (Some True)" using inv by blast+
  then show ?thesis using r SvPoll by simp
qed

lemma serve_turn_inv:
  assumes "serve_inv cfg s" "serve_turn cfg env s = (r, s')"
    "\<forall>frame. se_event env = SvAck frame \<longrightarrow> ss_handshake_done (snd (serve_request cfg env s))"
    "se_event env = SvEngineGone \<longrightarrow> ss_handshake_done (snd (serve_request cfg env s))"
  shows "serve_stop cfg s' \<and> (r = Ok True \<longrightarrow> serve_inv cfg s')"
proof -
  obtain r1 s1 where r1: "serve_request cfg env s = (r1, s1)" by fastforce
  note i1 = serve_request_inv [OF assms(1) r1]
  show ?thesis
  proof (cases r1)
    case (Err e)
    then show ?thesis using assms(2) r1 i1 by (auto simp: serve_turn_def)
  next
    case (Ok u)
    then have inv1: "serve_inv cfg s1" using i1 by simp
    obtain r2 s2 where r2: "serve_branch cfg env s1 = (r2, s2)" by fastforce
    have i2: "serve_inv cfg s2" "r2 = Ok (Some True) \<Longrightarrow> ss_handshake_done s2"
      using serve_branch_inv [OF inv1 r2] assms(3,4) r1 by auto
    show ?thesis
    proof (cases "r2 = Ok (Some True)")
      case True
      obtain r3 s3 where r3: "send_encoded (do_encoded (se_latest env)) (se_state_io env) s2 = (r3, s3)" by fastforce
      then have "s' = s3" using assms(2) r1 r2 Ok True by (auto simp: serve_turn_def split: result.splits)
      moreover have "serve_inv cfg s3"
        using serve_inv_extend [OF i2(1) i2(2) [OF True] send_encoded_facts(1,3,4) [OF r3]] send_encoded_facts(5) [OF r3] by blast
      ultimately show ?thesis using serve_inv_stop by blast
    next
      case False
      then have "s' = s2" using assms(2) r1 r2 Ok
        by (cases r2; cases "case r2 of Ok x \<Rightarrow> x | Err _ \<Rightarrow> None") (auto simp: serve_turn_def split: option.splits bool.splits)
      then show ?thesis using i2(1) serve_inv_stop by blast
    qed
  qed
qed

text \<open>
  What the daemon's side of a connection can meet: an acknowledgement only answers a request that this
  connection forwarded, and the published state's channel stays open, since the connection itself holds
  the hub that owns its sender.
\<close>

fun env_follows :: "serve_config \<Rightarrow> serve_env list \<Rightarrow> serve_state \<Rightarrow> bool" where
  "env_follows cfg [] s \<longleftrightarrow> True"
| "env_follows cfg (env # envs) s \<longleftrightarrow>
     (case se_event env of
        SvEngineGone \<Rightarrow> False
      | SvAck _ \<Rightarrow> list_ex (\<lambda>e. case e of Forwarded _ \<Rightarrow> True | Registered \<Rightarrow> False) (ss_effects (snd (serve_request cfg env s)))
      | _ \<Rightarrow> True) \<and>
     (case serve_turn cfg env s of (Ok True, s) \<Rightarrow> env_follows cfg envs s | _ \<Rightarrow> True)"

lemma effects_done: "serve_stop cfg s \<Longrightarrow> serve_inv cfg s \<Longrightarrow> ss_effects s \<noteq> [] \<Longrightarrow> ss_handshake_done s"
  by (auto simp: serve_inv_def split: if_splits)

lemma serve_request_effects:
  assumes "serve_inv cfg s" "serve_request cfg env s = (r, s')" "ss_effects s' \<noteq> []"
  shows "ss_handshake_done s'"
proof (cases "r = Ok ()")
  case True
  then show ?thesis using serve_request_inv [OF assms(1,2)] assms(3) effects_done by blast
next
  case False
  then show ?thesis
    using assms by (auto simp: serve_request_def serve_inv_def Let_def complete_handshake_def
        send_frame_encoded split: prod.splits result.splits option.splits if_splits DaemonRequest.splits
        dest!: send_encoded_facts(3,4))
qed

lemma serve_inner_inv:
  "serve_inv cfg s \<Longrightarrow> env_follows cfg envs s \<Longrightarrow> serve_inner cfg envs s = (r, s') \<Longrightarrow> serve_stop cfg s'"
proof (induction envs arbitrary: s)
  case Nil
  then show ?case by (simp add: serve_inv_stop)
next
  case (Cons env envs)
  obtain r1 s1 where t: "serve_turn cfg env s = (r1, s1)" by fastforce
  obtain r0 s0 where q: "serve_request cfg env s = (r0, s0)" by fastforce
  have acks: "\<forall>frame. se_event env = SvAck frame \<longrightarrow> ss_handshake_done (snd (serve_request cfg env s))"
  proof (intro allI impI)
    fix frame assume "se_event env = SvAck frame"
    then have "ss_effects s0 \<noteq> []" using Cons.prems(2) q by auto
    then show "ss_handshake_done (snd (serve_request cfg env s))" using serve_request_effects [OF Cons.prems(1) q] q by simp
  qed
  have "se_event env \<noteq> SvEngineGone" using Cons.prems(2) by auto
  then have inv: "serve_stop cfg s1 \<and> (r1 = Ok True \<longrightarrow> serve_inv cfg s1)"
    using serve_turn_inv [OF Cons.prems(1) t acks] by simp
  show ?case
  proof (cases "r1 = Ok True")
    case True
    then show ?thesis using Cons.IH [of s1] Cons.prems(2,3) inv t by simp
  next
    case False
    then have "s' = s1" using Cons.prems(3) t by (auto split: result.splits bool.splits)
    then show ?thesis using inv by simp
  qed
qed

section \<open>Properties\<close>

text \<open>
  C16. A frontend identifies its daemon by the first frame, and the daemon acts only for frontends of its own
  configuration: whatever the peer sends and however slowly it reads, the bytes a connection has sent are a
  part of one \<open>Hello\<close> frame or begin with all of it, and it registers the subscriber and forwards requests
  only after a handshake of this protocol version named this daemon's configuration, registering first.
\<close>

theorem connection_greets_owner:
  assumes "env_follows cfg envs serve_start" "serve_inner cfg envs serve_start = (r, s)"
  shows "(ss_sent s = [] \<or> (\<exists>g hello. encode_frame (sc_frames cfg) (hello_frame cfg g) = Ok hello \<and>
      (ss_sent s = take (length (ss_sent s)) hello \<or> take (length hello) (ss_sent s) = hello))) \<and>
    (ss_effects s = [] \<or> cn_handshaken (ss_connection s) \<and> cn_claimed_daemon_id (ss_connection s) = Some (sc_daemon_id cfg) \<and>
      (\<exists>rs. ss_effects s = Registered # map Forwarded rs))"
proof -
  have "serve_inv cfg serve_start" by (simp add: serve_inv_def serve_start_def stream_of_def connection_new_def)
  then have stop: "serve_stop cfg s" using serve_inner_inv assms by blast
  have "ss_sent s = take (length (ss_sent s)) hello \<or> take (length hello) (ss_sent s) = hello"
    if "stream_of s = hello @ rest" for hello rest
    using that by (auto simp: stream_of_def append_eq_append_conv2)
  with stop show ?thesis unfolding serve_stop_def greeted_def verified_def stream_of_def by blast
qed

definition example_serve :: serve_config where
  "example_serve = \<lparr>sc_requests = \<lparr>jc_encode = \<lambda>_. Ok [], jc_decode = \<lambda>_. Ok (DR_Handshake 1 [] [])\<rparr>,
     sc_frames = example_frames, sc_version = [], sc_daemon_id = []\<rparr>"

definition example_env :: "serve_event \<Rightarrow> write_outcome list \<Rightarrow> serve_env" where
  "example_env event io = \<lparr>se_current = ce_snapshot example_engine, se_latest = ce_snapshot example_engine, se_accepting = True,
     se_event = event, se_hello_io = io, se_current_io = [], se_event_io = [], se_state_io = []\<rparr>"

lemma example_take: "take_frame (connection_new\<lparr>cn_buffer := frame_bytes [1]\<rparr>) = (Ok (Some [1]), connection_new)"
  using take_frame_complete [of "[1]" "connection_new\<lparr>cn_buffer := frame_bytes [1]\<rparr>" "[]"]
  by (simp add: MAX_FRAME_BYTES_def connection_new_def)

lemma example_turn_reads:
  "serve_turn example_serve (example_env (SvPoll (ReadBytes (frame_bytes [1]))) []) serve_start =
     (Ok True, serve_start\<lparr>ss_connection := connection_new\<lparr>cn_buffer := frame_bytes [1]\<rparr>\<rparr>)"
proof -
  have "take_frame connection_new = (Ok None, connection_new)"
    by (simp add: take_frame_def connection_new_def LEN_PREFIX_BYTES_def)
  then have "serve_request example_serve env serve_start = (Ok (), serve_start)" for env
    by (simp add: serve_request_def try_read_request_def serve_start_def)
  then show ?thesis
    by (simp add: serve_turn_def serve_branch_def example_env_def next_inflight_def read_available_def push_bytes_def
        example_frame MAX_BUFFERED_BYTES_def MAX_FRAME_BYTES_def serve_start_def connection_new_def)
qed

lemma example_turn_greets:
  "serve_turn example_serve (example_env SvPublished [Wrote 5]) (serve_start\<lparr>ss_connection := connection_new\<lparr>cn_buffer := frame_bytes [1]\<rparr>\<rparr>) =
     (Ok True, \<lparr>ss_connection = \<lparr>cn_buffer = [], cn_handshaken = True, cn_claimed_daemon_id = Some [],
         cn_inflight = drop 5 (length_prefix 0), cn_queued = Some (do_encoded (ce_snapshot example_engine))\<rparr>,
       ss_handshake_done = True, ss_effects = [Registered], ss_sent = take 5 (length_prefix 0)\<rparr>)"
proof -
  have hello: "length_prefix 0 = [48, 48, 48, 48, 48, 48, 48, 48, 10]"
    by (simp add: length_prefix_def fmt_radix.simps digit_char_def eval_nat_numeral)
  let ?s = "serve_start\<lparr>ss_connection := connection_new\<lparr>cn_buffer := frame_bytes [1]\<rparr>\<rparr>"
  let ?env = "example_env SvPublished [Wrote 5]"
  let ?c = "connection_new\<lparr>cn_claimed_daemon_id := Some [], cn_handshaken := True\<rparr>"
  have "try_read_request (sc_requests example_serve) (ss_connection ?s) = (Ok (Some (DR_Handshake 1 [] [])), ?c)"
    by (simp add: try_read_request_def example_take example_serve_def PROTOCOL_VERSION_def) (simp add: connection_new_def)
  then have request: "serve_request example_serve ?env ?s = complete_handshake example_serve ?env (serve_start\<lparr>ss_connection := ?c\<rparr>)"
    by (simp add: serve_request_def Let_def) (simp add: serve_start_def)
  show ?thesis
    unfolding serve_turn_def request
    by (simp add: serve_branch_def example_serve_def example_env_def complete_handshake_def verify_daemon_id_def send_frame_encoded send_encoded_def
        example_frames_encode write_encoded_def next_inflight_def hello connection_new_def serve_start_def)
qed

theorem connection_greets_owner_witness:
  "\<exists>rs. ss_effects (snd (serve_inner example_serve
      [example_env (SvPoll (ReadBytes (frame_bytes [1]))) [], example_env SvPublished [Wrote 5]] serve_start)) = Registered # map Forwarded rs"
proof -
  let ?envs = "[example_env (SvPoll (ReadBytes (frame_bytes [1]))) [], example_env SvPublished [Wrote 5]]"
  have "env_follows example_serve ?envs serve_start"
    by (simp add: example_turn_reads example_turn_greets) (simp add: example_env_def)
  moreover have "ss_effects (snd (serve_inner example_serve ?envs serve_start)) \<noteq> []"
    by (simp add: example_turn_reads example_turn_greets)
  ultimately show ?thesis
    using connection_greets_owner [of example_serve ?envs] by (metis prod.collapse)
qed

end
