(* ===== verification/Client_Launch.thy ===== *)
theory Client_Launch
  imports Client_Serve
begin

text \<open>
  Starting, stopping and replacing the client daemon (\<open>crates/gregg/src/clientd/launch.rs\<close>, and \<open>status\<close> and
  \<open>stop\<close> of \<open>clientd/daemon.rs\<close>).

  The results of dialing and of waiting for frames, the launch lock, and process creation are arguments:
  every attempt to attach has a result of its own. Several launchers of one configuration are a transition
  system in which each takes one step at a time, among the steps of the machine: daemons bind, end, stop
  and are started by hand, and other services come and go.

  The lemmas show when a daemon is spawned or stopped, and that launchers of one configuration spawn at
  most one.
\<close>

section \<open>Classification\<close>

datatype Classification = Absent | Rotate | Foreign | Incompatible

definition classify_attach :: "AttachError \<Rightarrow> Classification" where
  "classify_attach error =
     (case error of
        AE_Transport (TE_Io io) \<Rightarrow> if io = IoNotFound \<or> io = IoConnectionRefused then Absent else Foreign
      | AE_VersionMismatch daemon _ \<Rightarrow> if daemon > PROTOCOL_VERSION then Incompatible else Rotate
      | _ \<Rightarrow> Foreign)"

datatype EnsureError =
    EE_ForeignPeer AttachError
  | EE_IncompatibleOwned (ee_daemon: nat) (ee_frontend: nat)
  | EE_Spawn rstr
  | EE_NotReady nat
  | EE_Lock rstr
  | EE_Transport AttachError

datatype Probe = ProbeReady HelloPayload | ProbeAbsent | ProbeReplaceable

definition probe :: "(HelloPayload, AttachError) result \<Rightarrow> (Probe, EnsureError) result" where
  "probe attached =
     (case attached of
        Ok attachment \<Rightarrow> Ok (ProbeReady attachment)
      | Err error \<Rightarrow>
          (case classify_attach error of
             Absent \<Rightarrow> Ok ProbeAbsent
           | Rotate \<Rightarrow> Ok ProbeReplaceable
           | Foreign \<Rightarrow> Err (EE_ForeignPeer error)
           | Incompatible \<Rightarrow> Err (EE_IncompatibleOwned (case error of AE_VersionMismatch daemon _ \<Rightarrow> daemon | _ \<Rightarrow> 0) PROTOCOL_VERSION)))"

section \<open>Stop and status\<close>

definition MAX_STOP_SKIPPED_DOCUMENTS :: nat where "MAX_STOP_SKIPPED_DOCUMENTS = 8"

text \<open>
  The answers to a stop request: \<open>None\<close> is the deadline, \<open>texts\<close> are the texts of an error and of a
  frame. Past the end of the list nothing answers, which is the deadline too.
\<close>

fun stop_answer :: "(FrontError \<Rightarrow> rstr) \<Rightarrow> (FrontendFrame \<Rightarrow> rstr) \<Rightarrow> nat \<Rightarrow> (FrontendFrame, FrontError) result option list \<Rightarrow>
    (unit, AttachError) result" where
  "stop_answer err dbg skipped [] = Err (AE_Refused (ustr ''the client daemon did not answer the stop request in time''))"
| "stop_answer err dbg skipped (None # frames) = Err (AE_Refused (ustr ''the client daemon did not answer the stop request in time''))"
| "stop_answer err dbg skipped (Some (Err error) # frames) =
     (if is_disconnect error then Ok () else Err (AE_Refused (err error)))"
| "stop_answer err dbg skipped (Some (Ok frame) # frames) =
     (case frame of
        FF_ControlAck _ accepted detail \<Rightarrow>
          if accepted then Ok ()
          else Err (AE_Refused (case detail of Some text \<Rightarrow> text | None \<Rightarrow> ustr ''the daemon refused the stop request''))
      | FF_Snapshot _ \<Rightarrow>
          if skipped < MAX_STOP_SKIPPED_DOCUMENTS then stop_answer err dbg (Suc skipped) frames
          else Err (AE_Refused (ustr ''the client daemon answered the stop request with '' @ dbg frame @ ustr '' instead of an acknowledgement''))
      | other \<Rightarrow> Err (AE_Refused (ustr ''the client daemon answered the stop request with '' @ dbg other @ ustr '' instead of an acknowledgement'')))"

text \<open>\<open>live\<close> says at each of the 200 looks at the endpoint whether something still listens.\<close>

definition stop :: "(FrontError \<Rightarrow> rstr) \<Rightarrow> (FrontendFrame \<Rightarrow> rstr) \<Rightarrow> (HelloPayload, AttachError) result \<Rightarrow> (unit, FrontError) result \<Rightarrow>
    (FrontendFrame, FrontError) result option list \<Rightarrow> (nat \<Rightarrow> bool) \<Rightarrow> (unit, AttachError) result" where
  "stop err dbg attached requested frames live =
     (case attached of
        Err error \<Rightarrow> Err error
      | Ok _ \<Rightarrow>
          (case requested of
             Err error \<Rightarrow> Err (AE_Refused (err error))
           | Ok _ \<Rightarrow>
               (case stop_answer err dbg 0 frames of
                  Err error \<Rightarrow> Err error
                | Ok _ \<Rightarrow>
                    if list_ex (\<lambda>k. \<not> live k) [0..<200] then Ok ()
                    else Err (AE_Refused (ustr ''the client daemon accepted the stop but is still listening'')))))"

record DaemonStatus =
  dm_daemon_id :: rstr
  dm_running :: bool
  dm_version :: "rstr option"
  dm_protocol_version :: "nat option"
  dm_detail :: "AttachError option"

definition status :: "rstr \<Rightarrow> (HelloPayload, AttachError) result \<Rightarrow> DaemonStatus" where
  "status own_id attached =
     (case attached of
        Ok hello \<Rightarrow> \<lparr>dm_daemon_id = hp_daemon_id hello, dm_running = True, dm_version = Some (hp_version hello),
          dm_protocol_version = Some (hp_protocol_version hello), dm_detail = None\<rparr>
      | Err error \<Rightarrow> \<lparr>dm_daemon_id = own_id, dm_running = False, dm_version = None, dm_protocol_version = None,
          dm_detail = Some error\<rparr>)"

section \<open>Ensuring a daemon\<close>

definition READY_TIMEOUT_SECS :: nat where "READY_TIMEOUT_SECS = 15"

text \<open>The polls of \<open>wait_ready\<close> before its deadline.\<close>

fun wait_ready :: "AttachError option \<Rightarrow> (HelloPayload, AttachError) result list \<Rightarrow> (HelloPayload, EnsureError) result" where
  "wait_ready last_error [] =
     (case last_error of
        None \<Rightarrow> Err (EE_NotReady READY_TIMEOUT_SECS)
      | Some (AE_Transport _) \<Rightarrow> Err (EE_NotReady READY_TIMEOUT_SECS)
      | Some other \<Rightarrow> Err (EE_Transport other))"
| "wait_ready last_error (attached # rest) =
     (case attached of Ok attachment \<Rightarrow> Ok attachment | Err error \<Rightarrow> wait_ready (Some error) rest)"

text \<open>What one \<open>ensure_running\<close> meets, and what it does to the machine.\<close>

record launch_env =
  le_first :: "(HelloPayload, AttachError) result"
  le_lock :: "(unit, rstr) result"
  le_second :: "(HelloPayload, AttachError) result"
  le_stop :: "(unit, AttachError) result"
  le_after_stop :: "(HelloPayload, AttachError) result"
  le_spawn :: "(unit, rstr) result"
  le_polls :: "(HelloPayload, AttachError) result list"

datatype launch_effect = LockTaken | StopRequested | Spawned

definition spawn_daemon :: "launch_env \<Rightarrow> (unit, EnsureError) result" where
  "spawn_daemon env = map_result (\<lambda>x. x) EE_Spawn (le_spawn env)"

definition ensure_running :: "launch_env \<Rightarrow> (HelloPayload, EnsureError) result \<times> launch_effect list" where
  "ensure_running env =
     (case probe (le_first env) of
        Err e \<Rightarrow> (Err e, [])
      | Ok (ProbeReady attachment) \<Rightarrow> (Ok attachment, [])
      | Ok _ \<Rightarrow>
          (case le_lock env of
             Err e \<Rightarrow> (Err (EE_Lock e), [])
           | Ok _ \<Rightarrow>
               (case probe (le_second env) of
                  Err e \<Rightarrow> (Err e, [LockTaken])
                | Ok (ProbeReady attachment) \<Rightarrow> (Ok attachment, [LockTaken])
                | Ok ProbeReplaceable \<Rightarrow>
                    (case le_stop env of
                       Err e \<Rightarrow> (Err (EE_Transport e), [LockTaken, StopRequested])
                     | Ok _ \<Rightarrow> (map_result (\<lambda>x. x) EE_Transport (le_after_stop env), [LockTaken, StopRequested]))
                | Ok ProbeAbsent \<Rightarrow>
                    (case spawn_daemon env of
                       Err e \<Rightarrow> (Err e, [LockTaken])
                     | Ok _ \<Rightarrow> (wait_ready None (le_polls env), [LockTaken, Spawned])))))"

definition restart :: "launch_env \<Rightarrow> (HelloPayload, EnsureError) result \<times> launch_effect list" where
  "restart env =
     (case le_lock env of
        Err e \<Rightarrow> (Err (EE_Lock e), [])
      | Ok _ \<Rightarrow>
          (case (if is_ok (le_second env) then le_stop env else Ok ()) of
             Err e \<Rightarrow> (Err (EE_Transport e), [LockTaken, StopRequested])
           | Ok _ \<Rightarrow>
               let stopped = (if is_ok (le_second env) then [StopRequested] else []) in
               (case spawn_daemon env of
                  Err e \<Rightarrow> (Err e, LockTaken # stopped)
                | Ok _ \<Rightarrow> (wait_ready None (le_polls env), LockTaken # stopped @ [Spawned]))))"

section \<open>Several launchers\<close>

text \<open>
  The endpoint: nobody listens there, a daemon of this configuration serves it, or somebody else holds it. A
  spawned daemon is pending until it binds or ends.

  An attach attempt meets the endpoint as the operating system shows it. Where nobody listens, the connect
  fails with some error of the system: usually that of a missing or a dead socket, but it can be any other.
  Where a daemon serves, the attempt succeeds or fails in any way (a timeout, a hang-up, a refusal, another
  protocol version, a lack of file descriptors) except with the two errors that mean that nobody listens.
  At somebody else's endpoint it fails, and not with these two either.
\<close>

datatype endpoint = Nothing | Serving HelloPayload | Otherwise

definition nobody_listens :: "AttachError \<Rightarrow> bool" where
  "nobody_listens error \<longleftrightarrow> error = AE_Transport (TE_Io IoNotFound) \<or> error = AE_Transport (TE_Io IoConnectionRefused)"

definition attach_sees :: "endpoint \<Rightarrow> (HelloPayload, AttachError) result \<Rightarrow> bool" where
  "attach_sees ep attached \<longleftrightarrow>
     (case ep of
        Nothing \<Rightarrow> (\<exists>io. attached = Err (AE_Transport (TE_Io io)))
      | Serving hello \<Rightarrow> attached = Ok hello \<or> (\<exists>error. attached = Err error \<and> \<not> nobody_listens error)
      | Otherwise \<Rightarrow> (\<exists>error. attached = Err error \<and> \<not> nobody_listens error))"

text \<open>
  Where a launcher is in \<open>ensure_running\<close> or \<open>restart\<close>. An ended one carries its result and how many daemons
  had stopped serving when it ended.
\<close>

datatype launcher =
    Probing | WaitingLock | Reprobing | Rotating | Spawning | Confirming
  | RestartWaiting | Restarting | Stopping | Respawning
  | Ended "(HelloPayload, EnsureError) result" nat

record launch_world =
  lw_endpoint :: endpoint
  lw_pending :: nat
  lw_spawned :: nat
  lw_stops :: nat
  lw_lock :: "nat option"
  lw_disturbed :: bool
  lw_launchers :: "nat \<Rightarrow> launcher"

definition moves :: "launch_world \<Rightarrow> nat \<Rightarrow> launcher \<Rightarrow> launch_world" where
  "moves w i l = w\<lparr>lw_launchers := (lw_launchers w)(i := l)\<rparr>"

definition takes_lock :: "launch_world \<Rightarrow> nat \<Rightarrow> launcher \<Rightarrow> launch_world" where
  "takes_lock w i l = w\<lparr>lw_lock := Some i, lw_launchers := (lw_launchers w)(i := l)\<rparr>"

definition gives_lock :: "launch_world \<Rightarrow> nat \<Rightarrow> (HelloPayload, EnsureError) result \<Rightarrow> launch_world" where
  "gives_lock w i r = w\<lparr>lw_lock := None, lw_launchers := (lw_launchers w)(i := Ended r (lw_stops w))\<rparr>"

definition is_serving :: "endpoint \<Rightarrow> bool" where
  "is_serving ep \<longleftrightarrow> (case ep of Serving _ \<Rightarrow> True | _ \<Rightarrow> False)"

text \<open>
  The steps of \<open>ensure_running\<close> and of \<open>restart\<close>, each attempt to attach with a result of its own, and those
  of the machine: a pending daemon binds or ends, the serving one stops (asked to, or because it crashed),
  a daemon started by hand or somebody else's service takes a free endpoint, and the latter leaves it.

  \<open>lw_disturbed\<close> records what the launch lock does not exclude: a launcher gave up its readiness wait while its
  daemon was still pending, a restart spawned although a daemon still served, or a daemon started by hand
  took the endpoint between the last look of a launcher and the binding of its daemon.
\<close>

inductive launch_step :: "launch_world \<Rightarrow> launch_world \<Rightarrow> bool" where
  probes_go: "lw_launchers w i = Probing \<Longrightarrow> attach_sees (lw_endpoint w) attached \<Longrightarrow>
    probe attached = Ok ProbeAbsent \<or> probe attached = Ok ProbeReplaceable \<Longrightarrow> launch_step w (moves w i WaitingLock)"
| probes_done: "lw_launchers w i = Probing \<Longrightarrow> attach_sees (lw_endpoint w) attached \<Longrightarrow> probe attached = Ok (ProbeReady hello) \<Longrightarrow>
    launch_step w (moves w i (Ended (Ok hello) (lw_stops w)))"
| probes_fail: "lw_launchers w i = Probing \<Longrightarrow> attach_sees (lw_endpoint w) attached \<Longrightarrow> probe attached = Err e \<Longrightarrow>
    launch_step w (moves w i (Ended (Err e) (lw_stops w)))"
| locks: "lw_launchers w i = WaitingLock \<Longrightarrow> lw_lock w = None \<Longrightarrow> launch_step w (takes_lock w i Reprobing)"
| restart_locks: "lw_launchers w i = RestartWaiting \<Longrightarrow> lw_lock w = None \<Longrightarrow> launch_step w (takes_lock w i Restarting)"
| lock_fails: "lw_launchers w i = WaitingLock \<or> lw_launchers w i = RestartWaiting \<Longrightarrow>
    launch_step w (moves w i (Ended (Err (EE_Lock e)) (lw_stops w)))"
| reprobes_go: "lw_launchers w i = Reprobing \<Longrightarrow> attach_sees (lw_endpoint w) attached \<Longrightarrow> probe attached = Ok ProbeAbsent \<Longrightarrow>
    launch_step w (moves w i Spawning)"
| reprobes_done: "lw_launchers w i = Reprobing \<Longrightarrow> attach_sees (lw_endpoint w) attached \<Longrightarrow> probe attached = Ok (ProbeReady hello) \<Longrightarrow>
    launch_step w (gives_lock w i (Ok hello))"
| reprobes_fail: "lw_launchers w i = Reprobing \<Longrightarrow> attach_sees (lw_endpoint w) attached \<Longrightarrow> probe attached = Err e \<Longrightarrow>
    launch_step w (gives_lock w i (Err e))"
| reprobes_rotate: "lw_launchers w i = Reprobing \<Longrightarrow> attach_sees (lw_endpoint w) attached \<Longrightarrow> probe attached = Ok ProbeReplaceable \<Longrightarrow>
    launch_step w (moves w i Rotating)"
| rotate_fails: "lw_launchers w i = Rotating \<Longrightarrow> launch_step w (gives_lock w i (Err (EE_Transport e)))"
| rotate_ends: "lw_launchers w i = Rotating \<Longrightarrow> attach_sees (lw_endpoint w) attached \<Longrightarrow>
    launch_step w (gives_lock w i (map_result (\<lambda>x. x) EE_Transport attached))"
| restart_looks: "lw_launchers w i = Restarting \<Longrightarrow> attach_sees (lw_endpoint w) attached \<Longrightarrow>
    launch_step w (moves w i (if dm_running (status own attached) then Stopping else Respawning))"
| stop_done: "lw_launchers w i = Stopping \<Longrightarrow> launch_step w (moves w i Respawning)"
| stop_fails: "lw_launchers w i = Stopping \<Longrightarrow> launch_step w (gives_lock w i (Err (EE_Transport e)))"
| spawns: "lw_launchers w i = Spawning \<Longrightarrow>
    launch_step w (moves (w\<lparr>lw_pending := Suc (lw_pending w), lw_spawned := Suc (lw_spawned w)\<rparr>) i Confirming)"
| respawns: "lw_launchers w i = Respawning \<Longrightarrow>
    launch_step w (moves (w\<lparr>lw_pending := Suc (lw_pending w), lw_spawned := Suc (lw_spawned w),
      lw_disturbed := lw_disturbed w \<or> is_serving (lw_endpoint w)\<rparr>) i Confirming)"
| spawn_fails: "lw_launchers w i = Spawning \<or> lw_launchers w i = Respawning \<Longrightarrow> launch_step w (gives_lock w i (Err (EE_Spawn e)))"
| confirms: "lw_launchers w i = Confirming \<Longrightarrow> attach_sees (lw_endpoint w) (Ok hello) \<Longrightarrow> launch_step w (gives_lock w i (Ok hello))"
| deadline: "lw_launchers w i = Confirming \<Longrightarrow> wait_ready None polls = Err e \<Longrightarrow>
    launch_step w (gives_lock (w\<lparr>lw_disturbed := lw_disturbed w \<or> 0 < lw_pending w\<rparr>) i (Err e))"
| binds: "0 < lw_pending w \<Longrightarrow> lw_endpoint w = Nothing \<Longrightarrow>
    launch_step w (w\<lparr>lw_pending := lw_pending w - 1, lw_endpoint := Serving hello\<rparr>)"
| ends: "0 < lw_pending w \<Longrightarrow> launch_step w (w\<lparr>lw_pending := lw_pending w - 1\<rparr>)"
| stops: "is_serving (lw_endpoint w) \<Longrightarrow> launch_step w (w\<lparr>lw_endpoint := Nothing, lw_stops := Suc (lw_stops w)\<rparr>)"
| by_hand: "lw_endpoint w = Nothing \<Longrightarrow>
    launch_step w (w\<lparr>lw_endpoint := Serving hello,
      lw_disturbed := lw_disturbed w \<or> 0 < lw_pending w \<or> (\<exists>i. lw_launchers w i = Spawning)\<rparr>)"
| foreign_binds: "lw_endpoint w = Nothing \<Longrightarrow> launch_step w (w\<lparr>lw_endpoint := Otherwise\<rparr>)"
| foreign_leaves: "lw_endpoint w = Otherwise \<Longrightarrow> launch_step w (w\<lparr>lw_endpoint := Nothing\<rparr>)"

text \<open>Launchers that run \<open>restart\<close> and launchers that run \<open>ensure_running\<close>, on some endpoint.\<close>

definition launch_start :: "endpoint \<Rightarrow> (nat \<Rightarrow> bool) \<Rightarrow> launch_world" where
  "launch_start ep restarts = \<lparr>lw_endpoint = ep, lw_pending = 0, lw_spawned = 0, lw_stops = 0, lw_lock = None, lw_disturbed = False,
     lw_launchers = \<lambda>i. if restarts i then RestartWaiting else Probing\<rparr>"

definition launch_reach :: "endpoint \<Rightarrow> (nat \<Rightarrow> bool) \<Rightarrow> launch_world \<Rightarrow> bool" where
  "launch_reach ep restarts w \<longleftrightarrow> launch_step\<^sup>*\<^sup>* (launch_start ep restarts) w"

text \<open>Who is between taking the lock and releasing it.\<close>

definition critical :: "launcher \<Rightarrow> bool" where
  "critical l \<longleftrightarrow> l \<in> {Reprobing, Rotating, Spawning, Confirming, Restarting, Stopping, Respawning}"

definition launch_inv :: "launch_world \<Rightarrow> bool" where
  "launch_inv w \<longleftrightarrow>
     (\<forall>i. critical (lw_launchers w i) \<longrightarrow> lw_lock w = Some i) \<and>
     (\<forall>i hello k. lw_launchers w i = Ended (Ok hello) k \<longrightarrow> k \<le> lw_stops w \<and> (k = lw_stops w \<longrightarrow> lw_endpoint w = Serving hello)) \<and>
     (\<not> lw_disturbed w \<longrightarrow>
       (0 < lw_pending w \<longrightarrow> lw_pending w = 1 \<and> \<not> is_serving (lw_endpoint w) \<and> (\<exists>i. lw_launchers w i = Confirming)) \<and>
       (\<forall>i. lw_launchers w i = Spawning \<longrightarrow> \<not> is_serving (lw_endpoint w)))"

lemma critical_simps [simp]:
  "critical Reprobing" "critical Rotating" "critical Spawning" "critical Confirming" "critical Restarting" "critical Stopping"
  "critical Respawning" "\<not> critical Probing" "\<not> critical WaitingLock" "\<not> critical RestartWaiting" "\<not> critical (Ended r k)"
  by (simp_all add: critical_def)

lemma is_serving_simps [simp]: "\<not> is_serving Nothing" "is_serving (Serving h)" "\<not> is_serving Otherwise"
  by (simp_all add: is_serving_def)

lemma world_simps [simp]:
  "lw_launchers (moves w i l) = (lw_launchers w)(i := l)" "lw_launchers (takes_lock w i l) = (lw_launchers w)(i := l)"
  "lw_launchers (gives_lock w i r) = (lw_launchers w)(i := Ended r (lw_stops w))"
  "lw_endpoint (moves w i l) = lw_endpoint w" "lw_endpoint (takes_lock w i l) = lw_endpoint w" "lw_endpoint (gives_lock w i r) = lw_endpoint w"
  "lw_pending (moves w i l) = lw_pending w" "lw_pending (takes_lock w i l) = lw_pending w" "lw_pending (gives_lock w i r) = lw_pending w"
  "lw_stops (moves w i l) = lw_stops w" "lw_stops (takes_lock w i l) = lw_stops w" "lw_stops (gives_lock w i r) = lw_stops w"
  "lw_disturbed (moves w i l) = lw_disturbed w" "lw_disturbed (takes_lock w i l) = lw_disturbed w" "lw_disturbed (gives_lock w i r) = lw_disturbed w"
  "lw_lock (moves w i l) = lw_lock w" "lw_lock (takes_lock w i l) = Some i" "lw_lock (gives_lock w i r) = None"
  by (simp_all add: moves_def takes_lock_def gives_lock_def)

lemma probe_ready: "probe attached = Ok (ProbeReady hello) \<Longrightarrow> attached = Ok hello"
  by (auto simp: probe_def split: result.splits Classification.splits)

text \<open>Only an endpoint at which nobody listens is taken for absent.\<close>

lemma classify_absent: "classify_attach error = Absent \<longleftrightarrow> nobody_listens error"
  by (cases error) (auto simp: classify_attach_def nobody_listens_def split: TransportError.splits if_splits)

lemma probe_absent: "probe attached = Ok ProbeAbsent \<Longrightarrow> attach_sees ep attached \<Longrightarrow> ep = Nothing"
  by (cases ep) (auto simp: probe_def attach_sees_def classify_absent split: result.splits Classification.splits)

lemma attach_ready: "attach_sees ep (Ok hello) \<longleftrightarrow> ep = Serving hello"
  by (cases ep) (auto simp: attach_sees_def)

lemma launch_invI:
  assumes "\<And>i. critical (lw_launchers w i) \<Longrightarrow> lw_lock w = Some i"
    "\<And>i hello k. lw_launchers w i = Ended (Ok hello) k \<Longrightarrow> k \<le> lw_stops w \<and> (k = lw_stops w \<longrightarrow> lw_endpoint w = Serving hello)"
    "\<not> lw_disturbed w \<Longrightarrow> 0 < lw_pending w \<Longrightarrow> lw_pending w = 1 \<and> \<not> is_serving (lw_endpoint w) \<and> (\<exists>i. lw_launchers w i = Confirming)"
    "\<And>i. \<not> lw_disturbed w \<Longrightarrow> lw_launchers w i = Spawning \<Longrightarrow> \<not> is_serving (lw_endpoint w)"
  shows "launch_inv w"
  using assms unfolding launch_inv_def by blast

lemma launch_invD:
  assumes "launch_inv w"
  shows "critical (lw_launchers w i) \<Longrightarrow> lw_lock w = Some i"
    "lw_launchers w i = Ended (Ok hello) k \<Longrightarrow> k \<le> lw_stops w \<and> (k = lw_stops w \<longrightarrow> lw_endpoint w = Serving hello)"
    "\<not> lw_disturbed w \<Longrightarrow> 0 < lw_pending w \<Longrightarrow> lw_pending w = 1 \<and> \<not> is_serving (lw_endpoint w) \<and> (\<exists>i. lw_launchers w i = Confirming)"
    "\<not> lw_disturbed w \<Longrightarrow> lw_launchers w i = Spawning \<Longrightarrow> \<not> is_serving (lw_endpoint w)"
  using assms unfolding launch_inv_def by blast+

lemma launch_alone: "launch_inv w \<Longrightarrow> critical (lw_launchers w i) \<Longrightarrow> critical (lw_launchers w j) \<Longrightarrow> j = i"
  by (metis launch_invD(1) option.inject)

lemma launch_quiet:
  assumes "launch_inv w" "critical (lw_launchers w i)" "lw_launchers w i \<noteq> Confirming" "\<not> lw_disturbed w"
  shows "lw_pending w = 0"
proof (rule ccontr)
  assume "lw_pending w \<noteq> 0"
  then obtain j where "lw_launchers w j = Confirming" using launch_invD(3) [OF assms(1,4)] by auto
  with launch_alone [OF assms(1,2), of j] assms(3) show False by simp
qed

text \<open>
  The four kinds of step of a launcher: outside the critical section, into it, inside it, and out of it with
  a result that is what the endpoint serves.
\<close>

lemma moves_outside:
  assumes "launch_inv w" "\<not> critical (lw_launchers w i)" "\<not> critical l"
    "\<And>hello k. l = Ended (Ok hello) k \<Longrightarrow> k = lw_stops w \<and> lw_endpoint w = Serving hello"
  shows "launch_inv (moves w i l)"
proof (rule launch_invI)
  assume "\<not> lw_disturbed (moves w i l)" "0 < lw_pending (moves w i l)"
  then obtain j where j: "lw_pending w = 1" "\<not> is_serving (lw_endpoint w)" "lw_launchers w j = Confirming"
    using launch_invD(3) [OF assms(1)] by auto
  then have "j \<noteq> i" using assms(2) by auto
  with j show "lw_pending (moves w i l) = 1 \<and> \<not> is_serving (lw_endpoint (moves w i l)) \<and> (\<exists>k. lw_launchers (moves w i l) k = Confirming)"
    by (intro conjI exI [of _ j]) simp_all
qed (use assms(3,4) launch_invD(1,2,4) [OF assms(1)] in \<open>auto split: if_splits\<close>)

lemma moves_in:
  assumes "launch_inv w" "lw_lock w = None" "critical l" "l \<noteq> Spawning"
  shows "launch_inv (takes_lock w i l)"
proof (rule launch_invI)
  have free: "\<not> critical (lw_launchers w j)" for j using launch_invD(1) [OF assms(1), of j] assms(2) by auto
  show "lw_lock (takes_lock w i l) = Some j" if "critical (lw_launchers (takes_lock w i l) j)" for j
    using that free by (auto split: if_splits)
  assume "\<not> lw_disturbed (takes_lock w i l)" "0 < lw_pending (takes_lock w i l)"
  then obtain j where "lw_launchers w j = Confirming" using launch_invD(3) [OF assms(1)] by auto
  then have False using free [of j] by simp
  then show "lw_pending (takes_lock w i l) = 1 \<and> \<not> is_serving (lw_endpoint (takes_lock w i l)) \<and>
    (\<exists>k. lw_launchers (takes_lock w i l) k = Confirming)" ..
qed (use assms(3,4) launch_invD(2,4) [OF assms(1)] in \<open>auto split: if_splits\<close>)

lemma moves_inside:
  assumes "launch_inv w" "critical (lw_launchers w i)" "lw_launchers w i \<noteq> Confirming" "critical l"
    "l = Spawning \<Longrightarrow> \<not> lw_disturbed w \<Longrightarrow> \<not> is_serving (lw_endpoint w)"
  shows "launch_inv (moves w i l)"
proof (rule launch_invI)
  show "lw_lock (moves w i l) = Some j" if "critical (lw_launchers (moves w i l) j)" for j
    using that launch_alone [OF assms(1,2), of j] launch_invD(1) [OF assms(1,2)] by (cases "j = i") simp_all
  assume "\<not> lw_disturbed (moves w i l)" "0 < lw_pending (moves w i l)"
  then have False using launch_quiet [OF assms(1-3)] by simp
  then show "lw_pending (moves w i l) = 1 \<and> \<not> is_serving (lw_endpoint (moves w i l)) \<and>
    (\<exists>k. lw_launchers (moves w i l) k = Confirming)" ..
qed (use assms(4,5) launch_invD(2,4) [OF assms(1)] in \<open>auto split: if_splits\<close>)

lemma moves_out:
  assumes "launch_inv w" "critical (lw_launchers w i)" "\<And>hello. r = Ok hello \<Longrightarrow> lw_endpoint w = Serving hello"
    "\<not> disturbed \<Longrightarrow> \<not> lw_disturbed w \<and> lw_pending w = 0"
  shows "launch_inv (gives_lock (w\<lparr>lw_disturbed := disturbed\<rparr>) i r)"
proof (rule launch_invI)
  let ?w = "gives_lock (w\<lparr>lw_disturbed := disturbed\<rparr>) i r"
  show "lw_lock ?w = Some j" if "critical (lw_launchers ?w j)" for j
    using that launch_alone [OF assms(1,2), of j] by (auto split: if_splits)
  show "\<not> is_serving (lw_endpoint ?w)" if "lw_launchers ?w j = Spawning" for j
    using that launch_alone [OF assms(1,2), of j] by (auto split: if_splits)
qed (use assms(3,4) launch_invD(2) [OF assms(1)] in \<open>auto split: if_splits\<close>)

lemma moves_out_quiet:
  assumes "launch_inv w" "critical (lw_launchers w i)" "lw_launchers w i \<noteq> Confirming"
    "\<And>hello. r = Ok hello \<Longrightarrow> lw_endpoint w = Serving hello"
  shows "launch_inv (gives_lock w i r)"
  using moves_out [OF assms(1,2,4), where disturbed = "lw_disturbed w"] launch_quiet [OF assms(1-3)] by simp

lemma spawn_inv:
  assumes "launch_inv w" "critical (lw_launchers w i)" "lw_launchers w i \<noteq> Confirming"
    "\<not> disturbed \<Longrightarrow> \<not> lw_disturbed w \<and> \<not> is_serving (lw_endpoint w)"
  shows "launch_inv (moves (w\<lparr>lw_pending := Suc (lw_pending w), lw_spawned := n, lw_disturbed := disturbed\<rparr>) i Confirming)"
proof (rule launch_invI)
  let ?w = "moves (w\<lparr>lw_pending := Suc (lw_pending w), lw_spawned := n, lw_disturbed := disturbed\<rparr>) i Confirming"
  show "lw_lock ?w = Some j" if "critical (lw_launchers ?w j)" for j
    using that launch_alone [OF assms(1,2), of j] launch_invD(1) [OF assms(1,2)] by (cases "j = i") simp_all
  show "lw_pending ?w = 1 \<and> \<not> is_serving (lw_endpoint ?w) \<and> (\<exists>k. lw_launchers ?w k = Confirming)" if "\<not> lw_disturbed ?w"
    using that assms(4) launch_quiet [OF assms(1-3)] by auto
qed (use assms(4) launch_invD(2,4) [OF assms(1)] in \<open>auto split: if_splits\<close>)

text \<open>A change of the endpoint that nobody who attached to a serving daemon relies on.\<close>

lemma endpoint_inv:
  assumes "launch_inv w" "\<not> is_serving (lw_endpoint w) \<or> lw_stops w < n" "lw_stops w \<le> n"
    "\<not> disturbed \<Longrightarrow> \<not> lw_disturbed w" "pending \<le> lw_pending w"
    "\<not> disturbed \<Longrightarrow> is_serving ep \<Longrightarrow> pending = 0 \<and> (\<forall>i. lw_launchers w i \<noteq> Spawning)"
  shows "launch_inv (w\<lparr>lw_pending := pending, lw_endpoint := ep, lw_stops := n, lw_disturbed := disturbed\<rparr>)"
proof (rule launch_invI)
  let ?w = "w\<lparr>lw_pending := pending, lw_endpoint := ep, lw_stops := n, lw_disturbed := disturbed\<rparr>"
  fix i hello k assume "lw_launchers ?w i = Ended (Ok hello) k"
  then have "k \<le> lw_stops w" "k = lw_stops w \<Longrightarrow> lw_endpoint w = Serving hello" using launch_invD(2) [OF assms(1)] by auto
  then show "k \<le> lw_stops ?w \<and> (k = lw_stops ?w \<longrightarrow> lw_endpoint ?w = Serving hello)" using assms(2,3) by auto
next
  let ?w = "w\<lparr>lw_pending := pending, lw_endpoint := ep, lw_stops := n, lw_disturbed := disturbed\<rparr>"
  assume u: "\<not> lw_disturbed ?w" "0 < lw_pending ?w"
  then have "lw_pending w = 1 \<and> (\<exists>i. lw_launchers w i = Confirming)"
    using launch_invD(3) [OF assms(1)] assms(4,5) by auto
  with u assms(5,6) show "lw_pending ?w = 1 \<and> \<not> is_serving (lw_endpoint ?w) \<and> (\<exists>k. lw_launchers ?w k = Confirming)" by auto
qed (use assms(4,6) launch_invD(1) [OF assms(1)] in auto)

lemma launch_step_inv:
  assumes "launch_step w w'" "launch_inv w"
  shows "launch_inv w'"
  using assms(1)
proof cases
  case (probes_go i attached)
  then show ?thesis by (auto intro!: moves_outside [OF assms(2)])
next
  case (probes_done i attached hello)
  then show ?thesis by (auto intro!: moves_outside [OF assms(2)] simp: attach_ready dest!: probe_ready)
next
  case (probes_fail i attached e)
  then show ?thesis by (auto intro!: moves_outside [OF assms(2)])
next
  case (lock_fails i e)
  then show ?thesis by (auto intro!: moves_outside [OF assms(2)])
next
  case (reprobes_go i attached)
  then show ?thesis using probe_absent [of attached "lw_endpoint w"] by (auto intro!: moves_inside [OF assms(2)])
next
  case (reprobes_done i attached hello)
  then show ?thesis by (auto intro!: moves_out_quiet [OF assms(2)] simp: attach_ready dest!: probe_ready)
next
  case (rotate_ends i attached)
  then show ?thesis by (cases attached) (auto intro!: moves_out_quiet [OF assms(2)] simp: attach_ready)
next
  case (spawns i)
  then show ?thesis using spawn_inv [OF assms(2), of i "lw_disturbed w"] launch_invD(4) [OF assms(2)] by auto
next
  case (respawns i)
  then show ?thesis using spawn_inv [OF assms(2), of i "lw_disturbed w \<or> is_serving (lw_endpoint w)"] by auto
next
  case (confirms i hello)
  then have "lw_disturbed w \<or> lw_pending w = 0" using launch_invD(3) [OF assms(2)] by (auto simp: attach_ready)
  with confirms show ?thesis using moves_out [OF assms(2), of i "Ok hello" "lw_disturbed w"] by (auto simp: attach_ready)
next
  case (deadline i polls e)
  then show ?thesis by (auto intro!: moves_out [OF assms(2)])
next
  case (binds hello)
  have "lw_pending w - 1 = 0 \<and> (\<forall>i. lw_launchers w i \<noteq> Spawning)" if u: "\<not> lw_disturbed w"
  proof -
    have "lw_pending w = 1" using launch_invD(3) [OF assms(2) u binds(2)] by simp
    moreover have "lw_launchers w i \<noteq> Spawning" for i using launch_quiet [OF assms(2), of i] u binds(2) by auto
    ultimately show ?thesis by simp
  qed
  then show ?thesis
    using binds endpoint_inv [OF assms(2), of "lw_stops w" "lw_disturbed w" "lw_pending w - 1" "Serving hello"] by simp
next
  case ends
  then show ?thesis
    by (intro launch_invI) (use launch_invD [OF assms(2)] in auto)
next
  case stops
  then show ?thesis
    using endpoint_inv [OF assms(2), of "Suc (lw_stops w)" "lw_disturbed w" "lw_pending w" Nothing] by simp
next
  case (by_hand hello)
  define d where "d \<longleftrightarrow> lw_disturbed w \<or> 0 < lw_pending w \<or> (\<exists>i. lw_launchers w i = Spawning)"
  have "launch_inv (w\<lparr>lw_pending := lw_pending w, lw_endpoint := Serving hello, lw_stops := lw_stops w, lw_disturbed := d\<rparr>)"
    by (rule endpoint_inv [OF assms(2)]) (use by_hand(2) in \<open>auto simp: d_def\<close>)
  then show ?thesis unfolding by_hand(1) d_def [symmetric] by simp
next
  case foreign_binds
  then show ?thesis using endpoint_inv [OF assms(2), of "lw_stops w" "lw_disturbed w" "lw_pending w" Otherwise] by simp
next
  case foreign_leaves
  then show ?thesis using endpoint_inv [OF assms(2), of "lw_stops w" "lw_disturbed w" "lw_pending w" Nothing] by simp
next
  case (locks i)
  show ?thesis unfolding locks(1) by (rule moves_in [OF assms(2) locks(3)]) simp_all
next
  case (restart_locks i)
  show ?thesis unfolding restart_locks(1) by (rule moves_in [OF assms(2) restart_locks(3)]) simp_all
next
  case (reprobes_fail i attached e)
  show ?thesis unfolding reprobes_fail(1) by (rule moves_out_quiet [OF assms(2)]) (simp_all add: reprobes_fail(2))
next
  case (reprobes_rotate i attached)
  show ?thesis unfolding reprobes_rotate(1) by (rule moves_inside [OF assms(2)]) (simp_all add: reprobes_rotate(2))
next
  case (rotate_fails i e)
  show ?thesis unfolding rotate_fails(1) by (rule moves_out_quiet [OF assms(2)]) (simp_all add: rotate_fails(2))
next
  case (restart_looks i attached own)
  show ?thesis unfolding restart_looks(1) by (rule moves_inside [OF assms(2)]) (simp_all add: restart_looks(2) split: if_splits)
next
  case (stop_done i)
  show ?thesis unfolding stop_done(1) by (rule moves_inside [OF assms(2)]) (simp_all add: stop_done(2))
next
  case (stop_fails i e)
  show ?thesis unfolding stop_fails(1) by (rule moves_out_quiet [OF assms(2)]) (simp_all add: stop_fails(2))
next
  case (spawn_fails i e)
  show ?thesis unfolding spawn_fails(1) by (rule moves_out_quiet [OF assms(2)]) (use spawn_fails(2) in auto)
qed

lemma launch_reach_inv: "launch_reach ep restarts w \<Longrightarrow> launch_inv w"
  unfolding launch_reach_def
proof (induction rule: rtranclp_induct)
  case base
  show ?case by (rule launch_invI) (auto simp: launch_start_def split: if_splits)
next
  case (step w w')
  then show ?case by (blast intro: launch_step_inv)
qed

section \<open>Properties\<close>


definition example_hello :: HelloPayload where
  "example_hello = \<lparr>hp_protocol_version = 1, hp_version = [], hp_daemon_id = [], hp_current_generation = 1\<rparr>"

text \<open>
  Launchers 0 and 1 both find nothing, 0 takes the lock, looks again and spawns; its daemon binds, and 0
  attaches. Launcher 2 starts late: its first attempt times out, which is no reason to spawn.
\<close>

definition example_race :: launch_world where
  "example_race = \<lparr>lw_endpoint = Serving example_hello, lw_pending = 0, lw_spawned = 1, lw_stops = 0, lw_lock = None, lw_disturbed = False,
     lw_launchers = (\<lambda>_. Probing)(0 := Ended (Ok example_hello) 0, 1 := WaitingLock, 2 := Ended (Err (EE_ForeignPeer AE_HandshakeTimeout)) 0)\<rparr>"

lemma example_race_reached: "launch_reach Nothing (\<lambda>_. False) example_race"
proof -
  let ?absent = "Err (AE_Transport (TE_Io IoNotFound)) :: (HelloPayload, AttachError) result"
  have absent: "attach_sees Nothing ?absent" "probe ?absent = Ok ProbeAbsent"
    by (simp_all add: attach_sees_def probe_def classify_attach_def)
  have timeout: "attach_sees (Serving example_hello) (Err AE_HandshakeTimeout)" "probe (Err AE_HandshakeTimeout) = Err (EE_ForeignPeer AE_HandshakeTimeout)"
    by (simp_all add: attach_sees_def probe_def classify_attach_def nobody_listens_def)
  let ?w0 = "launch_start Nothing (\<lambda>_. False)"
  let ?w1 = "?w0\<lparr>lw_launchers := (\<lambda>_. Probing)(0 := WaitingLock)\<rparr>"
  let ?w2 = "?w0\<lparr>lw_launchers := (\<lambda>_. Probing)(0 := WaitingLock, 1 := WaitingLock)\<rparr>"
  let ?w3 = "?w0\<lparr>lw_lock := Some 0, lw_launchers := (\<lambda>_. Probing)(0 := Reprobing, 1 := WaitingLock)\<rparr>"
  let ?w4 = "?w0\<lparr>lw_lock := Some 0, lw_launchers := (\<lambda>_. Probing)(0 := Spawning, 1 := WaitingLock)\<rparr>"
  let ?w5 = "?w4\<lparr>lw_pending := 1, lw_spawned := 1, lw_launchers := (\<lambda>_. Probing)(0 := Confirming, 1 := WaitingLock)\<rparr>"
  let ?w6 = "?w5\<lparr>lw_pending := 0, lw_endpoint := Serving example_hello\<rparr>"
  let ?w7 = "?w6\<lparr>lw_lock := None, lw_launchers := (\<lambda>_. Probing)(0 := Ended (Ok example_hello) 0, 1 := WaitingLock)\<rparr>"
  have s1: "launch_step ?w0 ?w1" using probes_go [of ?w0 0 ?absent] absent by (simp add: launch_start_def moves_def)
  have s2: "launch_step ?w1 ?w2" using probes_go [of ?w1 1 ?absent] absent by (simp add: launch_start_def moves_def)
  have s3: "launch_step ?w2 ?w3" using locks [of ?w2 0] by (simp add: launch_start_def takes_lock_def fun_upd_twist)
  have s4: "launch_step ?w3 ?w4" using reprobes_go [of ?w3 0 ?absent] absent by (simp add: launch_start_def moves_def fun_upd_twist)
  have s5: "launch_step ?w4 ?w5" using spawns [of ?w4 0] by (simp add: launch_start_def moves_def fun_upd_twist)
  have s6: "launch_step ?w5 ?w6" using binds [of ?w5 example_hello] by (simp add: launch_start_def)
  have s7: "launch_step ?w6 ?w7" using confirms [of ?w6 0 example_hello] by (simp add: launch_start_def gives_lock_def attach_ready fun_upd_twist)
  have s8: "launch_step ?w7 example_race"
    using probes_fail [of ?w7 2 "Err AE_HandshakeTimeout"] timeout
    by (simp add: launch_start_def moves_def example_race_def)
  have trans: "launch_step\<^sup>*\<^sup>* a b \<Longrightarrow> launch_step b c \<Longrightarrow> launch_step\<^sup>*\<^sup>* a c" for a b c
    by (rule rtranclp.rtrancl_into_rtrancl)
  have "launch_step\<^sup>*\<^sup>* ?w0 ?w2" by (rule trans [OF r_into_rtranclp]) (rule s1, rule s2)
  then have "launch_step\<^sup>*\<^sup>* ?w0 ?w4" by (rule trans [OF trans]) (rule s3, rule s4)
  then have "launch_step\<^sup>*\<^sup>* ?w0 ?w6" by (rule trans [OF trans]) (rule s5, rule s6)
  then show ?thesis unfolding launch_reach_def by (rule trans [OF trans]) (rule s7, rule s8)
qed


text \<open>
  \<open>ensure_running\<close> touches the machine only where it may: it spawns only under the launch lock and when an
  attempt made under it found nothing listening, it asks a daemon to stop only under the lock and when it
  answered with a protocol version that is not newer, it does neither when anything else answers, and what
  it returns is the greeting of an attempt it made.
\<close>

theorem ensure_effects_justified:
  "(Spawned \<in> set (snd (ensure_running env)) \<longrightarrow> is_ok (le_lock env) \<and>
      (\<exists>io. le_second env = Err (AE_Transport (TE_Io io)) \<and> (io = IoNotFound \<or> io = IoConnectionRefused))) \<and>
   (StopRequested \<in> set (snd (ensure_running env)) \<longrightarrow> is_ok (le_lock env) \<and>
      (\<exists>d f. le_second env = Err (AE_VersionMismatch d f) \<and> d \<le> PROTOCOL_VERSION)) \<and>
   (\<forall>hello. fst (ensure_running env) = Ok hello \<longrightarrow>
      Ok hello \<in> {le_first env, le_second env, le_after_stop env} \<union> set (le_polls env))"
proof -
  have absent: "\<exists>io. a = Err (AE_Transport (TE_Io io)) \<and> (io = IoNotFound \<or> io = IoConnectionRefused)" if "probe a = Ok ProbeAbsent" for a
    using that by (auto simp: probe_def classify_attach_def split: result.splits AttachError.splits TransportError.splits if_splits)
  have older: "\<exists>d f. a = Err (AE_VersionMismatch d f) \<and> d \<le> PROTOCOL_VERSION" if "probe a = Ok ProbeReplaceable" for a
    using that by (auto simp: probe_def classify_attach_def split: result.splits AttachError.splits TransportError.splits if_splits)
  have polls: "Ok hello \<in> set ps" if "wait_ready l ps = Ok hello" for l ps hello
    using that by (induction ps arbitrary: l) (auto split: option.splits AttachError.splits result.splits)
  have mapped: "r = Ok hello" if "map_result (\<lambda>x. x) EE_Transport r = Ok hello" for r :: "(HelloPayload, AttachError) result" and hello
    using that by (cases r) simp_all
  show ?thesis
    by (auto simp: ensure_running_def is_ok_iff dest!: absent older polls mapped probe_ready split: result.splits Probe.splits)
qed

text \<open>A launcher that finds nothing, spawns, and finds the daemon at the second poll.\<close>

definition example_launch :: launch_env where
  "example_launch = (let absent = Err (AE_Transport (TE_Io IoNotFound)) in
     \<lparr>le_first = absent, le_lock = Ok (), le_second = absent, le_stop = Ok (), le_after_stop = absent, le_spawn = Ok (),
      le_polls = [absent, Ok example_hello]\<rparr>)"

theorem ensure_effects_justified_witness:
  "is_ok (le_lock example_launch) \<and> Ok example_hello \<in> {le_first example_launch, le_second example_launch, le_after_stop example_launch} \<union> set (le_polls example_launch)"
proof -
  have "ensure_running example_launch = (Ok example_hello, [LockTaken, Spawned])"
    by (simp add: ensure_running_def example_launch_def Let_def probe_def classify_attach_def spawn_daemon_def)
  then show ?thesis using ensure_effects_justified [of example_launch] by simp
qed

text \<open>
  The documented replacement of an older daemon cannot happen. A launcher that asked a daemon to stop never
  spawns one; and since a stop attaches first, a daemon that answers with an older version is not even
  asked.
\<close>

theorem stopped_daemon_not_relaunched:
  "StopRequested \<in> set (snd (ensure_running env)) \<Longrightarrow> Spawned \<notin> set (snd (ensure_running env))"
  by (auto simp: ensure_running_def split: result.splits Probe.splits)

theorem older_daemon_never_replaced:
  assumes "d \<le> PROTOCOL_VERSION" "le_first env = Err (AE_VersionMismatch d f)" "le_second env = le_first env" "le_lock env = Ok ()"
    "le_stop env = stop err dbg (le_first env) requested frames live"
  shows "ensure_running env = (Err (EE_Transport (AE_VersionMismatch d f)), [LockTaken, StopRequested])"
proof -
  have "probe (Err (AE_VersionMismatch d f)) = Ok ProbeReplaceable" using assms(1) by (simp add: probe_def classify_attach_def)
  then show ?thesis using assms(2-5) by (simp add: ensure_running_def stop_def)
qed

text \<open>
  C29. What a frontend of another protocol version is told: the daemon answers its handshake with a
  \<open>ProtocolError\<close> frame, never with \<open>VersionMismatch\<close>, so attaching ends as a refusal and the launcher takes
  the daemon for a foreign peer.
\<close>

theorem version_mismatch_refused:
  assumes "v \<noteq> PROTOCOL_VERSION" "length body \<le> MAX_FRAME_BYTES" "jc_decode (sc_requests cfg) body = Ok (DR_Handshake v ver did)"
    "jc_encode (sc_frames cfg) (FF_ProtocolError (transport_error_text std (TE_VersionMismatch PROTOCOL_VERSION v))) = Ok b"
    "length b \<le> 32000"
    "jc_decode (sc_frames cfg) b = Ok (FF_ProtocolError (transport_error_text std (TE_VersionMismatch PROTOCOL_VERSION v)))"
    "se_event env = SvPoll (ReadBytes (frame_bytes body))"
  shows "\<exists>s. serve cfg std [Wrote (length (frame_bytes b))] [env, env'] = (Err (TE_VersionMismatch PROTOCOL_VERSION v), s) \<and>
    receive_chunks (sc_frames cfg) [ss_sent s] connection_new =
      ([FF_ProtocolError (transport_error_text std (TE_VersionMismatch PROTOCOL_VERSION v))], None, connection_new) \<and>
    ss_effects s = [] \<and>
    probe (attach std dbg (Ok ()) (Ok ()) (Ok (FF_ProtocolError (transport_error_text std (TE_VersionMismatch PROTOCOL_VERSION v))))) =
      Err (EE_ForeignPeer (AE_Refused (transport_error_text std (TE_VersionMismatch PROTOCOL_VERSION v))))"
proof -
  let ?m = "transport_error_text std (TE_VersionMismatch PROTOCOL_VERSION v)"
  let ?c = "connection_new\<lparr>cn_buffer := frame_bytes body\<rparr>"
  have none: "take_frame connection_new = (Ok None, connection_new)"
    by (simp add: take_frame_def connection_new_def LEN_PREFIX_BYTES_def)
  have len: "length (frame_bytes body) = LEN_PREFIX_BYTES + length body" "frame_bytes body \<noteq> []"
    using length_prefix_parses(1) [OF assms(2)] frame_bytes_nonempty [OF assms(2)] by (simp_all add: frame_bytes_def)
  have "push_bytes (frame_bytes body) connection_new = (Ok (), ?c)"
    using len assms(2) by (simp add: push_bytes_def connection_new_def MAX_BUFFERED_BYTES_def MAX_FRAME_BYTES_def LEN_PREFIX_BYTES_def)
  moreover have "flush_outbound outs connection_new = (Ok True, connection_new, [])" for outs
    by (cases outs) (simp_all add: next_inflight_def connection_new_def)
  moreover have "read_available (ReadBytes (frame_bytes body)) = Ok (frame_bytes body)" using len(2) by (simp add: read_available_def)
  moreover have "serve_request cfg env serve_start = (Ok (), serve_start)" using none by (simp add: serve_request_def try_read_request_def serve_start_def)
  ultimately have first_turn: "serve_turn cfg env serve_start = (Ok True, serve_start\<lparr>ss_connection := ?c\<rparr>)"
    using assms(7) by (simp add: serve_turn_def serve_branch_def Let_def serve_start_def)
  have frame: "take_frame ?c = (Ok (Some body), connection_new)"
    using take_frame_complete [OF assms(2), of ?c "[]"] by (simp add: connection_new_def)
  have second_turn: "serve_turn cfg env' (serve_start\<lparr>ss_connection := ?c\<rparr>) = (Err (TE_VersionMismatch PROTOCOL_VERSION v), serve_start)"
  proof -
    have "try_read_request (sc_requests cfg) ?c = (Err (TE_VersionMismatch PROTOCOL_VERSION v), connection_new)"
      using frame assms(1,3) by (simp add: try_read_request_def connection_new_def)
    then show ?thesis by (simp add: serve_turn_def serve_request_def serve_start_def)
  qed
  have small: "length b \<le> MAX_FRAME_BYTES" using assms(5) by (simp add: MAX_FRAME_BYTES_def)
  have enc: "encode_frame (sc_frames cfg) (FF_ProtocolError ?m) = Ok (frame_bytes b)" using assms(4) small by (simp add: encode_frame_Ok)
  have "length (frame_bytes b) \<noteq> 0" using frame_bytes_nonempty [OF small] by simp
  then have sent: "send_frame cfg (FF_ProtocolError ?m) [Wrote (length (frame_bytes b))] serve_start = (Ok (), serve_start\<lparr>ss_sent := frame_bytes b\<rparr>)"
    by (simp add: send_frame_encoded enc send_encoded_def write_encoded_def serve_start_def connection_new_def next_inflight_def)
  have "receive_chunks (sc_frames cfg) [frame_bytes b] connection_new = ([FF_ProtocolError ?m], None, connection_new)"
  proof -
    have p1: "list_all2 (body_of (sc_frames cfg)) [FF_ProtocolError ?m] [b]" using assms(6) small by (simp add: body_of_def)
    have p2: "cn_buffer connection_new @ concat [frame_bytes b] = concat (map frame_bytes [b])" by (simp add: connection_new_def)
    have p3: "cut_short (cn_buffer connection_new) [b]"
      using small frame_bytes_nonempty [OF small] by (simp add: cut_short_def connection_new_def)
    have p4: "list_all (\<lambda>ch. length ch \<le> 32768) [frame_bytes b]"
      using length_prefix_parses(1) [OF small] assms(5) by (simp add: frame_bytes_def LEN_PREFIX_BYTES_def)
    have "connection_new\<lparr>cn_buffer := []\<rparr> = connection_new" by (simp add: connection_new_def)
    with receive_chunks_complete [OF p1 p2 p3 p4] show ?thesis by (simp only:)
  qed
  then show ?thesis
    by (simp add: serve_def first_turn second_turn sent) (simp add: serve_start_def attach_def probe_def classify_attach_def)
qed

definition example_mismatch :: serve_config where
  "example_mismatch = \<lparr>sc_requests = \<lparr>jc_encode = \<lambda>_. Ok [], jc_decode = \<lambda>_. Ok (DR_Handshake 2 [] [])\<rparr>,
     sc_frames = \<lparr>jc_encode = \<lambda>_. Ok [7], jc_decode = \<lambda>_. Ok (FF_ProtocolError
       (ustr ''client daemon speaks protocol 1, this frontend speaks 2''))\<rparr>, sc_version = [], sc_daemon_id = []\<rparr>"

definition example_texts :: std_texts where
  "example_texts = \<lparr>st_parse = \<lambda>_. ustr ''invalid digit found in string'', st_io = \<lambda>_. ustr ''i/o error'',
     st_request = \<lambda>_. ustr ''request''\<rparr>"

theorem version_mismatch_refused_witness:
  "ss_effects (snd (serve example_mismatch example_texts [Wrote 10]
     [example_env (SvPoll (ReadBytes (frame_bytes [1]))) [], example_env SvPublished []])) = []"
proof -
  have m: "transport_error_text example_texts (TE_VersionMismatch PROTOCOL_VERSION 2) = ustr ''client daemon speaks protocol 1, this frontend speaks 2''"
    by (simp add: transport_error_text_def PROTOCOL_VERSION_def ustr_def dec_nat.simps [of 1] dec_nat.simps [of "Suc 0"] dec_nat.simps [of 2])
  have codec: "jc_decode (sc_requests example_mismatch) [1] = Ok (DR_Handshake 2 [] [])"
    "jc_encode (sc_frames example_mismatch) f = Ok [7]"
    "jc_decode (sc_frames example_mismatch) [7] = Ok (FF_ProtocolError (transport_error_text example_texts (TE_VersionMismatch PROTOCOL_VERSION 2)))" for f
    by (simp_all add: example_mismatch_def m)
  have event: "se_event (example_env (SvPoll (ReadBytes (frame_bytes [1]))) []) = SvPoll (ReadBytes (frame_bytes [1]))"
    by (simp add: example_env_def)
  have n: "length (frame_bytes [7 :: byte]) = 10" by (simp add: example_frame)
  have facts: "2 \<noteq> PROTOCOL_VERSION" "length [1 :: byte] \<le> MAX_FRAME_BYTES" "length [7 :: byte] \<le> 32000"
    by (simp_all add: PROTOCOL_VERSION_def MAX_FRAME_BYTES_def)
  obtain s where "serve example_mismatch example_texts [Wrote (length (frame_bytes [7]))]
      [example_env (SvPoll (ReadBytes (frame_bytes [1]))) [], example_env SvPublished []] = (Err (TE_VersionMismatch PROTOCOL_VERSION 2), s)"
    "ss_effects s = []"
    using version_mismatch_refused [OF facts(1,2) codec(1,2) facts(3) codec(3) event] by blast
  then show ?thesis using n by simp
qed

end
