(* ===== verification/Cron_Block.thy ===== *)
theory Cron_Block
  imports Client_Document
begin

text \<open>
  The rows of the cron block (\<open>crates/gregg/src/ui/cron.rs\<close>): which rows it has, which of them survive
  a budget, and how many the layout is asked for.

  A row is what it stands for, not its text; the texts of headers and jobs, their clipping to a width and
  the terminal are not modelled. The lines of an output are the sanitizer's.

  The lemmas show that the window of jobs holds the selected one, and that what is drawn is a listing
  of everything there is, defined without the code's window and budget, with a marker for each part left
  out.
\<close>

section \<open>Rows\<close>

definition HEADER_ROWS :: nat where "HEADER_ROWS = 1"

definition SELECTED_JOB_ROWS :: nat where "SELECTED_JOB_ROWS = 1"

definition MAX_JOB_ROWS :: nat where "MAX_JOB_ROWS = 24"

definition JOB_WINDOW_MARKERS :: nat where "JOB_WINDOW_MARKERS = 2"

definition MAX_DESIRED_ROWS :: nat where
  "MAX_DESIRED_ROWS = MAX_JOB_ROWS + SELECTED_JOB_ROWS + JOB_WINDOW_MARKERS + 8"

datatype output_stream = Stdout | Stderr

datatype cron_row =
    RowNoState
  | RowHeader CronCapability nat
  | RowStale
  | RowAbove nat
  | RowJob SchedulerJobV2 bool
  | RowBelow nat
  | RowSelected rstr nat
  | RowHeadline CronRecord
  | RowLine output_stream bool rstr
  | RowMoreLines
  | RowTruncated

record block_rows =
  bl_head :: "cron_row list"
  bl_reserved :: "cron_row list"
  bl_table :: "cron_row list"
  bl_rest :: "cron_row list"

definition block_len :: "block_rows \<Rightarrow> nat" where
  "block_len b = length (bl_head b) + length (bl_reserved b) + length (bl_table b) + length (bl_rest b)"

definition block_fixed :: "block_rows \<Rightarrow> nat" where
  "block_fixed b = length (bl_head b) + length (bl_reserved b)"

definition into_rows :: "block_rows \<Rightarrow> cron_row list" where
  "into_rows b = bl_head b @ bl_reserved b @ bl_table b @ bl_rest b"

definition job_rows :: "SystemCronDto \<Rightarrow> SchedulerJobV2 list" where
  "job_rows cron = (case cd_summary cron of None \<Rightarrow> [] | Some summary \<Rightarrow> sm_jobs summary)"

record job_window =
  jw_start :: nat
  jw_finish :: nat
  jw_above :: nat
  jw_below :: nat

definition job_window :: "SchedulerJobV2 list \<Rightarrow> rstr option \<Rightarrow> nat \<Rightarrow> job_window" where
  "job_window jobs selected limit =
     (let len = length jobs; mx = min limit len in
      if mx = 0 then \<lparr>jw_start = 0, jw_finish = 0, jw_above = 0, jw_below = len\<rparr>
      else
        let index = (case selected of None \<Rightarrow> None | Some name \<Rightarrow> position (\<lambda>j. jv_name j = name) jobs);
            start = min (case index of None \<Rightarrow> 0 | Some i \<Rightarrow> i - mx div 2) (len - mx)
        in \<lparr>jw_start = start, jw_finish = start + mx, jw_above = start, jw_below = len - (start + mx)\<rparr>)"

definition stream_lines :: "CronRecord \<Rightarrow> output_stream \<Rightarrow> nat \<Rightarrow> cron_row list" where
  "stream_lines r stream depth =
     (let out = (case stream of Stdout \<Rightarrow> rr_stdout (cr_record r) | Stderr \<Rightarrow> rr_stderr (cr_record r)) in
      if so_text out = [] then []
      else
        let cleaned = sanitize (so_text out) depth in
        map (RowLine stream (so_truncated out)) (filter (\<lambda>line. str_trim line \<noteq> []) (sanitized_lines cleaned)) @
        (if sz_dropped_lines cleaned then [RowMoreLines] else []))"

definition record_block :: "nat \<Rightarrow> CronRecord \<Rightarrow> cron_row list" where
  "record_block depth r = RowHeadline r # stream_lines r Stdout depth @ stream_lines r Stderr depth"

text \<open>
  The block for a system's scheduler entry, the job selected in it, the configured depth, and the most
  job rows to show.
\<close>

definition block_rows :: "SystemCronDto option \<Rightarrow> rstr option \<Rightarrow> nat \<Rightarrow> nat \<Rightarrow> block_rows" where
  "block_rows entry selected depth_shown table_max =
     (case entry of
        None \<Rightarrow> \<lparr>bl_head = [RowNoState], bl_reserved = [], bl_table = [], bl_rest = []\<rparr>
      | Some cron \<Rightarrow>
          let head = RowHeader (cd_capability cron) (length (job_rows cron)) #
                (if cd_last_fetch_error cron \<noteq> None then [RowStale] else []);
              jobs = job_rows cron;
              window = job_window jobs selected table_max;
              table = (if 0 < jw_above window then [RowAbove (jw_above window)] else []) @
                map (\<lambda>j. RowJob j (Some (jv_name j) = selected)) (take (jw_finish window - jw_start window) (drop (jw_start window) jobs)) @
                (if 0 < jw_below window then [RowBelow (jw_below window)] else [])
          in case selected of
               None \<Rightarrow> \<lparr>bl_head = head, bl_reserved = [], bl_table = table, bl_rest = []\<rparr>
             | Some job \<Rightarrow>
                 let depth = max depth_shown 1; records = rev (dto_job_records cron job) in
                 \<lparr>bl_head = head,
                  bl_reserved = RowSelected job (length records) # (case records of [] \<Rightarrow> [] | newest # _ \<Rightarrow> record_block depth newest),
                  bl_table = table,
                  bl_rest = concat (map (record_block depth) (tl records))\<rparr>)"

definition desired_rows_of :: "SystemCronDto option \<Rightarrow> rstr option \<Rightarrow> nat \<Rightarrow> nat" where
  "desired_rows_of entry selected depth_shown =
     min (block_len (block_rows entry selected depth_shown MAX_JOB_ROWS)) MAX_DESIRED_ROWS"

text \<open>What \<open>render\<close> draws, from the top of an area of some height.\<close>

definition draw_rows :: "SystemCronDto option \<Rightarrow> rstr option \<Rightarrow> nat \<Rightarrow> nat \<Rightarrow> cron_row list" where
  "draw_rows entry selected depth height =
     (let full = block_rows entry selected depth MAX_JOB_ROWS;
          (rows, truncated) =
            (if block_len full > height
             then let table_max = max (height - (block_fixed full + 1 + JOB_WINDOW_MARKERS)) 1;
                      shrunk = block_rows entry selected depth table_max
                  in (into_rows shrunk, block_len shrunk > height)
             else (into_rows full, False));
          content = (if truncated then height - 1 else height)
      in take content rows @ (if truncated \<and> content < height then [RowTruncated] else []))"

definition render_rows :: "SystemCronDto option \<Rightarrow> rstr option \<Rightarrow> nat \<Rightarrow> nat \<Rightarrow> nat \<Rightarrow> nat \<Rightarrow> cron_row list" where
  "render_rows entry selected depth area_width area_height rows_visible =
     (if rows_visible = 0 \<or> area_width = 0 \<or> area_height = 0 then []
      else draw_rows entry selected depth (min area_height rows_visible))"

section \<open>The window\<close>

lemma job_window_shape:
  "jw_start (job_window jobs selected n) = jw_above (job_window jobs selected n)"
  "jw_finish (job_window jobs selected n) = jw_start (job_window jobs selected n) + min n (length jobs)"
  "jw_finish (job_window jobs selected n) + jw_below (job_window jobs selected n) = length jobs"
  by (auto simp: job_window_def Let_def min_def split: option.split)

lemma job_window_selected:
  assumes "position (\<lambda>j. jv_name j = name) jobs = Some i" "0 < n"
  shows "jw_start (job_window jobs (Some name) n) \<le> i" "i < jw_finish (job_window jobs (Some name) n)"
proof -
  have i: "i < length jobs" using assms(1) by (simp add: position_Some_iff)
  then show "jw_start (job_window jobs (Some name) n) \<le> i" "i < jw_finish (job_window jobs (Some name) n)"
    using assms by (auto simp: job_window_def Let_def min_def)
qed

section \<open>What is drawn\<close>

lemma block_len_rows: "length (into_rows b) = block_len b"
  by (simp add: into_rows_def block_len_def)

lemma block_fixed_same: "block_fixed (block_rows entry selected depth m) = block_fixed (block_rows entry selected depth k)"
  by (cases entry; cases selected) (simp_all add: block_rows_def block_fixed_def Let_def)

lemma block_table:
  "bl_table (block_rows (Some cron) selected depth m) =
    (let window = job_window (job_rows cron) selected m in
     (if 0 < jw_above window then [RowAbove (jw_above window)] else []) @
     map (\<lambda>j. RowJob j (Some (jv_name j) = selected)) (take (jw_finish window - jw_start window) (drop (jw_start window) (job_rows cron))) @
     (if 0 < jw_below window then [RowBelow (jw_below window)] else []))"
  by (cases selected) (simp_all add: block_rows_def Let_def)

lemma block_table_length: "length (bl_table (block_rows entry selected depth m)) \<le> m + JOB_WINDOW_MARKERS"
proof (cases entry)
  case (Some cron)
  let ?w = "job_window (job_rows cron) selected m"
  have "length (take (jw_finish ?w - jw_start ?w) (drop (jw_start ?w) (job_rows cron))) \<le> m"
    using job_window_shape(2) [of "job_rows cron" selected m] by (simp add: min_le_iff_disj)
  then show ?thesis unfolding Some block_table Let_def JOB_WINDOW_MARKERS_def by simp
qed (simp add: block_rows_def)

lemma set_take_head: "length xs \<le> n \<Longrightarrow> set xs \<subseteq> set (take n (xs @ ys))"
  by simp

lemma selected_job_in_table:
  assumes "name \<in> set (map jv_name (job_rows cron))" "0 < m"
  shows "\<exists>j. RowJob j True \<in> set (bl_table (block_rows (Some cron) (Some name) depth m)) \<and> jv_name j = name"
proof -
  let ?jobs = "job_rows cron" and ?w = "job_window (job_rows cron) (Some name) m"
  obtain i where i: "position (\<lambda>j. jv_name j = name) ?jobs = Some i"
    using assms(1) position_None_iff [of "\<lambda>j. jv_name j = name" ?jobs]
    by (cases "position (\<lambda>j. jv_name j = name) ?jobs") auto
  then have j: "i < length ?jobs" "jv_name (?jobs ! i) = name" by (simp_all add: position_Some_iff)
  have w: "jw_start ?w \<le> i" "i < jw_finish ?w" using job_window_selected [OF i assms(2)] by simp_all
  have "take (jw_finish ?w - jw_start ?w) (drop (jw_start ?w) ?jobs) ! (i - jw_start ?w) = ?jobs ! i"
    using w j(1) by simp
  moreover have "i - jw_start ?w < length (take (jw_finish ?w - jw_start ?w) (drop (jw_start ?w) ?jobs))" using w j(1) by auto
  ultimately have "?jobs ! i \<in> set (take (jw_finish ?w - jw_start ?w) (drop (jw_start ?w) ?jobs))" by (metis nth_mem)
  then show ?thesis using j(2) by (auto simp: block_table Let_def intro!: exI [of _ "?jobs ! i"])
qed

text \<open>The number of job rows the drawn block asks for.\<close>

definition drawn_limit :: "SystemCronDto option \<Rightarrow> rstr option \<Rightarrow> nat \<Rightarrow> nat \<Rightarrow> nat" where
  "drawn_limit entry selected depth height =
     (let full = block_rows entry selected depth MAX_JOB_ROWS in
      if block_len full > height then max (height - (block_fixed full + 1 + JOB_WINDOW_MARKERS)) 1 else MAX_JOB_ROWS)"

lemma draw_rows_eq:
  fixes entry :: "SystemCronDto option" and selected :: "rstr option" and depth :: nat
  assumes "0 < height"
  defines "b \<equiv> block_rows entry selected depth (drawn_limit entry selected depth height)"
  shows "draw_rows entry selected depth height =
    (if height < block_len b then take (height - 1) (into_rows b) @ [RowTruncated] else into_rows b)"
proof (cases "height < block_len (block_rows entry selected depth MAX_JOB_ROWS)")
  case True
  then have b: "block_rows entry selected depth (max (height - (block_fixed (block_rows entry selected depth MAX_JOB_ROWS) + 1 + JOB_WINDOW_MARKERS)) 1) = b"
    by (simp only: b_def drawn_limit_def Let_def if_True)
  show ?thesis
    unfolding draw_rows_def Let_def using True assms(1) by (simp only: if_True b prod.case) (simp add: block_len_rows)
next
  case False
  then have b: "block_rows entry selected depth MAX_JOB_ROWS = b"
    by (simp only: b_def drawn_limit_def Let_def if_False)
  show ?thesis
    unfolding draw_rows_def Let_def using False by (simp only: if_False b prod.case) (simp add: block_len_rows)
qed

lemma render_rows_eq:
  fixes entry :: "SystemCronDto option" and selected :: "rstr option" and depth :: nat
  assumes "0 < width" "0 < min area_height rows_visible"
  defines "height \<equiv> min area_height rows_visible"
    and "b \<equiv> block_rows entry selected depth (drawn_limit entry selected depth (min area_height rows_visible))"
  shows "render_rows entry selected depth width area_height rows_visible =
    (if height < block_len b then take (height - 1) (into_rows b) @ [RowTruncated] else into_rows b)"
proof -
  have "\<not> (rows_visible = 0 \<or> width = 0 \<or> area_height = 0)" using assms(1,2) by auto
  then show ?thesis using draw_rows_eq [OF assms(2), of entry selected depth] by (simp only: render_rows_def if_False b_def height_def)
qed

section \<open>Everything there is to show\<close>

text \<open>
  The rows of a scheduler entry as it is, with no area to fit in: what stands above the jobs, one row per
  job, and the older records. Of each stream of a record it has the lines up to the configured depth, and a
  marker when there are more lines than that.
\<close>

definition output_rows :: "nat \<Rightarrow> output_stream \<Rightarrow> CronRecord \<Rightarrow> cron_row list" where
  "output_rows depth stream r =
     (let out = (case stream of Stdout \<Rightarrow> rr_stdout (cr_record r) | Stderr \<Rightarrow> rr_stderr (cr_record r));
          lines = all_lines (so_text out)
      in map (RowLine stream (so_truncated out)) (filter (\<lambda>line. str_trim line \<noteq> []) (take depth lines)) @
         (if depth < length lines then [RowMoreLines] else []))"

definition record_listing :: "nat \<Rightarrow> CronRecord \<Rightarrow> cron_row list" where
  "record_listing depth r = RowHeadline r # output_rows depth Stdout r @ output_rows depth Stderr r"

definition top_listing :: "SystemCronDto \<Rightarrow> rstr option \<Rightarrow> nat \<Rightarrow> cron_row list" where
  "top_listing cron selected depth =
     RowHeader (cd_capability cron) (length (job_rows cron)) #
     (if cd_last_fetch_error cron = None then [] else [RowStale]) @
     (case selected of None \<Rightarrow> []
      | Some job \<Rightarrow> RowSelected job (length (dto_job_records cron job)) #
          (if dto_job_records cron job = [] then [] else record_listing (max depth 1) (last (dto_job_records cron job))))"

definition job_listing :: "SystemCronDto \<Rightarrow> rstr option \<Rightarrow> cron_row list" where
  "job_listing cron selected = map (\<lambda>j. RowJob j (selected = Some (jv_name j))) (job_rows cron)"

definition older_listing :: "SystemCronDto \<Rightarrow> rstr option \<Rightarrow> nat \<Rightarrow> cron_row list" where
  "older_listing cron selected depth =
     (case selected of None \<Rightarrow> []
      | Some job \<Rightarrow> concat (map (record_listing (max depth 1)) (rev (butlast (dto_job_records cron job)))))"

lemma stream_lines_output: "0 < depth \<Longrightarrow> stream_lines r stream depth = output_rows depth stream r"
proof (cases "so_text (case stream of Stdout \<Rightarrow> rr_stdout (cr_record r) | Stderr \<Rightarrow> rr_stderr (cr_record r)) = []")
  case True
  then show ?thesis by (simp add: stream_lines_def output_rows_def all_lines_broken Let_def)
qed (simp add: stream_lines_def output_rows_def bounded_lines Let_def)

lemma record_block_listing: "0 < depth \<Longrightarrow> record_block depth = record_listing depth"
  by (rule ext) (simp add: record_block_def record_listing_def stream_lines_output)

lemma tl_rev: "tl (rev xs) = rev (butlast xs)"
  by (induction xs rule: rev_induct) simp_all

lemma block_top: "bl_head (block_rows (Some cron) selected depth m) @ bl_reserved (block_rows (Some cron) selected depth m) =
    top_listing cron selected depth"
proof (cases selected)
  case (Some job)
  have newest: "(case rev rs of [] \<Rightarrow> [] | newest # _ \<Rightarrow> record_block (max depth (Suc 0)) newest) =
      (if rs = [] then [] else record_listing (max depth (Suc 0)) (last rs))" for rs
    by (cases rs rule: rev_cases) (simp_all add: record_block_listing)
  show ?thesis by (simp add: Some block_rows_def top_listing_def Let_def newest)
qed (simp add: block_rows_def top_listing_def Let_def)

lemma block_rest: "bl_rest (block_rows (Some cron) selected depth m) = older_listing cron selected depth"
  by (cases selected) (simp_all add: block_rows_def older_listing_def Let_def record_block_listing tl_rev)

text \<open>The listing with all jobs but \<open>k\<close> of them from position \<open>a\<close> replaced by the counts above and below.\<close>

definition windowed_listing :: "SystemCronDto \<Rightarrow> rstr option \<Rightarrow> nat \<Rightarrow> nat \<Rightarrow> nat \<Rightarrow> cron_row list" where
  "windowed_listing cron selected depth a k =
     top_listing cron selected depth @
     (if a = 0 then [] else [RowAbove a]) @
     take k (drop a (job_listing cron selected)) @
     (if a + k = length (job_rows cron) then [] else [RowBelow (length (job_rows cron) - (a + k))]) @
     older_listing cron selected depth"

lemma into_rows_windowed:
  assumes "0 < m"
  shows "\<exists>a k. a + k \<le> length (job_rows cron) \<and> (job_rows cron \<noteq> [] \<longrightarrow> 0 < k) \<and>
    into_rows (block_rows (Some cron) selected depth m) = windowed_listing cron selected depth a k"
proof -
  define w n where "w = job_window (job_rows cron) selected m" and "n = length (job_rows cron)"
  define a k where "a = jw_start w" and "k = min m n"
  note shape = job_window_shape [of "job_rows cron" selected m, folded w_def n_def]
  have le: "a + k \<le> n" using shape(2,3) by (simp add: a_def k_def)
  have parts: "jw_above w = a" "jw_start w = a" "jw_finish w - a = k" "jw_below w = n - (a + k)"
    using shape by (simp_all add: a_def k_def)
  have jobs: "map (\<lambda>j. RowJob j (Some (jv_name j) = selected)) (take k (drop a (job_rows cron))) =
      take k (drop a (job_listing cron selected))"
    by (simp add: job_listing_def take_map drop_map eq_commute [of selected])
  have "bl_table (block_rows (Some cron) selected depth m) =
      (if a = 0 then [] else [RowAbove a]) @ take k (drop a (job_listing cron selected)) @
      (if a + k = n then [] else [RowBelow (n - (a + k))])"
    using le by (simp add: block_table w_def [symmetric] parts Let_def jobs)
  then have "into_rows (block_rows (Some cron) selected depth m) = windowed_listing cron selected depth a k"
    unfolding into_rows_def windowed_listing_def block_rest n_def [symmetric]
    using block_top [of cron selected depth m] by (simp only: append_assoc [symmetric])
  moreover have "job_rows cron \<noteq> [] \<longrightarrow> 0 < k" using assms by (simp add: k_def n_def)
  ultimately show ?thesis using le unfolding n_def by blast
qed

text \<open>
  C26. The scheduler block never draws more rows than it was given, and it marks everything it leaves out.
  Without an entry it says so. Otherwise what it draws is the listing of the entry in order, except that
  jobs may be left out above and below a window, each group replaced by a marker with its exact count, the
  lines of an output beyond the configured depth are replaced by a marker, and when even that does not fit,
  the rows that do fit but the last end in a marker that the block is cut. When the area holds four rows
  more than the header and the newest record need, the row of the job whose history is open is among them,
  however many jobs there are.
\<close>

theorem cron_block_marks_omissions:
  fixes entry :: "SystemCronDto option" and selected :: "rstr option" and depth :: nat
  assumes "0 < width" "0 < min area_height rows_visible"
  defines "height \<equiv> min area_height rows_visible"
    and "rows \<equiv> render_rows entry selected depth width area_height rows_visible"
  shows "length rows \<le> height \<and>
    (case entry of None \<Rightarrow> rows = [RowNoState]
     | Some cron \<Rightarrow>
         (\<exists>a k. a + k \<le> length (job_rows cron) \<and> (job_rows cron \<noteq> [] \<longrightarrow> 0 < k) \<and>
            (let fit = windowed_listing cron selected depth a k in
             if length fit \<le> height then rows = fit else rows = take (height - 1) fit @ [RowTruncated])) \<and>
         (\<forall>name. selected = Some name \<longrightarrow> name \<in> set (map jv_name (job_rows cron)) \<longrightarrow>
            length (top_listing cron selected depth) + 4 \<le> height \<longrightarrow>
            (\<exists>j. RowJob j True \<in> set rows \<and> jv_name j = name)))"
proof (cases entry)
  case None
  then have "rows = [RowNoState]"
    using assms(1,2) by (simp add: rows_def render_rows_def draw_rows_def block_rows_def block_len_def into_rows_def Let_def)
  then show ?thesis using assms(2) None by (simp add: height_def)
next
  case entry: (Some cron)
  let ?m = "drawn_limit entry selected depth height"
  let ?b = "block_rows entry selected depth ?m"
  have rows: "rows = (if height < block_len ?b then take (height - 1) (into_rows ?b) @ [RowTruncated] else into_rows ?b)"
    unfolding rows_def height_def by (rule render_rows_eq [OF assms(1,2)])
  have m: "0 < ?m" by (simp add: drawn_limit_def Let_def MAX_JOB_ROWS_def less_max_iff_disj)
  have short: "length rows \<le> height"
    using assms(2) by (auto simp: rows block_len_rows height_def)
  obtain a k where ak: "a + k \<le> length (job_rows cron)" "job_rows cron \<noteq> [] \<longrightarrow> 0 < k"
    "into_rows ?b = windowed_listing cron selected depth a k"
    using into_rows_windowed [OF m, of cron selected depth] unfolding entry by blast
  have fit: "if length (windowed_listing cron selected depth a k) \<le> height then rows = windowed_listing cron selected depth a k
      else rows = take (height - 1) (windowed_listing cron selected depth a k) @ [RowTruncated]"
    using block_len_rows [of ?b] by (simp add: rows ak(3) not_less)
  have shown: "\<exists>j. RowJob j True \<in> set rows \<and> jv_name j = name"
    if e: "selected = Some name" "name \<in> set (map jv_name (job_rows cron))"
      and room: "length (top_listing cron selected depth) + 4 \<le> height" for name
  proof -
    obtain j where j: "RowJob j True \<in> set (bl_table ?b)" "jv_name j = name"
      using selected_job_in_table [OF e(2) m, of depth] e(1) entry by auto
    let ?top = "bl_head ?b @ bl_reserved ?b @ bl_table ?b"
    have in_rows: "into_rows ?b = ?top @ bl_rest ?b" by (simp add: into_rows_def)
    have "RowJob j True \<in> set rows"
    proof (cases "height < block_len ?b")
      case False
      then show ?thesis using j(1) by (simp add: rows in_rows)
    next
      case True
      define f where "f = block_fixed (block_rows entry selected depth MAX_JOB_ROWS)"
      have "f = length (top_listing cron selected depth)"
        using arg_cong [OF block_top [of cron selected depth MAX_JOB_ROWS], of length]
        by (simp add: f_def entry block_fixed_def)
      with room have "f + 4 \<le> height" by simp
      moreover have "block_fixed ?b = f" unfolding f_def by (rule block_fixed_same)
      ultimately have fixed: "f + 4 \<le> height" "block_fixed ?b = f" by simp_all
      have cut: "block_len (block_rows entry selected depth MAX_JOB_ROWS) > height"
      proof (rule ccontr)
        assume n: "\<not> ?thesis"
        then have "?m = MAX_JOB_ROWS" by (simp only: drawn_limit_def Let_def if_False)
        then show False using True n by (simp only:)
      qed
      have "?m = max (height - (f + 1 + JOB_WINDOW_MARKERS)) 1"
        unfolding drawn_limit_def Let_def f_def using cut by (simp only: if_True)
      then have "?m = height - (f + 3)" using fixed(1) by (simp add: JOB_WINDOW_MARKERS_def)
      then have "length (bl_table ?b) \<le> height - (f + 3) + 2"
        using block_table_length [of entry selected depth ?m] by (simp only: JOB_WINDOW_MARKERS_def)
      then have "length ?top \<le> height - 1" using fixed by (simp add: block_fixed_def)
      then have "set ?top \<subseteq> set (take (height - 1) (into_rows ?b))" unfolding in_rows by (rule set_take_head)
      then have "RowJob j True \<in> set (take (height - 1) (into_rows ?b))" using j(1) by auto
      then show ?thesis using True unfolding rows by simp
    qed
    with j(2) show ?thesis by blast
  qed
  have "(\<exists>a k. a + k \<le> length (job_rows cron) \<and> (job_rows cron \<noteq> [] \<longrightarrow> 0 < k) \<and>
      (let fit = windowed_listing cron selected depth a k in
       if length fit \<le> height then rows = fit else rows = take (height - 1) fit @ [RowTruncated]))"
    using ak(1,2) fit unfolding Let_def by blast
  then show ?thesis unfolding entry option.case using short shown by blast
qed

definition example_cron :: SystemCronDto where
  "example_cron = (cron_dto_unknown [97])\<lparr>cd_summary := Some \<lparr>sm_schema_version = 2, sm_generated_at_unix_ms = 9, sm_epoch = \<lparr>ep_started_at_unix_ms = 1, ep_nonce = 2\<rparr>,
     sm_history_revision = 3, sm_jobs = map (\<lambda>n. \<lparr>jv_name = [n], jv_schedule = [42], jv_next_due_unix_ms = 60000, jv_state = Idle, jv_load = None,
       jv_pending_since_unix_ms = None, jv_next_retry_unix_ms = None, jv_running_since_unix_ms = None, jv_last = None\<rparr>) [1..<60]\<rparr>\<rparr>"

text \<open>Fifty-nine jobs, the fortieth of them opened, on eight rows.\<close>

theorem cron_block_marks_omissions_witness:
  "length (render_rows (Some example_cron) (Some [40]) 3 80 8 20) \<le> 8 \<and>
   (\<exists>j. RowJob j True \<in> set (render_rows (Some example_cron) (Some [40]) 3 80 8 20) \<and> jv_name j = [40])"
proof -
  have jobs: "[40] \<in> set (map jv_name (job_rows example_cron))" by (simp add: job_rows_def example_cron_def comp_def image_iff)
  have fixed: "length (top_listing example_cron (Some [40]) 3) + 4 \<le> min 8 20"
    by (simp add: top_listing_def dto_job_records_def) (simp add: example_cron_def cron_dto_unknown_def)
  have width: "0 < (80 :: nat)" "0 < min (8 :: nat) 20" by simp_all
  show ?thesis using cron_block_marks_omissions [OF width, of "Some example_cron" "Some [40]" 3] jobs fixed by simp
qed

end
