(* ===== verification/Frontend_State.thy ===== *)
theory Frontend_State
  imports Cron_Block
begin

text \<open>
  The render model of a frontend (\<open>crates/gregg/src/state.rs\<close>, \<open>AppState\<close>): adopting a published
  document, the actions of the operator, the repair of selection and viewport when the fleet changes
  underneath them, the scrolling, and the rectangles the systems get on the screen
  (\<open>crates/gregg/src/ui/layout.rs\<close>).

  A \<open>u16\<close> is a number below 65536; \<open>add16\<close> is the wrapping addition of a release build and
  \<open>sat_add16\<close> the saturating one. Clock readings are arguments. A duration is a number of nanoseconds.

  The lemmas show that selection and viewport always name configured systems, that the selected system
  stays on the screen and the viewport moves no further than that needs, and where a failed host's
  selection goes.
\<close>

section \<open>The render model\<close>

datatype SystemViewMode = ViewNormal | ViewCondensed

datatype Pane = PaneSystems | PaneEggpool

datatype Action =
    MoveDown | MoveUp | PageDown | PageUp | SelectFirst | SelectLast | PreviousPane | NextPane
  | ToggleSystemView | ToggleDrives | ToggleNetwork | ToggleCron | CronJobNext | CronJobPrevious
  | RefreshNow | ClearSelectionHighlight | Resize nat nat | Quit

record AppState =
  ap_systems :: "SystemState list"
  ap_refresh_status :: RefreshStatus
  ap_config_reload_error :: "rstr option"
  ap_eggpool :: "EggpoolState option"
  ap_cron :: "SystemCronDto list"
  ap_cron_display_history :: nat
  ap_last_snapshot_generation :: nat
  ap_selected_id :: "rstr option"
  ap_viewport_top_id :: "rstr option"
  ap_terminal_size :: "(nat \<times> nat) option"
  ap_active_pane :: Pane
  ap_system_view_mode :: SystemViewMode
  ap_drives_expanded :: bool
  ap_network_expanded :: bool
  ap_cron_expanded :: bool
  ap_cron_job :: "rstr option"
  ap_selection_highlight_active :: bool
  ap_eggpool_period_request :: "EggpoolPeriod option"
  ap_saw_reachability :: bool

definition app_blank :: AppState where
  "app_blank =
     \<lparr>ap_systems = [], ap_refresh_status = RefreshIdle, ap_config_reload_error = None, ap_eggpool = None,
      ap_cron = [], ap_cron_display_history = DEFAULT_DISPLAY_HISTORY, ap_last_snapshot_generation = 0,
      ap_selected_id = None, ap_viewport_top_id = None, ap_terminal_size = None, ap_active_pane = PaneSystems,
      ap_system_view_mode = ViewNormal, ap_drives_expanded = False, ap_network_expanded = False,
      ap_cron_expanded = False, ap_cron_job = None, ap_selection_highlight_active = False,
      ap_eggpool_period_request = None, ap_saw_reachability = False\<rparr>"

definition u16_max :: nat where "u16_max = 65535"

definition add16 :: "nat \<Rightarrow> nat \<Rightarrow> nat" where "add16 a b = (a + b) mod 65536"

definition sat_add16 :: "nat \<Rightarrow> nat \<Rightarrow> nat" where "sat_add16 a b = min (a + b) u16_max"

definition display_order :: "AppState \<Rightarrow> nat list" where
  "display_order ap = display_order_of (ap_systems ap)"

section \<open>The cron block's job\<close>

definition cron_for :: "AppState \<Rightarrow> rstr \<Rightarrow> SystemCronDto option" where
  "cron_for ap system_id = find (\<lambda>entry. cd_system_id entry = system_id) (ap_cron ap)"

definition selected_cron :: "AppState \<Rightarrow> SystemCronDto option" where
  "selected_cron ap = (case ap_selected_id ap of None \<Rightarrow> None | Some i \<Rightarrow> cron_for ap i)"

definition cron_job_names :: "AppState \<Rightarrow> rstr list" where
  "cron_job_names ap =
     (case selected_cron ap of
        None \<Rightarrow> []
      | Some cron \<Rightarrow> (case cd_summary cron of None \<Rightarrow> [] | Some summary \<Rightarrow> map jv_name (sm_jobs summary)))"

definition selected_cron_job :: "AppState \<Rightarrow> rstr option" where
  "selected_cron_job ap =
     (let names = cron_job_names ap in
      case names of
        [] \<Rightarrow> None
      | first # _ \<Rightarrow>
          (case ap_cron_job ap of
             Some current \<Rightarrow> if current \<in> set names then Some current else Some first
           | None \<Rightarrow> Some first))"

definition step_cron_job :: "int \<Rightarrow> AppState \<Rightarrow> AppState" where
  "step_cron_job delta ap =
     (let names = cron_job_names ap in
      if names = [] then ap\<lparr>ap_cron_job := None\<rparr>
      else
        let current = (case selected_cron_job ap of
              None \<Rightarrow> 0
            | Some name \<Rightarrow> (case position (\<lambda>c. c = name) names of None \<Rightarrow> 0 | Some i \<Rightarrow> i));
            last = length names - 1;
            target = nat (max 0 (min (int last) (int current + delta)))
        in ap\<lparr>ap_cron_job := (if target < length names then Some (names ! target) else None)\<rparr>)"

definition repair_cron_selection :: "AppState \<Rightarrow> AppState" where
  "repair_cron_selection ap = ap\<lparr>ap_cron_job := selected_cron_job ap\<rparr>"

text \<open>\<open>ui::cron::is_visible\<close> and \<open>ui::cron::desired_rows\<close>.\<close>

definition cron_is_visible :: "AppState \<Rightarrow> bool" where
  "cron_is_visible ap \<longleftrightarrow> ap_cron_expanded ap \<and> ap_selected_id ap \<noteq> None"

definition desired_rows :: "AppState \<Rightarrow> nat" where
  "desired_rows ap =
     (if \<not> cron_is_visible ap then 0
      else desired_rows_of (selected_cron ap) (selected_cron_job ap) (ap_cron_display_history ap))"

section \<open>Placement\<close>

record SystemPlacement =
  sp_id :: rstr
  sp_reachability :: Reachability
  sp_position :: nat
  sp_host :: rstr
  sp_port :: nat

definition order_position :: "AppState \<Rightarrow> nat list \<Rightarrow> rstr \<Rightarrow> nat option" where
  "order_position ap order i = position (\<lambda>index. sy_id (ap_systems ap ! index) = i) order"

definition placement_of :: "AppState \<Rightarrow> rstr \<Rightarrow> SystemPlacement option" where
  "placement_of ap i =
     (let order = display_order ap in
      case order_position ap order i of
        None \<Rightarrow> None
      | Some pos \<Rightarrow>
          let system = ap_systems ap ! (order ! pos) in
          Some \<lparr>sp_id = i, sp_reachability = sy_reachability system, sp_position = pos,
                sp_host = en_host (sy_endpoint system), sp_port = en_port (sy_endpoint system)\<rparr>)"

definition anchor_state :: "AppState \<Rightarrow> SystemPlacement option" where
  "anchor_state ap = (case ap_viewport_top_id ap of None \<Rightarrow> None | Some i \<Rightarrow> placement_of ap i)"

definition selection_state :: "AppState \<Rightarrow> SystemPlacement option" where
  "selection_state ap = (case ap_selected_id ap of None \<Rightarrow> None | Some i \<Rightarrow> placement_of ap i)"

definition live_replacement :: "AppState \<Rightarrow> SystemPlacement \<Rightarrow> rstr option" where
  "live_replacement ap placement =
     (if sp_reachability placement \<noteq> Online then None
      else
        case position (\<lambda>s. sy_id s = sp_id placement) (ap_systems ap) of
          None \<Rightarrow> None
        | Some index \<Rightarrow>
            let system = ap_systems ap ! index in
            if sy_reachability system \<noteq> Offline then None
            else if en_port (sy_endpoint system) \<noteq> sp_port placement \<or>
                    \<not> equivalent_endpoint_host (en_host (sy_endpoint system)) (sp_host placement) then None
            else
              let order = display_order ap in
              if order = [] then None
              else
                let limit = min (sp_position placement) (length order - 1);
                    is_live = (\<lambda>p. sy_reachability (ap_systems ap ! (order ! p)) = Online);
                    replacement = (case find is_live (rev [0..<Suc limit]) of
                        Some p \<Rightarrow> p
                      | None \<Rightarrow> (case find is_live [limit..<length order] of Some p \<Rightarrow> p | None \<Rightarrow> limit))
                in Some (sy_id (ap_systems ap ! (order ! replacement))))"

definition repair_viewport_anchor :: "SystemPlacement option \<Rightarrow> AppState \<Rightarrow> AppState" where
  "repair_viewport_anchor anchor_before ap =
     (case anchor_before of
        None \<Rightarrow> ap
      | Some anchor \<Rightarrow>
          (case live_replacement ap anchor of None \<Rightarrow> ap | Some replacement \<Rightarrow> ap\<lparr>ap_viewport_top_id := Some replacement\<rparr>))"

definition repair_selection :: "SystemPlacement option \<Rightarrow> AppState \<Rightarrow> AppState" where
  "repair_selection selection_before ap =
     (case selection_before of
        None \<Rightarrow> ap
      | Some selection \<Rightarrow>
          (case live_replacement ap selection of None \<Rightarrow> ap | Some replacement \<Rightarrow> ap\<lparr>ap_selected_id := Some replacement\<rparr>))"

section \<open>Heights and scrolling\<close>

definition view_header_height :: "SystemViewMode \<Rightarrow> nat" where
  "view_header_height mode = (case mode of ViewNormal \<Rightarrow> 0 | ViewCondensed \<Rightarrow> 2)"

definition valid_drive_count_from_slice :: "NormalizedDrive list \<Rightarrow> nat" where
  "valid_drive_count_from_slice drives =
     min (length (filter (\<lambda>d. 0 < nd_total_bytes d \<and> nd_used_bytes d \<le> nd_total_bytes d) drives)) u16_max"

definition valid_drive_count :: "SystemState \<Rightarrow> nat" where
  "valid_drive_count system =
     (case sy_latest system of
        None \<Rightarrow> 0
      | Some snapshot \<Rightarrow> (case no_drives snapshot of None \<Rightarrow> 0 | Some drives \<Rightarrow> valid_drive_count_from_slice drives))"

definition valid_drive_detail_count :: "SystemState \<Rightarrow> nat" where
  "valid_drive_detail_count system =
     (let rows = valid_drive_count system in
      if (case sy_latest system of None \<Rightarrow> False | Some snapshot \<Rightarrow> no_disk_io snapshot \<noteq> None) then sat_add16 rows 2 else rows)"

definition valid_network_detail_count :: "SystemState \<Rightarrow> nat" where
  "valid_network_detail_count system =
     (case sy_latest system of
        None \<Rightarrow> 0
      | Some snapshot \<Rightarrow>
          (case no_network snapshot of
             None \<Rightarrow> 0 | Some network \<Rightarrow> sat_add16 1 (min (length (nn_interfaces network)) u16_max)))"

definition normal_base_height_for :: "SystemState \<Rightarrow> nat" where
  "normal_base_height_for system =
     (if (case sy_latest system of None \<Rightarrow> False | Some snapshot \<Rightarrow> no_network snapshot \<noteq> None) then 6 else 5)"

definition entry_detail_drive_count :: "AppState \<Rightarrow> nat \<Rightarrow> nat" where
  "entry_detail_drive_count ap i =
     (if \<not> ap_drives_expanded ap then 0
      else if i < length (ap_systems ap) then valid_drive_detail_count (ap_systems ap ! i) else 0)"

definition entry_detail_network_count :: "AppState \<Rightarrow> nat \<Rightarrow> nat" where
  "entry_detail_network_count ap i =
     (if \<not> ap_network_expanded ap then 0
      else if i < length (ap_systems ap) then valid_network_detail_count (ap_systems ap ! i) else 0)"

definition entry_detail_cron_count :: "AppState \<Rightarrow> nat \<Rightarrow> nat" where
  "entry_detail_cron_count ap i =
     (if \<not> ap_cron_expanded ap \<or>
         (case ap_selected_id ap of
            None \<Rightarrow> True | Some selected \<Rightarrow> \<not> (i < length (ap_systems ap) \<and> sy_id (ap_systems ap ! i) = selected))
      then 0 else desired_rows ap)"

definition cron_detail_count :: "AppState \<Rightarrow> nat \<Rightarrow> nat" where
  "cron_detail_count ap i = min (entry_detail_cron_count ap i) u16_max"

definition any_expanded :: "AppState \<Rightarrow> bool" where
  "any_expanded ap \<longleftrightarrow> ap_drives_expanded ap \<or> ap_network_expanded ap \<or> ap_cron_expanded ap"

definition entry_height :: "AppState \<Rightarrow> nat \<Rightarrow> nat" where
  "entry_height ap i =
     (if length (ap_systems ap) \<le> i then 1
      else
        let system = ap_systems ap ! i;
            drives = (if ap_drives_expanded ap then valid_drive_detail_count system else 0);
            network = (if ap_network_expanded ap then valid_network_detail_count system else 0);
            opened = any_expanded ap \<and> ap_selected_id ap = Some (sy_id system)
        in case ap_system_view_mode ap of
             ViewCondensed \<Rightarrow>
               (if opened \<and> sy_reachability system = Online
                then sat_add16 (sat_add16 (sat_add16 1 drives) network) (cron_detail_count ap i) else 1)
           | ViewNormal \<Rightarrow>
               (if sy_reachability system \<noteq> Online then 1
                else sat_add16 (normal_base_height_for system)
                       (if opened then sat_add16 (sat_add16 drives network) (cron_detail_count ap i) else 0)))"

definition minimum_render_height :: "AppState \<Rightarrow> nat \<Rightarrow> nat" where
  "minimum_render_height ap i =
     (if i < length (ap_systems ap)
      then (if ap_system_view_mode ap = ViewNormal \<and> sy_reachability (ap_systems ap ! i) = Online
            then normal_base_height_for (ap_systems ap ! i) else 1)
      else 0)"

text \<open>The loop of \<open>visible_range\<close>: \<open>None\<close> is the early return of the empty range.\<close>

fun visible_count :: "AppState \<Rightarrow> nat \<Rightarrow> nat list \<Rightarrow> nat \<Rightarrow> nat \<Rightarrow> nat option" where
  "visible_count ap height [] rows_used n = Some n"
| "visible_count ap height (i # order) rows_used n =
     (if length (ap_systems ap) \<le> i then Some n
      else
        let h = entry_height ap i in
        if n = 0 \<and> height < minimum_render_height ap i then None
        else if height < add16 rows_used h \<and> 0 < n then Some n
        else visible_count ap height order (add16 rows_used h) (Suc n))"

text \<open>The range \<open>start..finish\<close> as a pair.\<close>

definition visible_range :: "nat list \<Rightarrow> AppState \<Rightarrow> nat \<Rightarrow> nat \<Rightarrow> nat \<times> nat" where
  "visible_range order ap top_index height =
     (if height = 0 then (0, 0)
      else case visible_count ap height (drop top_index order) 0 0 of
             None \<Rightarrow> (top_index, top_index)
           | Some n \<Rightarrow> (top_index, top_index + n))"

definition in_range :: "nat \<times> nat \<Rightarrow> nat \<Rightarrow> bool" where
  "in_range r p \<longleftrightarrow> fst r \<le> p \<and> p < snd r"

text \<open>The walk up from the selected position; \<open>previous\<close> is one less than the candidate.\<close>

fun walk_up :: "(nat \<Rightarrow> bool) \<Rightarrow> nat \<Rightarrow> nat \<Rightarrow> nat" where
  "walk_up shows top_pos 0 = 0"
| "walk_up shows top_pos (Suc previous) =
     (if top_pos < Suc previous \<and> shows previous then walk_up shows top_pos previous else Suc previous)"

definition top_position :: "AppState \<Rightarrow> nat list \<Rightarrow> nat" where
  "top_position ap order =
     (case (case ap_viewport_top_id ap of None \<Rightarrow> None | Some anchor \<Rightarrow> order_position ap order anchor) of
        None \<Rightarrow> 0 | Some p \<Rightarrow> p)"

definition selected_position :: "AppState \<Rightarrow> nat list \<Rightarrow> nat option" where
  "selected_position ap order =
     (case ap_selected_id ap of None \<Rightarrow> None | Some sel \<Rightarrow> order_position ap order sel)"

definition usable_height :: "AppState \<Rightarrow> nat" where
  "usable_height ap =
     snd (case ap_terminal_size ap of None \<Rightarrow> (80, 24) | Some dims \<Rightarrow> dims) - view_header_height (ap_system_view_mode ap)"

definition ensure_selected_visible_with_order :: "nat list \<Rightarrow> AppState \<Rightarrow> AppState" where
  "ensure_selected_visible_with_order order ap =
     (if order = [] then ap
      else
        let top_pos = top_position ap order in
        case selected_position ap order of
          None \<Rightarrow> ap
        | Some selected_pos \<Rightarrow>
            if in_range (visible_range order ap top_pos (usable_height ap)) selected_pos then ap
            else if selected_pos < top_pos
            then ap\<lparr>ap_viewport_top_id := Some (sy_id (ap_systems ap ! (order ! selected_pos)))\<rparr>
            else
              let shows = (\<lambda>p. in_range (visible_range order ap p (usable_height ap)) selected_pos);
                  candidate = walk_up shows top_pos selected_pos
              in ap\<lparr>ap_viewport_top_id := Some (sy_id (ap_systems ap ! (order ! candidate)))\<rparr>)"

definition ensure_selected_visible :: "AppState \<Rightarrow> AppState" where
  "ensure_selected_visible ap = ensure_selected_visible_with_order (display_order ap) ap"

section \<open>Adopting a document\<close>

definition eggpool_from_dto :: "nat \<Rightarrow> nat \<Rightarrow> EggpoolSnapshotDto \<Rightarrow> EggpoolState" where
  "eggpool_from_dto now now_unix_ms d =
     \<lparr>es_endpoint = ed_endpoint d, es_period = ed_period d, es_request_generation = ed_request_generation d,
      es_worker_state = ed_worker_state d, es_summary = ed_summary d,
      es_last_success_at = instant_from_unix_ms (ed_last_success_at_unix_ms d) now now_unix_ms,
      es_last_attempt_at = instant_from_unix_ms (ed_last_attempt_at_unix_ms d) now now_unix_ms,
      es_last_error = ed_last_error d, es_health = ed_health d,
      es_last_health_success_at = instant_from_unix_ms (ed_last_health_success_at_unix_ms d) now now_unix_ms,
      es_last_health_attempt_at = instant_from_unix_ms (ed_last_health_attempt_at_unix_ms d) now now_unix_ms,
      es_last_health_error = ed_last_health_error d\<rparr>"

definition system_from_dto :: "nat \<Rightarrow> nat \<Rightarrow> SystemSnapshotDto \<Rightarrow> SystemState" where
  "system_from_dto now now_unix_ms d =
     \<lparr>sy_id = sd_id d, sy_endpoint = sd_endpoint d, sy_configured_name = sd_configured_name d,
      sy_reachability = sd_reachability d, sy_latest = sd_latest d,
      sy_last_success_at = instant_from_unix_ms (sd_last_success_at_unix_ms d) now now_unix_ms,
      sy_last_attempt_at = instant_from_unix_ms (sd_last_attempt_at_unix_ms d) now now_unix_ms,
      sy_latency = map_option (\<lambda>ms. ms * 10 ^ 6) (sd_latency_ms d), sy_offline_reason = sd_offline_reason d\<rparr>"

definition names_system :: "SystemState list \<Rightarrow> rstr \<Rightarrow> bool" where
  "names_system systems i \<longleftrightarrow> list_ex (\<lambda>s. sy_id s = i) systems"

definition first_system_id :: "SystemState list \<Rightarrow> rstr option" where
  "first_system_id systems = (case systems of [] \<Rightarrow> None | s # _ \<Rightarrow> Some (sy_id s))"

text \<open>The assignments of the fleet data; the second component is \<open>visible_changed\<close>.\<close>

definition adopt_fleet :: "FrontendSnapshot \<Rightarrow> nat \<Rightarrow> nat \<Rightarrow> AppState \<Rightarrow> AppState \<times> bool" where
  "adopt_fleet doc now now_unix_ms ap =
     (let reload_error = map_option clean (fs_config_reload_error doc);
          clean_eggpool = map_option clean_eggpool_dto (fs_eggpool doc);
          eggpool_changed = eggpool_visibly_differ (ap_eggpool ap) clean_eggpool now now_unix_ms;
          eggpool = map_option (eggpool_from_dto now now_unix_ms) clean_eggpool;
          clean_systems = map clean_system_dto (fs_systems doc);
          new_systems = map (system_from_dto now now_unix_ms) clean_systems;
          satisfied = (case eggpool of None \<Rightarrow> False | Some e \<Rightarrow> Some (es_period e) = ap_eggpool_period_request ap);
          new_cron = map clean_cron (fs_cron doc);
          cron_changed = cron_visibly_differ (ap_cron ap) new_cron;
          systems_changed = systems_visibly_differ (ap_systems ap) clean_systems
      in (ap\<lparr>ap_refresh_status := fs_refresh_status doc, ap_config_reload_error := reload_error,
             ap_eggpool := eggpool,
             ap_eggpool_period_request := (if satisfied then None else ap_eggpool_period_request ap),
             ap_last_snapshot_generation := fs_generation doc, ap_cron := new_cron,
             ap_cron_display_history := fs_cron_display_history doc, ap_systems := new_systems,
             ap_saw_reachability := ap_saw_reachability ap \<or> fs_poll_initialized doc\<rparr>,
          fs_refresh_status doc \<noteq> ap_refresh_status ap \<or> reload_error \<noteq> ap_config_reload_error ap \<or>
          eggpool_changed \<or> systems_changed \<or> cron_changed \<or>
          ap_cron_display_history ap \<noteq> fs_cron_display_history doc))"

text \<open>The first placement, or the repair of both identifiers against the new list.\<close>

definition repair_ids :: "bool \<Rightarrow> AppState \<Rightarrow> AppState" where
  "repair_ids first_document ap =
     (let systems = ap_systems ap; first = first_system_id systems in
      if first_document
      then ap\<lparr>ap_active_pane := (if systems = [] \<and> ap_eggpool ap \<noteq> None then PaneEggpool else PaneSystems),
              ap_selected_id := first, ap_viewport_top_id := first\<rparr>
      else
        let keep = (\<lambda>i. case i of Some i \<Rightarrow> if names_system systems i then Some i else None | None \<Rightarrow> None);
            selected = (case keep (ap_selected_id ap) of Some i \<Rightarrow> Some i | None \<Rightarrow> first);
            anchor = (case keep (ap_viewport_top_id ap) of Some i \<Rightarrow> Some i | None \<Rightarrow> selected)
        in ap\<lparr>ap_selected_id := (if systems = [] then None else selected),
              ap_viewport_top_id := (if systems = [] then None else anchor)\<rparr>)"

definition place_first :: "AppState \<Rightarrow> AppState" where
  "place_first ap =
     (case display_order ap of
        [] \<Rightarrow> ap
      | first_index # _ \<Rightarrow>
          if first_index < length (ap_systems ap)
          then let i = sy_id (ap_systems ap ! first_index) in ap\<lparr>ap_selected_id := Some i, ap_viewport_top_id := Some i\<rparr>
          else ap)"

definition adopt_snapshot_inner :: "FrontendSnapshot \<Rightarrow> nat \<Rightarrow> nat \<Rightarrow> AppState \<Rightarrow> bool \<times> AppState" where
  "adopt_snapshot_inner doc now now_unix_ms ap =
     (let first_document = ap_last_snapshot_generation ap = 0;
          first_reachability = \<not> ap_saw_reachability ap \<and> fs_poll_initialized doc;
          anchor_before = anchor_state ap;
          selection_before = selection_state ap;
          (ap', visible_changed) = adopt_fleet doc now now_unix_ms ap;
          ap' = repair_ids first_document ap';
          ap' = repair_selection selection_before ap';
          ap' = repair_cron_selection ap';
          ap' = repair_viewport_anchor anchor_before ap';
          ap' = (if first_reachability then place_first ap' else ap');
          ap' = ensure_selected_visible ap'
      in (visible_changed \<or> ap_selected_id ap \<noteq> ap_selected_id ap' \<or> ap_viewport_top_id ap \<noteq> ap_viewport_top_id ap' \<or>
          ap_active_pane ap \<noteq> ap_active_pane ap', ap'))"

definition from_snapshot :: "FrontendSnapshot \<Rightarrow> nat \<Rightarrow> nat \<Rightarrow> AppState" where
  "from_snapshot doc now now_unix_ms = snd (adopt_snapshot_inner doc now now_unix_ms app_blank)"

definition adopt_snapshot :: "FrontendSnapshot \<Rightarrow> nat \<Rightarrow> nat \<Rightarrow> AppState \<Rightarrow> bool \<times> AppState" where
  "adopt_snapshot doc now now_unix_ms ap =
     (if \<not> is_newer_than doc (ap_last_snapshot_generation ap) then (False, ap)
      else adopt_snapshot_inner doc now now_unix_ms ap)"

section \<open>Actions\<close>

definition request_eggpool_period :: "bool \<Rightarrow> AppState \<Rightarrow> EggpoolPeriod option \<times> AppState" where
  "request_eggpool_period is_longer ap =
     (case ap_eggpool ap of
        None \<Rightarrow> (None, ap)
      | Some e \<Rightarrow>
          let current = es_period e; target = (if is_longer then longer current else shorter current) in
          if target = current \<or> ap_eggpool_period_request ap = Some target then (None, ap)
          else (Some target, ap\<lparr>ap_eggpool_period_request := Some target\<rparr>))"

definition cycle_pane :: "bool \<Rightarrow> AppState \<Rightarrow> AppState" where
  "cycle_pane forward ap =
     (let before = ap_active_pane ap;
          active = (case (ap_active_pane ap, ap_systems ap = [], ap_eggpool ap \<noteq> None) of
              (PaneSystems, False, True) \<Rightarrow> PaneEggpool
            | (PaneEggpool, vacant, True) \<Rightarrow> if \<not> vacant then PaneSystems else PaneEggpool
            | (pane, _) \<Rightarrow> pane);
          ap = ap\<lparr>ap_active_pane := active\<rparr>
      in if before = PaneSystems \<and> ap_active_pane ap \<noteq> PaneSystems
         then ap\<lparr>ap_selection_highlight_active := False\<rparr> else ap)"

definition system_id_at :: "AppState \<Rightarrow> nat \<Rightarrow> rstr option" where
  "system_id_at ap i = (if i < length (ap_systems ap) then Some (sy_id (ap_systems ap ! i)) else None)"

definition move_selection :: "nat list \<Rightarrow> int \<Rightarrow> AppState \<Rightarrow> AppState" where
  "move_selection order offset ap =
     (if order = [] then ap\<lparr>ap_selected_id := None\<rparr>
      else
        let current_pos = (case selected_position ap order of None \<Rightarrow> 0 | Some p \<Rightarrow> p);
            magnitude = nat \<bar>offset\<bar>;
            new_pos = min (if 0 \<le> offset then current_pos + magnitude else current_pos - magnitude) (length order - 1)
        in ap\<lparr>ap_selected_id := system_id_at ap (order ! new_pos)\<rparr>)"

fun page_count :: "AppState \<Rightarrow> nat \<Rightarrow> nat list \<Rightarrow> nat \<Rightarrow> nat \<Rightarrow> nat" where
  "page_count ap height [] rows n = max n 1"
| "page_count ap height (i # order) rows n =
     (let h = entry_height ap i in
      if height < add16 rows h then (if n = 0 then 0 else max n 1)
      else page_count ap height order (add16 rows h) (Suc n))"

definition page_size :: "AppState \<Rightarrow> nat list \<Rightarrow> int" where
  "page_size ap order =
     (let height = (case ap_terminal_size ap of None \<Rightarrow> 24 | Some (_, h) \<Rightarrow> h) - view_header_height (ap_system_view_mode ap)
      in int (page_count ap height (drop (top_position ap order) order) 0 0))"

text \<open>The four arms that move the selection end the same way.\<close>

definition moved :: "nat list \<Rightarrow> AppState \<Rightarrow> AppState" where
  "moved order ap = ensure_selected_visible_with_order order (ap\<lparr>ap_selection_highlight_active := True\<rparr>)"

definition has_network :: "AppState \<Rightarrow> bool" where
  "has_network ap =
     (case ap_selected_id ap of
        None \<Rightarrow> False
      | Some selected \<Rightarrow>
          (case find (\<lambda>s. sy_id s = selected) (ap_systems ap) of
             None \<Rightarrow> False
           | Some s \<Rightarrow> sy_reachability s = Online \<and>
               (case sy_latest s of None \<Rightarrow> False | Some snapshot \<Rightarrow> no_network snapshot \<noteq> None)))"

definition apply_action_inner :: "Action \<Rightarrow> AppState \<Rightarrow> AppState" where
  "apply_action_inner action ap =
     (let order = display_order ap; on_systems = ap_active_pane ap = PaneSystems; settle = ensure_selected_visible in
      case action of
        MoveDown \<Rightarrow> if \<not> on_systems then settle (snd (request_eggpool_period True ap)) else moved order (move_selection order 1 ap)
      | MoveUp \<Rightarrow> if \<not> on_systems then settle (snd (request_eggpool_period False ap)) else moved order (move_selection order (- 1) ap)
      | PageDown \<Rightarrow> if on_systems then moved order (move_selection order (page_size ap order) ap) else ap
      | PageUp \<Rightarrow> if on_systems then moved order (move_selection order (- page_size ap order) ap) else ap
      | SelectFirst \<Rightarrow>
          if on_systems
          then moved order (ap\<lparr>ap_selected_id := (case order of [] \<Rightarrow> None | i # _ \<Rightarrow> system_id_at ap i)\<rparr>) else ap
      | SelectLast \<Rightarrow>
          if on_systems
          then moved order (ap\<lparr>ap_selected_id := (if order = [] then None else system_id_at ap (last order))\<rparr>) else ap
      | PreviousPane \<Rightarrow> settle (cycle_pane False ap)
      | NextPane \<Rightarrow> settle (cycle_pane True ap)
      | ClearSelectionHighlight \<Rightarrow> settle (ap\<lparr>ap_selection_highlight_active := False\<rparr>)
      | ToggleSystemView \<Rightarrow>
          if on_systems
          then settle (ap\<lparr>ap_system_view_mode := (case ap_system_view_mode ap of ViewNormal \<Rightarrow> ViewCondensed | ViewCondensed \<Rightarrow> ViewNormal)\<rparr>)
          else ap
      | RefreshNow \<Rightarrow> ap
      | Quit \<Rightarrow> ap
      | ToggleCron \<Rightarrow>
          if on_systems
          then let ap = ap\<lparr>ap_cron_expanded := \<not> ap_cron_expanded ap\<rparr>
               in settle (if ap_cron_expanded ap then repair_cron_selection ap else ap)
          else ap
      | CronJobNext \<Rightarrow> if on_systems then settle (step_cron_job 1 ap) else ap
      | CronJobPrevious \<Rightarrow> if on_systems then settle (step_cron_job (- 1) ap) else ap
      | ToggleDrives \<Rightarrow> if on_systems then settle (ap\<lparr>ap_drives_expanded := \<not> ap_drives_expanded ap\<rparr>) else ap
      | ToggleNetwork \<Rightarrow>
          if on_systems
          then settle (if has_network ap then ap\<lparr>ap_network_expanded := \<not> ap_network_expanded ap\<rparr> else ap) else ap
      | Resize width height \<Rightarrow> settle (ap\<lparr>ap_terminal_size := Some (width, height)\<rparr>))"

definition apply_action_changed :: "Action \<Rightarrow> AppState \<Rightarrow> bool \<times> AppState" where
  "apply_action_changed action ap =
     (let ap' = apply_action_inner action ap in
      case action of
        Resize width height \<Rightarrow> (True, ap')
      | _ \<Rightarrow>
        (ap_selected_id ap \<noteq> ap_selected_id ap' \<or> ap_viewport_top_id ap \<noteq> ap_viewport_top_id ap' \<or>
         ap_active_pane ap \<noteq> ap_active_pane ap' \<or> ap_system_view_mode ap \<noteq> ap_system_view_mode ap' \<or>
         ap_drives_expanded ap \<noteq> ap_drives_expanded ap' \<or> ap_network_expanded ap \<noteq> ap_network_expanded ap' \<or>
         (ap_cron_expanded ap, ap_cron_job ap) \<noteq> (ap_cron_expanded ap', ap_cron_job ap') \<or>
         ap_selection_highlight_active ap \<noteq> ap_selection_highlight_active ap' \<or>
         ap_terminal_size ap \<noteq> ap_terminal_size ap' \<or>
         map_option es_period (ap_eggpool ap) \<noteq> map_option es_period (ap_eggpool ap'), ap'))"

definition apply_action :: "Action \<Rightarrow> AppState \<Rightarrow> AppState" where
  "apply_action action ap = snd (apply_action_changed action ap)"

section \<open>The rectangles on the screen\<close>

record Rect =
  re_x :: nat
  re_y :: nat
  re_width :: nat
  re_height :: nat

record ViewportEntry =
  ve_index :: nat
  ve_rect :: Rect
  ve_is_selected :: bool
  ve_is_visually_selected :: bool
  ve_drive_rows_visible :: nat
  ve_network_rows_visible :: nat
  ve_cron_rows_visible :: nat

definition view_base_height :: "AppState \<Rightarrow> SystemState \<Rightarrow> nat" where
  "view_base_height ap system =
     (case ap_system_view_mode ap of ViewNormal \<Rightarrow> normal_base_height_for system | ViewCondensed \<Rightarrow> 1)"

text \<open>
  The detail rows that are visible when \<open>free\<close> rows are left under the base block: network details get
  what drives leave, cron details the rest.
\<close>

definition drive_rows_visible :: "AppState \<Rightarrow> nat \<Rightarrow> nat \<Rightarrow> nat" where
  "drive_rows_visible ap i free =
     (if ap_selected_id ap = Some (sy_id (ap_systems ap ! i)) \<and> ap_drives_expanded ap
      then min (entry_detail_drive_count ap i) free else 0)"

definition network_rows_visible :: "AppState \<Rightarrow> nat \<Rightarrow> nat \<Rightarrow> nat" where
  "network_rows_visible ap i free =
     (if ap_selected_id ap = Some (sy_id (ap_systems ap ! i)) \<and> ap_network_expanded ap
      then min (entry_detail_network_count ap i) (free - min (drive_rows_visible ap i free) u16_max) else 0)"

definition cron_rows_visible :: "AppState \<Rightarrow> nat \<Rightarrow> nat \<Rightarrow> nat" where
  "cron_rows_visible ap i free =
     (if ap_selected_id ap = Some (sy_id (ap_systems ap ! i)) \<and> ap_cron_expanded ap
      then let remaining = free - min (drive_rows_visible ap i free) u16_max - min (network_rows_visible ap i free) u16_max in
           if remaining = 0 then 0 else min (max (entry_detail_cron_count ap i) 1) remaining
      else 0)"

text \<open>One entry of height \<open>h\<close> at \<open>y\<close>.\<close>

definition viewport_entry :: "AppState \<Rightarrow> Rect \<Rightarrow> nat \<Rightarrow> nat \<Rightarrow> nat \<Rightarrow> ViewportEntry" where
  "viewport_entry ap area i y h =
     (let system = ap_systems ap ! i;
          is_selected = ap_selected_id ap = Some (sy_id system);
          free = h - view_base_height ap system
      in \<lparr>ve_index = i, ve_rect = \<lparr>re_x = re_x area, re_y = y, re_width = re_width area, re_height = h\<rparr>,
          ve_is_selected = is_selected, ve_is_visually_selected = (is_selected \<and> ap_selection_highlight_active ap),
          ve_drive_rows_visible = drive_rows_visible ap i free, ve_network_rows_visible = network_rows_visible ap i free,
          ve_cron_rows_visible = cron_rows_visible ap i free\<rparr>)"

text \<open>The loop over the visible positions, from the row \<open>y\<close> on.\<close>

fun stack_entries :: "AppState \<Rightarrow> Rect \<Rightarrow> nat \<Rightarrow> nat list \<Rightarrow> nat list \<Rightarrow> nat \<Rightarrow> ViewportEntry list" where
  "stack_entries ap area bottom order [] y = []"
| "stack_entries ap area bottom order (p # ps) y =
     (if length order \<le> p then []
      else
        let h = min (entry_height ap (order ! p)) (bottom - y)
        in viewport_entry ap area (order ! p) y h # stack_entries ap area bottom order ps (sat_add16 y h))"

definition compute_viewport :: "AppState \<Rightarrow> Rect \<Rightarrow> nat list \<Rightarrow> ViewportEntry list" where
  "compute_viewport ap area order =
     (let header = view_header_height (ap_system_view_mode ap);
          content_y = sat_add16 (re_y area) header; content_height = re_height area - header;
          visible = visible_range order ap (top_position ap order) content_height
      in stack_entries ap area (sat_add16 content_y content_height) order [fst visible..<snd visible] content_y)"

end
