(* ===== verification/Frontend_View.thy ===== *)
theory Frontend_View
  imports Frontend_State
begin

text \<open>
  What the frontend keeps on the screen: the invariant of selection and viewport under actions and
  documents (\<open>crates/gregg/src/state.rs\<close>), the extent of scrolling, and the rectangles of
  \<open>crates/gregg/src/ui/layout.rs\<close>.
\<close>

section \<open>The display order\<close>

lemma set_display_order_of: "set (display_order_of ss) = {..<length ss}"
proof -
  have "sy_reachability (ss ! i) = Online \<or> sy_reachability (ss ! i) = Offline \<or> sy_reachability (ss ! i) = Pending" for i
    by (cases "sy_reachability (ss ! i)") simp_all
  then show ?thesis by (auto simp: display_order_of_def)
qed

lemma set_display_order: "set (display_order ap) = {..<length (ap_systems ap)}"
  by (simp add: display_order_def set_display_order_of)

lemma distinct_display_order: "distinct (display_order ap)"
  by (auto simp: display_order_def display_order_of_def)

lemma length_display_order: "length (display_order ap) = length (ap_systems ap)"
  using distinct_card [OF distinct_display_order [of ap]] by (simp add: set_display_order)

lemma display_order_bound: "p < length (display_order ap) \<Longrightarrow> display_order ap ! p < length (ap_systems ap)"
  using nth_mem [of p "display_order ap"] by (simp add: set_display_order)

lemma display_order_Nil: "display_order ap = [] \<longleftrightarrow> ap_systems ap = []"
  using length_display_order [of ap] by (metis length_0_conv)

lemma order_position_nth:
  assumes "distinct (map sy_id (ap_systems ap))" "p < length (display_order ap)"
  shows "order_position ap (display_order ap) (sy_id (ap_systems ap ! (display_order ap ! p))) = Some p"
proof -
  have "sy_id (ap_systems ap ! (display_order ap ! j)) \<noteq> sy_id (ap_systems ap ! (display_order ap ! p))" if "j < p" for j
  proof -
    have "display_order ap ! j \<noteq> display_order ap ! p"
      using that assms(2) distinct_display_order [of ap] by (simp add: nth_eq_iff_index_eq)
    moreover have "display_order ap ! j < length (ap_systems ap)" "display_order ap ! p < length (ap_systems ap)"
      using that assms(2) display_order_bound by simp_all
    ultimately show ?thesis using assms(1) nth_eq_iff_index_eq [of "map sy_id (ap_systems ap)"] by simp
  qed
  then show ?thesis using assms(2) by (simp add: order_position_def position_Some_iff)
qed

lemma order_position_SomeD:
  "order_position ap order i = Some p \<Longrightarrow> p < length order \<and> sy_id (ap_systems ap ! (order ! p)) = i"
  by (simp add: order_position_def position_Some_iff)

lemma order_position_named:
  assumes "names_system (ap_systems ap) i"
  obtains p where "order_position ap (display_order ap) i = Some p"
proof -
  obtain k where k: "k < length (ap_systems ap)" "sy_id (ap_systems ap ! k) = i"
    using assms by (auto simp: names_system_def list_ex_iff in_set_conv_nth)
  then have "k \<in> set (display_order ap)" by (simp add: set_display_order)
  then have "\<exists>x \<in> set (display_order ap). sy_id (ap_systems ap ! x) = i" using k(2) by blast
  then have "order_position ap (display_order ap) i \<noteq> None" by (auto simp: order_position_def position_None_iff)
  then show ?thesis using that by blast
qed

section \<open>Changing the viewport changes no height\<close>

lemma viewport_frame [simp]:
  "display_order (ap\<lparr>ap_viewport_top_id := v\<rparr>) = display_order ap"
  "order_position (ap\<lparr>ap_viewport_top_id := v\<rparr>) order i = order_position ap order i"
  "selected_position (ap\<lparr>ap_viewport_top_id := v\<rparr>) order = selected_position ap order"
  "usable_height (ap\<lparr>ap_viewport_top_id := v\<rparr>) = usable_height ap"
  "minimum_render_height (ap\<lparr>ap_viewport_top_id := v\<rparr>) k = minimum_render_height ap k"
  by (simp_all add: display_order_def order_position_def selected_position_def usable_height_def minimum_render_height_def
      split: option.split)

lemma viewport_cron [simp]:
  "selected_cron (ap\<lparr>ap_viewport_top_id := v\<rparr>) = selected_cron ap"
  "selected_cron_job (ap\<lparr>ap_viewport_top_id := v\<rparr>) = selected_cron_job ap"
  "desired_rows (ap\<lparr>ap_viewport_top_id := v\<rparr>) = desired_rows ap"
  by (simp_all add: selected_cron_def cron_for_def selected_cron_job_def cron_job_names_def desired_rows_def
      cron_is_visible_def Let_def cong: option.case_cong list.case_cong)

lemma viewport_detail [simp]:
  "any_expanded (ap\<lparr>ap_viewport_top_id := v\<rparr>) = any_expanded ap"
  "cron_detail_count (ap\<lparr>ap_viewport_top_id := v\<rparr>) i = cron_detail_count ap i"
  by (simp_all add: any_expanded_def cron_detail_count_def entry_detail_cron_count_def split: option.split)

lemma viewport_height [simp]: "entry_height (ap\<lparr>ap_viewport_top_id := v\<rparr>) i = entry_height ap i"
  by (simp add: entry_height_def Let_def cong: SystemViewMode.case_cong)

lemma viewport_count [simp]:
  "visible_count (ap\<lparr>ap_viewport_top_id := v\<rparr>) h xs rows n = visible_count ap h xs rows n"
  by (induction ap h xs rows n rule: visible_count.induct) (simp_all add: Let_def)

lemma viewport_range [simp]: "visible_range order (ap\<lparr>ap_viewport_top_id := v\<rparr>) p h = visible_range order ap p h"
  by (simp add: visible_range_def)

section \<open>Which entries a top position shows\<close>

lemma visible_count_ge: "visible_count ap h xs rows n = Some m \<Longrightarrow> n \<le> m"
  by (induction ap h xs rows n rule: visible_count.induct) (auto simp: Let_def split: if_splits)

lemma visible_count_le: "visible_count ap h xs rows n = Some m \<Longrightarrow> m \<le> n + length xs"
  by (induction ap h xs rows n rule: visible_count.induct) (auto simp: Let_def split: if_splits)

lemma shows_itself:
  assumes "p < length order" "order ! p < length (ap_systems ap)" "minimum_render_height ap (order ! p) \<le> h" "0 < h"
  shows "in_range (visible_range order ap p h) p"
proof -
  have d: "drop p order = order ! p # drop (Suc p) order" using assms(1) by (simp add: Cons_nth_drop_Suc)
  have "visible_count ap h (drop p order) 0 0 = visible_count ap h (drop (Suc p) order) (add16 0 (entry_height ap (order ! p))) (Suc 0)"
    using assms by (simp add: d Let_def)
  moreover have "\<exists>m. visible_count ap h xs rows (Suc k) = Some m" for xs rows k
    by (induction xs arbitrary: rows k) (simp_all add: Let_def)
  ultimately obtain m where m: "visible_count ap h (drop p order) 0 0 = Some m" "Suc 0 \<le> m"
    using visible_count_ge by metis
  then show ?thesis using assms(4) by (simp add: visible_range_def in_range_def)
qed

lemma walk_up_facts:
  "walk_up s t p \<le> p"
  "t \<le> p \<Longrightarrow> t \<le> walk_up s t p"
  "walk_up s t p \<le> q \<Longrightarrow> q < p \<Longrightarrow> s q"
  "walk_up s t p = Suc q \<Longrightarrow> t < Suc q \<Longrightarrow> \<not> s q"
  by (induction s t p rule: walk_up.induct) (auto simp: less_Suc_eq not_less_eq_eq split: if_splits)

section \<open>Keeping the selected system visible\<close>

definition selected_shown :: "AppState \<Rightarrow> bool" where
  "selected_shown ap =
     (let order = display_order ap in
      case selected_position ap order of
        None \<Rightarrow> True
      | Some p \<Rightarrow> usable_height ap < max 1 (minimum_render_height ap (order ! p)) \<or>
          in_range (visible_range order ap (top_position ap order) (usable_height ap)) p)"

lemma top_position_set:
  assumes "distinct (map sy_id (ap_systems ap))" "p < length (display_order ap)"
  shows "top_position (ap\<lparr>ap_viewport_top_id := Some (sy_id (ap_systems ap ! (display_order ap ! p)))\<rparr>) (display_order ap) = p"
  using order_position_nth [OF assms] by (simp add: top_position_def)

lemma ensure_cases:
  assumes "distinct (map sy_id (ap_systems ap))" "selected_position ap (display_order ap) = Some p"
  defines "sees \<equiv> \<lambda>q. in_range (visible_range (display_order ap) ap q (usable_height ap)) p"
  shows "ensure_selected_visible ap = (if sees (top_position ap (display_order ap)) then ap
     else ap\<lparr>ap_viewport_top_id := Some (sy_id (ap_systems ap ! (display_order ap !
       (if p < top_position ap (display_order ap) then p else walk_up sees (top_position ap (display_order ap)) p))))\<rparr>)"
proof -
  have "display_order ap \<noteq> []" using assms(2) order_position_SomeD by (fastforce simp: selected_position_def split: option.splits)
  then show ?thesis
    by (simp add: ensure_selected_visible_def ensure_selected_visible_with_order_def Let_def assms(2) sees_def)
qed

lemma ensure_top:
  assumes "distinct (map sy_id (ap_systems ap))" "selected_position ap (display_order ap) = Some p"
  defines "sees \<equiv> \<lambda>q. in_range (visible_range (display_order ap) ap q (usable_height ap)) p"
    and "top_pos \<equiv> top_position ap (display_order ap)"
  shows "top_position (ensure_selected_visible ap) (display_order ap) =
    (if sees top_pos then top_pos else if p < top_pos then p else walk_up sees top_pos p)"
proof -
  have p: "p < length (display_order ap)"
    using assms(2) by (auto simp: selected_position_def split: option.splits dest: order_position_SomeD)
  have "walk_up sees top_pos p < length (display_order ap)" using walk_up_facts(1) [of sees top_pos p] p by simp
  then show ?thesis
    using ensure_cases [OF assms(1,2)] top_position_set [OF assms(1) p] top_position_set [OF assms(1), of "walk_up sees top_pos p"]
    by (simp add: sees_def top_pos_def)
qed

lemma ensure_frame:
  obtains v where "ensure_selected_visible_with_order order ap = ap\<lparr>ap_viewport_top_id := v\<rparr>"
proof -
  have "ensure_selected_visible_with_order order ap =
      ap\<lparr>ap_viewport_top_id := ap_viewport_top_id (ensure_selected_visible_with_order order ap)\<rparr>"
    by (simp add: ensure_selected_visible_with_order_def Let_def split: option.split)
  then show ?thesis using that by blast
qed

lemma ensure_shown:
  assumes "distinct (map sy_id (ap_systems ap))"
  shows "selected_shown (ensure_selected_visible ap)"
proof (cases "selected_position ap (display_order ap)")
  case None
  then have "ensure_selected_visible ap = ap" by (simp add: ensure_selected_visible_def ensure_selected_visible_with_order_def Let_def)
  with None show ?thesis by (simp add: selected_shown_def)
next
  case (Some p)
  let ?sees = "\<lambda>q. in_range (visible_range (display_order ap) ap q (usable_height ap)) p"
  let ?ap = "ensure_selected_visible ap" and ?t = "top_position ap (display_order ap)"
  obtain v where v: "?ap = ap\<lparr>ap_viewport_top_id := v\<rparr>"
    unfolding ensure_selected_visible_def by (rule ensure_frame)
  have p: "p < length (display_order ap)"
    using Some by (auto simp: selected_position_def split: option.splits dest: order_position_SomeD)
  have own: "?sees p" if "max 1 (minimum_render_height ap (display_order ap ! p)) \<le> usable_height ap"
    using shows_itself [OF p display_order_bound [OF p], of "usable_height ap"] that by simp
  have "?sees (top_position ?ap (display_order ap))" if fits: "max 1 (minimum_render_height ap (display_order ap ! p)) \<le> usable_height ap"
  proof -
    have "?sees (walk_up ?sees ?t p)"
    proof (cases "walk_up ?sees ?t p = p")
      case True
      then show ?thesis using own [OF fits] by simp
    next
      case False
      then have "walk_up ?sees ?t p < p" using walk_up_facts(1) [of ?sees ?t p] by simp
      then show ?thesis using walk_up_facts(3) [of ?sees ?t p "walk_up ?sees ?t p"] by simp
    qed
    then show ?thesis using ensure_top [OF assms Some] own [OF fits] by simp
  qed
  then have "usable_height ap < max 1 (minimum_render_height ap (display_order ap ! p)) \<or> ?sees (top_position ?ap (display_order ap))"
    by linarith
  then show ?thesis unfolding selected_shown_def Let_def v by (simp only: viewport_frame viewport_range Some option.case)
qed

section \<open>Selection and viewport name systems\<close>

definition names_in :: "AppState \<Rightarrow> rstr option \<Rightarrow> bool" where
  "names_in ap i =
     (case i of None \<Rightarrow> ap_systems ap = [] | Some i \<Rightarrow> names_system (ap_systems ap) i)"

definition ids_ok :: "AppState \<Rightarrow> bool" where
  "ids_ok ap \<longleftrightarrow> distinct (map sy_id (ap_systems ap)) \<and> names_in ap (ap_selected_id ap) \<and> names_in ap (ap_viewport_top_id ap)"

definition frontend_inv :: "AppState \<Rightarrow> bool" where
  "frontend_inv ap \<longleftrightarrow> ids_ok ap \<and> selected_shown ap"

lemma names_in_nth [simp]: "k < length (ap_systems ap) \<Longrightarrow> names_in ap (Some (sy_id (ap_systems ap ! k)))"
  by (auto simp: names_in_def names_system_def list_ex_iff)

lemma names_in_order: "p < length (display_order ap) \<Longrightarrow> names_in ap (Some (sy_id (ap_systems ap ! (display_order ap ! p))))"
  by (rule names_in_nth) (rule display_order_bound)

lemma names_in_cong: "ap_systems ap' = ap_systems ap \<Longrightarrow> names_in ap' = names_in ap"
  by (rule ext) (simp add: names_in_def split: option.split)

lemma ids_ok_cong:
  "ap_systems ap' = ap_systems ap \<Longrightarrow> ap_selected_id ap' = ap_selected_id ap \<Longrightarrow>
   ap_viewport_top_id ap' = ap_viewport_top_id ap \<Longrightarrow> ids_ok ap' = ids_ok ap"
  using names_in_cong [of ap' ap] by (simp add: ids_ok_def)

lemma display_order_cong: "ap_systems ap' = ap_systems ap \<Longrightarrow> display_order ap' = display_order ap"
  by (simp add: display_order_def)

lemma ensure_viewport:
  "ap_viewport_top_id (ensure_selected_visible ap) = ap_viewport_top_id ap \<or>
   (\<exists>k < length (display_order ap). ap_viewport_top_id (ensure_selected_visible ap) = Some (sy_id (ap_systems ap ! (display_order ap ! k))))"
proof (cases "selected_position ap (display_order ap)")
  case (Some p)
  have p: "p < length (display_order ap)"
    using Some by (auto simp: selected_position_def split: option.splits dest: order_position_SomeD)
  have "walk_up s t p < length (display_order ap)" for s t using walk_up_facts(1) [of s t p] p by simp
  then show ?thesis
    using p Some by (auto simp: ensure_selected_visible_def ensure_selected_visible_with_order_def Let_def)
qed (simp add: ensure_selected_visible_def ensure_selected_visible_with_order_def Let_def)

lemma ensure_keeps:
  "ap_systems (ensure_selected_visible ap) = ap_systems ap"
  "ap_selected_id (ensure_selected_visible ap) = ap_selected_id ap"
  "display_order (ensure_selected_visible ap) = display_order ap"
  "ap_cron_job (ensure_selected_visible ap) = ap_cron_job ap"
proof -
  obtain v where v: "ensure_selected_visible ap = ap\<lparr>ap_viewport_top_id := v\<rparr>"
    unfolding ensure_selected_visible_def by (rule ensure_frame)
  then show "ap_systems (ensure_selected_visible ap) = ap_systems ap"
    "ap_selected_id (ensure_selected_visible ap) = ap_selected_id ap"
    "display_order (ensure_selected_visible ap) = display_order ap"
    "ap_cron_job (ensure_selected_visible ap) = ap_cron_job ap" by simp_all
qed

lemma ensure_inv:
  assumes "ids_ok ap"
  shows "frontend_inv (ensure_selected_visible ap)"
proof -
  have d: "distinct (map sy_id (ap_systems ap))" using assms by (simp add: ids_ok_def)
  have "names_in ap (ap_viewport_top_id (ensure_selected_visible ap))"
    using ensure_viewport [of ap] assms names_in_order [of _ ap] by (auto simp: ids_ok_def)
  then have "ids_ok (ensure_selected_visible ap)"
    using assms by (simp add: ids_ok_def ensure_keeps names_in_cong [OF ensure_keeps(1)])
  then show ?thesis using ensure_shown [OF d] by (simp add: frontend_inv_def)
qed

lemma moved_eq:
  "ap_systems ap' = ap_systems ap \<Longrightarrow>
     moved (display_order ap) ap' = ensure_selected_visible (ap'\<lparr>ap_selection_highlight_active := True\<rparr>)"
  by (simp add: moved_def ensure_selected_visible_def display_order_def)

section \<open>Actions keep the invariant\<close>

lemma system_id_at_order: "p < length (display_order ap) \<Longrightarrow> system_id_at ap (display_order ap ! p) = Some (sy_id (ap_systems ap ! (display_order ap ! p)))"
  using display_order_bound [of p ap] by (simp add: system_id_at_def)

lemma select_ids_ok:
  assumes "ids_ok ap" "names_in ap i"
  shows "ids_ok (ap\<lparr>ap_selected_id := i, ap_selection_highlight_active := True\<rparr>)"
  using assms names_in_cong [of "ap\<lparr>ap_selected_id := i, ap_selection_highlight_active := True\<rparr>" ap] by (simp add: ids_ok_def)

lemma move_selection_eq:
  "\<exists>i. move_selection (display_order ap) offset ap = ap\<lparr>ap_selected_id := i\<rparr> \<and> names_in ap i"
proof (cases "display_order ap = []")
  case True
  then show ?thesis by (auto simp: move_selection_def names_in_def display_order_Nil)
next
  case False
  then have "min q (length (display_order ap) - 1) < length (display_order ap)" for q by (simp add: min_less_iff_disj)
  then show ?thesis using False by (auto simp: move_selection_def Let_def system_id_at_order names_in_order)
qed

lemma moved_inv:
  assumes "ids_ok ap" "ap' = ap\<lparr>ap_selected_id := i\<rparr>" "names_in ap i"
  shows "frontend_inv (moved (display_order ap) ap')"
  using moved_eq [of ap' ap] ensure_inv [OF select_ids_ok [OF assms(1,3)]] assms(2) by simp

lemma action_inv:
  assumes "frontend_inv ap"
  shows "frontend_inv (apply_action_inner action ap)"
proof -
  have ids: "ids_ok ap" using assms by (simp add: frontend_inv_def)
  have settle: "frontend_inv (ensure_selected_visible ap')"
    if "ap_systems ap' = ap_systems ap" "ap_selected_id ap' = ap_selected_id ap" "ap_viewport_top_id ap' = ap_viewport_top_id ap" for ap'
    using ensure_inv [of ap'] ids_ok_cong [OF that] ids by simp
  have move: "frontend_inv (moved (display_order ap) (move_selection (display_order ap) offset ap))" for offset
    using move_selection_eq [of ap offset] moved_inv [OF ids] by blast
  have first: "frontend_inv (moved (display_order ap) (ap\<lparr>ap_selected_id := (case display_order ap of [] \<Rightarrow> None | i # _ \<Rightarrow> system_id_at ap i)\<rparr>))"
  proof (rule moved_inv [OF ids refl])
    show "names_in ap (case display_order ap of [] \<Rightarrow> None | i # _ \<Rightarrow> system_id_at ap i)"
      using system_id_at_order [of 0 ap] names_in_order [of 0 ap] display_order_Nil [of ap]
      by (cases "display_order ap") (auto simp: names_in_def)
  qed
  have last: "frontend_inv (moved (display_order ap) (ap\<lparr>ap_selected_id := (if display_order ap = [] then None else system_id_at ap (last (display_order ap)))\<rparr>))"
  proof (rule moved_inv [OF ids refl])
    show "names_in ap (if display_order ap = [] then None else system_id_at ap (last (display_order ap)))"
      using system_id_at_order [of "length (display_order ap) - 1" ap] names_in_order [of "length (display_order ap) - 1" ap] display_order_Nil [of ap]
      by (cases "display_order ap = []") (auto simp: names_in_def last_conv_nth)
  qed
  have period: "ap_systems (snd (request_eggpool_period b ap)) = ap_systems ap"
    "ap_selected_id (snd (request_eggpool_period b ap)) = ap_selected_id ap"
    "ap_viewport_top_id (snd (request_eggpool_period b ap)) = ap_viewport_top_id ap" for b
    by (simp_all add: request_eggpool_period_def Let_def split: option.split)
  have cycle: "ap_systems (cycle_pane b ap) = ap_systems ap" "ap_selected_id (cycle_pane b ap) = ap_selected_id ap"
    "ap_viewport_top_id (cycle_pane b ap) = ap_viewport_top_id ap" for b
    by (simp_all add: cycle_pane_def Let_def)
  have step: "ap_systems (step_cron_job k ap) = ap_systems ap" "ap_selected_id (step_cron_job k ap) = ap_selected_id ap"
    "ap_viewport_top_id (step_cron_job k ap) = ap_viewport_top_id ap" for k
    by (simp_all add: step_cron_job_def Let_def)
  show ?thesis
    using assms move first last
    by (cases action) (simp_all add: apply_action_inner_def Let_def settle period cycle step repair_cron_selection_def)
qed

section \<open>Documents keep the invariant\<close>

lemma adopt_fleet_simps:
  "ap_systems (fst (adopt_fleet doc now w ap)) = map (system_from_dto now w) (map clean_system_dto (fs_systems doc))"
  "ap_selected_id (fst (adopt_fleet doc now w ap)) = ap_selected_id ap"
  "ap_viewport_top_id (fst (adopt_fleet doc now w ap)) = ap_viewport_top_id ap"
  by (simp_all add: adopt_fleet_def Let_def)

lemma adopted_ids: "map sy_id (map (system_from_dto now w) (map clean_system_dto ss)) = map sd_id ss"
  by (simp add: system_from_dto_def clean_system_dto_def comp_def)

lemma first_system_names: "names_in ap (first_system_id (ap_systems ap))"
  by (cases "ap_systems ap") (simp_all add: first_system_id_def names_in_def names_system_def)

lemma repair_ids_systems [simp]: "ap_systems (repair_ids b ap) = ap_systems ap"
  by (simp add: repair_ids_def Let_def)

lemma repair_ids_ok:
  assumes "distinct (map sy_id (ap_systems ap))"
  shows "ids_ok (repair_ids b ap)"
proof -
  let ?keep = "\<lambda>i. case i of Some i \<Rightarrow> if names_system (ap_systems ap) i then Some i else None | None \<Rightarrow> None"
  have kept: "?keep i = Some k \<Longrightarrow> names_in ap (Some k)" for i k by (auto simp: names_in_def split: option.splits if_splits)
  have sel: "names_in ap (case ?keep (ap_selected_id ap) of Some i \<Rightarrow> Some i | None \<Rightarrow> first_system_id (ap_systems ap))"
    by (cases "?keep (ap_selected_id ap)") (simp_all only: option.case kept first_system_names)
  have anchor: "names_in ap (case ?keep (ap_viewport_top_id ap) of Some i \<Rightarrow> Some i | None \<Rightarrow> k)" if "names_in ap k" for k
    using that by (cases "?keep (ap_viewport_top_id ap)") (simp_all only: option.case kept)
  have none: "ap_systems ap = [] \<Longrightarrow> names_in ap None" by (simp add: names_in_def)
  show ?thesis
  proof (cases b)
    case True
    then show ?thesis using assms by (simp add: ids_ok_def names_in_cong [OF repair_ids_systems]) (simp add: repair_ids_def Let_def first_system_names)
  next
    case False
    let ?sel = "case ?keep (ap_selected_id ap) of Some i \<Rightarrow> Some i | None \<Rightarrow> first_system_id (ap_systems ap)"
    have "ap_selected_id (repair_ids False ap) = (if ap_systems ap = [] then None else ?sel)"
      "ap_viewport_top_id (repair_ids False ap) =
        (if ap_systems ap = [] then None else case ?keep (ap_viewport_top_id ap) of Some i \<Rightarrow> Some i | None \<Rightarrow> ?sel)"
      by (simp_all only: repair_ids_def Let_def if_False) simp_all
    then have "names_in ap (ap_selected_id (repair_ids False ap))" "names_in ap (ap_viewport_top_id (repair_ids False ap))"
      using sel anchor [OF sel] none by (simp_all only: split: if_split, blast+)
    then show ?thesis using False assms by (simp add: ids_ok_def names_in_cong [OF repair_ids_systems])
  qed
qed

lemma position_some_nth: "find P xs = Some p \<Longrightarrow> p \<in> set xs \<and> P p"
  by (auto simp: find_Some_iff in_set_conv_nth)

lemma live_replacement_in_order:
  assumes "live_replacement ap placement = Some i"
  shows "names_in ap (Some i)"
proof -
  let ?order = "display_order ap"
  let ?limit = "min (sp_position placement) (length ?order - 1)"
  let ?live = "\<lambda>p. sy_reachability (ap_systems ap ! (?order ! p)) = Online"
  let ?r = "case find ?live (rev [0..<Suc ?limit]) of Some p \<Rightarrow> p
      | None \<Rightarrow> (case find ?live [?limit..<length ?order] of Some p \<Rightarrow> p | None \<Rightarrow> ?limit)"
  have ne: "?order \<noteq> []" and i: "i = sy_id (ap_systems ap ! (?order ! ?r))"
    using assms by (auto simp: live_replacement_def Let_def split: if_splits option.splits simp del: upt_Suc)
  then have "?limit < length ?order" by (simp add: min_less_iff_disj)
  then have "?r < length ?order"
    by (auto split: option.split dest!: position_some_nth simp del: upt_Suc)
  then show ?thesis using names_in_order i by simp
qed

lemma repair_keeps:
  "ids_ok ap \<Longrightarrow> ids_ok (repair_selection pl ap)"
  "ids_ok ap \<Longrightarrow> ids_ok (repair_viewport_anchor pl ap)"
  "ids_ok ap \<Longrightarrow> ids_ok (repair_cron_selection ap)"
  "ap_systems (repair_selection pl ap) = ap_systems ap"
  "ap_systems (repair_viewport_anchor pl ap) = ap_systems ap"
  "ap_systems (repair_cron_selection ap) = ap_systems ap"
proof -
  show "ap_systems (repair_selection pl ap) = ap_systems ap" "ap_systems (repair_viewport_anchor pl ap) = ap_systems ap"
    "ap_systems (repair_cron_selection ap) = ap_systems ap"
    by (simp_all add: repair_selection_def repair_viewport_anchor_def repair_cron_selection_def split: option.split)
  show "ids_ok ap \<Longrightarrow> ids_ok (repair_cron_selection ap)"
    using ids_ok_cong [of "repair_cron_selection ap" ap] by (simp add: repair_cron_selection_def)
  have c: "names_in (ap\<lparr>ap_selected_id := j\<rparr>) = names_in ap" "names_in (ap\<lparr>ap_viewport_top_id := j\<rparr>) = names_in ap" for j
    by (rule names_in_cong, simp)+
  show "ids_ok ap \<Longrightarrow> ids_ok (repair_selection pl ap)" "ids_ok ap \<Longrightarrow> ids_ok (repair_viewport_anchor pl ap)"
    by (auto simp: repair_selection_def repair_viewport_anchor_def ids_ok_def c live_replacement_in_order split: option.split)
qed

lemma place_first_ok: "ids_ok ap \<Longrightarrow> ids_ok (place_first ap)"
proof -
  have c: "names_in (ap\<lparr>ap_selected_id := j, ap_viewport_top_id := k\<rparr>) = names_in ap" for j k by (rule names_in_cong) simp
  show "ids_ok ap \<Longrightarrow> ids_ok (place_first ap)"
    by (auto simp: place_first_def Let_def ids_ok_def c split: list.split)
qed

lemma adopt_snapshot_inner_inv:
  assumes "distinct (map sd_id (fs_systems doc))"
  shows "frontend_inv (snd (adopt_snapshot_inner doc now w ap))"
proof -
  have "distinct (map sy_id (ap_systems (fst (adopt_fleet doc now w ap))))"
    using assms by (simp only: adopt_fleet_simps adopted_ids)
  then have "ids_ok (repair_viewport_anchor a (repair_cron_selection (repair_selection s (repair_ids b (fst (adopt_fleet doc now w ap))))))"
    for a s b by (intro repair_keeps repair_ids_ok)
  then show ?thesis
    by (simp add: adopt_snapshot_inner_def Let_def split_beta ensure_inv place_first_ok)
qed

lemma adopt_inv:
  "frontend_inv ap \<Longrightarrow> distinct (map sd_id (fs_systems doc)) \<Longrightarrow> frontend_inv (snd (adopt_snapshot doc now w ap))"
  by (simp add: adopt_snapshot_def adopt_snapshot_inner_inv)

lemma blank_inv: "frontend_inv app_blank"
  by (simp add: frontend_inv_def ids_ok_def names_in_def selected_shown_def app_blank_def selected_position_def Let_def)

section \<open>How far the viewport moves\<close>

text \<open>Screens and entries that a \<open>u16\<close> sum of two holds without wrapping.\<close>

definition small_rows :: "AppState \<Rightarrow> nat \<Rightarrow> bool" where
  "small_rows ap h \<longleftrightarrow> h \<le> 32767 \<and> list_all (\<lambda>i. entry_height ap i \<le> 32767) [0..<length (ap_systems ap)]"

definition span :: "AppState \<Rightarrow> nat list \<Rightarrow> nat" where
  "span ap xs = sum_list (map (entry_height ap) xs)"

lemma span_simps [simp]: "span ap [] = 0" "span ap (x # xs) = entry_height ap x + span ap xs" "span ap (xs @ ys) = span ap xs + span ap ys"
  by (simp_all add: span_def)

lemma small_entry: "small_rows ap h \<Longrightarrow> i < length (ap_systems ap) \<Longrightarrow> entry_height ap i \<le> 32767"
  by (simp add: small_rows_def list_all_iff)

lemma visible_count_rows:
  assumes "small_rows ap h" "set xs \<subseteq> {..<length (ap_systems ap)}" "rows \<le> 32767"
  shows "\<exists>m. visible_count ap h xs rows (Suc n) = Some m \<and>
    (\<forall>k. Suc n + k < m \<longleftrightarrow> k < length xs \<and> rows + span ap (take (Suc k) xs) \<le> h)"
  using assms(2,3)
proof (induction xs arbitrary: rows n)
  case (Cons x xs)
  let ?r = "rows + entry_height ap x"
  have x: "x < length (ap_systems ap)" using Cons.prems by simp
  have r: "add16 rows (entry_height ap x) = ?r"
    using Cons.prems(2) small_entry [OF assms(1) x] by (simp add: add16_def)
  show ?case
  proof (cases "h < ?r")
    case True
    then show ?thesis using x r by simp
  next
    case False
    then have "?r \<le> 32767" using assms(1) by (simp add: small_rows_def)
    then obtain m where m: "visible_count ap h xs ?r (Suc (Suc n)) = Some m"
      "\<And>k. Suc (Suc n) + k < m \<longleftrightarrow> k < length xs \<and> ?r + span ap (take (Suc k) xs) \<le> h"
      using Cons.IH [of ?r "Suc n"] Cons.prems(1) by auto
    have ge: "Suc (Suc n) \<le> m" using visible_count_ge [OF m(1)] .
    have "Suc n + k < m \<longleftrightarrow> k < length (x # xs) \<and> rows + span ap (take (Suc k) (x # xs)) \<le> h" for k
      using m(2) [of "k - 1"] ge False by (cases k) (auto simp: add.assoc)
    then show ?thesis using m(1) x r False by (intro exI [of _ m]) simp
  qed
qed simp

lemma minimum_le_height: "i < length (ap_systems ap) \<Longrightarrow> minimum_render_height ap i \<le> entry_height ap i"
  by (cases "ap_system_view_mode ap")
    (auto simp: minimum_render_height_def entry_height_def Let_def sat_add16_def u16_max_def normal_base_height_for_def)

lemma shown_from:
  assumes "small_rows ap h" "set order \<subseteq> {..<length (ap_systems ap)}" "q < length order"
  shows "in_range (visible_range order ap q h) s \<longleftrightarrow>
    0 < h \<and> q \<le> s \<and> s < length order \<and> minimum_render_height ap (order ! q) \<le> h \<and>
    (s = q \<or> span ap (take (Suc s - q) (drop q order)) \<le> h)"
proof (cases "h = 0")
  case False
  have d: "drop q order = order ! q # drop (Suc q) order" using assms(3) by (simp add: Cons_nth_drop_Suc)
  have x: "order ! q < length (ap_systems ap)" using assms(2,3) nth_mem by fastforce
  let ?e = "entry_height ap (order ! q)"
  have e: "?e \<le> 32767" "add16 0 ?e = ?e" using small_entry [OF assms(1) x] by (simp_all add: add16_def)
  have sub: "set (drop (Suc q) order) \<subseteq> {..<length (ap_systems ap)}" using assms(2) set_drop_subset by fast
  obtain m where m: "visible_count ap h (drop (Suc q) order) ?e (Suc 0) = Some m"
    "\<And>k. Suc 0 + k < m \<longleftrightarrow> k < length (drop (Suc q) order) \<and> ?e + span ap (take (Suc k) (drop (Suc q) order)) \<le> h"
    using visible_count_rows [OF assms(1) sub e(1), of 0] by auto
  have ge: "Suc 0 \<le> m" using visible_count_ge [OF m(1)] .
  have c: "visible_count ap h (drop q order) 0 0 = (if h < minimum_render_height ap (order ! q) then None else Some m)"
    using x e(2) m(1) by (simp add: d Let_def)
  show ?thesis
  proof (cases "q < s")
    case True
    then obtain k where k: "s = q + Suc k" using less_imp_Suc_add by auto
    then have "Suc s - q = Suc (Suc k)" by simp
    then have "span ap (take (Suc s - q) (drop q order)) = ?e + span ap (take (Suc k) (drop (Suc q) order))" by (simp add: d)
    moreover have "q + m > s \<longleftrightarrow> Suc 0 + k < m" using k by auto
    moreover have "k < length (drop (Suc q) order) \<longleftrightarrow> s < length order" using k by auto
    ultimately show ?thesis using False c m(2) [of k] k by (auto simp: visible_range_def in_range_def not_less)
  next
    case not_above: False
    then show ?thesis using False c ge assms(3) by (auto simp: visible_range_def in_range_def not_less)
  qed
qed (simp add: visible_range_def in_range_def)

lemma shown_upward:
  assumes "small_rows ap h" "set order \<subseteq> {..<length (ap_systems ap)}"
    and "in_range (visible_range order ap q h) s" "q \<le> r" "r \<le> s"
  shows "in_range (visible_range order ap r h) s"
proof (cases "q < length order \<and> r \<noteq> q")
  case True
  have q: "0 < h" "s < length order" "s = q \<or> span ap (take (Suc s - q) (drop q order)) \<le> h"
    using assms(3) shown_from [OF assms(1,2), of q s] True by auto
  have r: "r < length order" using q(2) assms(5) by simp
  have split: "take (Suc s - q) (drop q order) = take (r - q) (drop q order) @ take (Suc s - r) (drop r order)"
  proof -
    have n: "Suc s - q = (r - q) + (Suc s - r)" using assms(4,5) by simp
    show ?thesis by (simp only: n take_add drop_drop le_add_diff_inverse2 [OF assms(4)])
  qed
  have total: "span ap (take (Suc s - r) (drop r order)) \<le> h"
    using q(3) True assms(4,5) by (auto simp: split)
  have head: "take (Suc s - r) (drop r order) = order ! r # take (s - r) (drop (Suc r) order)"
    using r assms(5) by (simp add: Cons_nth_drop_Suc [symmetric] Suc_diff_le)
  have x: "order ! r < length (ap_systems ap)" using assms(2) r nth_mem by fastforce
  have "minimum_render_height ap (order ! r) \<le> h" using minimum_le_height [OF x] total by (simp add: head)
  then show ?thesis using shown_from [OF assms(1,2) r, of s] q(1,2) assms(5) total by simp
next
  case False
  have "s < q + m \<Longrightarrow> q < length order" if "visible_count ap h (drop q order) 0 0 = Some m" "q \<le> s" for m
    using visible_count_le [OF that(1)] that(2) by simp
  then have "q < length order"
    using assms(3,4,5) by (auto simp: visible_range_def in_range_def split: if_splits option.splits)
  then show ?thesis using assms(3) False by simp
qed

lemma nearest_top:
  assumes "distinct (map sy_id (ap_systems ap))" "selected_position ap (display_order ap) = Some p"
    and "small_rows ap (usable_height ap)" "0 < usable_height ap"
    and "minimum_render_height ap (display_order ap ! p) \<le> usable_height ap"
  defines "sees \<equiv> \<lambda>q. in_range (visible_range (display_order ap) ap q (usable_height ap)) p"
    and "before \<equiv> top_position ap (display_order ap)" and "after \<equiv> top_position (ensure_selected_visible ap) (display_order ap)"
  shows "sees after" and "sees q \<Longrightarrow> \<bar>int after - int before\<bar> \<le> \<bar>int q - int before\<bar>"
proof -
  have sub: "set (display_order ap) \<subseteq> {..<length (ap_systems ap)}" by (simp add: set_display_order)
  have p: "p < length (display_order ap)"
    using assms(2) by (auto simp: selected_position_def split: option.splits dest: order_position_SomeD)
  have own: "sees p" using shows_itself [OF p display_order_bound [OF p] assms(5,4)] by (simp add: sees_def)
  have up: "sees r" if "sees q" "q \<le> r" "r \<le> p" for q r using shown_upward [OF assms(3) sub] that by (simp add: sees_def)
  have below: "q \<le> p" if "sees q" for q
    using that by (auto simp: sees_def visible_range_def in_range_def split: if_splits option.splits)
  have top: "after = (if sees before then before else if p < before then p else walk_up sees before p)"
    using ensure_top [OF assms(1,2)] by (simp add: sees_def before_def after_def)
  let ?w = "walk_up sees before p"
  have w: "?w \<le> p" "\<And>q. ?w = Suc q \<Longrightarrow> before < Suc q \<Longrightarrow> \<not> sees q" using walk_up_facts(1,4) [of sees before p] by auto
  have wsees: "sees ?w" using own w(1) walk_up_facts(3) [of sees before p ?w] by (cases "?w = p") auto
  show "sees after" using own wsees by (simp add: top)
  show "\<bar>int after - int before\<bar> \<le> \<bar>int q - int before\<bar>" if q: "sees q"
  proof (cases "sees before \<or> p < before")
    case True
    then show ?thesis using below [OF q] by (auto simp: top)
  next
    case False
    then have le: "before \<le> ?w" using walk_up_facts(2) [of before p sees] by simp
    have "?w \<le> q"
    proof (rule ccontr)
      assume "\<not> ?w \<le> q"
      then have "q < ?w" by simp
      then obtain u where u: "?w = Suc u" "q \<le> u" by (cases ?w) auto
      show False
      proof (cases "before = ?w")
        case True
        then show False using wsees False by simp
      next
        case ne: False
        then have "before < Suc u" using le u(1) by simp
        then have "\<not> sees u" using w(2) u(1) by blast
        moreover have "sees u" using up [OF q u(2)] w(1) u(1) by simp
        ultimately show False by simp
      qed
    qed
    then show ?thesis using False le by (simp add: top)
  qed
qed

section \<open>The rectangles\<close>

definition entry_bottom :: "ViewportEntry \<Rightarrow> nat" where
  "entry_bottom e = re_y (ve_rect e) + re_height (ve_rect e)"

text \<open>Each entry starts where the one before it ends.\<close>

fun stacked :: "nat \<Rightarrow> ViewportEntry list \<Rightarrow> bool" where
  "stacked y [] \<longleftrightarrow> True"
| "stacked y (e # es) \<longleftrightarrow> re_y (ve_rect e) = y \<and> stacked (entry_bottom e) es"

definition details_fit :: "AppState \<Rightarrow> ViewportEntry \<Rightarrow> bool" where
  "details_fit ap e \<longleftrightarrow> ve_drive_rows_visible e + ve_network_rows_visible e + ve_cron_rows_visible e \<le>
     re_height (ve_rect e) - view_base_height ap (ap_systems ap ! ve_index e)"

lemma viewport_entry_simps [simp]:
  "re_y (ve_rect (viewport_entry ap area i y h)) = y" "re_height (ve_rect (viewport_entry ap area i y h)) = h"
  "re_x (ve_rect (viewport_entry ap area i y h)) = re_x area" "re_width (ve_rect (viewport_entry ap area i y h)) = re_width area"
  "ve_index (viewport_entry ap area i y h) = i" "entry_bottom (viewport_entry ap area i y h) = y + h"
  "ve_is_selected (viewport_entry ap area i y h) \<longleftrightarrow> ap_selected_id ap = Some (sy_id (ap_systems ap ! i))"
  by (simp_all add: viewport_entry_def Let_def entry_bottom_def)

lemma detail_rows_bounds:
  "drive_rows_visible ap i free \<le> free"
  "network_rows_visible ap i free \<le> free - min (drive_rows_visible ap i free) u16_max"
  "cron_rows_visible ap i free \<le>
     free - min (drive_rows_visible ap i free) u16_max - min (network_rows_visible ap i free) u16_max"
proof -
  show "drive_rows_visible ap i free \<le> free" unfolding drive_rows_visible_def by simp
  show "network_rows_visible ap i free \<le> free - min (drive_rows_visible ap i free) u16_max"
    unfolding network_rows_visible_def by (simp only: split: if_split) simp
  show "cron_rows_visible ap i free \<le>
     free - min (drive_rows_visible ap i free) u16_max - min (network_rows_visible ap i free) u16_max"
  proof -
    have "(if P then let r = x in if r = 0 then 0 else min k r else 0) \<le> x" for P and x k :: nat by (simp add: Let_def)
    then show ?thesis unfolding cron_rows_visible_def .
  qed
qed

lemma viewport_entry_details:
  assumes "h \<le> u16_max"
  shows "details_fit ap (viewport_entry ap area i y h)"
proof -
  let ?free = "h - view_base_height ap (ap_systems ap ! i)"
  let ?d = "drive_rows_visible ap i ?free" and ?n = "network_rows_visible ap i ?free" and ?c = "cron_rows_visible ap i ?free"
  have free: "?free \<le> u16_max" using assms by simp
  have d: "?d \<le> ?free" "min ?d u16_max = ?d" using detail_rows_bounds(1) [of ap i ?free] free by simp_all
  have n: "?n \<le> ?free - ?d" "min ?n u16_max = ?n" using detail_rows_bounds(2) [of ap i ?free] d(2) free by simp_all
  have "?c \<le> ?free - ?d - ?n" using detail_rows_bounds(3) [of ap i ?free] d(2) n(2) by simp
  with d(1) n(1) have "?d + ?n + ?c \<le> ?free" by linarith
  then show ?thesis by (simp only: details_fit_def viewport_entry_def Let_def ViewportEntry.simps Rect.simps)
qed

lemma stack_facts:
  assumes "y \<le> bottom" "bottom \<le> u16_max"
  shows "stacked y (stack_entries ap area bottom order ps y) \<and>
    list_all (\<lambda>e. y \<le> re_y (ve_rect e) \<and> entry_bottom e \<le> bottom \<and> re_x (ve_rect e) = re_x area \<and>
      re_width (ve_rect e) = re_width area \<and> details_fit ap e) (stack_entries ap area bottom order ps y)"
  using assms(1)
proof (induction ps arbitrary: y)
  case (Cons p ps)
  let ?h = "min (entry_height ap (order ! p)) (bottom - y)"
  have s: "sat_add16 y ?h = y + ?h" "y + ?h \<le> bottom" using Cons.prems assms(2) by (auto simp: sat_add16_def)
  have "details_fit ap (viewport_entry ap area (order ! p) y ?h)" using assms(2) by (intro viewport_entry_details) simp
  then show ?case using Cons.IH [OF s(2)] s by (auto simp: Let_def list_all_iff)
qed simp

lemma stack_index: "map ve_index (stack_entries ap area bottom order [s..<e] y) = map ((!) order) [s..<min e (length order)]"
proof (induction "e - s" arbitrary: s y)
  case (Suc d)
  then have "[s..<e] = s # [Suc s..<e]" by (simp add: upt_conv_Cons)
  then show ?case using Suc by (auto simp: Let_def upt_conv_Cons)
qed simp

text \<open>The rows before a position of the visible range.\<close>

lemma take_span_step:
  "q \<le> s \<Longrightarrow> s < length order \<Longrightarrow>
     span ap (take (Suc s - q) (drop q order)) = span ap (take (s - q) (drop q order)) + entry_height ap (order ! s)"
  by (simp add: Suc_diff_le take_Suc_conv_app_nth nth_drop)

lemma stack_full:
  assumes "bottom \<le> u16_max" "q \<le> s" "\<And>t. s \<le> t \<Longrightarrow> t < e \<Longrightarrow> t < length order \<and> y0 + span ap (take (Suc t - q) (drop q order)) \<le> bottom"
  shows "list_all (\<lambda>v. re_height (ve_rect v) = entry_height ap (ve_index v))
    (stack_entries ap area bottom order [s..<e] (y0 + span ap (take (s - q) (drop q order))))"
  using assms(2,3)
proof (induction "e - s" arbitrary: s)
  case (Suc d)
  then have u: "[s..<e] = s # [Suc s..<e]" "s < e" by (simp_all add: upt_conv_Cons)
  have s: "s < length order" "y0 + span ap (take (Suc s - q) (drop q order)) \<le> bottom" using Suc.prems u(2) by auto
  let ?y = "y0 + span ap (take (s - q) (drop q order))"
  have y: "?y + entry_height ap (order ! s) = y0 + span ap (take (Suc s - q) (drop q order))"
    using take_span_step [OF Suc.prems(1) s(1), of ap] by simp
  then have h: "min (entry_height ap (order ! s)) (bottom - ?y) = entry_height ap (order ! s)" using s(2) by simp
  have a: "sat_add16 ?y (entry_height ap (order ! s)) = y0 + span ap (take (Suc s - q) (drop q order))"
    using y s(2) assms(1) by (simp add: sat_add16_def)
  have "list_all (\<lambda>v. re_height (ve_rect v) = entry_height ap (ve_index v))
      (stack_entries ap area bottom order [Suc s..<e] (y0 + span ap (take (Suc s - q) (drop q order))))"
    using Suc.hyps(2) Suc.prems by (intro Suc.hyps(1)) auto
  then show ?case using s(1) h a by (simp add: u(1) Let_def)
qed simp

lemma viewport_minimum:
  assumes "small_rows ap ch" "y0 + ch \<le> u16_max" "visible_range (display_order ap) ap q ch = (q', e)"
  shows "list_all (\<lambda>v. minimum_render_height ap (ve_index v) \<le> re_height (ve_rect v))
    (stack_entries ap area (y0 + ch) (display_order ap) [q'..<e] y0)"
proof (cases "q' < e")
  case True
  let ?o = "display_order ap"
  have q: "q' = q" using assms(3) True by (auto simp: visible_range_def split: if_splits option.splits)
  have sub: "set ?o \<subseteq> {..<length (ap_systems ap)}" by (simp add: set_display_order)
  have inside: "in_range (visible_range ?o ap q ch) t" if "q \<le> t" "t < e" for t using that assms(3) q by (simp add: in_range_def)
  have qo: "q < length ?o"
  proof (rule ccontr)
    assume "\<not> q < length ?o"
    then have "visible_range ?o ap q ch = (q, q) \<or> visible_range ?o ap q ch = (0, 0)" by (simp add: visible_range_def)
    then show False using assms(3) True by auto
  qed
  have facts: "t < length ?o" "minimum_render_height ap (?o ! q) \<le> ch" "t = q \<or> span ap (take (Suc t - q) (drop q ?o)) \<le> ch"
    if "q \<le> t" "t < e" for t using inside [OF that] shown_from [OF assms(1) sub qo, of t] by auto
  show ?thesis
  proof (cases "e = Suc q")
    case True
    have "minimum_render_height ap (?o ! q) \<le> min (entry_height ap (?o ! q)) ch"
      using minimum_le_height [OF display_order_bound [OF qo]] facts(2) [of q] True by simp
    then show ?thesis using True q qo by (simp add: Let_def)
  next
    case False
    then have two: "Suc q < e" using True q by simp
    have "t < length ?o \<and> y0 + span ap (take (Suc t - q) (drop q ?o)) \<le> y0 + ch" if "q \<le> t" "t < e" for t
    proof (cases "t = q")
      case True
      have "span ap (take (Suc q - q) (drop q ?o)) \<le> span ap (take (Suc (Suc q) - q) (drop q ?o))"
        using take_span_step [of q "Suc q" ?o ap] facts(1) [of "Suc q"] two by simp
      also have "\<dots> \<le> ch" using facts(3) [of "Suc q"] two by simp
      finally show ?thesis using True facts(1) [OF that] by simp
    next
      case False
      then show ?thesis using facts(1,3) [OF that] by simp
    qed
    from stack_full [OF assms(2) le_refl this, where area = area]
    have full: "list_all (\<lambda>v. re_height (ve_rect v) = entry_height ap (ve_index v)) (stack_entries ap area (y0 + ch) ?o [q..<e] y0)" by simp
    have "i < length (ap_systems ap)" if "i \<in> set (map ve_index (stack_entries ap area (y0 + ch) ?o [q..<e] y0))" for i
      using that display_order_bound by (auto simp: stack_index)
    then show ?thesis using full minimum_le_height [of _ ap] q by (auto simp: list_all_iff)
  qed
qed simp

text \<open>
  C15. The entries a frame draws lie on top of each other without gaps or overlaps inside the area, under
  the header of the view, every one of them with all rows of its base block; the rows of drive, network and
  scheduler details together fit into what the base block leaves; no system is drawn twice; and the
  selected system is among them whenever its base block fits on the screen.
\<close>

theorem viewport_fits_screen:
  assumes "selected_shown ap" "small_rows ap (usable_height ap)"
    and "ap_terminal_size ap = Some (width, re_height area)" "re_y area + re_height area \<le> u16_max"
  defines "es \<equiv> compute_viewport ap area (display_order ap)" and "header \<equiv> view_header_height (ap_system_view_mode ap)"
  shows "stacked (re_y area + header) es \<and>
    list_all (\<lambda>e. entry_bottom e \<le> re_y area + re_height area \<and> re_x (ve_rect e) = re_x area \<and> re_width (ve_rect e) = re_width area \<and>
      details_fit ap e \<and> minimum_render_height ap (ve_index e) \<le> re_height (ve_rect e)) es \<and>
    distinct (map ve_index es) \<and>
    (\<forall>p. selected_position ap (display_order ap) = Some p \<longrightarrow>
       max 1 (minimum_render_height ap (display_order ap ! p)) \<le> usable_height ap \<longrightarrow> list_ex ve_is_selected es)"
proof (cases "re_height area < header")
  case True
  then have z: "usable_height ap = 0" using assms(3) by (simp add: usable_height_def header_def)
  then have "es = []" using True by (simp add: es_def compute_viewport_def Let_def visible_range_def header_def)
  then show ?thesis using z by simp
next
  case False
  let ?y = "re_y area + header" and ?ch = "re_height area - header" and ?o = "display_order ap"
  obtain q e where v: "visible_range ?o ap (top_position ap ?o) ?ch = (q, e)" by fastforce
  have u: "usable_height ap = ?ch" using assms(3) by (simp add: usable_height_def header_def)
  have sums: "sat_add16 (re_y area) header = ?y" "sat_add16 ?y ?ch = ?y + ?ch" "?y + ?ch = re_y area + re_height area"
    using False assms(4) by (simp_all add: sat_add16_def)
  have es: "es = stack_entries ap area (?y + ?ch) ?o [q..<e] ?y"
    unfolding es_def compute_viewport_def Let_def header_def [symmetric] v sums(1,2) by simp
  have bound: "?y + ?ch \<le> u16_max" using sums(3) assms(4) by simp
  have "selected_position ap ?o = Some p \<Longrightarrow> max 1 (minimum_render_height ap (?o ! p)) \<le> usable_height ap \<Longrightarrow> list_ex ve_is_selected es" for p
  proof -
    assume p: "selected_position ap ?o = Some p" and fits: "max 1 (minimum_render_height ap (?o ! p)) \<le> usable_height ap"
    have "\<not> usable_height ap < max 1 (minimum_render_height ap (?o ! p))" using fits by linarith
    then have "in_range (q, e) p" using assms(1) p v u by (simp add: selected_shown_def Let_def)
    moreover have pos: "p < length ?o" "ap_selected_id ap = Some (sy_id (ap_systems ap ! (?o ! p)))"
      using p by (auto simp: selected_position_def split: option.splits dest: order_position_SomeD)
    ultimately have "?o ! p \<in> set (map ve_index es)" unfolding es stack_index by (auto simp: in_range_def)
    then obtain x where x: "x \<in> set es" "ve_index x = ?o ! p" by auto
    have "list_all (\<lambda>v. ve_is_selected v \<longleftrightarrow> ap_selected_id ap = Some (sy_id (ap_systems ap ! ve_index v))) (stack_entries ap area b ?o ps y)" for b ps y
      by (induction ps arbitrary: y) (simp_all add: Let_def)
    then have "ve_is_selected x" using x pos(2) by (auto simp: es list_all_iff)
    with x(1) show "list_ex ve_is_selected es" by (auto simp: list_ex_iff)
  qed
  moreover have "distinct (map ve_index es)"
    unfolding es stack_index using distinct_display_order [of ap] by (auto simp: distinct_map inj_on_def nth_eq_iff_index_eq)
  moreover have "stacked ?y es \<and> list_all (\<lambda>e. ?y \<le> re_y (ve_rect e) \<and> entry_bottom e \<le> ?y + ?ch \<and> re_x (ve_rect e) = re_x area \<and>
      re_width (ve_rect e) = re_width area \<and> details_fit ap e) es"
    unfolding es by (rule stack_facts [OF le_add1 bound])
  moreover have "list_all (\<lambda>v. minimum_render_height ap (ve_index v) \<le> re_height (ve_rect v)) es"
    unfolding es using viewport_minimum [OF _ bound v] assms(2) u by simp
  ultimately show ?thesis using sums(3) by (auto simp: list_all_iff)
qed

text \<open>
  C19. When the selected system is not on the screen the viewport moves, and it moves no further than it
  has to: of all top positions from which the selected system is visible, the new one is nearest to the
  old one. A viewport that shows the selection does not move.
\<close>

theorem viewport_moves_least:
  assumes "distinct (map sy_id (ap_systems ap))" "selected_position ap (display_order ap) = Some p"
    and "small_rows ap (usable_height ap)" "max 1 (minimum_render_height ap (display_order ap ! p)) \<le> usable_height ap"
  defines "sees \<equiv> \<lambda>q. in_range (visible_range (display_order ap) ap q (usable_height ap)) p"
    and "before \<equiv> top_position ap (display_order ap)" and "after \<equiv> top_position (ensure_selected_visible ap) (display_order ap)"
  shows "sees after \<and> (\<forall>q. sees q \<longrightarrow> \<bar>int after - int before\<bar> \<le> \<bar>int q - int before\<bar>)"
  using nearest_top [OF assms(1-3)] assms(4) by (auto simp: sees_def before_def after_def)

section \<open>Examples\<close>

definition example_dto :: "rstr \<Rightarrow> Reachability \<Rightarrow> SystemSnapshotDto" where
  "example_dto i r = \<lparr>sd_id = i, sd_endpoint = \<lparr>en_id = i, en_host = i, en_port = 11310, en_name = None\<rparr>, sd_configured_name = None,
     sd_reachability = r, sd_latest = None, sd_last_success_at_unix_ms = None, sd_last_attempt_at_unix_ms = None,
     sd_latency_ms = None, sd_offline_reason = None\<rparr>"

text \<open>Three pending hosts on a screen of two rows, the last one selected and the first one on top.\<close>

definition example_scroll :: AppState where
  "example_scroll = app_blank\<lparr>ap_systems := map (system_from_dto 0 0) [example_dto [97] Pending, example_dto [98] Pending, example_dto [99] Pending],
     ap_last_snapshot_generation := 1, ap_selected_id := Some [99], ap_viewport_top_id := Some [97], ap_terminal_size := Some (80, 2)\<rparr>"

lemma example_scroll_simps [simp]:
  "ap_systems example_scroll = [system_from_dto 0 0 (example_dto [97] Pending), system_from_dto 0 0 (example_dto [98] Pending),
     system_from_dto 0 0 (example_dto [99] Pending)]"
  "ap_selected_id example_scroll = Some [99]" "ap_viewport_top_id example_scroll = Some [97]" "ap_terminal_size example_scroll = Some (80, 2)"
  "ap_system_view_mode example_scroll = ViewNormal"
  by (simp_all add: example_scroll_def app_blank_def)

lemma example_dto_simps [simp]:
  "sy_id (system_from_dto now w (example_dto i r)) = i" "sy_reachability (system_from_dto now w (example_dto i r)) = r"
  by (simp_all add: system_from_dto_def example_dto_def)

lemma example_scroll_order [simp]: "display_order example_scroll = [0, Suc 0, 2]"
  by (simp add: display_order_def display_order_of_def)

lemma example_scroll_rows [simp]:
  "usable_height example_scroll = 2" "top_position example_scroll [0, Suc 0, 2] = 0" "selected_position example_scroll [0, Suc 0, 2] = Some 2"
  "i < 3 \<Longrightarrow> entry_height example_scroll i = 1" "i < 3 \<Longrightarrow> minimum_render_height example_scroll i = 1"
  "small_rows example_scroll 2"
proof -
  have e: "entry_height example_scroll i = 1" if "i < 3" for i
    using that by (auto simp: entry_height_def less_Suc_eq numeral_3_eq_3 nth_Cons')
  show "i < 3 \<Longrightarrow> entry_height example_scroll i = 1" by (rule e)
  show "small_rows example_scroll 2" by (simp add: small_rows_def e)
  show "i < 3 \<Longrightarrow> minimum_render_height example_scroll i = 1"
    by (auto simp: minimum_render_height_def less_Suc_eq numeral_3_eq_3 nth_Cons')
qed (simp_all add: usable_height_def view_header_height_def top_position_def selected_position_def order_position_def)

theorem viewport_moves_least_witness: "top_position (ensure_selected_visible example_scroll) [0, Suc 0, 2] = 1"
proof -
  let ?sees = "\<lambda>q. in_range (visible_range [0, Suc 0, 2] example_scroll q 2) 2"
  let ?after = "top_position (ensure_selected_visible example_scroll) [0, Suc 0, 2]"
  have "?sees ?after \<and> (\<forall>q. ?sees q \<longrightarrow> \<bar>int ?after - int 0\<bar> \<le> \<bar>int q - int 0\<bar>)"
    using viewport_moves_least [of example_scroll 2] by simp
  moreover have "?sees 1" "\<not> ?sees 0"
    by (simp_all add: in_range_def visible_range_def add16_def Let_def)
  ultimately show ?thesis by (cases ?after) force+
qed

theorem viewport_fits_screen_witness:
  "list_ex ve_is_selected (compute_viewport (ensure_selected_visible example_scroll) \<lparr>re_x = 0, re_y = 0, re_width = 80, re_height = 2\<rparr> [0, Suc 0, 2])"
proof -
  obtain v where v: "ensure_selected_visible example_scroll = example_scroll\<lparr>ap_viewport_top_id := v\<rparr>"
    unfolding ensure_selected_visible_def by (rule ensure_frame)
  have small: "small_rows (ensure_selected_visible example_scroll) (usable_height (ensure_selected_visible example_scroll))"
    using example_scroll_rows(6) by (simp add: v small_rows_def)
  have shown: "selected_shown (ensure_selected_visible example_scroll)" by (rule ensure_shown) simp
  have size: "ap_terminal_size (ensure_selected_visible example_scroll) = Some (80, re_height \<lparr>re_x = 0, re_y = 0, re_width = 80, re_height = 2\<rparr>)"
    by (simp add: v)
  have area: "re_y \<lparr>re_x = 0, re_y = 0, re_width = 80, re_height = 2\<rparr> + re_height \<lparr>re_x = 0, re_y = 0, re_width = 80, re_height = 2\<rparr> \<le> u16_max"
    by (simp add: u16_max_def)
  show ?thesis using viewport_fits_screen [OF shown small size area] by (simp add: v)
qed

end
