(* ===== verification/Frontend_Adopt.thy ===== *)
theory Frontend_Adopt
  imports Frontend_View Client_Engine
begin

text \<open>
  What adopting a document does to a frontend (\<open>crates/gregg/src/state.rs\<close>, \<open>adopt_snapshot\<close>): the
  fleet it shows afterwards, when the redraw is skipped, and where the selection of a host that failed
  goes.
\<close>

section \<open>The display order by reachability\<close>

definition online_count :: "SystemState list \<Rightarrow> nat" where
  "online_count ss = length (filter (\<lambda>s. sy_reachability s = Online) ss)"

lemma length_filter_upt: "length (filter (\<lambda>i. P (xs ! i)) [0..<length xs]) = length (filter P xs)"
proof -
  have "map (\<lambda>i. xs ! i) [0..<length xs] = xs" by (rule map_nth)
  then have "filter P xs = map (\<lambda>i. xs ! i) (filter (\<lambda>i. P (xs ! i)) [0..<length xs])"
    by (metis (no_types, lifting) comp_apply filter_cong filter_map)
  then show ?thesis by simp
qed

lemma online_first:
  assumes "p < length (ap_systems ap)"
  shows "sy_reachability (ap_systems ap ! (display_order ap ! p)) = Online \<longleftrightarrow> p < online_count (ap_systems ap)"
proof -
  let ?on = "filter (\<lambda>i. sy_reachability (ap_systems ap ! i) = Online) [0..<length (ap_systems ap)]"
  let ?off = "filter (\<lambda>i. sy_reachability (ap_systems ap ! i) = Offline \<or> sy_reachability (ap_systems ap ! i) = Pending) [0..<length (ap_systems ap)]"
  have l: "length ?on = online_count (ap_systems ap)"
    unfolding online_count_def by (rule length_filter_upt)
  have o: "display_order ap = ?on @ ?off" by (simp add: display_order_def display_order_of_def)
  have len: "length ?on + length ?off = length (ap_systems ap)" using length_display_order [of ap] by (simp add: o)
  show ?thesis
  proof (cases "p < length ?on")
    case True
    then have "?on ! p \<in> set ?on" by (rule nth_mem)
    then show ?thesis using True l by (simp add: o nth_append)
  next
    case False
    then have "?off ! (p - length ?on) \<in> set ?off" using assms len by (intro nth_mem) simp
    then show ?thesis using False l by (auto simp: o nth_append)
  qed
qed

lemma find_rev_upt:
  "m \<le> n \<Longrightarrow> P m \<Longrightarrow> (\<And>j. m < j \<Longrightarrow> j \<le> n \<Longrightarrow> \<not> P j) \<Longrightarrow> find P (rev [0..<Suc n]) = Some m"
proof (induction n)
  case (Suc n)
  show ?case
  proof (cases "m = Suc n")
    case False
    then have "find P (rev [0..<Suc n]) = Some m" using Suc by simp
    moreover have "\<not> P (Suc n)" using False Suc.prems by simp
    ultimately show ?thesis by simp
  qed (use Suc.prems(2) in simp)
qed simp

text \<open>The position that takes a failed host's place.\<close>

definition replacement_position :: "SystemState list \<Rightarrow> nat \<Rightarrow> nat" where
  "replacement_position ss p =
     (if 0 < online_count ss then min p (online_count ss - 1) else min p (length ss - 1))"

lemma online_count_le: "online_count ss \<le> length ss"
  by (simp add: online_count_def)

lemma live_replacement_position:
  assumes "sp_reachability pl = Online" "s \<in> set (ap_systems ap)" "sy_id s = sp_id pl" "distinct (map sy_id (ap_systems ap))"
    and "sy_reachability s = Offline" "en_port (sy_endpoint s) = sp_port pl"
    and "equivalent_endpoint_host (en_host (sy_endpoint s)) (sp_host pl)"
  shows "live_replacement ap pl =
    Some (sy_id (ap_systems ap ! (display_order ap ! replacement_position (ap_systems ap) (sp_position pl))))"
proof -
  let ?n = "length (ap_systems ap)" and ?L = "online_count (ap_systems ap)"
  let ?limit = "min (sp_position pl) (?n - 1)"
  let ?live = "\<lambda>p. sy_reachability (ap_systems ap ! (display_order ap ! p)) = Online"
  obtain k where k: "k < ?n" "ap_systems ap ! k = s" using assms(2) by (auto simp: in_set_conv_nth)
  have pos: "position (\<lambda>s. sy_id s = sp_id pl) (ap_systems ap) = Some k"
  proof -
    have "sy_id (ap_systems ap ! j) \<noteq> sp_id pl" if "j < k" for j
      using that k assms(3,4) nth_eq_iff_index_eq [of "map sy_id (ap_systems ap)" j k] by auto
    then show ?thesis using k assms(3) by (simp add: position_Some_iff)
  qed
  have ne: "display_order ap \<noteq> []" using k(1) display_order_Nil [of ap] by auto
  have live: "?live p \<longleftrightarrow> p < ?L" if "p < ?n" for p by (rule online_first [OF that])
  have limit: "?limit < ?n" using k(1) by linarith
  have r: "(case find ?live (rev [0..<Suc ?limit]) of Some p \<Rightarrow> p
      | None \<Rightarrow> (case find ?live [?limit..<?n] of Some p \<Rightarrow> p | None \<Rightarrow> ?limit)) =
    replacement_position (ap_systems ap) (sp_position pl)"
  proof (cases "0 < ?L")
    case True
    have "find ?live (rev [0..<Suc ?limit]) = Some (min ?limit (?L - 1))"
    proof (rule find_rev_upt)
      show "?live (min ?limit (?L - 1))" using live limit True by (simp add: min_less_iff_disj)
      show "\<not> ?live j" if "min ?limit (?L - 1) < j" "j \<le> ?limit" for j using live [of j] that limit True by auto
      show "min ?limit (?L - 1) \<le> ?limit" by (rule min.cobounded1)
    qed
    moreover have "min ?limit (?L - 1) = min (sp_position pl) (?L - 1)" using online_count_le [of "ap_systems ap"] by simp
    ultimately show ?thesis using True by (simp add: replacement_position_def del: upt_Suc)
  next
    case False
    have "find ?live (rev [0..<Suc ?limit]) = None" using live limit False by (auto simp: find_None_iff simp del: upt_Suc)
    moreover have "find ?live [?limit..<?n] = None" using live False by (auto simp: find_None_iff)
    ultimately show ?thesis using False by (simp add: replacement_position_def del: upt_Suc)
  qed
  show ?thesis
    unfolding live_replacement_def Let_def
    by (simp only: assms(1,5,6,7) pos option.case k(2) ne length_display_order r if_False simp_thms)
qed

lemma display_order_systems: "ap_systems a = ap_systems b \<Longrightarrow> display_order a = display_order b"
  by (simp add: display_order_def)

lemma live_replacement_cong:
  assumes "ap_systems a = ap_systems b"
  shows "live_replacement a pl = live_replacement b pl"
  by (simp only: live_replacement_def display_order_def assms)

section \<open>What an adopted document leaves\<close>

text \<open>The steps after the fleet data, without the first placement.\<close>

lemma adopt_selected:
  fixes now w :: nat
  assumes "ap_saw_reachability ap \<or> \<not> fs_poll_initialized doc"
  defines "fleet \<equiv> repair_selection (selection_state ap)
    (repair_ids (ap_last_snapshot_generation ap = 0) (fst (adopt_fleet doc now w ap)))"
  shows "ap_selected_id (snd (adopt_snapshot_inner doc now w ap)) = ap_selected_id fleet"
    and "ap_cron_job (snd (adopt_snapshot_inner doc now w ap)) = selected_cron_job fleet"
proof -
  have anchor: "ap_selected_id (repair_viewport_anchor pl b) = ap_selected_id b" "ap_cron_job (repair_viewport_anchor pl b) = ap_cron_job b" for pl b
    by (simp_all add: repair_viewport_anchor_def split: option.split)
  have cron: "ap_selected_id (repair_cron_selection b) = ap_selected_id b" "ap_cron_job (repair_cron_selection b) = selected_cron_job b" for b
    by (simp_all add: repair_cron_selection_def)
  show "ap_selected_id (snd (adopt_snapshot_inner doc now w ap)) = ap_selected_id fleet"
    "ap_cron_job (snd (adopt_snapshot_inner doc now w ap)) = selected_cron_job fleet"
    using assms(1) by (auto simp: adopt_snapshot_inner_def Let_def split_beta ensure_keeps anchor cron fleet_def)
qed

lemma job_kept:
  "ap_cron_job (repair_selection pl b) = ap_cron_job b" "ap_cron_job (repair_ids first b) = ap_cron_job b"
  "ap_cron_job (fst (adopt_fleet doc now w b)) = ap_cron_job b"
  by (simp_all add: repair_selection_def repair_ids_def adopt_fleet_def Let_def split: option.split)

lemma adopt_systems: "ap_systems (snd (adopt_snapshot_inner doc now w ap)) = map (system_from_dto now w) (map clean_system_dto (fs_systems doc))"
proof -
  have place: "ap_systems (place_first b) = ap_systems b" for b by (simp add: place_first_def Let_def split: list.split)
  show ?thesis by (simp add: adopt_snapshot_inner_def Let_def split_beta ensure_keeps repair_keeps place adopt_fleet_simps)
qed

text \<open>
  C20. When the selected host was live and a later document shows it failed, on the same target, the
  selection moves to the live host nearest to where it stood in the display order: to the same position
  if that is still a live one, otherwise to the last live host. If no host is live the selection stays at
  the position.
\<close>

theorem failed_selection_replaced:
  fixes now w :: nat
  assumes "is_newer_than doc (ap_last_snapshot_generation ap)" "ap_last_snapshot_generation ap \<noteq> 0"
    and "ap_saw_reachability ap \<or> \<not> fs_poll_initialized doc" "distinct (map sd_id (fs_systems doc))"
    and "selection_state ap = Some pl" "sp_reachability pl = Online"
    and "d \<in> set (fs_systems doc)" "sd_id d = sp_id pl" "sd_reachability d = Offline"
    and "en_port (sd_endpoint d) = sp_port pl" "equivalent_endpoint_host (clean (en_host (sd_endpoint d))) (sp_host pl)"
  defines "ap' \<equiv> snd (adopt_snapshot doc now w ap)"
  shows "ap_selected_id ap' =
      Some (sy_id (ap_systems ap' ! (display_order ap' ! replacement_position (ap_systems ap') (sp_position pl)))) \<and>
    (list_ex (\<lambda>e. sd_reachability e = Online) (fs_systems doc) \<longrightarrow>
      sy_reachability (ap_systems ap' ! (display_order ap' ! replacement_position (ap_systems ap') (sp_position pl))) = Online)"
proof -
  let ?fleet = "fst (adopt_fleet doc now w ap)"
  let ?s = "system_from_dto now w (clean_system_dto d)"
  have sys: "ap_systems ap' = map (system_from_dto now w) (map clean_system_dto (fs_systems doc))"
    using assms(1) by (simp add: ap'_def adopt_snapshot_def adopt_systems)
  have fields: "sy_id ?s = sp_id pl" "sy_reachability ?s = Offline" "en_port (sy_endpoint ?s) = sp_port pl"
    "equivalent_endpoint_host (en_host (sy_endpoint ?s)) (sp_host pl)"
    using assms(8-11) by (simp_all add: system_from_dto_def clean_system_dto_def)
  have distinct_ids: "distinct (map sy_id (ap_systems ap'))" using assms(4) by (simp only: sys adopted_ids)
  have mem: "?s \<in> set (ap_systems ap')" using assms(7) by (auto simp: sys)
  have same: "ap_systems (repair_ids False ?fleet) = ap_systems ap'" by (simp add: sys adopt_fleet_simps)
  have "live_replacement (repair_ids False ?fleet) pl = live_replacement ap' pl" by (rule live_replacement_cong [OF same])
  then have live: "live_replacement (repair_ids False ?fleet) pl =
      Some (sy_id (ap_systems ap' ! (display_order ap' ! replacement_position (ap_systems ap') (sp_position pl))))"
    using live_replacement_position [OF assms(6) mem fields(1) distinct_ids fields(2-4)] by simp
  have "ap_selected_id ap' = ap_selected_id (repair_selection (Some pl) (repair_ids False ?fleet))"
    using assms(1,2,5) adopt_selected(1) [OF assms(3)] by (simp add: ap'_def adopt_snapshot_def)
  then have moved_to: "ap_selected_id ap' =
      Some (sy_id (ap_systems ap' ! (display_order ap' ! replacement_position (ap_systems ap') (sp_position pl))))"
    using live by (simp add: repair_selection_def)
  have "sy_reachability (ap_systems ap' ! (display_order ap' ! replacement_position (ap_systems ap') (sp_position pl))) = Online"
    if ex: "list_ex (\<lambda>e. sd_reachability e = Online) (fs_systems doc)"
  proof -
    obtain e where e: "e \<in> set (fs_systems doc)" "sd_reachability e = Online" using ex by (auto simp: list_ex_iff)
    have "system_from_dto now w (clean_system_dto e) \<in> set (filter (\<lambda>s. sy_reachability s = Online) (ap_systems ap'))"
      using e by (auto simp: sys system_from_dto_def clean_system_dto_def)
    then have L: "0 < online_count (ap_systems ap')" unfolding online_count_def by (rule length_pos_if_in_set)
    then have "replacement_position (ap_systems ap') (sp_position pl) < online_count (ap_systems ap')"
      by (simp add: replacement_position_def min_less_iff_disj)
    then show ?thesis using online_first [of _ ap'] online_count_le [of "ap_systems ap'"] by simp
  qed
  with moved_to show ?thesis by blast
qed

section \<open>The fleet a frontend shows\<close>

text \<open>Everything but the selection, the viewport, the pane and the retained job.\<close>

definition fleet_part where
  "fleet_part ap = (ap_systems ap, ap_refresh_status ap, ap_config_reload_error ap, ap_eggpool ap, ap_cron ap,
     ap_cron_display_history ap, ap_terminal_size ap, ap_system_view_mode ap, ap_drives_expanded ap, ap_network_expanded ap,
     ap_cron_expanded ap, ap_selection_highlight_active ap)"

lemma fleet_part_stages:
  "fleet_part (repair_ids b ap) = fleet_part ap"
  "fleet_part (repair_selection pl ap) = fleet_part ap"
  "fleet_part (repair_cron_selection ap) = fleet_part ap"
  "fleet_part (repair_viewport_anchor pl ap) = fleet_part ap"
  "fleet_part (place_first ap) = fleet_part ap"
  "fleet_part (ensure_selected_visible ap) = fleet_part ap"
proof -
  obtain v where v: "ensure_selected_visible ap = ap\<lparr>ap_viewport_top_id := v\<rparr>"
    unfolding ensure_selected_visible_def by (rule ensure_frame)
  show "fleet_part (ensure_selected_visible ap) = fleet_part ap" by (simp add: v fleet_part_def)
qed (simp_all add: fleet_part_def repair_ids_def repair_selection_def repair_cron_selection_def repair_viewport_anchor_def
  place_first_def Let_def split: option.split list.split)

lemma adopt_fleet_part: "fleet_part (snd (adopt_snapshot_inner doc now w ap)) = fleet_part (fst (adopt_fleet doc now w ap))"
  by (simp add: adopt_snapshot_inner_def Let_def split_beta fleet_part_stages)

lemma fleet_partD:
  assumes "fleet_part a = fleet_part b"
  shows "ap_systems a = ap_systems b" "ap_refresh_status a = ap_refresh_status b" "ap_config_reload_error a = ap_config_reload_error b"
    "ap_eggpool a = ap_eggpool b" "ap_cron a = ap_cron b" "ap_cron_display_history a = ap_cron_display_history b"
    "ap_terminal_size a = ap_terminal_size b" "ap_system_view_mode a = ap_system_view_mode b"
    "ap_drives_expanded a = ap_drives_expanded b" "ap_network_expanded a = ap_network_expanded b"
    "ap_cron_expanded a = ap_cron_expanded b" "ap_selection_highlight_active a = ap_selection_highlight_active b"
  using assms by (simp_all add: fleet_part_def)

text \<open>What a frontend shows of a system and of the pane, and the cleaning of it.\<close>

definition clean_face where
  "clean_face = (\<lambda>(i, e, n, r, l, reason). (i, e\<lparr>en_host := clean (en_host e), en_name := map_option clean (en_name e)\<rparr>,
     map_option clean n, r, map_option clean_snapshot l, reason))"

definition clean_pane where
  "clean_pane = (\<lambda>(e, rest). (e\<lparr>ee_host := clean (ee_host e), ee_name := map_option clean (ee_name e)\<rparr>, rest))"

lemma adopted_faces:
  "system_face (system_from_dto now w (clean_system_dto d)) = clean_face (dto_face d)"
  "eggpool_face (eggpool_from_dto now w (clean_eggpool_dto p)) = clean_pane (eggpool_dto_face p)"
  by (simp_all add: system_face_def dto_face_def clean_face_def system_from_dto_def clean_system_dto_def
      eggpool_face_def eggpool_dto_face_def clean_pane_def eggpool_from_dto_def clean_eggpool_dto_def)

lemma adopted_shows:
  fixes now w :: nat and ap :: AppState
  assumes "document_face doc = fleet_face f"
  defines "ap' \<equiv> snd (adopt_snapshot_inner doc now w ap)"
  shows "map system_face (ap_systems ap') = map (clean_face \<circ> system_face) (fl_systems f)"
    "map_option eggpool_face (ap_eggpool ap') = map_option (clean_pane \<circ> eggpool_face) (fl_eggpool f)"
    "ap_refresh_status ap' = fl_refresh_status f" "ap_cron_display_history ap' = fl_cron_display_history f"
    "ap_config_reload_error ap' = map_option clean (fl_config_reload_error f)"
proof -
  note part = fleet_partD [OF adopt_fleet_part [of doc now w ap], folded ap'_def]
  have d: "map dto_face (fs_systems doc) = map system_face (fl_systems f)"
    "map_option eggpool_dto_face (fs_eggpool doc) = map_option eggpool_face (fl_eggpool f)"
    "fs_refresh_status doc = fl_refresh_status f" "fs_cron_display_history doc = fl_cron_display_history f"
    "fs_config_reload_error doc = fl_config_reload_error f"
    using assms(1) by (simp_all add: document_face_def fleet_face_def)
  have "map system_face (ap_systems ap') = map clean_face (map dto_face (fs_systems doc))"
    by (simp add: part adopt_fleet_simps adopted_faces)
  then show "map system_face (ap_systems ap') = map (clean_face \<circ> system_face) (fl_systems f)" by (simp add: d(1))
  have "map_option eggpool_face (ap_eggpool ap') = map_option clean_pane (map_option eggpool_dto_face (fs_eggpool doc))"
    by (simp add: part adopt_fleet_def Let_def option.map_comp comp_def adopted_faces)
  then show "map_option eggpool_face (ap_eggpool ap') = map_option (clean_pane \<circ> eggpool_face) (fl_eggpool f)"
    by (simp add: d(2) option.map_comp)
  show "ap_refresh_status ap' = fl_refresh_status f" "ap_cron_display_history ap' = fl_cron_display_history f"
    "ap_config_reload_error ap' = map_option clean (fl_config_reload_error f)"
    using d(3-5) by (simp_all add: part adopt_fleet_def Let_def)
qed

section \<open>Documents without a redraw\<close>

text \<open>What the pane and a scheduler entry show.\<close>

definition shown_pane where
  "shown_pane e = (es_endpoint e, es_period e, es_worker_state e, es_summary e, es_last_error e, es_health e, es_last_health_error e)"

definition shown_cron :: "SystemCronDto \<Rightarrow> SystemCronDto" where
  "shown_cron c = c\<lparr>cd_last_attempt_at_unix_ms := None, cd_last_success_at_unix_ms := None\<rparr>"

definition shown_state where
  "shown_state ap = (map system_face (ap_systems ap), map_option shown_pane (ap_eggpool ap), map shown_cron (ap_cron ap),
     ap_refresh_status ap, ap_config_reload_error ap, ap_cron_display_history ap, ap_selected_id ap, ap_viewport_top_id ap,
     ap_active_pane ap,
     (ap_terminal_size ap, ap_system_view_mode ap, ap_drives_expanded ap, ap_network_expanded ap, ap_cron_expanded ap,
      ap_selection_highlight_active ap))"

lemma opt_eq_by_D: "opt_eq_by eq a b \<Longrightarrow> (\<And>x y. eq x y \<Longrightarrow> x = y) \<Longrightarrow> a = b"
  by (auto simp: opt_eq_by_def split: option.splits)

lemma summary_doc_eqD: "summary_doc_eq a b \<Longrightarrow> a = b"
  by (cases a; cases b) (auto simp: summary_doc_eq_def dest: jobs_eqD)

lemma systems_not_differ:
  assumes "\<not> systems_visibly_differ old (map clean_system_dto ds)"
  shows "map system_face (map (system_from_dto now w) (map clean_system_dto ds)) = map system_face old"
proof (rule nth_equalityI)
  let ?new = "map clean_system_dto ds"
  have l: "length old = length ?new" using assms by (simp add: systems_visibly_differ_def)
  then show "length (map system_face (map (system_from_dto now w) ?new)) = length (map system_face old)" by simp
  fix i assume "i < length (map system_face (map (system_from_dto now w) ?new))"
  then have i: "i < length ?new" by simp
  then have "(old ! i, ?new ! i) \<in> set (zip old ?new)" using l by (auto simp: set_zip)
  then have "\<not> (sy_id (old ! i) \<noteq> sd_id (?new ! i) \<or> sy_endpoint (old ! i) \<noteq> sd_endpoint (?new ! i) \<or>
      sy_configured_name (old ! i) \<noteq> sd_configured_name (?new ! i) \<or> sy_reachability (old ! i) \<noteq> sd_reachability (?new ! i) \<or>
      \<not> opt_eq_by normalized_eq (sy_latest (old ! i)) (sd_latest (?new ! i)) \<or> sy_offline_reason (old ! i) \<noteq> sd_offline_reason (?new ! i))"
    using assms by (auto simp: systems_visibly_differ_def list_ex_iff)
  then have "system_face (old ! i) = dto_face (?new ! i)"
    by (auto simp: system_face_def dto_face_def dest: opt_eq_by_D [OF _ normalized_eqD])
  moreover have "system_face (system_from_dto now w d) = dto_face d" for d
    by (simp add: system_face_def dto_face_def system_from_dto_def)
  ultimately show "map system_face (map (system_from_dto now w) ?new) ! i = map system_face old ! i" using i l by simp
qed

lemma cron_not_differ:
  assumes "\<not> cron_visibly_differ old new"
  shows "map shown_cron new = map shown_cron old"
proof (rule nth_equalityI)
  have l: "length old = length new" using assms by (simp add: cron_visibly_differ_def split: if_splits)
  then show "length (map shown_cron new) = length (map shown_cron old)" by simp
  fix i assume "i < length (map shown_cron new)"
  then have i: "i < length new" by simp
  then have "(old ! i, new ! i) \<in> set (zip old new)" using l by (auto simp: set_zip)
  then have "\<not> (cd_system_id (old ! i) \<noteq> cd_system_id (new ! i) \<or> cd_capability (old ! i) \<noteq> cd_capability (new ! i) \<or>
        \<not> opt_eq_by summary_doc_eq (cd_summary (old ! i)) (cd_summary (new ! i)) \<or> cd_epoch (old ! i) \<noteq> cd_epoch (new ! i) \<or>
        cd_history_revision (old ! i) \<noteq> cd_history_revision (new ! i) \<or> cd_last_fetch_error (old ! i) \<noteq> cd_last_fetch_error (new ! i) \<or>
        cd_history (old ! i) \<noteq> cd_history (new ! i))"
    using assms l by (auto simp: cron_visibly_differ_def list_ex_iff)
  then have "shown_cron (old ! i) = shown_cron (new ! i)"
    by (auto simp: shown_cron_def dest: opt_eq_by_D [OF _ summary_doc_eqD] intro!: SystemCronDto.equality)
  then show "map shown_cron new ! i = map shown_cron old ! i" using i l by simp
qed

lemma eggpool_not_differ:
  assumes "\<not> eggpool_visibly_differ old d now w"
  shows "map_option shown_pane (map_option (eggpool_from_dto now w) d) = map_option shown_pane old"
  using assms
  by (auto simp: eggpool_visibly_differ_def Let_def shown_pane_def eggpool_from_dto_def
      dest!: opt_eq_by_D [OF _ summary_eqD] opt_eq_by_D [OF _ health_eqD] split: option.splits)

lemma cron_for_shown: "map_option shown_cron (find (\<lambda>e. cd_system_id e = i) cs) = find (\<lambda>e. cd_system_id e = i) (map shown_cron cs)"
  by (induction cs) (simp_all add: shown_cron_def)

lemma cron_job_names_shown:
  assumes "map shown_cron (ap_cron a) = map shown_cron (ap_cron b)" "ap_selected_id a = ap_selected_id b"
  shows "cron_job_names a = cron_job_names b"
proof -
  have "map_option shown_cron (selected_cron a) = map_option shown_cron (selected_cron b)"
    using assms by (simp add: selected_cron_def cron_for_def cron_for_shown split: option.split)
  then have "map_option cd_summary (selected_cron a) = map_option cd_summary (selected_cron b)"
    by (cases "selected_cron a"; cases "selected_cron b") (auto simp: shown_cron_def dest: arg_cong [of _ _ cd_summary])
  then show ?thesis by (cases "selected_cron a"; cases "selected_cron b") (simp_all add: cron_job_names_def)
qed

lemma selected_cron_job_shown:
  assumes "map shown_cron (ap_cron a) = map shown_cron (ap_cron b)" "ap_selected_id a = ap_selected_id b"
    and "ap_cron_job a = ap_cron_job b \<or> ap_cron_job a = selected_cron_job b"
  shows "selected_cron_job a = selected_cron_job b"
  using assms(3) cron_job_names_shown [OF assms(1,2)]
  by (auto simp: selected_cron_job_def Let_def split: list.split option.splits if_splits)



section \<open>Examples\<close>

text \<open>Two live hosts, the first one selected.\<close>

definition example_frontend :: AppState where
  "example_frontend = app_blank\<lparr>ap_systems := map (system_from_dto 0 0) [example_dto [97] Online, example_dto [98] Online],
     ap_last_snapshot_generation := 1, ap_selected_id := Some [97], ap_viewport_top_id := Some [97], ap_saw_reachability := True\<rparr>"

definition example_failure :: FrontendSnapshot where
  "example_failure = (snapshot_empty [example_dto [97] Offline, example_dto [98] Online])\<lparr>fs_generation := 2, fs_poll_initialized := True\<rparr>"

lemma clean_letters: "clean [97] = [97]" "clean [98] = [98]"
  by (simp_all add: clean_def sanitize_unchanged kept_def shown_as_is_ascii u64_max_def)

theorem failed_selection_replaced_witness:
  "ap_selected_id (snd (adopt_snapshot example_failure 0 0 example_frontend)) = Some [98]"
proof -
  let ?pl = "\<lparr>sp_id = [97], sp_reachability = Online, sp_position = 0, sp_host = [97], sp_port = 11310\<rparr>"
  let ?ap = "snd (adopt_snapshot example_failure 0 0 example_frontend)"
  have order: "display_order example_frontend = [0, 1]"
    by (simp add: display_order_def display_order_of_def example_frontend_def system_from_dto_def example_dto_def)
  have ap: "ap_selected_id example_frontend = Some [97]"
    "ap_systems example_frontend = [system_from_dto 0 0 (example_dto [97] Online), system_from_dto 0 0 (example_dto [98] Online)]"
    by (simp_all add: example_frontend_def)
  have pl: "selection_state example_frontend = Some ?pl"
    by (simp add: selection_state_def placement_of_def order order_position_def ap) (simp add: system_from_dto_def example_dto_def)
  have newer: "is_newer_than example_failure (ap_last_snapshot_generation example_frontend)"
    by (simp add: is_newer_than_def example_failure_def snapshot_empty_def example_frontend_def)
  have sys: "ap_systems ?ap = [system_from_dto 0 0 (example_dto [97] Offline), system_from_dto 0 0 (example_dto [98] Online)]"
    using newer by (simp add: adopt_snapshot_def adopt_systems)
      (simp add: example_failure_def snapshot_empty_def clean_system_dto_def example_dto_def clean_letters)
  have d: "example_dto [97] Offline \<in> set (fs_systems example_failure)" by (simp add: example_failure_def snapshot_empty_def)
  have "ap_selected_id ?ap = Some (sy_id (ap_systems ?ap ! (display_order ?ap ! replacement_position (ap_systems ?ap) (sp_position ?pl))))"
  proof (rule failed_selection_replaced [OF newer _ _ _ pl _ d, THEN conjunct1])
    show "equivalent_endpoint_host (clean (en_host (sd_endpoint (example_dto [97] Offline)))) (sp_host ?pl)"
      by (simp add: example_dto_def clean_letters equivalent_endpoint_host_def eq_ignore_ascii_case_def split: result.splits)
  qed (simp_all add: example_frontend_def example_failure_def snapshot_empty_def example_dto_def)
  then show ?thesis
    by (simp add: sys replacement_position_def online_count_def display_order_def display_order_of_def)
qed


text \<open>A codec of one document.\<close>

definition example_once :: "FrontendFrame codec" where
  "example_once = (let doc = FF_Snapshot (to_dto_for 0 0 1 cron_intents_default (from_config example_pool)) in
     \<lparr>jc_encode = \<lambda>f. if f = doc then Ok [] else Err (ustr ''other''), jc_decode = \<lambda>_. Ok doc\<rparr>)"


end
