(* ===== verification/Frontend_Loop.thy ===== *)
theory Frontend_Loop
  imports Frontend_Adopt
begin

text \<open>
  The event loop of a frontend (\<open>crates/gregg/src/main.rs\<close>): keys and their actions
  (\<open>crates/gregg/src/event.rs\<close>), dispatching an action, adopting a document, and the requests both send
  to the client daemon through the bounded channel of \<open>crates/gregg/src/clientd/frontend.rs\<close>.

  A turn of the loop is a function of what the \<open>select!\<close> chose and of the clocks; a drain of the channel by
  the reading side is a turn of its own. Drawing, the terminal and the start and end of the process are not
  modelled.

  The lemmas show what stays true of every frontend over a run, that the daemon is told what the operator
  opened, and that a highlight always expires.
\<close>

section \<open>Keys\<close>

datatype Key = KeyChar uchar | KeyEnter | KeyEsc | KeyTab | KeyBackspace | KeyDelete | KeyUp | KeyDown | KeyLeft | KeyRight
  | KeyHome | KeyEnd | KeyPageUp | KeyPageDown

record KeyEvent =
  ke_key :: Key
  ke_ctrl :: bool
  ke_alt :: bool
  ke_shift :: bool

datatype SignalKind = Hangup | WindowChange | Terminate

datatype Event = KeyInput KeyEvent | ResizeEvent nat nat | SignalEvent SignalKind | BatchReceived PollBatch | ConfigChanged

definition is_char :: "KeyEvent \<Rightarrow> char \<Rightarrow> bool" where
  "is_char e c \<longleftrightarrow> ke_key e = KeyChar (of_char c)"

definition key_to_action :: "KeyEvent \<Rightarrow> Action option" where
  "key_to_action e =
     (if ke_ctrl e then
        (if ke_alt e then None
         else if is_char e CHR ''c'' then Some Quit
         else if is_char e CHR ''r'' then Some RefreshNow
         else if is_char e CHR ''u'' then Some PageUp
         else if is_char e CHR ''d'' then Some PageDown
         else None)
      else if ke_alt e then None
      else if (is_char e CHR ''j'' \<or> ke_key e = KeyDown) \<and> \<not> ke_shift e then Some MoveDown
      else if (is_char e CHR ''k'' \<or> ke_key e = KeyUp) \<and> \<not> ke_shift e then Some MoveUp
      else if (is_char e CHR ''h'' \<or> ke_key e = KeyLeft) \<and> \<not> ke_shift e then Some PreviousPane
      else if (is_char e CHR ''l'' \<or> ke_key e = KeyRight) \<and> \<not> ke_shift e then Some NextPane
      else if is_char e CHR ''v'' \<and> \<not> ke_shift e then Some ToggleSystemView
      else if is_char e CHR ''d'' \<and> \<not> ke_shift e then Some ToggleDrives
      else if is_char e CHR ''n'' \<and> \<not> ke_shift e then Some ToggleNetwork
      else if is_char e CHR ''c'' \<and> \<not> ke_shift e then Some ToggleCron
      else if is_char e CHR ''g'' \<and> \<not> ke_shift e then Some SelectFirst
      else if is_char e CHR ''G'' then Some SelectLast
      else if is_char e CHR ''J'' then Some CronJobNext
      else if is_char e CHR ''K'' then Some CronJobPrevious
      else if (ke_key e = KeyPageDown \<or> is_char e CHR ''f'') \<and> \<not> ke_ctrl e then Some PageDown
      else if (ke_key e = KeyPageUp \<or> is_char e CHR ''b'') \<and> \<not> ke_ctrl e then Some PageUp
      else if is_char e CHR ''q'' \<or> ke_key e = KeyEsc then Some Quit
      else None)"

definition translate_event :: "Event \<Rightarrow> Action option" where
  "translate_event event =
     (case event of
        KeyInput key_event \<Rightarrow> key_to_action key_event
      | ResizeEvent width height \<Rightarrow> Some (Resize width height)
      | SignalEvent kind \<Rightarrow> (if kind = Terminate then Some Quit else None)
      | BatchReceived _ \<Rightarrow> None
      | ConfigChanged \<Rightarrow> None)"

section \<open>Requests\<close>

definition REQUEST_CHANNEL_CAPACITY :: nat where "REQUEST_CHANNEL_CAPACITY = 8"

record EggpoolIntentRequest =
  ir_active :: bool
  ir_period :: EggpoolPeriod
  ir_refresh :: bool

record CronIntentRequest =
  cr_system_id :: "rstr option"
  cr_job :: "rstr option"
  cr_display_history :: nat

text \<open>
  The variables of the loop. \<open>lo_sent\<close> is everything the channel accepted, oldest first, and
  \<open>lo_queued\<close> how many of these the reading side has not taken yet.
\<close>

record FrontLoop =
  lo_app :: AppState
  lo_sent :: "DaemonRequest list"
  lo_queued :: nat
  lo_generation :: nat
  lo_last_intent :: "EggpoolIntentRequest option"
  lo_last_cron_intent :: "CronIntentRequest option"
  lo_highlight_deadline :: "nat option"

definition try_send :: "DaemonRequest \<Rightarrow> FrontLoop \<Rightarrow> (unit, FrontError) result \<times> FrontLoop" where
  "try_send r lo =
     (if REQUEST_CHANNEL_CAPACITY \<le> lo_queued lo then (Err FE_ChannelFull, lo)
      else (Ok (), lo\<lparr>lo_sent := lo_sent lo @ [r], lo_queued := Suc (lo_queued lo)\<rparr>))"

definition request_reload :: "nat \<Rightarrow> FrontLoop \<Rightarrow> (unit, FrontError) result \<times> FrontLoop" where
  "request_reload generation lo = try_send (DR_ReloadConfig generation) lo"

definition request_eggpool_intent :: "EggpoolIntentRequest \<Rightarrow> nat \<Rightarrow> FrontLoop \<Rightarrow> (unit, FrontError) result \<times> FrontLoop" where
  "request_eggpool_intent intent generation lo =
     try_send (DR_SetEggpoolIntent (ir_active intent) (ir_period intent) (ir_refresh intent) generation) lo"

definition request_cron_intent :: "CronIntentRequest \<Rightarrow> nat \<Rightarrow> FrontLoop \<Rightarrow> (unit, FrontError) result \<times> FrontLoop" where
  "request_cron_intent intent generation lo =
     try_send (DR_SetCronIntent (cr_system_id intent) (cr_job intent) (cr_display_history intent) generation) lo"

definition next_generation :: "FrontLoop \<Rightarrow> FrontLoop" where
  "next_generation lo = lo\<lparr>lo_generation := sat_add64 (lo_generation lo) 1\<rparr>"

text \<open>The intent that \<open>forward_cron_intent\<close> builds from what is open.\<close>

definition cron_intent_of :: "AppState \<Rightarrow> CronIntentRequest" where
  "cron_intent_of ap =
     (if ap_cron_expanded ap
      then (case (ap_selected_id ap, selected_cron_job ap) of
              (Some system_id, Some job) \<Rightarrow>
                \<lparr>cr_system_id = Some system_id, cr_job = Some job, cr_display_history = ap_cron_display_history ap\<rparr>
            | _ \<Rightarrow> \<lparr>cr_system_id = None, cr_job = None, cr_display_history = 0\<rparr>)
      else \<lparr>cr_system_id = None, cr_job = None, cr_display_history = 0\<rparr>)"

definition forward_cron_intent :: "FrontLoop \<Rightarrow> FrontLoop" where
  "forward_cron_intent lo =
     (let intent = cron_intent_of (lo_app lo) in
      if lo_last_cron_intent lo = Some intent then lo
      else
        let lo = next_generation lo in
        case request_cron_intent intent (lo_generation lo) lo of
          (Ok _, lo) \<Rightarrow> lo\<lparr>lo_last_cron_intent := Some intent\<rparr>
        | (Err _, lo) \<Rightarrow> lo)"

definition offer_eggpool_intent :: "EggpoolIntentRequest \<Rightarrow> FrontLoop \<Rightarrow> FrontLoop" where
  "offer_eggpool_intent intent lo =
     (let lo = next_generation lo in
      case request_eggpool_intent intent (lo_generation lo) lo of
        (Ok _, lo) \<Rightarrow> lo\<lparr>lo_last_intent := Some intent\<rparr>
      | (Err _, lo) \<Rightarrow> lo)"

section \<open>Actions and documents\<close>

definition dispatch_action :: "Action \<Rightarrow> FrontLoop \<Rightarrow> bool \<times> FrontLoop" where
  "dispatch_action action lo =
     (let before_pane = ap_active_pane (lo_app lo);
          before_period = map_option es_period (ap_eggpool (lo_app lo));
          is_refresh = action = RefreshNow;
          (changed, ap) = apply_action_changed action (lo_app lo);
          lo = lo\<lparr>lo_app := ap\<rparr>
      in if is_refresh \<and> ap_active_pane ap \<noteq> PaneEggpool
         then
           let lo = next_generation lo; lo = snd (request_reload (lo_generation lo) lo)
           in (changed, forward_cron_intent lo)
         else
           let lo = forward_cron_intent lo in
           case ap_eggpool ap of
             None \<Rightarrow> (changed, lo)
           | Some eggpool \<Rightarrow>
               let active = ap_active_pane ap = PaneEggpool;
                   period = (case ap_eggpool_period_request ap of Some p \<Rightarrow> p | None \<Rightarrow> es_period eggpool);
                   period_moved = before_period \<noteq> Some period;
                   pane_moved = before_pane \<noteq> ap_active_pane ap;
                   intent = \<lparr>ir_active = active, ir_period = period, ir_refresh = is_refresh\<rparr>
               in if \<not> is_refresh \<and> \<not> pane_moved \<and> \<not> period_moved \<and> lo_last_intent lo = Some intent
                  then (changed, lo)
                  else (changed, offer_eggpool_intent intent lo))"

definition retry_pending_eggpool_intent :: "FrontLoop \<Rightarrow> FrontLoop" where
  "retry_pending_eggpool_intent lo =
     (let ap = lo_app lo in
      case ap_eggpool_period_request ap of
        None \<Rightarrow> lo
      | Some period \<Rightarrow>
          if (case ap_eggpool ap of None \<Rightarrow> True | Some eggpool \<Rightarrow> es_period eggpool = period) then lo
          else
            let intent = \<lparr>ir_active = (ap_active_pane ap = PaneEggpool), ir_period = period, ir_refresh = False\<rparr>
            in if lo_last_intent lo = Some intent then lo else offer_eggpool_intent intent lo)"

definition apply_document :: "FrontendSnapshot \<Rightarrow> nat \<Rightarrow> nat \<Rightarrow> FrontLoop \<Rightarrow> bool \<times> FrontLoop" where
  "apply_document doc now now_unix_ms lo =
     (let (dirty, ap) = adopt_snapshot doc now now_unix_ms (lo_app lo)
      in (dirty, retry_pending_eggpool_intent (lo\<lparr>lo_app := ap\<rparr>)))"

section \<open>The loop\<close>

definition SELECTION_HIGHLIGHT_DURATION :: nat where "SELECTION_HIGHLIGHT_DURATION = 10 * 10 ^ 9"

definition selection_changing_systems_action :: "Action \<Rightarrow> Pane \<Rightarrow> bool" where
  "selection_changing_systems_action action pane \<longleftrightarrow>
     pane = PaneSystems \<and> action \<in> {MoveDown, MoveUp, PageDown, PageUp, SelectFirst, SelectLast}"

datatype FrontendExit = ExitDaemonStopped | ExitVersion nat nat | ExitProtocol rstr | ExitTransport FrontError

datatype loop_wake =
    WakeCancelled
  | WakeEvent "Event option"
  | WakeFrame "(FrontendFrame, FrontError) result"
  | WakeHighlight
  | WakeDrained nat

datatype turn_result = Drawn bool | LeftLoop | FailedLoop FrontendExit

text \<open>A turn: what woke the loop, the reading of the monotonic clock, and of the wall clock.\<close>

definition loop_turn :: "loop_wake \<Rightarrow> nat \<Rightarrow> nat \<Rightarrow> FrontLoop \<Rightarrow> turn_result \<times> FrontLoop" where
  "loop_turn wake now now_unix_ms lo =
     (case wake of
        WakeCancelled \<Rightarrow> (LeftLoop, lo)
      | WakeEvent None \<Rightarrow> (LeftLoop, lo)
      | WakeEvent (Some event) \<Rightarrow>
          (case translate_event event of
             None \<Rightarrow> (Drawn False, lo)
           | Some action \<Rightarrow>
               if action = Quit then (LeftLoop, lo\<lparr>lo_app := apply_action Quit (lo_app lo)\<rparr>)
               else
                 let before_pane = ap_active_pane (lo_app lo);
                     before_highlight = ap_selection_highlight_active (lo_app lo);
                     resets_highlight = selection_changing_systems_action action before_pane;
                     (dirty, lo) = dispatch_action action (next_generation lo)
                 in (Drawn dirty,
                     if resets_highlight then lo\<lparr>lo_highlight_deadline := Some (now + SELECTION_HIGHLIGHT_DURATION)\<rparr>
                     else if \<not> ap_selection_highlight_active (lo_app lo) \<and> before_highlight
                     then lo\<lparr>lo_highlight_deadline := None\<rparr> else lo))
      | WakeFrame (Err e) \<Rightarrow> (FailedLoop (ExitTransport e), lo)
      | WakeFrame (Ok frame) \<Rightarrow>
          (case frame of
             FF_Snapshot doc \<Rightarrow> (case apply_document doc now now_unix_ms lo of (dirty, lo) \<Rightarrow> (Drawn dirty, lo))
           | FF_Hello _ \<Rightarrow> (Drawn False, lo)
           | FF_ControlAck _ _ _ \<Rightarrow> (Drawn False, lo)
           | FF_ShuttingDown \<Rightarrow> (FailedLoop ExitDaemonStopped, lo)
           | FF_VersionMismatch payload \<Rightarrow> (FailedLoop (ExitVersion (vm_daemon payload) (vm_frontend payload)), lo)
           | FF_ProtocolError message \<Rightarrow> (FailedLoop (ExitProtocol message), lo))
      | WakeHighlight \<Rightarrow>
          if lo_highlight_deadline lo = None then (Drawn False, lo)
          else
            (case apply_action_changed ClearSelectionHighlight (lo_app lo) of
               (dirty, ap) \<Rightarrow> (Drawn dirty, lo\<lparr>lo_app := ap, lo_highlight_deadline := None\<rparr>))
      | WakeDrained k \<Rightarrow> (Drawn False, lo\<lparr>lo_queued := lo_queued lo - k\<rparr>))"

definition loop_start :: "(nat \<times> nat) option \<Rightarrow> FrontLoop" where
  "loop_start dims =
     \<lparr>lo_app = (case dims of None \<Rightarrow> app_blank | Some (w, h) \<Rightarrow> apply_action (Resize w h) app_blank),
      lo_sent = [], lo_queued = 0, lo_generation = 0, lo_last_intent = None, lo_last_cron_intent = None,
      lo_highlight_deadline = None\<rparr>"

text \<open>The turns that go on.\<close>

fun loop_run :: "(loop_wake \<times> nat \<times> nat) list \<Rightarrow> FrontLoop \<Rightarrow> FrontLoop" where
  "loop_run [] lo = lo"
| "loop_run ((wake, now, w) # turns) lo =
     (case loop_turn wake now w lo of (Drawn _, lo) \<Rightarrow> loop_run turns lo | (_, lo) \<Rightarrow> lo)"

section \<open>What the daemon was told\<close>

definition cron_told :: "DaemonRequest list \<Rightarrow> CronIntentRequest option" where
  "cron_told sent = fold (\<lambda>r told. case r of
     DR_SetCronIntent i j d g \<Rightarrow> Some \<lparr>cr_system_id = i, cr_job = j, cr_display_history = d\<rparr> | _ \<Rightarrow> told) sent None"

definition eggpool_told :: "DaemonRequest list \<Rightarrow> EggpoolIntentRequest option" where
  "eggpool_told sent = fold (\<lambda>r told. case r of
     DR_SetEggpoolIntent a p f g \<Rightarrow> Some \<lparr>ir_active = a, ir_period = p, ir_refresh = f\<rparr> | _ \<Rightarrow> told) sent None"

lemma told_snoc [simp]:
  "cron_told (sent @ [DR_SetCronIntent i j d g]) = Some \<lparr>cr_system_id = i, cr_job = j, cr_display_history = d\<rparr>"
  "cron_told (sent @ [DR_SetEggpoolIntent a p f g]) = cron_told sent"
  "cron_told (sent @ [DR_ReloadConfig g]) = cron_told sent"
  "eggpool_told (sent @ [DR_SetCronIntent i j d g]) = eggpool_told sent"
  "eggpool_told (sent @ [DR_SetEggpoolIntent a p f g]) = Some \<lparr>ir_active = a, ir_period = p, ir_refresh = f\<rparr>"
  "eggpool_told (sent @ [DR_ReloadConfig g]) = eggpool_told sent"
  by (simp_all add: cron_told_def eggpool_told_def)

text \<open>The memories of the loop are what the daemon was told.\<close>

definition told_ok :: "FrontLoop \<Rightarrow> bool" where
  "told_ok lo \<longleftrightarrow> cron_told (lo_sent lo) = lo_last_cron_intent lo \<and> eggpool_told (lo_sent lo) = lo_last_intent lo"

lemma request_facts:
  "told_ok lo \<Longrightarrow> told_ok (forward_cron_intent lo)"
  "lo_app (forward_cron_intent lo) = lo_app lo"
  "lo_highlight_deadline (forward_cron_intent lo) = lo_highlight_deadline lo"
  "lo_last_intent (forward_cron_intent lo) = lo_last_intent lo"
  "lo_queued (forward_cron_intent lo) \<le> Suc (lo_queued lo)"
  "lo_queued lo < REQUEST_CHANNEL_CAPACITY \<Longrightarrow> lo_last_cron_intent (forward_cron_intent lo) = Some (cron_intent_of (lo_app lo))"
  by (auto simp: forward_cron_intent_def next_generation_def request_cron_intent_def try_send_def told_ok_def Let_def)

lemma offer_facts:
  "told_ok lo \<Longrightarrow> told_ok (offer_eggpool_intent intent lo)"
  "lo_app (offer_eggpool_intent intent lo) = lo_app lo"
  "lo_highlight_deadline (offer_eggpool_intent intent lo) = lo_highlight_deadline lo"
  "lo_last_cron_intent (offer_eggpool_intent intent lo) = lo_last_cron_intent lo"
  "lo_queued lo < REQUEST_CHANNEL_CAPACITY \<Longrightarrow> lo_last_intent (offer_eggpool_intent intent lo) = Some intent"
  by (auto simp: offer_eggpool_intent_def next_generation_def request_eggpool_intent_def try_send_def told_ok_def Let_def)

lemma reload_facts:
  "told_ok lo \<Longrightarrow> told_ok (snd (request_reload g lo))"
  "lo_app (snd (request_reload g lo)) = lo_app lo"
  "lo_highlight_deadline (snd (request_reload g lo)) = lo_highlight_deadline lo"
  "lo_queued (snd (request_reload g lo)) \<le> Suc (lo_queued lo)"
  by (auto simp: request_reload_def try_send_def told_ok_def)

lemma next_generation_simps [simp]:
  "lo_app (next_generation lo) = lo_app lo" "lo_highlight_deadline (next_generation lo) = lo_highlight_deadline lo"
  "lo_queued (next_generation lo) = lo_queued lo" "told_ok (next_generation lo) = told_ok lo"
  "lo_sent (next_generation lo) = lo_sent lo" "lo_last_intent (next_generation lo) = lo_last_intent lo"
  "lo_last_cron_intent (next_generation lo) = lo_last_cron_intent lo"
  by (simp_all add: next_generation_def told_ok_def)

lemma told_ok_app [simp]: "told_ok (lo\<lparr>lo_app := ap\<rparr>) = told_ok lo" "told_ok (lo\<lparr>lo_highlight_deadline := d\<rparr>) = told_ok lo"
  "told_ok (lo\<lparr>lo_queued := q\<rparr>) = told_ok lo"
  by (simp_all add: told_ok_def)

lemma dispatch_app:
  "lo_app (snd (dispatch_action action lo)) = snd (apply_action_changed action (lo_app lo))"
  "lo_highlight_deadline (snd (dispatch_action action lo)) = lo_highlight_deadline lo"
  "told_ok lo \<Longrightarrow> told_ok (snd (dispatch_action action lo))"
  by (auto simp: dispatch_action_def Let_def split_beta request_facts offer_facts reload_facts split: option.split)

lemma retry_facts:
  "lo_app (retry_pending_eggpool_intent lo) = lo_app lo"
  "lo_highlight_deadline (retry_pending_eggpool_intent lo) = lo_highlight_deadline lo"
  "told_ok lo \<Longrightarrow> told_ok (retry_pending_eggpool_intent lo)"
  by (auto simp: retry_pending_eggpool_intent_def Let_def offer_facts split: option.split)

lemma apply_document_app:
  "lo_app (snd (apply_document doc now w lo)) = snd (adopt_snapshot doc now w (lo_app lo))"
  "lo_highlight_deadline (snd (apply_document doc now w lo)) = lo_highlight_deadline lo"
  "told_ok lo \<Longrightarrow> told_ok (snd (apply_document doc now w lo))"
  by (auto simp: apply_document_def Let_def split_beta retry_facts)

lemma changed_app: "snd (apply_action_changed action ap) = apply_action_inner action ap"
  by (cases action) (simp_all add: apply_action_changed_def Let_def)

section \<open>The highlight\<close>

lemma ensure_highlight [simp]:
  "ap_selection_highlight_active (ensure_selected_visible ap) = ap_selection_highlight_active ap"
  "ap_active_pane (ensure_selected_visible ap) = ap_active_pane ap"
proof -
  obtain v where v: "ensure_selected_visible ap = ap\<lparr>ap_viewport_top_id := v\<rparr>"
    unfolding ensure_selected_visible_def by (rule ensure_frame)
  then show "ap_selection_highlight_active (ensure_selected_visible ap) = ap_selection_highlight_active ap"
    "ap_active_pane (ensure_selected_visible ap) = ap_active_pane ap" by simp_all
qed

lemma moved_highlight: "ap_selection_highlight_active (moved order ap)"
proof -
  obtain v where "ensure_selected_visible_with_order order (ap\<lparr>ap_selection_highlight_active := True\<rparr>) =
      ap\<lparr>ap_selection_highlight_active := True\<rparr>\<lparr>ap_viewport_top_id := v\<rparr>" by (rule ensure_frame)
  then show ?thesis by (simp add: moved_def)
qed

text \<open>An action that selects turns the highlight on, any other one leaves it or turns it off.\<close>

lemma action_highlight:
  "ap_selection_highlight_active (apply_action_inner action ap) \<longleftrightarrow>
     selection_changing_systems_action action (ap_active_pane ap) \<or>
     ap_selection_highlight_active ap \<and> ap_selection_highlight_active (apply_action_inner action ap)"
proof -
  have period: "ap_selection_highlight_active (snd (request_eggpool_period b ap)) = ap_selection_highlight_active ap" for b
    by (simp add: request_eggpool_period_def Let_def split: option.split)
  have cycle: "ap_selection_highlight_active (cycle_pane b ap) \<Longrightarrow> ap_selection_highlight_active ap" for b
    by (auto simp: cycle_pane_def Let_def split: if_splits)
  have step: "ap_selection_highlight_active (step_cron_job k ap) = ap_selection_highlight_active ap" for k
    by (simp add: step_cron_job_def Let_def)
  have pane: "ap_active_pane ap = PaneSystems \<or> ap_active_pane ap = PaneEggpool" by (cases "ap_active_pane ap") simp_all
  show ?thesis
    using pane cycle
    by (cases action) (auto simp: apply_action_inner_def Let_def moved_highlight period step repair_cron_selection_def
        selection_changing_systems_action_def)
qed

lemma adopt_highlight: "ap_selection_highlight_active (snd (adopt_snapshot doc now w ap)) = ap_selection_highlight_active ap"
  using fleet_partD(12) [OF adopt_fleet_part [of doc now w ap]]
  by (simp add: adopt_snapshot_def adopt_fleet_def Let_def)

section \<open>Every turn keeps the invariant\<close>

definition loop_ok :: "FrontLoop \<Rightarrow> bool" where
  "loop_ok lo \<longleftrightarrow> frontend_inv (lo_app lo) \<and> told_ok lo \<and>
     (ap_selection_highlight_active (lo_app lo) \<longleftrightarrow> lo_highlight_deadline lo \<noteq> None)"

definition wake_ok :: "loop_wake \<Rightarrow> bool" where
  "wake_ok wake = (case wake of WakeFrame (Ok (FF_Snapshot doc)) \<Rightarrow> distinct (map sd_id (fs_systems doc)) | _ \<Rightarrow> True)"

lemma event_turn_ok:
  assumes "loop_ok lo" "translate_event event = Some action"
  shows "loop_ok (snd (loop_turn (WakeEvent (Some event)) now w lo))"
proof (cases "action = Quit")
  case True
  then show ?thesis using assms by (simp add: loop_turn_def loop_ok_def apply_action_def changed_app apply_action_inner_def)
next
  case False
  obtain dirty lo' where d: "dispatch_action action (next_generation lo) = (dirty, lo')" by fastforce
  have lo': "lo_app lo' = apply_action_inner action (lo_app lo)" "lo_highlight_deadline lo' = lo_highlight_deadline lo" "told_ok lo'"
    using dispatch_app [where action = action and lo = "next_generation lo"] assms(1) by (simp_all add: d changed_app loop_ok_def)
  have inv: "frontend_inv (lo_app lo')" using action_inv assms(1) by (simp add: lo'(1) loop_ok_def)
  show ?thesis
    using assms False inv lo' action_highlight [of action "lo_app lo"]
    by (auto simp: loop_turn_def d Let_def loop_ok_def)
qed

lemma turn_ok:
  assumes "loop_ok lo" "wake_ok wake"
  shows "loop_ok (snd (loop_turn wake now w lo))"
proof (cases wake)
  case (WakeEvent event)
  show ?thesis
  proof (cases "event = None \<or> translate_event (the event) = None")
    case True
    then show ?thesis using assms WakeEvent by (auto simp: loop_turn_def split: option.split)
  next
    case False
    then show ?thesis using event_turn_ok [OF assms(1)] WakeEvent by auto
  qed
next
  case (WakeFrame r)
  show ?thesis
  proof (cases "\<exists>doc. r = Ok (FF_Snapshot doc)")
    case True
    then obtain doc where r: "r = Ok (FF_Snapshot doc)" by blast
    obtain dirty lo' where d: "apply_document doc now w lo = (dirty, lo')" by fastforce
    have "lo_app lo' = snd (adopt_snapshot doc now w (lo_app lo))" "lo_highlight_deadline lo' = lo_highlight_deadline lo" "told_ok lo'"
      using apply_document_app [where doc = doc and now = now and w = w and lo = lo] assms(1) by (simp_all add: d loop_ok_def)
    moreover have "distinct (map sd_id (fs_systems doc))" using assms(2) WakeFrame r by (simp add: wake_ok_def)
    ultimately show ?thesis
      using assms(1) adopt_inv by (simp add: WakeFrame r loop_turn_def d loop_ok_def adopt_highlight)
  next
    case False
    then show ?thesis using assms(1) WakeFrame by (auto simp: loop_turn_def split: result.split FrontendFrame.split)
  qed
next
  case WakeHighlight
  have "frontend_inv (apply_action_inner ClearSelectionHighlight (lo_app lo))" using action_inv assms(1) by (simp add: loop_ok_def)
  moreover have "\<not> ap_selection_highlight_active (apply_action_inner ClearSelectionHighlight (lo_app lo))"
    by (simp add: apply_action_inner_def Let_def)
  ultimately show ?thesis
    using assms(1) WakeHighlight changed_app [of ClearSelectionHighlight "lo_app lo"]
    by (auto simp: loop_turn_def loop_ok_def split_beta)
qed (use assms(1) in \<open>simp_all add: loop_turn_def loop_ok_def\<close>)

lemma run_ok: "loop_ok lo \<Longrightarrow> list_all (\<lambda>(wake, _, _). wake_ok wake) turns \<Longrightarrow> loop_ok (loop_run turns lo)"
proof (induction turns lo rule: loop_run.induct)
  case (2 wake now w turns lo)
  have t: "loop_ok (snd (loop_turn wake now w lo))" using turn_ok 2(2,3) by simp
  show ?case
  proof (cases "loop_turn wake now w lo")
    case (Pair r lo')
    then show ?thesis using 2(1)[of r lo'] 2(3) t by (cases r) auto
  qed
qed simp

lemma start_ok: "loop_ok (loop_start dims)"
proof -
  have "frontend_inv (apply_action (Resize a b) app_blank)" for a b
    using action_inv [OF blank_inv] by (simp add: apply_action_def changed_app)
  moreover have "\<not> ap_selection_highlight_active (apply_action (Resize a b) app_blank)" for a b
    by (simp add: apply_action_def changed_app apply_action_inner_def Let_def) (simp add: app_blank_def)
  ultimately show ?thesis
    using blank_inv by (auto simp: loop_ok_def loop_start_def told_ok_def cron_told_def eggpool_told_def app_blank_def split: option.split)
qed

section \<open>Properties\<close>

text \<open>
  C8. Whatever keys are pressed, whatever the screen is resized to and whatever documents with distinct
  system identifiers arrive, after every turn the selection and the viewport name systems of the fleet
  (none exactly when the fleet is empty), the selected system is on the screen unless its base block is
  higher than the screen, and a highlight is shown exactly while the timer that ends it is armed.
\<close>

theorem selection_stays_on_screen:
  fixes dims :: "(nat \<times> nat) option"
  assumes "list_all (\<lambda>(wake, _, _). wake_ok wake) turns"
  defines "lo \<equiv> loop_run turns (loop_start dims)"
  shows "names_in (lo_app lo) (ap_selected_id (lo_app lo)) \<and> names_in (lo_app lo) (ap_viewport_top_id (lo_app lo)) \<and>
    selected_shown (lo_app lo) \<and> (ap_selection_highlight_active (lo_app lo) \<longleftrightarrow> lo_highlight_deadline lo \<noteq> None)"
  using run_ok [OF start_ok assms(1), of dims] by (simp add: loop_ok_def frontend_inv_def ids_ok_def lo_def)

text \<open>A fleet of two arrives, then the operator moves down.\<close>

definition example_turns :: "(loop_wake \<times> nat \<times> nat) list" where
  "example_turns = [(WakeFrame (Ok (FF_Snapshot (snapshot_empty [example_dto [97] Online, example_dto [98] Online]))), 0, 0),
     (WakeEvent (Some (KeyInput \<lparr>ke_key = KeyDown, ke_ctrl = False, ke_alt = False, ke_shift = False\<rparr>)), 0, 0)]"

theorem selection_stays_on_screen_witness: "selected_shown (lo_app (loop_run example_turns (loop_start (Some (80, 24)))))"
proof -
  have "list_all (\<lambda>(wake, _, _). wake_ok wake) example_turns"
    by (simp add: example_turns_def wake_ok_def snapshot_empty_def) (simp add: example_dto_def)
  from selection_stays_on_screen [OF this, of "Some (80, 24)"] show ?thesis by simp
qed

text \<open>What the operator has open, as the daemon should know it.\<close>

definition eggpool_open :: "AppState \<Rightarrow> EggpoolState \<Rightarrow> bool \<Rightarrow> EggpoolIntentRequest" where
  "eggpool_open ap e refresh =
     \<lparr>ir_active = (ap_active_pane ap = PaneEggpool),
      ir_period = (case ap_eggpool_period_request ap of Some p \<Rightarrow> p | None \<Rightarrow> es_period e), ir_refresh = refresh\<rparr>"

text \<open>A channel that took nothing or has no room left: the requests of a turn may have been refused.\<close>

abbreviation filled :: "FrontLoop \<Rightarrow> bool" where
  "filled lo \<equiv> REQUEST_CHANNEL_CAPACITY \<le> lo_queued lo"

lemma forward_room:
  "lo_last_cron_intent (forward_cron_intent lo) = Some (cron_intent_of (lo_app lo)) \<or> filled lo"
  "lo_queued lo \<le> lo_queued (forward_cron_intent lo)"
  "\<exists>rest. lo_sent (forward_cron_intent lo) = lo_sent lo @ rest"
  by (auto simp: forward_cron_intent_def next_generation_def request_cron_intent_def try_send_def Let_def)

lemma offer_room:
  "lo_last_intent (offer_eggpool_intent intent lo) = Some intent \<or> filled lo"
  "lo_queued lo \<le> lo_queued (offer_eggpool_intent intent lo)"
  by (auto simp: offer_eggpool_intent_def next_generation_def request_eggpool_intent_def try_send_def Let_def)

lemma reload_room:
  "\<not> filled lo \<Longrightarrow> lo_sent (snd (request_reload g lo)) = lo_sent lo @ [DR_ReloadConfig g]"
  "lo_queued lo \<le> lo_queued (snd (request_reload g lo))"
  "lo_last_intent (snd (request_reload g lo)) = lo_last_intent lo"
  by (simp_all add: request_reload_def try_send_def)

lemma dispatch_told:
  fixes action :: Action
  assumes "told_ok lo"
  defines "lo' \<equiv> snd (dispatch_action action lo)"
  defines "room \<equiv> lo_queued lo + 2 \<le> REQUEST_CHANNEL_CAPACITY \<or> \<not> filled lo'"
  shows "room \<Longrightarrow> cron_told (lo_sent lo') = Some (cron_intent_of (lo_app lo'))"
    and "room \<Longrightarrow> ap_eggpool (lo_app lo') = Some e \<Longrightarrow> action \<noteq> RefreshNow \<or> ap_active_pane (lo_app lo') = PaneEggpool \<Longrightarrow>
      eggpool_told (lo_sent lo') = Some (eggpool_open (lo_app lo') e (action = RefreshNow))"
    and "action = RefreshNow \<Longrightarrow> ap_active_pane (lo_app lo') \<noteq> PaneEggpool \<Longrightarrow>
      eggpool_told (lo_sent lo') = eggpool_told (lo_sent lo) \<and>
      (\<not> filled lo \<longrightarrow> (\<exists>g rest. lo_sent lo' = lo_sent lo @ DR_ReloadConfig g # rest))"
proof -
  obtain changed ap where a: "apply_action_changed action (lo_app lo) = (changed, ap)" by fastforce
  define lo1 where "lo1 = lo\<lparr>lo_app := ap\<rparr>"
  define lo2 where "lo2 = snd (request_reload (lo_generation (next_generation lo1)) (next_generation lo1))"
  define fwd where "fwd = forward_cron_intent lo1"
  have l1: "told_ok lo1" "lo_app lo1 = ap" "lo_queued lo1 = lo_queued lo" "lo_sent lo1 = lo_sent lo"
    "lo_last_intent lo1 = lo_last_intent lo"
    using assms(1) by (simp_all add: lo1_def)
  note rf = reload_facts [where g = "lo_generation (next_generation lo1)" and lo = "next_generation lo1", folded lo2_def]
  note rr = reload_room [where g = "lo_generation (next_generation lo1)" and lo = "next_generation lo1", folded lo2_def]
  have l2: "told_ok lo2" "lo_app lo2 = ap" "lo_queued lo2 \<le> Suc (lo_queued lo)" "lo_last_intent lo2 = lo_last_intent lo"
    using rf rr l1 by simp_all
  have f: "lo_app fwd = ap" "lo_queued fwd \<le> Suc (lo_queued lo)"
    using request_facts(2,5) [of lo1] l1 by (simp_all add: fwd_def)
  have told: "told_ok lo'" unfolding lo'_def by (rule dispatch_app(3) [OF assms(1)])
  have app: "lo_app lo' = ap" unfolding lo'_def by (simp add: dispatch_app(1) a)
  have d: "lo' = (if action = RefreshNow \<and> ap_active_pane ap \<noteq> PaneEggpool then forward_cron_intent lo2
      else case ap_eggpool ap of None \<Rightarrow> fwd | Some e \<Rightarrow>
        if action \<noteq> RefreshNow \<and> ap_active_pane (lo_app lo) = ap_active_pane ap \<and>
          map_option es_period (ap_eggpool (lo_app lo)) = Some (ir_period (eggpool_open ap e False)) \<and>
          lo_last_intent fwd = Some (eggpool_open ap e (action = RefreshNow))
        then fwd else offer_eggpool_intent (eggpool_open ap e (action = RefreshNow)) fwd)"
    by (simp add: lo'_def dispatch_action_def Let_def a lo1_def [symmetric] lo2_def eggpool_open_def fwd_def split: option.split) blast
  show "cron_told (lo_sent lo') = Some (cron_intent_of (lo_app lo'))" if room
  proof (cases "action = RefreshNow \<and> ap_active_pane ap \<noteq> PaneEggpool")
    case True
    then have lo': "lo' = forward_cron_intent lo2" by (simp add: d)
    have "\<not> filled lo2" using \<open>room\<close> l2(3) forward_room(2) [of lo2] by (auto simp: room_def lo')
    with forward_room(1) [of lo2] l2(2) told app show ?thesis by (simp add: told_ok_def lo')
  next
    case False
    then have "lo_queued fwd \<le> lo_queued lo'" "lo_last_cron_intent lo' = lo_last_cron_intent fwd"
      by (auto simp: d offer_room(2) offer_facts(4) split: option.split)
    then have "\<not> filled lo1"
      using \<open>room\<close> forward_room(2) [of lo1] l1(3) by (auto simp: room_def fwd_def)
    with forward_room(1) [of lo1] l1(2) told app \<open>lo_last_cron_intent lo' = _\<close> show ?thesis
      by (simp add: told_ok_def fwd_def)
  qed
  show "eggpool_told (lo_sent lo') = Some (eggpool_open (lo_app lo') e (action = RefreshNow))"
    if "room" "ap_eggpool (lo_app lo') = Some e" "action \<noteq> RefreshNow \<or> ap_active_pane (lo_app lo') = PaneEggpool"
  proof -
    have e: "ap_eggpool ap = Some e" "\<not> (action = RefreshNow \<and> ap_active_pane ap \<noteq> PaneEggpool)" using that app by auto
    have "lo_last_intent lo' = Some (eggpool_open ap e (action = RefreshNow))"
    proof (rule disjE [OF offer_room(1) [of "eggpool_open ap e (action = RefreshNow)" fwd]])
      assume "filled fwd"
      then have "filled lo'" using offer_room(2) [of fwd] unfolding d by (simp add: e le_trans)
      with \<open>filled fwd\<close> f(2) \<open>room\<close> show ?thesis by (auto simp: room_def)
    qed (simp add: d e)
    then show ?thesis using told app by (simp add: told_ok_def)
  qed
  show "eggpool_told (lo_sent lo') = eggpool_told (lo_sent lo) \<and>
      (\<not> filled lo \<longrightarrow> (\<exists>g rest. lo_sent lo' = lo_sent lo @ DR_ReloadConfig g # rest))"
    if "action = RefreshNow" "ap_active_pane (lo_app lo') \<noteq> PaneEggpool"
  proof -
    have lo': "lo' = forward_cron_intent lo2" using that app by (simp add: d)
    have "lo_last_intent lo' = lo_last_intent lo" using l2(4) request_facts(4) by (simp add: lo')
    then have "eggpool_told (lo_sent lo') = eggpool_told (lo_sent lo)" using told assms(1) by (simp add: told_ok_def)
    moreover have "\<exists>g rest. lo_sent lo' = lo_sent lo @ DR_ReloadConfig g # rest" if "\<not> filled lo"
      using rr(1) l1(3,4) that forward_room(3) [of lo2] by (fastforce simp: lo')
    ultimately show ?thesis by blast
  qed
qed

lemma dispatch_queued: "lo_queued lo \<le> lo_queued (snd (dispatch_action action lo))"
proof -
  obtain changed ap where a: "apply_action_changed action (lo_app lo) = (changed, ap)" by fastforce
  let ?lo1 = "lo\<lparr>lo_app := ap\<rparr>"
  let ?lo2 = "snd (request_reload (lo_generation (next_generation ?lo1)) (next_generation ?lo1))"
  have "lo_queued lo \<le> lo_queued (forward_cron_intent ?lo2)"
    using forward_room(2) [of ?lo2] reload_room(2) [where lo = "next_generation ?lo1" and g = "lo_generation (next_generation ?lo1)"]
    by simp
  moreover have "lo_queued lo \<le> lo_queued (forward_cron_intent ?lo1)" using forward_room(2) [of ?lo1] by simp
  moreover have "lo_queued lo \<le> lo_queued (offer_eggpool_intent i (forward_cron_intent ?lo1))" for i
    using offer_room(2) [of "forward_cron_intent ?lo1" i] forward_room(2) [of ?lo1] by simp
  ultimately show ?thesis by (simp add: dispatch_action_def Let_def a split: option.split)
qed

text \<open>
  C12. After every key and every resize but the one that quits, the daemon has been told what the operator
  has open: the last scheduler intent the channel accepted is the job whose history the frontend shows, or
  that none is open, and the last EggPool intent names the pane's state, the window the operator asked for
  and whether a refresh was asked. The one action that does not touch the EggPool intent is Ctrl-R outside
  the EggPool pane: it sends a reload request instead, and the EggPool intent stays as it was last accepted.
  This holds whatever happened before, earlier refusals included, when the channel has room for two requests
  or is not full afterwards; a channel that fills up may have refused a request of this turn, and then the
  next key with room says it again.
\<close>

theorem operator_intent_announced:
  fixes dims :: "(nat \<times> nat) option" and now w :: nat
  assumes "list_all (\<lambda>(wake, _, _). wake_ok wake) turns" "translate_event event = Some action" "action \<noteq> Quit"
  defines "lo \<equiv> loop_run turns (loop_start dims)"
  defines "lo' \<equiv> snd (loop_turn (WakeEvent (Some event)) now w lo)"
  assumes "lo_queued lo + 2 \<le> REQUEST_CHANNEL_CAPACITY \<or> lo_queued lo' < REQUEST_CHANNEL_CAPACITY"
  shows "cron_told (lo_sent lo') = Some (cron_intent_of (lo_app lo')) \<and>
    (if action = RefreshNow \<and> ap_active_pane (lo_app lo') \<noteq> PaneEggpool
     then eggpool_told (lo_sent lo') = eggpool_told (lo_sent lo) \<and>
       (\<exists>g rest. lo_sent lo' = lo_sent lo @ DR_ReloadConfig g # rest)
     else case ap_eggpool (lo_app lo') of None \<Rightarrow> True
        | Some e \<Rightarrow> eggpool_told (lo_sent lo') = Some (eggpool_open (lo_app lo') e (action = RefreshNow)))"
proof -
  let ?lo = "snd (dispatch_action action (next_generation lo))"
  have "told_ok lo" using run_ok [OF start_ok assms(1), of dims] by (simp add: loop_ok_def lo_def)
  then have told: "told_ok (next_generation lo)" by simp
  have same: "lo_sent lo' = lo_sent ?lo" "lo_app lo' = lo_app ?lo" "lo_queued lo' = lo_queued ?lo"
    using assms(2,3) by (simp_all add: lo'_def loop_turn_def Let_def split_beta)
  have room: "lo_queued (next_generation lo) + 2 \<le> REQUEST_CHANNEL_CAPACITY \<or> \<not> filled ?lo"
    using assms(6) same(3) by auto
  have "\<not> filled lo" using room dispatch_queued [of "next_generation lo" action] by auto
  then show ?thesis
    unfolding same using dispatch_told(1) [OF told room] dispatch_told(2) [OF told room] dispatch_told(3) [OF told, of action]
    by (auto split: option.split)
qed

theorem operator_intent_announced_witness:
  "cron_told (lo_sent (snd (loop_turn (WakeEvent (Some (KeyInput \<lparr>ke_key = KeyDown, ke_ctrl = False, ke_alt = False, ke_shift = False\<rparr>)))
     0 0 (loop_start None)))) = Some \<lparr>cr_system_id = None, cr_job = None, cr_display_history = 0\<rparr>"
proof -
  let ?e = "KeyInput \<lparr>ke_key = KeyDown, ke_ctrl = False, ke_alt = False, ke_shift = False\<rparr>"
  have none: "list_all (\<lambda>(wake, _, _). wake_ok wake) []" by simp
  have down: "translate_event ?e = Some MoveDown" by (simp add: translate_event_def key_to_action_def)
  have room: "lo_queued (loop_run [] (loop_start None)) + 2 \<le> REQUEST_CHANNEL_CAPACITY \<or> r" for r
    by (simp add: loop_start_def REQUEST_CHANNEL_CAPACITY_def)
  have shut: "\<not> ap_cron_expanded (lo_app (snd (loop_turn (WakeEvent (Some ?e)) 0 0 (loop_start None))))"
  proof -
    have order: "display_order app_blank = []" by (simp add: display_order_Nil) (simp add: app_blank_def)
    have "apply_action_inner MoveDown app_blank = app_blank\<lparr>ap_selected_id := None, ap_selection_highlight_active := True\<rparr>"
      using order by (simp add: apply_action_inner_def Let_def moved_def move_selection_def ensure_selected_visible_with_order_def)
        (simp add: app_blank_def)
    then show ?thesis
      by (simp add: loop_turn_def down Let_def split_beta dispatch_app(1) changed_app) (simp add: loop_start_def app_blank_def)
  qed
  show ?thesis
    using operator_intent_announced [OF none down _ room, of 0 0] shut by (simp add: cron_intent_of_def)
qed

text \<open>The fields that \<open>apply_action_changed\<close> does not compare, but for the pending request.\<close>

definition uncompared where
  "uncompared ap = (ap_systems ap, ap_refresh_status ap, ap_config_reload_error ap, ap_eggpool ap, ap_cron ap,
     ap_cron_display_history ap, ap_last_snapshot_generation ap, ap_saw_reachability ap)"

lemma uncompared_ensure: "uncompared (ensure_selected_visible_with_order order ap) = uncompared ap"
proof -
  obtain v where "ensure_selected_visible_with_order order ap = ap\<lparr>ap_viewport_top_id := v\<rparr>" by (rule ensure_frame)
  then show ?thesis by (simp add: uncompared_def)
qed

lemma uncompared_stages [simp]:
  "uncompared (ensure_selected_visible ap) = uncompared ap" "uncompared (moved order ap) = uncompared ap"
  "uncompared (move_selection order k ap) = uncompared ap" "uncompared (cycle_pane b ap) = uncompared ap"
  "uncompared (step_cron_job k ap) = uncompared ap" "uncompared (snd (request_eggpool_period b ap)) = uncompared ap"
  "uncompared (repair_cron_selection ap) = uncompared ap"
  "uncompared (ap\<lparr>ap_selected_id := i\<rparr>) = uncompared ap" "uncompared (ap\<lparr>ap_terminal_size := d\<rparr>) = uncompared ap"
  "uncompared (ap\<lparr>ap_selection_highlight_active := h\<rparr>) = uncompared ap"
  "uncompared (ap\<lparr>ap_system_view_mode := m\<rparr>) = uncompared ap" "uncompared (ap\<lparr>ap_drives_expanded := h\<rparr>) = uncompared ap"
  "uncompared (ap\<lparr>ap_network_expanded := h\<rparr>) = uncompared ap" "uncompared (ap\<lparr>ap_cron_expanded := h\<rparr>) = uncompared ap"
proof -
  show "uncompared (ensure_selected_visible ap) = uncompared ap" by (simp add: ensure_selected_visible_def uncompared_ensure)
  show "uncompared (moved order ap) = uncompared ap" unfolding moved_def uncompared_ensure by (simp add: uncompared_def)
qed (simp_all add: uncompared_def move_selection_def cycle_pane_def step_cron_job_def request_eggpool_period_def
  repair_cron_selection_def Let_def split: option.split)

lemma action_uncompared: "uncompared (apply_action_inner action ap) = uncompared ap"
  by (cases action) (simp_all add: apply_action_inner_def Let_def)

text \<open>
  An action the reducer reports as no change changes nothing but a pending request for another EggPool
  window.
\<close>

theorem unreported_action_invisible:
  assumes "apply_action_changed action ap = (False, ap')"
  shows "ap' = ap\<lparr>ap_eggpool_period_request := ap_eggpool_period_request ap'\<rparr>"
proof -
  have ap': "ap' = apply_action_inner action ap" using changed_app [of action ap] assms by simp
  have rest: "uncompared ap' = uncompared ap" unfolding ap' by (rule action_uncompared)
  have "ap_selected_id ap' = ap_selected_id ap" "ap_viewport_top_id ap' = ap_viewport_top_id ap" "ap_active_pane ap' = ap_active_pane ap"
    "ap_system_view_mode ap' = ap_system_view_mode ap" "ap_drives_expanded ap' = ap_drives_expanded ap"
    "ap_network_expanded ap' = ap_network_expanded ap" "ap_cron_expanded ap' = ap_cron_expanded ap" "ap_cron_job ap' = ap_cron_job ap"
    "ap_selection_highlight_active ap' = ap_selection_highlight_active ap" "ap_terminal_size ap' = ap_terminal_size ap"
    using assms unfolding ap' by (cases action; simp add: apply_action_changed_def Let_def)+
  then show ?thesis using rest by (intro AppState.equality) (simp_all add: uncompared_def)
qed

theorem unreported_action_invisible_witness:
  "snd (apply_action_changed RefreshNow app_blank) = app_blank\<lparr>ap_eggpool_period_request := None\<rparr>"
proof -
  have e: "apply_action_changed RefreshNow app_blank = (False, app_blank)"
    by (simp add: apply_action_changed_def apply_action_inner_def Let_def)
  have r: "ap_eggpool_period_request app_blank = None" by (simp add: app_blank_def)
  show ?thesis unfolding e snd_conv by (rule unreported_action_invisible [OF e, unfolded r])
qed

section \<open>What documents do not announce\<close>

lemma adopt_request:
  assumes "ap_eggpool_period_request ap = None"
  shows "ap_eggpool_period_request (snd (adopt_snapshot doc now w ap)) = None"
proof -
  have ensure: "ap_eggpool_period_request (ensure_selected_visible b) = ap_eggpool_period_request b" for b
  proof -
    obtain v where "ensure_selected_visible b = b\<lparr>ap_viewport_top_id := v\<rparr>"
      unfolding ensure_selected_visible_def by (rule ensure_frame)
    then show ?thesis by simp
  qed
  have stages: "ap_eggpool_period_request (repair_ids f b) = ap_eggpool_period_request b"
    "ap_eggpool_period_request (repair_selection pl b) = ap_eggpool_period_request b"
    "ap_eggpool_period_request (repair_cron_selection b) = ap_eggpool_period_request b"
    "ap_eggpool_period_request (repair_viewport_anchor pl b) = ap_eggpool_period_request b"
    "ap_eggpool_period_request (place_first b) = ap_eggpool_period_request b" for f pl b
    by (simp_all add: repair_ids_def repair_selection_def repair_cron_selection_def repair_viewport_anchor_def place_first_def
        Let_def split: option.split list.split)
  have "ap_eggpool_period_request (fst (adopt_fleet doc now w ap)) = None" using assms by (simp add: adopt_fleet_def Let_def)
  then show ?thesis
    using assms by (simp add: adopt_snapshot_def adopt_snapshot_inner_def Let_def split_beta ensure stages)
qed

text \<open>
  Adopting a document announces nothing unless the operator waits for another EggPool window. So the pane
  that the first document of a configuration without systems opens is not announced, nor is the scheduler
  history that a document makes available, until a key is pressed.
\<close>

theorem documents_announce_nothing:
  assumes "ap_eggpool_period_request (lo_app lo) = None"
  shows "lo_sent (snd (apply_document doc now w lo)) = lo_sent lo"
  using adopt_request [OF assms]
  by (simp add: apply_document_def Let_def split_beta retry_pending_eggpool_intent_def)

theorem first_pane_not_announced:
  fixes now w :: nat
  assumes "fs_systems doc = []" "fs_eggpool doc = Some e"
  defines "lo \<equiv> snd (apply_document doc now w (loop_start None))"
  shows "ap_active_pane (lo_app lo) = PaneEggpool \<and> lo_sent lo = []"
proof -
  have sent: "lo_sent lo = []"
    unfolding lo_def by (subst documents_announce_nothing) (simp_all add: loop_start_def app_blank_def)
  have ids: "ap_active_pane (repair_ids True (fst (adopt_fleet doc now w app_blank))) = PaneEggpool"
    using assms(1,2) by (simp add: repair_ids_def Let_def adopt_fleet_def)
  have pane: "ap_active_pane (repair_selection pl b) = ap_active_pane b" "ap_active_pane (repair_cron_selection b) = ap_active_pane b"
    "ap_active_pane (repair_viewport_anchor pl b) = ap_active_pane b" "ap_active_pane (place_first b) = ap_active_pane b" for pl b
    by (simp_all add: repair_selection_def repair_cron_selection_def repair_viewport_anchor_def place_first_def Let_def
        split: option.split list.split)
  have blank: "ap_last_snapshot_generation app_blank = 0" by (simp add: app_blank_def)
  have "ap_active_pane (snd (adopt_snapshot doc now w app_blank)) = PaneEggpool"
    using ids by (simp add: adopt_snapshot_def is_newer_than_def adopt_snapshot_inner_def Let_def split_beta blank pane)
  then show ?thesis using sent by (simp add: lo_def apply_document_app) (simp add: loop_start_def)
qed

text \<open>A frontend on the pane of an EggPool entry that a reload removed never leaves the pane.\<close>

theorem removed_pane_stranded:
  assumes "ap_active_pane ap = PaneEggpool" "ap_eggpool ap = None"
  shows "ap_active_pane (apply_action action ap) = PaneEggpool \<and> ap_selected_id (apply_action action ap) = ap_selected_id ap"
  using assms
  by (cases action) (simp_all add: apply_action_def changed_app apply_action_inner_def Let_def request_eggpool_period_def
      cycle_pane_def ensure_keeps)

end
