(* ===== verification/Spec2Isabelle.thy ===== *)
theory Spec2Isabelle
  imports Sched_Run Client_Launch Frontend_Loop
begin

text \<open>
  Verification of gregg: the daemon \<open>greggd\<close> that serves the metrics and the scheduled maintenance jobs of a
  machine, and the client \<open>gregg\<close> whose per-user client daemon polls a fleet of them and feeds the terminal
  frontends.

  \<^bold>\<open>The parts and how they interact.\<close>
  \<open>greggd\<close> parses its configuration and its cron expressions, runs one maintenance child at a time, and
  publishes a summary and a history document about the jobs beside the metrics document. The client
  daemon of a configuration polls the metrics of every endpoint (the poll scheduler), the two scheduler
  documents (the cron worker) and an optional EggPool service, merges all of it into one fleet, projects
  the fleet into a document and sends that to every connected frontend over a local socket. A frontend
  adopts documents, keeps its own selection and viewport, and sends back what it has open. A launcher finds,
  starts or replaces the client daemon.

  \<^bold>\<open>The daemon.\<close>
  \<^item> \<open>Cron_Schedule\<close>: \<open>greggd/src/scheduler/schedule.rs\<close>, the parser of cron expressions and \<open>next_after\<close>. The
    lemmas give the accepted expressions and their masks, the round trip through printing, and the instants
    returned: the first matching date, completeness of errors, and the least occurrence in a fixed zone.
  \<^item> \<open>Daemon_Config\<close>: \<open>greggd/src/config.rs\<close>, defaults and validation, and what the scheduler may rely on.
  \<^item> \<open>Wire_Scheduler\<close>, \<open>Wire_Validate\<close>: \<open>gregg-protocol/src/scheduler.rs\<close> and \<open>validate_scheduler.rs\<close>, the
    scheduler documents, their output budget, and a predicate equivalent to validation.
  \<^item> \<open>Sched_Observer\<close>: \<open>greggd/src/scheduler/observation.rs\<close>, output tails, job histories and publication;
    histories refine the log of all terminal occurrences, and the served pair is current.
  \<^item> \<open>Sched_Engine\<close>, \<open>Sched_Run\<close>: \<open>greggd/src/scheduler.rs\<close>, the tick, its deadline, the life of a child and
    the loop; which occurrence is launched, that none is lost or duplicated, that a running child is kept
    until its record is written, that the loop wakes up in time and ends only with a calendar error.

  \<^bold>\<open>Documents shared by both.\<close>
  \<^item> \<open>Metrics_Wire\<close>, \<open>Metrics_Validate\<close>: \<open>gregg-protocol/src/snapshot.rs\<close>, \<open>v2.rs\<close>, \<open>lib.rs\<close>, \<open>validate.rs\<close>,
    \<open>validate_v2.rs\<close>, \<open>health.rs\<close> and \<open>gregg/src/normalized.rs\<close>.

  \<^bold>\<open>The client.\<close>
  \<^item> \<open>Net_Addr\<close>, \<open>Client_Endpoint\<close>, \<open>Client_Config\<close>: address literals of the standard library,
    \<open>gregg/src/endpoint.rs\<close>, \<open>gregg/src/config/model.rs\<close> and \<open>config/validation.rs\<close>; normal forms, the round trip of
    displayed endpoints, and what a loaded configuration guarantees.
  \<^item> \<open>Client_Poller\<close>: \<open>gregg/src/poller.rs\<close> and \<open>scheduler.rs\<close>, version negotiation, the classification of
    failures, and generations of polls with one result per endpoint.
  \<^item> \<open>Eggpool\<close>: \<open>gregg/src/eggpool.rs\<close>, the checks on values and the worker as a step relation.
  \<^item> \<open>Ordered_Map\<close>, \<open>Cron_Cache\<close>, \<open>Cron_Worker\<close>: \<open>gregg/src/cron.rs\<close> and \<open>clientd/cron.rs\<close>, the bounded cache of
    remote histories and the worker that fills it; windows accumulate, the bounds hold, the eviction ends,
    and what the worker remembers as fetched was delivered.
  \<^item> \<open>Fleet_State\<close>, \<open>Client_Document\<close>, \<open>Text_Sanitize\<close>: \<open>FleetState\<close> of \<open>gregg/src/state.rs\<close>, the documents of
    \<open>clientd/snapshot.rs\<close> and \<open>gregg/src/sanitize.rs\<close>; both ways to apply a batch agree, a fleet follows its
    scheduler, a reload reconciles, and sanitized text is inert.
  \<^item> \<open>Local_Ipc\<close>, \<open>Client_Serve\<close>: \<open>clientd/protocol.rs\<close>, \<open>ipc.rs\<close>, \<open>frontend.rs\<close> and the connections of
    \<open>clientd/daemon.rs\<close>; framing survives any chunking and any short write, and nothing precedes the greeting.
  \<^item> \<open>Client_Engine\<close>: the engine loop of \<open>clientd/daemon.rs\<close> as a step relation with the tasks around it; the
    published document is current after every turn, and intents and reloads reach the planes.
  \<^item> \<open>Client_Launch\<close>: \<open>clientd/launch.rs\<close> and the interleaving of several launchers.

  \<^bold>\<open>The frontend.\<close>
  \<^item> \<open>Frontend_State\<close>, \<open>Frontend_View\<close>: \<open>AppState\<close> of \<open>gregg/src/state.rs\<close>, the actions of \<open>action.rs\<close> and the
    rectangles of \<open>ui/layout.rs\<close>; the selection names a visible row and the viewport stays inside the rows,
    what is on screen fits it, and a selection scrolls no further than it must.
  \<^item> \<open>Cron_Block\<close>: the rows of a scheduler block in \<open>gregg/src/ui/cron.rs\<close>; what does not fit is marked.
  \<^item> \<open>Frontend_Adopt\<close>: adopting the document that the engine projects from its fleet. The frontend then shows
    that fleet, a document whose redraw is skipped changes nothing on screen, and the selection leaves a
    host that failed.
  \<^item> \<open>Frontend_Loop\<close>: the keys of \<open>gregg/src/event.rs\<close> and the loop of \<open>main.rs\<close>; the selection stays on screen
    along every run, and what the operator opens is announced to the client daemon.

  \<open>Gregg_Prelude\<close> holds the Rust types all of these share and the lemmas about them.

  \<^bold>\<open>Conventions.\<close>
  Records and datatypes keep the names of the source behind a short prefix. A \<open>Result\<close> is \<open>result\<close>, a panic
  or a missing value is \<open>None\<close>. \<open>u64\<close> and \<open>usize\<close> counters are natural numbers with saturation and wrapping
  written out; bit masks and hashes are words. Floats keep the classes the code tests. Instants are natural
  numbers, civil times and wall clocks integers or natural numbers as the code has them.

  \<^bold>\<open>Bounds.\<close>
  No definition takes fuel. The searches of the calendar run over the 400-year window the code has; the
  eviction loop of the cache ends because every round lowers the record count. Rows on
  the screen are 16-bit numbers, added with wrapping or saturation as the frontend does. Loops that run for the life of a process are folds over what the environment shows them, or step
  relations, so that a property of the loop is a property of every finite run.

  \<^bold>\<open>Parameters.\<close>
  Code that is not in the repository is an argument of the definitions that use it: the calendar and the time
  zones (\<open>chrono\<close>), JSON and TOML (\<open>serde_json\<close>, \<open>toml\<close>), the HTTP client, the \<open>url\<close> crate. So is what the
  operating system and the runtime decide: clock readings, the result of a spawn, what a read or a write did,
  and the branch a \<open>select!\<close> takes. What a theorem assumes of them is a premise, and its witness instantiates
  them with concrete functions.

  \<^bold>\<open>Not modelled.\<close>
  \<^item> Painting the screen (\<open>gregg/src/ui\<close>, all but the rectangles and the rows of a scheduler block), reading
    keys from a terminal and the terminal's modes: calls into a terminal library whose effect is the screen.
  \<^item> The collectors (\<open>gregg-host\<close>): foreign calls and pseudo-files of four operating systems.
  \<^item> The HTTP server, the sampler and the supervision of tasks in \<open>greggd\<close>: an asynchronous runtime with little
    logic between its calls.
  \<^item> Command lines, installation, services, self-update and uninstallation: processes and files.
  \<^item> The configuration stores, their locks and the editing of the TOML text: file access and a library that
    keeps the formatting of a document.
  \<^item> Sockets and pipes, their paths, creating processes and the shutdown of tasks.
\<close>

end
